(* ===== verification/Base.thy ===== *)
theory Base
  imports "HOL-Library.Word"
begin

text \<open>
  Prelude of the brickEmu development: the integer types of \<^verbatim>\<open>types.h\<close>, the shared
  part of the machine state that every peripheral reads and writes (the cycle counter
  and the two deadlines of \<^verbatim>\<open>h8300.c\<close>, and the channels a peripheral writes to), the
  byte-order macros the save and load routines use, and the generic word lemmas of
  the component theories.

  The host is a little-endian machine with 32-bit \<open>int\<close> (the x86-64 build of the
  Makefile): \<open>htons\<close>/\<open>htonl\<close> swap bytes, a conversion to a narrower signed type
  keeps the low bits and \<open>>>\<close> on a negative \<open>int\<close> is the arithmetic shift, as gcc
  defines them.
\<close>

unbundle bit_operations_syntax

type_synonym u8 = "8 word"
type_synonym u16 = "16 word"
type_synonym u32 = "32 word"
type_synonym u64 = "64 word"

named_theorems periph_defs \<open>definitions of the handlers of the peripherals\<close>
named_theorems flag_simps \<open>bit tests after a flag of a register was set or cleared\<close>

section \<open>The state shared by all peripherals\<close>

text \<open>
  \<open>cycles\<close>, \<open>next_timer_cycle\<close> and \<open>next_nmi_cycle\<close> are the globals of \<^verbatim>\<open>h8300.c\<close>.
  What a peripheral sends out is kept as a log, oldest entry first: the commands written
  to the GUI socket (\<open>periph_fd\<close>), the bytes written to the infra-red socket
  (\<open>serfd\<close>) and the calls of \<open>sound_update (bit, new_incr)\<close>, whose implementation is
  chosen at build time.
\<close>

record bus =
  cycles :: u64
  next_timer_cycle :: u64
  next_nmi_cycle :: u64
  gui_out :: "string list"
  ser_out :: "u8 list"
  sound_out :: "(u8 \<times> u32) list"

text \<open>\<open>(int32) x\<close> for a \<open>cycle_count_t\<close>: the low 32 bits, read as a signed number.\<close>

definition int32_of :: "u64 \<Rightarrow> u32" where
  "int32_of x = ucast x"

definition add_to_cycle :: "char \<Rightarrow> u64 \<Rightarrow> u32 \<Rightarrow> u64" where
  "add_to_cycle ident base_value value_to_add = base_value + scast value_to_add"

definition gui_write :: "string \<Rightarrow> bus \<Rightarrow> bus" where
  "gui_write msg b = b\<lparr>gui_out := gui_out b @ [msg]\<rparr>"

definition ser_write :: "u8 \<Rightarrow> bus \<Rightarrow> bus" where
  "ser_write x b = b\<lparr>ser_out := ser_out b @ [x]\<rparr>"

definition sound_update :: "u8 \<Rightarrow> u32 \<Rightarrow> bus \<Rightarrow> bus" where
  "sound_update bt new_incr b = b\<lparr>sound_out := sound_out b @ [(bt, new_incr)]\<rparr>"

section \<open>Formatting\<close>

text \<open>What the sources print with \<open>%d\<close> and \<open>%02x\<close>, \<open>%04x\<close>.\<close>

fun print_dec :: "nat \<Rightarrow> string" where
  "print_dec n = (if n < 10 then [char_of (48 + n)] else print_dec (n div 10) @ [char_of (48 + n mod 10)])"

definition print_int :: "int \<Rightarrow> string" where
  "print_int k = (if k < 0 then CHR ''-'' # print_dec (nat (- k)) else print_dec (nat k))"

definition hex_digit :: "nat \<Rightarrow> char" where
  "hex_digit n = char_of (if n < 10 then 48 + n else 87 + n)"

definition print_hex2 :: "u8 \<Rightarrow> string" where
  "print_hex2 x = [hex_digit (unat x div 16), hex_digit (unat x mod 16)]"

declare print_dec.simps [simp del]

section \<open>The memory of the brick\<close>

text \<open>
  \<open>memory\<close> is an array of 65536 bytes. A block written with \<open>memcpy\<close> or \<open>fread\<close> at an address given by a file has to
  fit; writing beyond the array is \<open>None\<close>.
\<close>

type_synonym mem = "u16 \<Rightarrow> u8"

definition mem_write :: "mem \<Rightarrow> nat \<Rightarrow> u8 list \<Rightarrow> mem option" where
  "mem_write m addr bs =
    (if addr + length bs \<le> 0x10000
     then Some (\<lambda>a. if addr \<le> unat a \<and> unat a < addr + length bs then bs ! (unat a - addr) else m a)
     else None)"

lemma mem_write_read:
  "mem_write m addr bs = Some m' \<Longrightarrow> i < length bs \<Longrightarrow> m' (of_nat (addr + i)) = bs ! i"
proof -
  assume w: "mem_write m addr bs = Some m'" and i: "i < length bs"
  then have "unat (of_nat (addr + i) :: u16) = addr + i"
    by (simp only: unat_of_nat) (auto simp: mem_write_def take_bit_nat_eq_self split: if_splits)
  with w i show ?thesis
    by (auto simp: mem_write_def simp del: of_nat_add split: if_splits)
qed

lemma mem_write_other:
  "mem_write m addr bs = Some m' \<Longrightarrow> \<not> (addr \<le> unat a \<and> unat a < addr + length bs) \<Longrightarrow> m' a = m a"
  by (auto simp: mem_write_def split: if_splits)

section \<open>Byte order\<close>

definition htons :: "u16 \<Rightarrow> u16" where
  "htons x = push_bit 8 x OR drop_bit 8 x"

definition htonl :: "u32 \<Rightarrow> u32" where
  "htonl x = push_bit 24 x OR push_bit 8 (x AND 0xff00)
           OR drop_bit 8 (x AND 0xff0000) OR drop_bit 24 x"

definition hton64 :: "u64 \<Rightarrow> u64" where
  "hton64 x = push_bit 32 (ucast (htonl (ucast (x AND 0xFFFFFFFF))))
            OR ucast (htonl (ucast (drop_bit 32 x)))"

text \<open>
  The save routines store a 64-bit counter with \<open>data->f = htonl(f)\<close> and read it back
  with \<open>ntohl(data->f)\<close>: the argument is converted to 32 bits on the way in and out.
\<close>

definition htonl_cc :: "u64 \<Rightarrow> u64" where
  "htonl_cc x = ucast (htonl (ucast x))"

lemma htons_htons [simp]: "htons (htons x) = x"
  by (rule bit_word_eqI) (auto simp: htons_def bit_simps)

lemma byte_masks:
  "(0xff00 :: u32) = push_bit 8 (mask 8)" "(0xff0000 :: u32) = push_bit 16 (mask 8)"
  by (simp_all add: mask_eq_decr_exp)

lemma bit_htonl:
  "bit (htonl x) n \<longleftrightarrow>
     (if n < 8 then bit x (24 + n) else if n < 16 then bit x (8 + n)
      else if n < 24 then bit x (n - 8) else n < 32 \<and> bit x (n - 24))"
  unfolding htonl_def byte_masks
  by (auto simp: bit_simps dest: bit_imp_le_length)

lemma htonl_htonl [simp]: "htonl (htonl x) = x"
  by (rule bit_word_eqI) (auto simp: bit_htonl)

lemma bit_hton64:
  "bit (hton64 x) n \<longleftrightarrow>
     (if n < 32 then bit (htonl (ucast (drop_bit 32 x))) n
      else n < 64 \<and> bit (htonl (ucast (take_bit 32 x))) (n - 32))"
proof -
  have m: "(0xFFFFFFFF :: u64) = mask 32"
    by (simp add: mask_eq_decr_exp)
  show ?thesis
    unfolding hton64_def m take_bit_eq_mask [symmetric]
    by (auto simp: bit_or_iff bit_push_bit_iff bit_unsigned_iff dest: bit_imp_le_length)
qed

lemma hton64_hton64: "hton64 (hton64 x) = x"
proof -
  have lo: "(ucast (drop_bit 32 (hton64 x)) :: u32) = htonl (ucast (take_bit 32 x))"
    by (rule bit_word_eqI) (auto simp: bit_hton64 bit_simps)
  have hi: "(ucast (take_bit 32 (hton64 x)) :: u32) = htonl (ucast (drop_bit 32 x))"
    by (rule bit_word_eqI) (auto simp: bit_hton64 bit_simps)
  show ?thesis
    by (rule bit_word_eqI) (auto simp: bit_hton64 [of "hton64 x"] lo hi bit_simps)
qed

lemma htonl_cc_htonl_cc: "htonl_cc (htonl_cc x) = take_bit 32 x"
proof -
  have "(ucast (ucast y :: u64) :: u32) = y" for y
    by (rule bit_word_eqI) (auto simp: bit_simps)
  then have "htonl_cc (htonl_cc x) = ucast (ucast x :: u32)"
    by (simp add: htonl_cc_def)
  also have "\<dots> = take_bit 32 x"
    by (rule bit_word_eqI) (auto simp: bit_simps)
  finally show ?thesis .
qed

lemma htonl_cc_small: "x < 2 ^ 32 \<Longrightarrow> htonl_cc (htonl_cc x) = x"
  by (simp add: htonl_cc_htonl_cc take_bit_eq_mod mod_word_less)

section \<open>Word arithmetic\<close>

lemma unat_less_2p: "unat (x :: 'a::len word) < 2 ^ LENGTH('a)"
  by (rule unsigned_less)

lemma unat_less_Suc: "a < n \<Longrightarrow> unat (a + 1) = Suc (unat a)" for a n :: "'a::len word"
proof -
  assume "a < n"
  then have "unat a < unat n"
    by (simp add: word_less_nat_alt)
  with unat_less_2p [of n] have "unat a + 1 < 2 ^ LENGTH('a)"
    by linarith
  then show ?thesis
    by (simp add: unat_word_ariths)
qed

lemma unat_sub_Suc: "a < n \<Longrightarrow> unat (n - (a + 1)) = unat n - Suc (unat a)"
  for a n :: "'a::len word"
  by (metis inc_le unat_less_Suc unat_sub)

lemma unat_ucast_up:
  "LENGTH('a) \<le> LENGTH('b) \<Longrightarrow> unat (ucast (x :: 'a::len word) :: 'b::len word) = unat x"
  by (simp add: unsigned_ucast_eq take_bit_nat_eq_self_iff
      order_less_le_trans [OF unat_less_2p])

lemma word_OR_cancel [flag_simps]:
  "(x OR y) OR y = x OR y" "(x OR y) OR x = x OR y" for x y :: "'a::len word"
  by (rule bit_word_eqI; auto simp: bit_or_iff)+

lemma and_flag_eq_0 [flag_simps]:
  fixes x :: "'a::len word"
  shows "x AND 1 = 0 \<longleftrightarrow> \<not> bit x 0" "x AND 2 = 0 \<longleftrightarrow> \<not> bit x (Suc 0)"
    "x AND 4 = 0 \<longleftrightarrow> \<not> bit x 2" "x AND 8 = 0 \<longleftrightarrow> \<not> bit x 3" "x AND 16 = 0 \<longleftrightarrow> \<not> bit x 4"
    "x AND 32 = 0 \<longleftrightarrow> \<not> bit x 5" "x AND 64 = 0 \<longleftrightarrow> \<not> bit x 6" "x AND 128 = 0 \<longleftrightarrow> \<not> bit x 7"
  using and_exp_eq_0_iff_not_bit [of x 0] and_exp_eq_0_iff_not_bit [of x 1]
    and_exp_eq_0_iff_not_bit [of x 2] and_exp_eq_0_iff_not_bit [of x 3]
    and_exp_eq_0_iff_not_bit [of x 4] and_exp_eq_0_iff_not_bit [of x 5]
    and_exp_eq_0_iff_not_bit [of x 6] and_exp_eq_0_iff_not_bit [of x 7]
  by simp_all

lemma and_mask_OR_0:
  "t AND x AND m = 0 \<Longrightarrow> t AND f = 0 \<Longrightarrow> t AND (x OR f) AND m = 0" for t x m f :: "'a::len word"
  by (auto simp: bit_eq_iff bit_and_iff bit_or_iff)

lemma uint_int_unat: "uint x = int (unat x)" for x :: "'a::len word"
  by simp

lemma u8_eq_iff:
  fixes x y :: u8
  shows "x = y \<longleftrightarrow> (bit x 0 \<longleftrightarrow> bit y 0) \<and> (bit x (Suc 0) \<longleftrightarrow> bit y (Suc 0)) \<and> (bit x 2 \<longleftrightarrow> bit y 2)
    \<and> (bit x 3 \<longleftrightarrow> bit y 3) \<and> (bit x 4 \<longleftrightarrow> bit y 4) \<and> (bit x 5 \<longleftrightarrow> bit y 5) \<and> (bit x 6 \<longleftrightarrow> bit y 6)
    \<and> (bit x 7 \<longleftrightarrow> bit y 7)"
proof -
  have "x = y \<longleftrightarrow> (\<forall>n < 8. bit x n \<longleftrightarrow> bit y n)"
    by (auto simp: bit_eq_iff)
  then show ?thesis
    by (simp add: numeral_eq_Suc All_less_Suc) blast
qed

lemma word_halves:
  fixes hi lo :: u8
  shows "ucast (drop_bit 8 (push_bit 8 (ucast hi) OR ucast lo :: u16)) = hi" (is ?a)
    and "ucast ((push_bit 8 (ucast hi) OR ucast lo :: u16) AND mask 8) = lo" (is ?b)
proof -
  show ?a by (rule bit_word_eqI) (auto simp: bit_simps dest: bit_imp_le_length)
  show ?b by (rule bit_word_eqI) (auto simp: bit_simps dest: bit_imp_le_length)
qed

lemma funpow_9: "(f ^^ 9) x = f (f (f (f (f (f (f (f (f x))))))))"
  by (simp add: eval_nat_numeral)

section \<open>Signed 32-bit views of 64-bit differences\<close>

lemma int32_of_of_int: "int32_of (of_int k) = of_int k"
  unfolding int32_of_def by (rule bit_word_eqI) (simp add: bit_simps)

lemma sint_int32_of:
  "- (2 ^ 31) \<le> k \<Longrightarrow> k < 2 ^ 31 \<Longrightarrow> sint (int32_of (of_int k)) = k"
  by (simp add: int32_of_of_int signed_of_int signed_take_bit_int_eq_self)

lemma scast_int32_of:
  "- (2 ^ 31) \<le> k \<Longrightarrow> k < 2 ^ 31 \<Longrightarrow> scast (int32_of (of_int k)) = (of_int k :: u64)"
  by (metis sint_int32_of of_int_sint)

lemma sint_int32_of_diff:
  "- (2 ^ 31) \<le> uint x - uint y \<Longrightarrow> uint x - uint y < 2 ^ 31 \<Longrightarrow>
   sint (int32_of (x - y)) = uint x - uint y"
  using sint_int32_of [of "uint x - uint y"] by simp

lemma int32_of_small: "unat d < 2 ^ 31 \<Longrightarrow> int32_of d = of_nat (unat d)"
  by (simp add: int32_of_def)

lemma sint_of_nat_small: "k < 2 ^ 31 \<Longrightarrow> sint (of_nat k :: u32) = int k"
  by (simp add: signed_of_nat signed_take_bit_int_eq_self)

lemma scast_of_nat_small: "k < 2 ^ 31 \<Longrightarrow> scast (of_nat k :: u32) = (of_nat k :: u64)"
  by (metis of_int_of_nat_eq of_int_sint sint_of_nat_small)

lemma push_bit_of_nat_word: "push_bit n (of_nat k :: 'a::len word) = of_nat (k * 2 ^ n)"
  by (simp add: push_bit_eq_mult)

lemma signed_drop_bit_small:
  assumes "k < 2 ^ 31"
  shows "signed_drop_bit n (of_nat k :: u32) = of_nat (k div 2 ^ n)"
proof -
  have "sint (signed_drop_bit n (of_nat k :: u32)) = int (k div 2 ^ n)"
    by (simp add: sint_signed_drop_bit_eq sint_of_nat_small [OF assms] drop_bit_eq_div zdiv_int)
  then have "(of_int (sint (signed_drop_bit n (of_nat k :: u32))) :: u32) = of_nat (k div 2 ^ n)"
    by simp
  then show ?thesis by simp
qed

text \<open>
  The elapsed cycles of a timer with a shift of \<open>sh\<close>, as \<open>t16_update_time\<close> computes them, for an
  interval below \<open>2 ^ 31\<close> cycles: whole ticks, and the cycles they stand for.
\<close>

lemma elapsed_ticks:
  assumes "unat d < 2 ^ 31"
  shows "signed_drop_bit sh (int32_of d) = of_nat (unat d div 2 ^ sh)"
    and "scast (push_bit sh (signed_drop_bit sh (int32_of d)))
       = (of_nat (unat d div 2 ^ sh * 2 ^ sh) :: u64)"
proof -
  show 1: "signed_drop_bit sh (int32_of d) = of_nat (unat d div 2 ^ sh)"
    unfolding int32_of_small [OF assms] by (rule signed_drop_bit_small [OF assms])
  have "unat d div 2 ^ sh * 2 ^ sh < 2 ^ 31"
    by (rule le_less_trans [OF div_times_less_eq_dividend assms])
  then show "scast (push_bit sh (signed_drop_bit sh (int32_of d)))
       = (of_nat (unat d div 2 ^ sh * 2 ^ sh) :: u64)"
    unfolding 1 push_bit_of_nat_word by (rule scast_of_nat_small)
qed

section \<open>Deadlines and interrupt sources\<close>

text \<open>
  The deadline of the CPU loop is close to the current cycle (\<open>check_irq\<close> resets it to
  \<open>cycles + MAX_AUTONOMOUS_CYCLES\<close>, 1.6 million cycles ahead), and a peripheral was last
  brought up to date recently; the 32-bit differences the code computes are then exact.
\<close>

definition near_deadline :: "bus \<Rightarrow> bool" where
  "near_deadline b \<longleftrightarrow> \<bar>uint (next_timer_cycle b) - uint (cycles b)\<bar> < 2 ^ 30 \<and> uint (cycles b) < 2 ^ 63"

definition recent :: "u64 \<Rightarrow> bus \<Rightarrow> bool" where
  "recent c b \<longleftrightarrow> uint c \<le> uint (cycles b) \<and> uint (cycles b) - uint c < 2 ^ 30"

lemma recent_advance:
  assumes "recent c b" and "int k \<le> uint (cycles b) - uint c"
  shows "recent (c + of_nat k) b" and "uint (c + of_nat k) = uint c + int k"
proof -
  have "uint (cycles b) < 2 ^ 64"
    using unsigned_less [of "cycles b"] by simp
  then have k: "uint c + int k < 2 ^ 64"
    using assms by (simp add: recent_def)
  have "c + of_nat k = of_int (uint c + int k)"
    by simp
  then have "uint (c + of_nat k) = (uint c + int k) mod 2 ^ 64"
    by (simp only: uint_word_of_int) simp
  then show u: "uint (c + of_nat k) = uint c + int k"
    using k by simp
  show "recent (c + of_nat k) b"
    using assms by (simp add: recent_def u)
qed

lemma near_deadline_sint:
  assumes "near_deadline b"
  shows "sint (int32_of (next_timer_cycle b - cycles b)) = uint (next_timer_cycle b) - uint (cycles b)"
proof (rule sint_int32_of_diff)
  have "\<bar>uint (next_timer_cycle b) - uint (cycles b)\<bar> < 1073741824"
    using assms by (simp add: near_deadline_def)
  then show "- (2 ^ 31) \<le> uint (next_timer_cycle b) - uint (cycles b)"
    and "uint (next_timer_cycle b) - uint (cycles b) < 2 ^ 31"
    by simp_all
qed

text \<open>
  What \<open>check_irq\<close> relies on of a peripheral with an interrupt: bringing it up to date leaves
  the cycle counter alone, moves the deadline only forward in urgency, and makes it due at once
  when an enabled interrupt is pending.
\<close>

locale irq_source =
  fixes update :: "bus \<Rightarrow> 's \<Rightarrow> bus \<times> 's"
    and irq :: "'s \<Rightarrow> nat"
    and ok :: "bus \<Rightarrow> 's \<Rightarrow> bool"
  assumes update_cycles: "cycles (fst (update b s)) = cycles b"
    and update_nmi: "next_nmi_cycle (fst (update b s)) = next_nmi_cycle b"
    and update_pending:
      "irq (snd (update b s)) \<noteq> 255 \<Longrightarrow> next_timer_cycle (fst (update b s)) = cycles b"
    and update_deadline:
      "ok b s \<Longrightarrow> near_deadline b \<Longrightarrow>
       uint (next_timer_cycle (fst (update b s))) \<le> uint (next_timer_cycle b)
         \<or> next_timer_cycle (fst (update b s)) = cycles b"
    and update_near: "ok b s \<Longrightarrow> near_deadline b \<Longrightarrow> near_deadline (fst (update b s))"
    and ok_cycles: "cycles b = cycles b' \<Longrightarrow> ok b s = ok b' s"
begin

definition due :: "bus \<Rightarrow> bool" where
  "due b \<longleftrightarrow> uint (next_timer_cycle b) \<le> uint (cycles b)"

lemma pending_due: "irq (snd (update b s)) \<noteq> 255 \<Longrightarrow> due (fst (update b s))"
  by (simp add: due_def update_pending update_cycles)

lemma stays_due: "ok b s \<Longrightarrow> near_deadline b \<Longrightarrow> due b \<Longrightarrow> due (fst (update b s))"
  using update_deadline [of b s] by (auto simp: due_def update_cycles)

end

end
