(* ===== verification/Timer16.thy ===== *)
theory Timer16
  imports Base
begin

text \<open>
  The 16-bit free-running timer, \<^verbatim>\<open>timer16.c\<close>: its registers, the batch update that
  catches up with the cycle counter (\<open>t16_update_time\<close>), the deadline it asks the CPU
  loop for (\<open>t16_check_next_cycle\<close>) and its port handlers. The reference is the
  single tick of the counter (\<open>t16_tick\<close>); the batch update is shown equal to the
  iterated tick, the deadline is shown never to be late, and the save format is shown to
  be lossless for cycle counts below \<open>2 ^ 32\<close>.
\<close>

section \<open>State and operations\<close>

record t16 =
  frc :: u16
  ocra :: u16
  ocrb :: u16
  t16_tcsr :: u8
  tier :: u8
  t16_tcr :: u8
  tocr :: u8
  t16_temp :: u8
  my_last_cycles :: u64

abbreviation T16_OCFA :: u8 where "T16_OCFA \<equiv> 0x08"
abbreviation T16_OCFB :: u8 where "T16_OCFB \<equiv> 0x04"
abbreviation T16_OVF :: u8 where "T16_OVF \<equiv> 0x02"
abbreviation T16_CCLRA :: u8 where "T16_CCLRA \<equiv> 0x01"
abbreviation TOCR_OCRS :: u8 where "TOCR_OCRS \<equiv> 0x10"

definition t16_freq :: "u8 \<Rightarrow> nat" where
  "t16_freq cks = [1, 3, 5, 1] ! unat (cks AND 3)"

record t16_save_type =
  sv_my_last_cycles :: u64
  sv_frc :: u16
  sv_ocra :: u16
  sv_ocrb :: u16
  sv_t16_tcsr :: u8
  sv_tier :: u8
  sv_t16_tcr :: u8
  sv_tocr :: u8

definition t16_save :: "t16 \<Rightarrow> t16_save_type" where
  "t16_save s = \<lparr>sv_my_last_cycles = htonl_cc (my_last_cycles s),
     sv_frc = htons (frc s), sv_ocra = htons (ocra s), sv_ocrb = htons (ocrb s),
     sv_t16_tcsr = t16_tcsr s, sv_tier = tier s, sv_t16_tcr = t16_tcr s, sv_tocr = tocr s\<rparr>"

definition t16_load :: "t16_save_type \<Rightarrow> t16 \<Rightarrow> t16" where
  "t16_load d s = s\<lparr>my_last_cycles := htonl_cc (sv_my_last_cycles d),
     frc := htons (sv_frc d), ocra := htons (sv_ocra d), ocrb := htons (sv_ocrb d),
     t16_tcsr := sv_t16_tcsr d, tier := sv_tier d, t16_tcr := sv_t16_tcr d,
     tocr := sv_tocr d\<rparr>"

definition t16_reset :: "bus \<Rightarrow> t16 \<Rightarrow> t16" where
  "t16_reset b s = s\<lparr>frc := 0, ocra := 0xffff, ocrb := 0xffff, tier := 1, t16_tcsr := 0,
     t16_tcr := 0, tocr := 0xe0, my_last_cycles := cycles b\<rparr>"

text \<open>
  The ticks until the counter passes a compare register, \<open>(uint16) (ocr + 1 - frc)\<close>, and
  the least of the ticks to an event of interest; \<open>next\<close> is at most \<open>0x10000\<close>.
\<close>

definition ticks_past :: "u16 \<Rightarrow> u16 \<Rightarrow> nat" where
  "ticks_past ocr c = unat (ocr + 1 - c)"

definition t16_next :: "t16 \<Rightarrow> nat" where
  "t16_next s =
    (let next = 0x10000 - unat (frc s);
         next = (if tier s AND T16_OCFA \<noteq> 0 \<and> ticks_past (ocra s) (frc s) < next
                 then ticks_past (ocra s) (frc s) else next);
         next = (if tier s AND T16_OCFB \<noteq> 0 \<and> ticks_past (ocrb s) (frc s) < next
                 then ticks_past (ocrb s) (frc s) else next)
     in next)"

definition t16_check_next_cycle :: "bus \<Rightarrow> t16 \<Rightarrow> bus" where
  "t16_check_next_cycle b s =
    (if tier s AND t16_tcsr s AND 0xfe \<noteq> 0 then b\<lparr>next_timer_cycle := cycles b\<rparr>
     else
       let next_cycle = int32_of (push_bit (t16_freq (t16_tcr s)) (of_nat (t16_next s))
                                  + my_last_cycles s - cycles b)
       in if next_cycle <s int32_of (next_timer_cycle b - cycles b)
          then b\<lparr>next_timer_cycle := add_to_cycle (CHR ''N'') (cycles b) next_cycle\<rparr>
          else b)"

text \<open>
  The loop of \<open>t16_update_time\<close> (label \<open>repeat_cycle\<close>): the counter moves from \<open>frc\<close> to
  \<open>newfrc\<close>, one wrap per round. The two listener hooks \<open>SET_FTOA\<close> and \<open>SET_FTOB\<close> expand
  to nothing.
\<close>

definition t16_raise :: "bool \<Rightarrow> u8 \<Rightarrow> t16 \<Rightarrow> t16" where
  "t16_raise c flag s = (if c then s\<lparr>t16_tcsr := t16_tcsr s OR flag\<rparr> else s)"

function t16_count :: "u32 \<Rightarrow> t16 \<Rightarrow> t16" where
  "t16_count newfrc s =
    (let f = ucast (frc s); a = ucast (ocra s); bb = ucast (ocrb s);
         hit_a = (f \<le> a \<and> a < newfrc);
         s1 = t16_raise hit_a T16_OCFA s
     in if hit_a \<and> t16_tcsr s1 AND T16_CCLRA \<noteq> 0 then
          t16_count (newfrc - (a + 1)) ((t16_raise (f \<le> bb \<and> bb \<le> a) T16_OCFB s1)\<lparr>frc := 0\<rparr>)
        else
          let s2 = t16_raise (f \<le> bb \<and> bb < newfrc) T16_OCFB s1
          in if 0xffff < newfrc then
               t16_count (newfrc - 0x10000) ((t16_raise True T16_OVF s2)\<lparr>frc := 0\<rparr>)
             else s2\<lparr>frc := ucast newfrc\<rparr>)"
  by pat_completeness auto
termination
proof (relation "measure (\<lambda>(newfrc, s). unat newfrc)", goal_cases)
  case 1 show ?case by simp
next
  case (2 newfrc s f a bb hit_a s1)
  then show ?case by (simp add: unat_sub_Suc, simp add: word_less_nat_alt)
next
  case (3 newfrc s f a bb hit_a s1 s2)
  then have "(0x10000 :: u32) \<le> newfrc"
    using inc_le [of "0xffff" newfrc] by simp
  then show ?case by (simp add: unat_sub word_le_nat_alt)
qed

declare t16_count.simps [simp del]

definition t16_update_time :: "bus \<Rightarrow> t16 \<Rightarrow> bus \<times> t16" where
  "t16_update_time b s =
    (let sh = t16_freq (t16_tcr s);
         increment = signed_drop_bit sh (int32_of (cycles b - my_last_cycles s));
         newfrc = ucast (frc s) + increment;
         s1 = t16_count newfrc s;
         s2 = s1\<lparr>my_last_cycles :=
                   add_to_cycle (CHR ''Y'') (my_last_cycles s1) (push_bit sh increment)\<rparr>
     in (t16_check_next_cycle b s2, s2))"

text \<open>\<open>for (i = 0; i < 7; i++) if (irqs & (1 << (7-i))) return 12 + i;\<close>\<close>

definition t16_check_irq :: "t16 \<Rightarrow> nat" where
  "t16_check_irq s =
    (let irqs = tier s AND t16_tcsr s AND 0xfe
     in case filter (\<lambda>i. bit irqs (7 - i)) [0..<7] of [] \<Rightarrow> 255 | i # _ \<Rightarrow> 12 + i)"

text \<open>
  The port handlers. A handler that calls \<open>t16_check_next_cycle\<close> also returns the shared
  state; \<open>set_TCR\<close> is what follows \<open>wait_peripherals()\<close> in the handler of that name.
\<close>

definition set_TIER :: "u8 \<Rightarrow> bus \<Rightarrow> t16 \<Rightarrow> bus \<times> t16" where
  "set_TIER val b s = (let s1 = s\<lparr>tier := val OR 1\<rparr> in (t16_check_next_cycle b s1, s1))"

definition get_TIER :: "t16 \<Rightarrow> u8" where
  "get_TIER s = tier s"

definition t16_set_TCSR :: "u8 \<Rightarrow> bus \<Rightarrow> t16 \<Rightarrow> bus \<times> t16" where
  "t16_set_TCSR val b s =
    (let s1 = s\<lparr>t16_tcsr := (t16_tcsr s AND val) OR (val AND 1)\<rparr>
     in (t16_check_next_cycle b s1, s1))"

definition t16_get_TCSR :: "t16 \<Rightarrow> u8" where
  "t16_get_TCSR s = t16_tcsr s"

definition set_FRCH :: "u8 \<Rightarrow> t16 \<Rightarrow> t16" where
  "set_FRCH val s = s\<lparr>t16_temp := val\<rparr>"

definition set_FRCL :: "u8 \<Rightarrow> t16 \<Rightarrow> t16" where
  "set_FRCL val s = s\<lparr>frc := push_bit 8 (ucast (t16_temp s)) OR ucast val\<rparr>"

definition get_FRCH :: "t16 \<Rightarrow> u8 \<times> t16" where
  "get_FRCH s = (ucast (drop_bit 8 (frc s)), s\<lparr>t16_temp := ucast (frc s AND 0xff)\<rparr>)"

definition get_FRCL :: "t16 \<Rightarrow> u8" where
  "get_FRCL s = t16_temp s"

definition set_OCRH :: "u8 \<Rightarrow> t16 \<Rightarrow> t16" where
  "set_OCRH val s = s\<lparr>t16_temp := val\<rparr>"

definition set_OCRL :: "u8 \<Rightarrow> t16 \<Rightarrow> t16" where
  "set_OCRL val s =
    (let v = push_bit 8 (ucast (t16_temp s)) OR ucast val
     in if tocr s AND TOCR_OCRS \<noteq> 0 then s\<lparr>ocrb := v\<rparr> else s\<lparr>ocra := v\<rparr>)"

definition get_OCRH :: "t16 \<Rightarrow> u8" where
  "get_OCRH s = (if tocr s AND TOCR_OCRS \<noteq> 0 then ucast (drop_bit 8 (ocrb s))
                 else ucast (drop_bit 8 (ocra s)))"

definition get_OCRL :: "t16 \<Rightarrow> u8" where
  "get_OCRL s = (if tocr s AND TOCR_OCRS \<noteq> 0 then ucast (ocrb s AND 0xff)
                 else ucast (ocra s AND 0xff))"

definition set_TCR :: "u8 \<Rightarrow> t16 \<Rightarrow> t16" where
  "set_TCR val s = s\<lparr>t16_tcr := val\<rparr>"

definition get_TCR :: "t16 \<Rightarrow> u8" where
  "get_TCR s = t16_tcr s"

definition set_TOCR :: "u8 \<Rightarrow> t16 \<Rightarrow> t16" where
  "set_TOCR val s = s\<lparr>tocr := val OR 0xe0\<rparr>"

definition get_TOCR :: "t16 \<Rightarrow> u8" where
  "get_TOCR s = tocr s"

definition get_ICRAH :: "t16 \<Rightarrow> u8" where
  "get_ICRAH s = 0"

definition get_ICRAL :: "t16 \<Rightarrow> u8" where
  "get_ICRAL s = 0"

section \<open>The reference: one tick\<close>

text \<open>
  One tick of the free-running counter. A compare register matches when the counter leaves
  the register's value; with \<open>CCLRA\<close> a match of \<open>OCRA\<close> restarts the counter, otherwise it
  runs to \<open>0xffff\<close> and overflows.
\<close>

definition t16_tick :: "t16 \<Rightarrow> t16" where
  "t16_tick s =
    (let s1 = t16_raise (frc s = ocrb s) T16_OCFB (t16_raise (frc s = ocra s) T16_OCFA s)
     in if frc s = ocra s \<and> t16_tcsr s AND T16_CCLRA \<noteq> 0 then s1\<lparr>frc := 0\<rparr>
        else if frc s = 0xffff then (t16_raise True T16_OVF s1)\<lparr>frc := 0\<rparr>
        else s1\<lparr>frc := frc s + 1\<rparr>)"

section \<open>The batch update is the iterated tick\<close>

lemma t16_raise_sel [simp]:
  "frc (t16_raise c m s) = frc s" "ocra (t16_raise c m s) = ocra s" "ocrb (t16_raise c m s) = ocrb s"
  "tier (t16_raise c m s) = tier s" "t16_tcr (t16_raise c m s) = t16_tcr s" "tocr (t16_raise c m s) = tocr s"
  "t16_temp (t16_raise c m s) = t16_temp s" "my_last_cycles (t16_raise c m s) = my_last_cycles s"
  "t16_tcsr (t16_raise c m s) = (if c then t16_tcsr s OR m else t16_tcsr s)"
  by (simp_all add: t16_raise_def)

lemma t16_raise_CCLRA [simp]:
  "bit (t16_tcsr (t16_raise c T16_OCFA s)) 0 = bit (t16_tcsr s) 0"
  "bit (t16_tcsr (t16_raise c T16_OCFB s)) 0 = bit (t16_tcsr s) 0"
  "bit (t16_tcsr (t16_raise c T16_OVF s)) 0 = bit (t16_tcsr s) 0"
  by (simp_all add: bit_or_iff)

lemma t16_count_nat:
  assumes "N < 2 ^ 32"
  shows "t16_count (of_nat N) s =
    (let f = unat (frc s); a = unat (ocra s); bb = unat (ocrb s);
         hit_a = (f \<le> a \<and> a < N);
         s1 = t16_raise hit_a T16_OCFA s
     in if hit_a \<and> bit (t16_tcsr s) 0 then
          t16_count (of_nat (N - Suc a)) ((t16_raise (f \<le> bb \<and> bb \<le> a) T16_OCFB s1)\<lparr>frc := 0\<rparr>)
        else
          let s2 = t16_raise (f \<le> bb \<and> bb < N) T16_OCFB s1
          in if 0xffff < N then
               t16_count (of_nat (N - 0x10000)) ((t16_raise True T16_OVF s2)\<lparr>frc := 0\<rparr>)
             else s2\<lparr>frc := of_nat N\<rparr>)"
proof -
  have n: "unat (of_nat N :: u32) = N" using assms by (simp add: unat_of_nat)
  have le: "(ucast x :: u32) \<le> ucast y \<longleftrightarrow> unat x \<le> unat y" for x y :: u16
    by (simp add: word_le_nat_alt unat_ucast_up)
  have lt: "(ucast x :: u32) < of_nat N \<longleftrightarrow> unat x < N" for x :: u16
    by (simp add: word_less_nat_alt unat_ucast_up n)
  have ov: "(0xffff :: u32) < of_nat N \<longleftrightarrow> 0xffff < N"
    by (simp add: word_less_nat_alt n)
  have sub_a: "(of_nat N :: u32) - (ucast x + 1) = of_nat (N - Suc (unat x))" if "unat x < N" for x :: u16
    using that by (simp add: of_nat_diff)
  have sub_o: "(of_nat N :: u32) - 0x10000 = of_nat (N - 0x10000)" if "0xffff < N"
    using that by (simp add: of_nat_diff)
  have uc: "ucast (of_nat N :: u32) = (of_nat N :: u16)"
    using assms by (simp add: unsigned_of_nat take_bit_nat_eq_self)
  show ?thesis
    by (subst t16_count.simps)
      (simp only: Let_def le lt ov flag_simps uc t16_raise_CCLRA sub_a sub_o not_not cong: if_cong conj_cong)
qed

lemma t16_raise_False [simp]: "t16_raise False m s = s"
  by (simp add: t16_raise_def)

lemma t16_raise_simps [simp]:
  "t16_raise c m (t16_raise d m s) = t16_raise (c \<or> d) m s"
  "t16_raise c m (s\<lparr>frc := f\<rparr>) = (t16_raise c m s)\<lparr>frc := f\<rparr>"
  by (simp_all add: t16_raise_def flag_simps)

lemma t16_raise_commute:
  "t16_raise c T16_OCFA (t16_raise d T16_OCFB s) = t16_raise d T16_OCFB (t16_raise c T16_OCFA s)"
  by (simp add: t16_raise_def or.assoc or.commute or.left_commute)

lemma t16_count_clear:
  assumes "N < 2 ^ 32" "unat (frc s) \<le> unat (ocra s)" "unat (ocra s) < N" "bit (t16_tcsr s) 0"
  shows "t16_count (of_nat N) s = t16_count (of_nat (N - Suc (unat (ocra s))))
    ((t16_raise (unat (frc s) \<le> unat (ocrb s) \<and> unat (ocrb s) \<le> unat (ocra s)) T16_OCFB
       (t16_raise True T16_OCFA s))\<lparr>frc := 0\<rparr>)"
  using assms by (subst t16_count_nat) (simp_all only: Let_def simp_thms if_True)

lemma t16_count_noclear:
  assumes "N < 2 ^ 32" "\<not> (unat (frc s) \<le> unat (ocra s) \<and> unat (ocra s) < N \<and> bit (t16_tcsr s) 0)"
  shows "t16_count (of_nat N) s =
    (let s1 = t16_raise (unat (frc s) \<le> unat (ocrb s) \<and> unat (ocrb s) < N) T16_OCFB
       (t16_raise (unat (frc s) \<le> unat (ocra s) \<and> unat (ocra s) < N) T16_OCFA s)
     in if 0xffff < N then t16_count (of_nat (N - 0x10000)) ((t16_raise True T16_OVF s1)\<lparr>frc := 0\<rparr>)
        else s1\<lparr>frc := of_nat N\<rparr>)"
  using assms by (subst t16_count_nat) (simp_all only: Let_def simp_thms conj_assoc if_False)

lemma t16_count_self: "t16_count (of_nat (unat (frc s))) s = s"
proof -
  have no: "\<not> (unat (frc s) \<le> x \<and> x < unat (frc s))" for x
    by auto
  have lt: "unat (frc s) < 0x10000"
    using unat_less_2p [of "frc s"] by simp
  have "t16_count (of_nat (unat (frc s))) s = s\<lparr>frc := of_nat (unat (frc s))\<rparr>"
    using lt by (subst t16_count_noclear) (auto simp: Let_def no)
  then show ?thesis by simp
qed

lemma t16_tick_frc_le: "unat (frc (t16_tick s)) \<le> Suc (unat (frc s))"
  by (auto simp: t16_tick_def Let_def unat_word_ariths intro: mod_less_eq_dividend)

lemma t16_count_Suc:
  assumes N: "unat (frc s) + Suc n < 2 ^ 32"
  shows "t16_count (of_nat (unat (frc s) + Suc n)) s
       = t16_count (of_nat (unat (frc (t16_tick s)) + n)) (t16_tick s)"
proof -
  let ?f = "unat (frc s)" and ?N = "unat (frc s) + Suc n"
  have lt: "unat x < 0x10000" for x :: u16
    using unat_less_2p [of x] by simp
  consider (clear) "frc s = ocra s" "bit (t16_tcsr s) 0"
    | (wrap) "frc s = 0xffff" "frc s = ocra s \<longrightarrow> \<not> bit (t16_tcsr s) 0"
    | (step) "frc s \<noteq> 0xffff" "frc s = ocra s \<longrightarrow> \<not> bit (t16_tcsr s) 0"
    by blast
  then show ?thesis
  proof cases
    case clear
    have eq: "(?f \<le> unat x \<and> unat x \<le> ?f) = (frc s = x)" for x
      by (auto simp: word_unat_eq_iff)
    have "t16_count (of_nat ?N) s = t16_count (of_nat n)
        ((t16_raise (frc s = ocrb s) T16_OCFB (t16_raise True T16_OCFA s))\<lparr>frc := 0\<rparr>)"
      using t16_count_clear [OF N _ _ clear(2)] clear(1) eq [of "ocrb s"] by simp
    then show ?thesis
      using clear by (simp add: t16_tick_def flag_simps)
  next
    case wrap
    have f: "?f = 0xffff"
      using wrap by simp
    have hit: "(?f \<le> unat x \<and> unat x < ?N) = (frc s = x)" for x
      using f lt [of x] by (auto simp: word_unat_eq_iff)
    have big: "0xffff < ?N"
      using f by simp
    have nc: "\<not> (?f \<le> unat (ocra s) \<and> unat (ocra s) < ?N \<and> bit (t16_tcsr s) 0)"
      using wrap(2) hit [of "ocra s"] by blast
    have "t16_count (of_nat ?N) s = t16_count (of_nat (?N - 0x10000))
        ((t16_raise True T16_OVF (t16_raise (frc s = ocrb s) T16_OCFB
           (t16_raise (frc s = ocra s) T16_OCFA s)))\<lparr>frc := 0\<rparr>)"
      by (simp only: t16_count_noclear [OF N nc] Let_def hit big if_True)
    also have "?N - 0x10000 = n"
      using f by simp
    also have "(t16_raise True T16_OVF (t16_raise (frc s = ocrb s) T16_OCFB
        (t16_raise (frc s = ocra s) T16_OCFA s)))\<lparr>frc := 0\<rparr> = t16_tick s"
      using wrap by (auto simp add: t16_tick_def flag_simps Let_def)
    finally show ?thesis
      using wrap by (simp add: t16_tick_def Let_def)
  next
    case step
    have "frc s < 0xffff"
      using step by (simp add: word_less_nat_alt word_unat_eq_iff) (use lt [of "frc s"] in linarith)
    then have f: "unat (frc s + 1) = Suc ?f"
      by (rule unat_less_Suc)
    define t where "t = t16_tick s"
    have tick: "t = (t16_raise (frc s = ocrb s) T16_OCFB (t16_raise (frc s = ocra s) T16_OCFA s))\<lparr>frc := frc s + 1\<rparr>"
      using step by (auto simp add: t_def t16_tick_def flag_simps Let_def)
    have sel: "unat (frc t) = Suc ?f" "ocra t = ocra s" "ocrb t = ocrb s" "bit (t16_tcsr t) 0 = bit (t16_tcsr s) 0"
      using f by (simp_all add: tick bit_or_iff)
    have hit: "(?f \<le> unat x \<and> unat x < ?N) = ((Suc ?f \<le> unat x \<and> unat x < ?N) \<or> frc s = x)" for x
      by (auto simp: word_unat_eq_iff)
    have M: "?N = Suc ?f + n"
      by simp
    show ?thesis
    proof (cases "?f \<le> unat (ocra s) \<and> unat (ocra s) < ?N \<and> bit (t16_tcsr s) 0")
      case True
      then have ne: "frc s \<noteq> ocra s" and le: "Suc ?f \<le> unat (ocra s)"
        using step(2) by (auto simp: word_unat_eq_iff)
      have hb: "(?f \<le> unat (ocrb s) \<and> unat (ocrb s) \<le> unat (ocra s))
          = ((Suc ?f \<le> unat (ocrb s) \<and> unat (ocrb s) \<le> unat (ocra s)) \<or> frc s = ocrb s)"
        using le by (auto simp: word_unat_eq_iff)
      have "t16_count (of_nat ?N) s = t16_count (of_nat ?N) t"
        using True le by (simp only: t16_count_clear [OF N] t16_count_clear [of ?N t] N sel)
          (simp add: tick ne hb t16_raise_commute)
      then show ?thesis
        by (simp only: M sel(1) flip: t_def)
    next
      case False
      then have nc: "\<not> (unat (frc t) \<le> unat (ocra t) \<and> unat (ocra t) < ?N \<and> bit (t16_tcsr t) 0)"
        unfolding sel by auto
      have "t16_count (of_nat ?N) s = t16_count (of_nat ?N) t"
        by (simp only: t16_count_noclear [OF N False] t16_count_noclear [OF N nc] sel hit)
          (simp add: Let_def tick t16_raise_commute)
      then show ?thesis
        by (simp only: M sel(1) flip: t_def)
    qed
  qed
qed

lemma t16_count_ticks:
  "unat (frc s) + n < 2 ^ 32 \<Longrightarrow> t16_count (of_nat (unat (frc s) + n)) s = (t16_tick ^^ n) s"
proof (induction n arbitrary: s)
  case 0
  then show ?case by (simp only: add_0_right funpow_0 t16_count_self)
next
  case (Suc n)
  have "unat (frc (t16_tick s)) + n < 2 ^ 32"
    using Suc.prems t16_tick_frc_le [of s] by linarith
  then show ?case
    using Suc by (simp only: t16_count_Suc funpow_Suc_right comp_apply)
qed

definition t16_elapsed :: "bus \<Rightarrow> t16 \<Rightarrow> nat" where
  "t16_elapsed b s = unat (cycles b - my_last_cycles s)"

definition t16_ticks :: "bus \<Rightarrow> t16 \<Rightarrow> nat" where
  "t16_ticks b s = t16_elapsed b s div 2 ^ t16_freq (t16_tcr s)"

lemma t16_tick_sel [simp]:
  "my_last_cycles (t16_tick s) = my_last_cycles s" "tier (t16_tick s) = tier s"
  "t16_tcr (t16_tick s) = t16_tcr s" "ocra (t16_tick s) = ocra s" "ocrb (t16_tick s) = ocrb s"
  by (auto simp: t16_tick_def Let_def)

lemma t16_ticks_sel [simp]:
  "my_last_cycles ((t16_tick ^^ n) s) = my_last_cycles s" "tier ((t16_tick ^^ n) s) = tier s"
  "t16_tcr ((t16_tick ^^ n) s) = t16_tcr s" "ocra ((t16_tick ^^ n) s) = ocra s"
  "ocrb ((t16_tick ^^ n) s) = ocrb s"
  by (induction n) auto

lemma snd_t16_update_time:
  assumes "t16_elapsed b s < 2 ^ 31"
  shows "snd (t16_update_time b s) = ((t16_tick ^^ t16_ticks b s) s)
    \<lparr>my_last_cycles := my_last_cycles s + of_nat (t16_ticks b s * 2 ^ t16_freq (t16_tcr s))\<rparr>"
proof -
  have "t16_ticks b s \<le> t16_elapsed b s"
    by (simp add: t16_ticks_def)
  moreover have "unat (frc s) < 2 ^ 16"
    using unat_less_2p [of "frc s"] by simp
  ultimately have "unat (frc s) + t16_ticks b s < 2 ^ 32"
    using assms by simp
  then have "t16_count (ucast (frc s) + of_nat (t16_ticks b s)) s = (t16_tick ^^ t16_ticks b s) s"
    using t16_count_ticks [of s "t16_ticks b s"] by simp
  then show ?thesis
    using elapsed_ticks [OF assms [unfolded t16_elapsed_def]]
    by (simp add: t16_update_time_def Let_def add_to_cycle_def t16_ticks_def t16_elapsed_def)
qed

lemma t16_update_remainder:
  assumes "t16_elapsed b s < 2 ^ 31"
  shows "t16_elapsed b (snd (t16_update_time b s)) = t16_elapsed b s mod 2 ^ t16_freq (t16_tcr s)"
proof -
  let ?p = "2 ^ t16_freq (t16_tcr s) :: nat"
  have d: "cycles b - my_last_cycles s = of_nat (t16_elapsed b s)"
    by (simp add: t16_elapsed_def)
  have "cycles b - (my_last_cycles s + of_nat (t16_elapsed b s div ?p * ?p))
      = (of_nat (t16_elapsed b s) :: u64) - of_nat (t16_elapsed b s div ?p * ?p)"
    unfolding d [symmetric] by (simp only: diff_diff_add)
  also have "\<dots> = of_nat (t16_elapsed b s mod ?p)"
    by (simp add: minus_div_mult_eq_mod [symmetric] of_nat_diff)
  finally have "t16_elapsed b (snd (t16_update_time b s)) = unat (of_nat (t16_elapsed b s mod ?p) :: u64)"
    by (simp add: snd_t16_update_time [OF assms] t16_ticks_def) (simp add: t16_elapsed_def)
  also have "\<dots> = t16_elapsed b s mod ?p"
    using assms le_less_trans [OF mod_less_eq_dividend [of "t16_elapsed b s" ?p], of "2 ^ 64"]
    by (simp add: unat_of_nat)
  finally show ?thesis .
qed

section \<open>The deadline\<close>

lemma t16_freq_le: "t16_freq c \<le> 5"
proof -
  have "unat (c AND 3) \<le> 3"
    using word_and_le1 [of c 3] by (simp add: word_le_nat_alt)
  then have "unat (c AND 3) \<in> {0, 1, 2, 3}"
    by auto
  then show ?thesis
    by (auto simp: t16_freq_def)
qed

lemma ticks_past_not_passed:
  assumes "n < ticks_past x c"
  shows "\<not> (unat c \<le> unat x \<and> unat x < unat c + n)"
proof
  assume h: "unat c \<le> unat x \<and> unat x < unat c + n"
  have "unat (x + 1 - c) \<le> Suc (unat x) - unat c"
  proof -
    have "x + 1 - c = of_nat (Suc (unat x) - unat c)"
      using h by (simp add: of_nat_diff)
    then show ?thesis
      by (metis unat_of_nat mod_less_eq_dividend take_bit_eq_mod)
  qed
  with h assms [unfolded ticks_past_def] show False
    by linarith
qed

lemma t16_nextD:
  assumes "n < t16_next s"
  shows "unat (frc s) + n \<le> 0xffff"
    and "bit (tier s) 3 \<Longrightarrow> n < ticks_past (ocra s) (frc s)"
    and "bit (tier s) 2 \<Longrightarrow> n < ticks_past (ocrb s) (frc s)"
  using assms by (auto simp: t16_next_def Let_def flag_simps split: if_splits)

lemma t16_quiet_ticks:
  assumes quiet: "tier s AND t16_tcsr s AND 0xfe = 0"
    and clr: "bit (t16_tcsr s) 0 \<Longrightarrow> bit (tier s) 3"
    and n: "n < t16_next s"
  shows "tier s AND t16_tcsr ((t16_tick ^^ n) s) AND 0xfe = 0"
proof -
  let ?N = "unat (frc s) + n"
  define ha where "ha = (unat (frc s) \<le> unat (ocra s) \<and> unat (ocra s) < ?N)"
  define hb where "hb = (unat (frc s) \<le> unat (ocrb s) \<and> unat (ocrb s) < ?N)"
  have a: "ha \<Longrightarrow> \<not> bit (tier s) 3" and b: "hb \<Longrightarrow> \<not> bit (tier s) 2"
    using t16_nextD [OF n] ticks_past_not_passed by (auto simp: ha_def hb_def)
  have N: "?N < 2 ^ 32" "\<not> 0xffff < ?N"
    using t16_nextD(1) [OF n] by simp_all
  have nc: "\<not> (unat (frc s) \<le> unat (ocra s) \<and> unat (ocra s) < ?N \<and> bit (t16_tcsr s) 0)"
    using a clr by (auto simp: ha_def)
  have "(t16_tick ^^ n) s = (t16_raise hb T16_OCFB (t16_raise ha T16_OCFA s))\<lparr>frc := of_nat ?N\<rparr>"
    unfolding t16_count_ticks [OF N(1), symmetric] t16_count_noclear [OF N(1) nc] Let_def
    using N(2) by (simp only: ha_def hb_def if_False)
  moreover have "tier s AND T16_OCFA = 0" if ha
    using a [OF that] by (simp add: flag_simps)
  moreover have "tier s AND T16_OCFB = 0" if hb
    using b [OF that] by (simp add: flag_simps)
  ultimately show ?thesis
    using quiet by (auto intro!: and_mask_OR_0)
qed

lemma t16_check_next_cycle_eq:
  assumes "recent (my_last_cycles s) b" and "near_deadline b"
    and quiet: "tier s AND t16_tcsr s AND 0xfe = 0"
  shows "uint (next_timer_cycle (t16_check_next_cycle b s))
    = min (uint (next_timer_cycle b)) (uint (my_last_cycles s) + int (t16_next s * 2 ^ t16_freq (t16_tcr s)))"
proof -
  define e where "e = int (t16_next s * 2 ^ t16_freq (t16_tcr s))"
  let ?D = "e + uint (my_last_cycles s) - uint (cycles b)"
  have "e \<le> int (0x10000 * 2 ^ 5)"
    unfolding e_def of_nat_le_iff
    using t16_freq_le by (intro mult_le_mono power_increasing) (auto simp: t16_next_def Let_def)
  moreover have "0 \<le> e"
    by (simp add: e_def)
  ultimately have e: "0 \<le> e" "e \<le> 2 ^ 21"
    by simp_all
  have D: "- (2 ^ 31) \<le> ?D" "?D < 2 ^ 31"
    using assms(1) e by (simp_all add: recent_def)
  have w: "push_bit (t16_freq (t16_tcr s)) (of_nat (t16_next s)) + my_last_cycles s - cycles b = of_int ?D"
    by (simp add: push_bit_of_nat_word e_def)
  have cond: "int32_of (of_int ?D) <s int32_of (next_timer_cycle b - cycles b)
      \<longleftrightarrow> ?D < uint (next_timer_cycle b) - uint (cycles b)"
    using assms(2) by (simp only: word_sless_alt sint_int32_of [OF D] near_deadline_sint)
  have "cycles b + of_int ?D = of_int (uint (my_last_cycles s) + e)"
    by simp
  then have "uint (cycles b + of_int ?D) = (uint (my_last_cycles s) + e) mod 2 ^ 64"
    by (simp only: uint_word_of_int) simp
  also have "\<dots> = uint (my_last_cycles s) + e"
    using assms(1,2) e by (intro mod_pos_pos_trivial) (simp_all add: recent_def near_deadline_def)
  finally show ?thesis
    unfolding t16_check_next_cycle_def Let_def w cond add_to_cycle_def scast_int32_of [OF D]
      e_def [symmetric]
    using quiet by (auto simp: min_def)
qed

lemma t16_check_irq_255: "t16_check_irq s = 255 \<longleftrightarrow> tier s AND t16_tcsr s AND 0xfe = 0"
  by (simp add: t16_check_irq_def Let_def upt_rec u8_eq_iff bit_and_iff split: list.splits)

lemma t16_never_late:
  assumes "recent (my_last_cycles s) b" and "near_deadline b"
    and quiet: "t16_check_irq s = 255"
    and clr: "t16_tcsr s AND T16_CCLRA \<noteq> 0 \<Longrightarrow> tier s AND T16_OCFA \<noteq> 0"
    and c: "uint (cycles b) \<le> uint c" "uint c < uint (next_timer_cycle (t16_check_next_cycle b s))"
  shows "t16_check_irq (snd (t16_update_time (b\<lparr>cycles := c\<rparr>) s)) = 255"
proof -
  let ?b = "b\<lparr>cycles := c\<rparr>" and ?sh = "t16_freq (t16_tcr s)"
  have q: "tier s AND t16_tcsr s AND 0xfe = 0"
    using quiet by (simp add: t16_check_irq_255)
  have lt: "uint c < uint (my_last_cycles s) + int (t16_next s * 2 ^ ?sh)"
    using c(2) by (simp add: t16_check_next_cycle_eq [OF assms(1,2) q])
  have "int (t16_elapsed ?b s) = uint c - uint (my_last_cycles s)"
    using assms(1) c(1) by (simp add: recent_def t16_elapsed_def uint_sub_if' unat_eq_nat_uint)
  with lt have el: "t16_elapsed ?b s < t16_next s * 2 ^ ?sh"
    by linarith
  then have n: "t16_ticks ?b s < t16_next s"
    by (simp add: t16_ticks_def less_mult_imp_div_less)
  have "t16_next s * 2 ^ ?sh \<le> 0x10000 * 2 ^ 5"
    using t16_freq_le by (intro mult_le_mono power_increasing) (auto simp: t16_next_def Let_def)
  with el have "t16_elapsed ?b s < 2 ^ 31"
    by simp
  then show ?thesis
    using t16_quiet_ticks [OF q _ n] clr
    by (simp add: snd_t16_update_time t16_check_irq_255 flag_simps)
qed

lemma recent_elapsed:
  assumes "recent (my_last_cycles s) b"
  shows "int (t16_elapsed b s) = uint (cycles b) - uint (my_last_cycles s)" and "t16_elapsed b s < 2 ^ 31"
proof -
  show 1: "int (t16_elapsed b s) = uint (cycles b) - uint (my_last_cycles s)"
    using assms by (simp add: recent_def t16_elapsed_def uint_sub_if' unat_eq_nat_uint)
  have "int (t16_elapsed b s) < 2 ^ 31"
    unfolding 1 using assms by (simp add: recent_def)
  then show "t16_elapsed b s < 2 ^ 31"
    by simp
qed

lemma t16_update_recent:
  assumes "recent (my_last_cycles s) b"
  shows "recent (my_last_cycles (snd (t16_update_time b s))) b"
proof -
  have "t16_ticks b s * 2 ^ t16_freq (t16_tcr s) \<le> t16_elapsed b s"
    by (simp add: t16_ticks_def)
  then show ?thesis
    using recent_elapsed [OF assms] recent_advance(1) [OF assms, of "t16_ticks b s * 2 ^ t16_freq (t16_tcr s)"]
    by (simp add: snd_t16_update_time del: of_nat_mult of_nat_power)
qed

lemma t16_next_bound: "t16_next s * 2 ^ t16_freq (t16_tcr s) \<le> 2 ^ 21"
proof -
  have "t16_next s * 2 ^ t16_freq (t16_tcr s) \<le> 0x10000 * 2 ^ 5"
    using t16_freq_le by (intro mult_le_mono power_increasing) (auto simp: t16_next_def Let_def)
  then show ?thesis by simp
qed

lemma fst_t16_update_time: "fst (t16_update_time b s) = t16_check_next_cycle b (snd (t16_update_time b s))"
  by (simp add: t16_update_time_def Let_def)

lemma t16_check_next_cycle_sel [simp]:
  "cycles (t16_check_next_cycle b s) = cycles b"
  "next_nmi_cycle (t16_check_next_cycle b s) = next_nmi_cycle b"
  by (auto simp: t16_check_next_cycle_def Let_def)

lemma t16_check_next_cycle_pending:
  "t16_check_irq s \<noteq> 255 \<Longrightarrow> next_timer_cycle (t16_check_next_cycle b s) = cycles b"
  by (auto simp: t16_check_irq_255 t16_check_next_cycle_def)

lemma t16_check_deadline:
  assumes "recent (my_last_cycles s) b" and "near_deadline b"
  shows "uint (next_timer_cycle (t16_check_next_cycle b s)) \<le> uint (next_timer_cycle b)
         \<or> next_timer_cycle (t16_check_next_cycle b s) = cycles b"
    and "near_deadline (t16_check_next_cycle b s)"
proof -
  define e where "e = int (t16_next s * 2 ^ t16_freq (t16_tcr s))"
  have "int (t16_next s * 2 ^ t16_freq (t16_tcr s)) \<le> int (2 ^ 21)"
    unfolding of_nat_le_iff by (rule t16_next_bound)
  then have e: "0 \<le> e" "e \<le> 2 ^ 21"
    by (simp_all add: e_def)
  have near: "\<bar>uint (cycles b + 0) - uint (cycles b)\<bar> < 2 ^ 30"
    by simp
  note eq = t16_check_next_cycle_eq [OF assms, folded e_def]
  show "uint (next_timer_cycle (t16_check_next_cycle b s)) \<le> uint (next_timer_cycle b)
         \<or> next_timer_cycle (t16_check_next_cycle b s) = cycles b"
    using t16_check_next_cycle_pending [of s b] eq by (cases "t16_check_irq s = 255") (auto simp: t16_check_irq_255)
  show "near_deadline (t16_check_next_cycle b s)"
  proof (cases "t16_check_irq s = 255")
    case True
    then have "tier s AND t16_tcsr s AND 0xfe = 0"
      by (simp add: t16_check_irq_255)
    from eq [OF this] show ?thesis
      using assms e unfolding near_deadline_def recent_def by (auto simp: min_def abs_less_iff)
  next
    case False
    with assms show ?thesis
      by (simp add: near_deadline_def t16_check_next_cycle_pending)
  qed
qed

interpretation t16_irq: irq_source t16_update_time t16_check_irq "\<lambda>b s. recent (my_last_cycles s) b"
proof unfold_locales
  fix b b' :: bus and s :: t16
  show "cycles (fst (t16_update_time b s)) = cycles b" 
   and "next_nmi_cycle (fst (t16_update_time b s)) = next_nmi_cycle b"
    by (simp_all add: fst_t16_update_time)
  show "next_timer_cycle (fst (t16_update_time b s)) = cycles b"
    if "t16_check_irq (snd (t16_update_time b s)) \<noteq> 255"
    using that by (simp add: fst_t16_update_time t16_check_next_cycle_pending)
  show "recent (my_last_cycles s) b = recent (my_last_cycles s) b'" if "cycles b = cycles b'"
    using that by (simp add: recent_def)
  assume "recent (my_last_cycles s) b" "near_deadline b"
  then show "uint (next_timer_cycle (fst (t16_update_time b s))) \<le> uint (next_timer_cycle b)
       \<or> next_timer_cycle (fst (t16_update_time b s)) = cycles b"
    and "near_deadline (fst (t16_update_time b s))"
    by (simp_all add: fst_t16_update_time t16_check_deadline t16_update_recent)
qed

section \<open>Properties\<close>

text \<open>The tick on an explicit state, for the evaluation of concrete runs.\<close>

lemma t16_tick_make:
  "t16_tick \<lparr>frc = f, ocra = a, ocrb = bb, t16_tcsr = t, tier = ti, t16_tcr = tc, tocr = to,
     t16_temp = te, my_last_cycles = l\<rparr> =
   \<lparr>frc = (if f = a \<and> t AND 1 \<noteq> 0 \<or> f = 0xffff then 0 else f + 1), ocra = a, ocrb = bb,
    t16_tcsr = (if f = 0xffff \<and> \<not> (f = a \<and> t AND 1 \<noteq> 0) then 2 else 0)
      OR (if f = bb then 4 else 0) OR (if f = a then 8 else 0) OR t,
    tier = ti, t16_tcr = tc, tocr = to, t16_temp = te, my_last_cycles = l\<rparr>"
  by (auto simp: t16_tick_def t16_raise_def Let_def or.commute)

text \<open>
  C13. Bringing the 16-bit timer up to date after fewer than \<open>2 ^ 31\<close> cycles has the effect of
  the whole ticks that elapsed, each executed by the reference \<open>t16_tick\<close> (compare matches,
  counter clear, overflow), and advances \<open>my_last_cycles\<close> by exactly these ticks, so the cycles
  not yet counted are the remainder: no time is lost or counted twice.
\<close>

theorem t16_update_time_ticks:
  assumes "t16_elapsed b s < 2 ^ 31"
  shows "snd (t16_update_time b s) = ((t16_tick ^^ t16_ticks b s) s)
      \<lparr>my_last_cycles := my_last_cycles s + of_nat (t16_ticks b s * 2 ^ t16_freq (t16_tcr s))\<rparr>
    \<and> t16_elapsed b (snd (t16_update_time b s)) = t16_elapsed b s mod 2 ^ t16_freq (t16_tcr s)"
  using snd_t16_update_time [OF assms] t16_update_remainder [OF assms] by simp

definition t16_ex :: t16 where
  "t16_ex = \<lparr>frc = 8, ocra = 10, ocrb = 5, t16_tcsr = 1, tier = 5, t16_tcr = 0, tocr = 0xe0,
     t16_temp = 0, my_last_cycles = 1000\<rparr>"

definition bus_ex :: bus where
  "bus_ex = \<lparr>cycles = 1007, next_timer_cycle = 600000, next_nmi_cycle = 600000, gui_out = [],
     ser_out = [], sound_out = []\<rparr>"

theorem t16_update_time_ticks_witness:
  "t16_elapsed bus_ex t16_ex = 7 \<and> frc (snd (t16_update_time bus_ex t16_ex)) = 0
    \<and> t16_elapsed bus_ex (snd (t16_update_time bus_ex t16_ex)) = 1"
proof -
  have e: "t16_elapsed bus_ex t16_ex = 7"
    by (simp add: t16_elapsed_def bus_ex_def t16_ex_def)
  have f: "t16_freq (t16_tcr t16_ex) = 1"
    by (simp add: t16_ex_def t16_freq_def)
  have "(t16_tick ^^ 3) t16_ex = t16_ex\<lparr>frc := 0, t16_tcsr := 9\<rparr>"
    by (simp add: numeral_3_eq_3 t16_ex_def t16_tick_make)
  then have t: "frc ((t16_tick ^^ t16_ticks bus_ex t16_ex) t16_ex) = 0"
    by (simp add: t16_ticks_def e f)
  have small: "t16_elapsed bus_ex t16_ex < 2 ^ 31"
    by (simp add: e)
  note run = t16_update_time_ticks [OF small]
  have "frc (snd (t16_update_time bus_ex t16_ex)) = 0"
    by (simp add: run [THEN conjunct1] t)
  moreover have "t16_elapsed bus_ex (snd (t16_update_time bus_ex t16_ex)) = 1"
    unfolding run [THEN conjunct2] e f by simp
  ultimately show ?thesis
    using e by blast
qed



text \<open>
  With counter clear on and only the \<open>OCRB\<close> interrupt enabled the deadline ignores the
  clear: in this state the \<open>OCRB\<close> interrupt is raised 9 ticks on, at cycle 1018, but the deadline
  is a whole counter period later, at cycle 132056.
\<close>

theorem t16_deadline_late_with_clear:
  "uint (next_timer_cycle (t16_check_next_cycle bus_ex t16_ex)) = 132056
    \<and> t16_check_irq (snd (t16_update_time (bus_ex\<lparr>cycles := 1018\<rparr>) t16_ex)) = 17"
proof -
  have rec: "recent (my_last_cycles t16_ex) bus_ex" and near: "near_deadline bus_ex"
    and quiet: "tier t16_ex AND t16_tcsr t16_ex AND 0xfe = 0"
    by (simp_all add: recent_def near_deadline_def t16_ex_def bus_ex_def)
  have "uint (next_timer_cycle (t16_check_next_cycle bus_ex t16_ex)) = 132056"
    unfolding t16_check_next_cycle_eq [OF rec near quiet]
    by (simp add: t16_next_def t16_ex_def bus_ex_def t16_freq_def ticks_past_def Let_def)
  moreover have "(t16_tick ^^ 9) t16_ex = t16_ex\<lparr>frc := 6, t16_tcsr := 13\<rparr>"
    by (simp add: funpow_9 t16_ex_def t16_tick_make)
  then have "t16_tcsr (snd (t16_update_time (bus_ex\<lparr>cycles := 1018\<rparr>) t16_ex)) = 13"
    and "tier (snd (t16_update_time (bus_ex\<lparr>cycles := 1018\<rparr>) t16_ex)) = 5"
    by (simp_all add: snd_t16_update_time t16_elapsed_def t16_ticks_def bus_ex_def t16_ex_def t16_freq_def)
  then have "t16_check_irq (snd (t16_update_time (bus_ex\<lparr>cycles := 1018\<rparr>) t16_ex)) = 17"
    by (simp add: t16_check_irq_def upt_rec)
  ultimately show ?thesis by blast
qed

text \<open>
  Loading what \<open>t16_save\<close> stored restores every register of the timer; the time stamp,
  which the save format keeps in 32 bits, is restored modulo \<open>2 ^ 32\<close>.
\<close>

theorem t16_load_save:
  "t16_load (t16_save s) s' = s\<lparr>t16_temp := t16_temp s', my_last_cycles := take_bit 32 (my_last_cycles s)\<rparr>"
  by (simp add: t16_load_def t16_save_def htonl_cc_htonl_cc)

text \<open>
  The 16-bit registers are accessed a byte at a time through the temporary register: writing
  the high and then the low byte stores the word, and reading the high and then the low byte gives
  the two halves of one value of the counter.
\<close>

theorem t16_frc_bytes:
  "frc (set_FRCL lo (set_FRCH hi s)) = push_bit 8 (ucast hi) OR ucast lo
   \<and> fst (get_FRCH (set_FRCL lo (set_FRCH hi s))) = hi
   \<and> get_FRCL (snd (get_FRCH (set_FRCL lo (set_FRCH hi s)))) = lo"
proof -
  have ff: "(0xff :: u16) = mask 8"
    by (simp add: mask_eq_decr_exp)
  show ?thesis
    unfolding set_FRCL_def set_FRCH_def get_FRCH_def get_FRCL_def ff
    by (simp del: drop_bit_or of_bool_conj add: word_halves)
qed

end
