(* ===== verification/Timer8.thy ===== *)
theory Timer8
  imports Base
begin

text \<open>
  The 8-bit timers, \<^verbatim>\<open>timer8.c\<close>. Timer 0 drives the speaker: every update reports, through
  \<open>sound_update\<close>, how long the output pin kept each level. The batch update is shown equal to
  the iterated tick on counter and status, and the reported durations are shown to add up to
  the time that passed. The loops of the source run over \<open>nr < 1\<close>, so only timer 0 counts.
\<close>

section \<open>State and operations\<close>

text \<open>The source keeps an array of two elements per field; here one record per timer.\<close>

record t8ch =
  tcnt :: u8
  t8_tcr :: u8
  t8_tcsr :: u8
  tcora :: u8
  tcorb :: u8
  t8_out :: u8
  last_cycles :: u64
  my_next_cycle :: u64

record t8 =
  t8_ch0 :: t8ch
  t8_ch1 :: t8ch
  stcr :: u8

abbreviation TCR_CMIEB :: u8 where "TCR_CMIEB \<equiv> 0x80"
abbreviation TCR_CMIEA :: u8 where "TCR_CMIEA \<equiv> 0x40"
abbreviation TCR_CCLR1 :: u8 where "TCR_CCLR1 \<equiv> 0x10"
abbreviation TCR_CCLR0 :: u8 where "TCR_CCLR0 \<equiv> 0x08"
abbreviation T8_CMFB :: u8 where "T8_CMFB \<equiv> 0x80"
abbreviation T8_CMFA :: u8 where "T8_CMFA \<equiv> 0x40"
abbreviation T8_OVF :: u8 where "T8_OVF \<equiv> 0x20"

definition t8_freq_table :: "nat list" where
  "t8_freq_table = [31, 3, 6, 10, 31, 31, 31, 31, 31, 1, 5, 8, 31, 31, 31, 31]"

definition t8_freq :: "nat \<Rightarrow> u8 \<Rightarrow> u8 \<Rightarrow> nat" where
  "t8_freq nr st tc = t8_freq_table ! unat ((tc AND 7) OR push_bit (3 - nr) (st AND of_nat (1 + nr)))"

record t8_save_type =
  sv8_last_cycles :: "u64 \<times> u64"
  sv8_my_next_cycle :: "u64 \<times> u64"
  sv8_tcnt :: "u8 \<times> u8"
  sv8_tcr :: "u8 \<times> u8"
  sv8_tcsr :: "u8 \<times> u8"
  sv8_tcora :: "u8 \<times> u8"
  sv8_tcorb :: "u8 \<times> u8"
  sv8_out :: "u8 \<times> u8"
  sv8_stcr :: u8

definition t8_save :: "t8 \<Rightarrow> t8_save_type" where
  "t8_save s = (let p = \<lambda>f. (f (t8_ch0 s), f (t8_ch1 s)) in
     \<lparr>sv8_last_cycles = (htonl_cc (last_cycles (t8_ch0 s)), htonl_cc (last_cycles (t8_ch1 s))),
      sv8_my_next_cycle = (htonl_cc (my_next_cycle (t8_ch0 s)), htonl_cc (my_next_cycle (t8_ch1 s))),
      sv8_tcnt = p tcnt, sv8_tcr = p t8_tcr, sv8_tcsr = p t8_tcsr, sv8_tcora = p tcora,
      sv8_tcorb = p tcorb, sv8_out = p t8_out, sv8_stcr = stcr s\<rparr>)"

definition t8_load :: "t8_save_type \<Rightarrow> t8" where
  "t8_load d = (let ch = \<lambda>f g. \<lparr>tcnt = f (sv8_tcnt d), t8_tcr = f (sv8_tcr d),
       t8_tcsr = f (sv8_tcsr d), tcora = f (sv8_tcora d), tcorb = f (sv8_tcorb d),
       t8_out = f (sv8_out d), last_cycles = htonl_cc (g (sv8_last_cycles d)),
       my_next_cycle = htonl_cc (g (sv8_my_next_cycle d))\<rparr>
     in \<lparr>t8_ch0 = ch fst fst, t8_ch1 = ch snd snd, stcr = sv8_stcr d\<rparr>)"

definition t8_reset :: "bus \<Rightarrow> t8 \<Rightarrow> t8" where
  "t8_reset b s = (let r = \<lambda>c. c\<lparr>tcnt := 0, t8_tcr := 0, t8_tcsr := 0x10, tcora := 0xff,
       tcorb := 0xff, last_cycles := cycles b\<rparr>
     in s\<lparr>t8_ch0 := r (t8_ch0 s), t8_ch1 := r (t8_ch1 s), stcr := 0xf8\<rparr>)"

text \<open>
  The cycles to the next event of a timer, an \<open>int\<close>. A left shift of a negative number
  (\<open>TCORB\<close> below the counter) multiplies, as gcc defines it. The compare-match tests read
  the status register, as the source does.
\<close>

definition t8_next :: "t8ch \<Rightarrow> nat \<Rightarrow> int" where
  "t8_next c shift =
    (let next = 0x100 * 2 ^ 10;
         next = min next ((0x100 - uint (tcnt c)) * 2 ^ shift);
         next = (if t8_tcsr c AND TCR_CMIEA \<noteq> 0 \<and> tcnt c < tcora c
                 then min next ((uint (tcora c) + 1 - uint (tcnt c)) * 2 ^ shift) else next);
         next = (if t8_tcsr c AND TCR_CMIEB \<noteq> 0
                 then min next ((uint (tcorb c) + 1 - uint (tcnt c)) * 2 ^ shift) else next)
     in next)"

definition t8_check_next_cycle :: "bus \<Rightarrow> t8 \<Rightarrow> bus \<times> t8" where
  "t8_check_next_cycle b s =
    (let c = t8_ch0 s; d = t8_ch1 s in
     if (t8_tcsr c AND t8_tcr c OR t8_tcsr d AND t8_tcr d) AND 0xe0 \<noteq> 0
     then (b\<lparr>next_timer_cycle := cycles b\<rparr>, s)
     else
       let shift = t8_freq 0 (stcr s) (t8_tcr c) in
       if shift = 31 then (b, s)
       else
         let next = t8_next c shift;
             at = last_cycles c + of_int next
         in (if next < sint (int32_of (next_timer_cycle b - last_cycles c))
             then b\<lparr>next_timer_cycle := at\<rparr> else b,
             s\<lparr>t8_ch0 := c\<lparr>my_next_cycle := at\<rparr>\<rparr>))"

text \<open>
  \<open>t8_incr_tcnt\<close>: the counter runs \<open>incr\<close> ticks without wrapping; the two compare registers
  are passed in order, each reporting the time the output kept its level and then setting,
  clearing or toggling it. \<open>t8_pass\<close> is the block written once for each register, its last
  component is the local \<open>cnt\<close>.
\<close>

definition t8_output :: "nat \<Rightarrow> t8ch \<Rightarrow> t8ch" where
  "t8_output sh c =
    (let m = drop_bit sh (t8_tcsr c) AND 3
     in if m = 1 then c\<lparr>t8_out := 0\<rparr>
        else if m = 2 then c\<lparr>t8_out := 1\<rparr>
        else if m = 3 then c\<lparr>t8_out := (if t8_out c = 0 then 1 else 0)\<rparr>
        else c)"

definition t8_sound :: "nat \<Rightarrow> u8 \<Rightarrow> u32 \<Rightarrow> bus \<Rightarrow> bus" where
  "t8_sound nr bt d b = (if nr = 0 then sound_update bt d b else b)"

definition t8_pass ::
  "nat \<Rightarrow> nat \<Rightarrow> u32 \<Rightarrow> nat \<Rightarrow> bus \<times> t8ch \<times> u32 \<times> u32 \<Rightarrow> bus \<times> t8ch \<times> u32 \<times> u32" where
  "t8_pass nr shift x fshift = (\<lambda>(b, c, incr, cnt).
     if cnt \<le> x \<and> x < cnt + incr then
       (t8_sound nr (t8_out c) (push_bit shift (x - cnt + 1)) b, t8_output fshift c,
        incr - (x - cnt + 1), x)
     else (b, c, incr, cnt))"

definition t8_incr_tcnt :: "nat \<Rightarrow> u32 \<Rightarrow> nat \<Rightarrow> bus \<Rightarrow> t8ch \<Rightarrow> bus \<times> t8ch" where
  "t8_incr_tcnt nr incr shift b c =
    (let t = ucast (tcnt c); a = ucast (tcora c); bb = ucast (tcorb c);
         c1 = (if t \<le> a \<and> a < t + incr then c\<lparr>t8_tcsr := t8_tcsr c OR T8_CMFA\<rparr> else c);
         c2 = (if t \<le> bb \<and> bb < t + incr then c1\<lparr>t8_tcsr := t8_tcsr c1 OR T8_CMFB\<rparr> else c1);
         (first, fshift, second) = (if a \<le> bb then (a, 0, bb) else (bb, 2, a));
         (b', c', incr', cnt') =
           t8_pass nr shift second (2 - fshift) (t8_pass nr shift first fshift (b, c2, incr, t))
     in (if incr' \<noteq> 0 then t8_sound nr (t8_out c') (push_bit shift incr') b' else b', c'))"

text \<open>The loop of \<open>t8_update_time\<close>; \<open>incr\<close> is an \<open>int\<close>.\<close>

function t8_count :: "nat \<Rightarrow> nat \<Rightarrow> int \<Rightarrow> bus \<Rightarrow> t8ch \<Rightarrow> bus \<times> t8ch" where
  "t8_count nr shift incr b c =
    (if incr = 0 then (b, c)
     else
       let t = uint (tcnt c); a = uint (tcora c); bb = uint (tcorb c);
           clr = t8_tcr c AND (TCR_CCLR1 OR TCR_CCLR0)
       in if clr = TCR_CCLR0 \<and> t \<le> a \<and> a < t + incr then
            let r = t8_incr_tcnt nr (of_int (a + 1 - t)) shift b c
            in t8_count nr shift (incr - (a + 1 - t)) (fst r) ((snd r)\<lparr>tcnt := 0\<rparr>)
          else if clr = TCR_CCLR1 \<and> t \<le> bb \<and> bb < t + incr then
            let r = t8_incr_tcnt nr (of_int (bb + 1 - t)) shift b c
            in t8_count nr shift (incr - (bb + 1 - t)) (fst r) ((snd r)\<lparr>tcnt := 0\<rparr>)
          else if 0xff < t + incr then
            let r = t8_incr_tcnt nr (of_int (0x100 - t)) shift b (c\<lparr>t8_tcsr := t8_tcsr c OR T8_OVF\<rparr>)
            in t8_count nr shift (incr - (0x100 - t)) (fst r) ((snd r)\<lparr>tcnt := 0\<rparr>)
          else
            let r = t8_incr_tcnt nr (of_int incr) shift b c
            in (fst r, (snd r)\<lparr>tcnt := tcnt (snd r) + of_int incr\<rparr>))"
  by pat_completeness auto
termination
proof (relation "measure (\<lambda>(nr, shift, incr, b, c). nat incr)", goal_cases)
  case (4 nr shift incr b c)
  then show ?case
    using uint_lt2p [of "tcnt c"] by simp
qed auto

declare t8_count.simps [simp del]

definition t8_update_time :: "bus \<Rightarrow> t8 \<Rightarrow> bus \<times> t8" where
  "t8_update_time b s =
    (let c = t8_ch0 s;
         shift = t8_freq 0 (stcr s) (t8_tcr c);
         (b', c') =
           (if shift = 31 then
              (t8_sound 0 (t8_out c) (ucast (cycles b - last_cycles c)) b, c\<lparr>last_cycles := cycles b\<rparr>)
            else if cycles b < my_next_cycle c then (b, c)
            else
              let incr = ucast (drop_bit shift (cycles b - last_cycles c)) :: u32
              in t8_count 0 shift (sint incr) b
                   (c\<lparr>last_cycles := last_cycles c + scast (push_bit shift incr)\<rparr>))
     in t8_check_next_cycle b' (s\<lparr>t8_ch0 := c'\<rparr>))"

definition t8_set_last_cycles :: "nat \<Rightarrow> bus \<Rightarrow> t8 \<Rightarrow> bus \<times> t8" where
  "t8_set_last_cycles nr b s =
    (if nr = 0 then
       (t8_sound 0 (t8_out (t8_ch0 s)) (ucast (cycles b - last_cycles (t8_ch0 s))) b,
        s\<lparr>t8_ch0 := (t8_ch0 s)\<lparr>last_cycles := cycles b\<rparr>\<rparr>)
     else (b, s\<lparr>t8_ch1 := (t8_ch1 s)\<lparr>last_cycles := cycles b\<rparr>\<rparr>))"

definition t8_check_irq :: "t8 \<Rightarrow> nat" where
  "t8_check_irq s =
    (let irqs = (t8_tcsr (t8_ch0 s) AND t8_tcr (t8_ch0 s) AND 0xe0)
             OR drop_bit 3 (t8_tcsr (t8_ch1 s) AND t8_tcr (t8_ch1 s) AND 0xe0)
     in case filter (\<lambda>i. bit irqs (7 - i)) [0..<6] of [] \<Rightarrow> 255 | i # _ \<Rightarrow> 19 + i)"

text \<open>
  The port handlers. All but the plain readers start with
  \<open>my_next_cycle[nr] = cycles; t8_update_time()\<close> and end with \<open>t8_check_next_cycle()\<close>.
\<close>

definition t8_force :: "nat \<Rightarrow> bus \<Rightarrow> t8 \<Rightarrow> bus \<times> t8" where
  "t8_force nr b s = t8_update_time b
     (if nr = 0 then s\<lparr>t8_ch0 := (t8_ch0 s)\<lparr>my_next_cycle := cycles b\<rparr>\<rparr>
      else s\<lparr>t8_ch1 := (t8_ch1 s)\<lparr>my_next_cycle := cycles b\<rparr>\<rparr>)"

definition set_TCR0 :: "u8 \<Rightarrow> bus \<Rightarrow> t8 \<Rightarrow> bus \<times> t8" where
  "set_TCR0 val b s =
    (let (b1, s1) = t8_force 0 b s; (b2, s2) = t8_set_last_cycles 0 b1 s1
     in t8_check_next_cycle b2 (s2\<lparr>t8_ch0 := (t8_ch0 s2)\<lparr>t8_tcr := val\<rparr>\<rparr>))"

definition get_TCR0 :: "t8 \<Rightarrow> u8" where
  "get_TCR0 s = t8_tcr (t8_ch0 s)"

definition set_TCSR0 :: "u8 \<Rightarrow> bus \<Rightarrow> t8 \<Rightarrow> bus \<times> t8" where
  "set_TCSR0 val b s =
    (let (b1, s1) = t8_force 0 b s
     in t8_check_next_cycle b1 (s1\<lparr>t8_ch0 := (t8_ch0 s1)
          \<lparr>t8_tcsr := val AND (t8_tcsr (t8_ch0 s1) OR 0x0f) OR 0x10\<rparr>\<rparr>))"

definition get_TCSR0 :: "bus \<Rightarrow> t8 \<Rightarrow> u8 \<times> bus \<times> t8" where
  "get_TCSR0 b s = (let (b1, s1) = t8_force 0 b s in (t8_tcsr (t8_ch0 s1), b1, s1))"

definition set_TCNT0 :: "u8 \<Rightarrow> bus \<Rightarrow> t8 \<Rightarrow> bus \<times> t8" where
  "set_TCNT0 val b s =
    (let (b1, s1) = t8_force 0 b s
     in t8_check_next_cycle b1 (s1\<lparr>t8_ch0 := (t8_ch0 s1)\<lparr>tcnt := val\<rparr>\<rparr>))"

definition get_TCNT0 :: "t8 \<Rightarrow> u8" where
  "get_TCNT0 s = tcnt (t8_ch0 s)"

definition set_TCORA0 :: "u8 \<Rightarrow> bus \<Rightarrow> t8 \<Rightarrow> bus \<times> t8" where
  "set_TCORA0 val b s =
    (let (b1, s1) = t8_force 0 b s
     in t8_check_next_cycle b1 (s1\<lparr>t8_ch0 := (t8_ch0 s1)\<lparr>tcora := val\<rparr>\<rparr>))"

definition get_TCORA0 :: "t8 \<Rightarrow> u8" where
  "get_TCORA0 s = tcora (t8_ch0 s)"

definition set_TCORB0 :: "u8 \<Rightarrow> bus \<Rightarrow> t8 \<Rightarrow> bus \<times> t8" where
  "set_TCORB0 val b s =
    (let (b1, s1) = t8_force 0 b s
     in t8_check_next_cycle b1 (s1\<lparr>t8_ch0 := (t8_ch0 s1)\<lparr>tcorb := val\<rparr>\<rparr>))"

definition get_TCORB0 :: "t8 \<Rightarrow> u8" where
  "get_TCORB0 s = tcorb (t8_ch0 s)"

definition set_TCR1 :: "u8 \<Rightarrow> bus \<Rightarrow> t8 \<Rightarrow> bus \<times> t8" where
  "set_TCR1 val b s =
    (let (b1, s1) = t8_force 1 b s; (b2, s2) = t8_set_last_cycles 1 b1 s1
     in t8_check_next_cycle b2 (s2\<lparr>t8_ch1 := (t8_ch1 s2)\<lparr>t8_tcr := val\<rparr>\<rparr>))"

definition get_TCR1 :: "t8 \<Rightarrow> u8" where
  "get_TCR1 s = t8_tcr (t8_ch1 s)"

definition set_TCSR1 :: "u8 \<Rightarrow> bus \<Rightarrow> t8 \<Rightarrow> bus \<times> t8" where
  "set_TCSR1 val b s =
    (let (b1, s1) = t8_force 1 b s
     in t8_check_next_cycle b1 (s1\<lparr>t8_ch1 := (t8_ch1 s1)
          \<lparr>t8_tcsr := val AND (val AND t8_tcsr (t8_ch1 s1)) OR 0x10\<rparr>\<rparr>))"

definition get_TCSR1 :: "bus \<Rightarrow> t8 \<Rightarrow> u8 \<times> bus \<times> t8" where
  "get_TCSR1 b s = (let (b1, s1) = t8_force 1 b s in (t8_tcsr (t8_ch1 s1), b1, s1))"

definition set_TCNT1 :: "u8 \<Rightarrow> bus \<Rightarrow> t8 \<Rightarrow> bus \<times> t8" where
  "set_TCNT1 val b s =
    (let (b1, s1) = t8_force 1 b s
     in t8_check_next_cycle b1 (s1\<lparr>t8_ch1 := (t8_ch1 s1)\<lparr>tcnt := val\<rparr>\<rparr>))"

definition get_TCNT1 :: "t8 \<Rightarrow> u8" where
  "get_TCNT1 s = tcnt (t8_ch1 s)"

definition set_TCORA1 :: "u8 \<Rightarrow> bus \<Rightarrow> t8 \<Rightarrow> bus \<times> t8" where
  "set_TCORA1 val b s =
    (let (b1, s1) = t8_force 1 b s
     in t8_check_next_cycle b1 (s1\<lparr>t8_ch1 := (t8_ch1 s1)\<lparr>tcora := val\<rparr>\<rparr>))"

definition get_TCORA1 :: "t8 \<Rightarrow> u8" where
  "get_TCORA1 s = tcora (t8_ch1 s)"

definition set_TCORB1 :: "u8 \<Rightarrow> bus \<Rightarrow> t8 \<Rightarrow> bus \<times> t8" where
  "set_TCORB1 val b s =
    (let (b1, s1) = t8_force 1 b s
     in t8_check_next_cycle b1 (s1\<lparr>t8_ch1 := (t8_ch1 s1)\<lparr>tcorb := val\<rparr>\<rparr>))"

definition get_TCORB1 :: "t8 \<Rightarrow> u8" where
  "get_TCORB1 s = tcorb (t8_ch1 s)"

definition set_STCR :: "u8 \<Rightarrow> bus \<Rightarrow> t8 \<Rightarrow> bus \<times> t8" where
  "set_STCR val b s =
    (if (stcr s XOR val) AND 3 = 0 then (b, s)
     else
       let (b1, s1) = t8_update_time b
             (s\<lparr>t8_ch0 := (t8_ch0 s)\<lparr>my_next_cycle := cycles b\<rparr>,
                t8_ch1 := (t8_ch1 s)\<lparr>my_next_cycle := cycles b\<rparr>\<rparr>);
           (b2, s2) = t8_set_last_cycles 0 b1 s1;
           (b3, s3) = t8_set_last_cycles 1 b2 s2
       in t8_check_next_cycle b3 (s3\<lparr>stcr := val OR 0xf8\<rparr>))"

definition get_STCR :: "t8 \<Rightarrow> u8" where
  "get_STCR s = stcr s"

section \<open>The reference: one tick\<close>

text \<open>
  One tick of a counter: a compare register matches when the counter leaves its value, the
  register selected for counter clear restarts the counter, otherwise the counter runs to
  \<open>0xff\<close> and overflows. \<open>t8_clear c\<close> is the condition that the clear is due now.
\<close>

definition t8_clear :: "t8ch \<Rightarrow> bool" where
  "t8_clear c \<longleftrightarrow>
     t8_tcr c AND (TCR_CCLR1 OR TCR_CCLR0) = TCR_CCLR0 \<and> tcnt c = tcora c
   \<or> t8_tcr c AND (TCR_CCLR1 OR TCR_CCLR0) = TCR_CCLR1 \<and> tcnt c = tcorb c"

definition t8_tick :: "t8ch \<Rightarrow> t8ch" where
  "t8_tick c =
    (let st = t8_tcsr c OR (if tcnt c = tcora c then T8_CMFA else 0)
                OR (if tcnt c = tcorb c then T8_CMFB else 0)
     in if t8_clear c then c\<lparr>tcnt := 0, t8_tcsr := st\<rparr>
        else if tcnt c = 0xff then c\<lparr>tcnt := 0, t8_tcsr := st OR T8_OVF\<rparr>
        else c\<lparr>tcnt := tcnt c + 1, t8_tcsr := st\<rparr>)"

section \<open>The batch update is the iterated tick\<close>

definition t8_hit :: "nat \<Rightarrow> nat \<Rightarrow> u8 \<Rightarrow> bool" where
  "t8_hit lo n x \<longleftrightarrow> lo \<le> unat x \<and> unat x < lo + n"

definition t8_flags :: "nat \<Rightarrow> t8ch \<Rightarrow> u8" where
  "t8_flags n c = (if t8_hit (unat (tcnt c)) n (tcora c) then T8_CMFA else 0)
               OR (if t8_hit (unat (tcnt c)) n (tcorb c) then T8_CMFB else 0)"

definition sound_total :: "(u8 \<times> u32) list \<Rightarrow> nat" where
  "sound_total ds = sum_list (map (unat \<circ> snd) ds)"

lemma sound_total_simps [simp]:
  "sound_total [] = 0" "sound_total (d # ds) = unat (snd d) + sound_total ds"
  "sound_total (ds @ es) = sound_total ds + sound_total es"
  by (simp_all add: sound_total_def)

lemma t8_tick_out: "t8_tick (c\<lparr>t8_out := x\<rparr>) = (t8_tick c)\<lparr>t8_out := x\<rparr>"
  by (simp add: t8_tick_def t8_clear_def Let_def)

lemma t8_ticks_out: "(t8_tick ^^ n) (c\<lparr>t8_out := x\<rparr>) = ((t8_tick ^^ n) c)\<lparr>t8_out := x\<rparr>"
  by (induction n) (simp_all add: t8_tick_out)

lemma t8_ticks_last:
  "(t8_tick ^^ n) (c\<lparr>last_cycles := y\<rparr>) = ((t8_tick ^^ n) c)\<lparr>last_cycles := y\<rparr>"
  by (induction n) (simp_all add: t8_tick_def t8_clear_def Let_def)

lemma t8_hit_Suc: "t8_hit lo (Suc n) x \<longleftrightarrow> t8_hit lo n x \<or> unat x = lo + n"
  by (auto simp: t8_hit_def)

text \<open>\<open>t8_quiet n c\<close>: the first \<open>n\<close> ticks neither clear the counter nor wrap it.\<close>

definition t8_quiet :: "nat \<Rightarrow> t8ch \<Rightarrow> bool" where
  "t8_quiet n c \<longleftrightarrow> unat (tcnt c) + n \<le> 0xff
     \<and> \<not> (t8_tcr c AND (TCR_CCLR1 OR TCR_CCLR0) = TCR_CCLR0 \<and> t8_hit (unat (tcnt c)) n (tcora c))
     \<and> \<not> (t8_tcr c AND (TCR_CCLR1 OR TCR_CCLR0) = TCR_CCLR1 \<and> t8_hit (unat (tcnt c)) n (tcorb c))"

lemma u8_eq_unat: "unat (x :: u8) + n \<le> 255 \<Longrightarrow> x + of_nat n = y \<longleftrightarrow> unat y = unat x + n"
  by (auto simp: word_unat_eq_iff unat_word_ariths unat_of_nat)

lemma t8_run:
  "t8_quiet n c \<Longrightarrow> (t8_tick ^^ n) c = c\<lparr>tcnt := tcnt c + of_nat n, t8_tcsr := t8_tcsr c OR t8_flags n c\<rparr>"
proof (induction n)
  case 0
  have "\<not> t8_hit n 0 x" for n x
    by (simp add: t8_hit_def)
  then show ?case by (simp add: t8_flags_def)
next
  case (Suc n)
  let ?d = "c\<lparr>tcnt := tcnt c + of_nat n, t8_tcsr := t8_tcsr c OR t8_flags n c\<rparr>"
  have q: "t8_quiet n c" and lt: "unat (tcnt c) + n \<le> 255" "unat (tcnt c) + n \<noteq> 255"
    using Suc.prems by (auto simp: t8_quiet_def t8_hit_Suc)
  have eq: "tcnt c + of_nat n = y \<longleftrightarrow> unat y = unat (tcnt c) + n" for y
    by (rule u8_eq_unat [OF lt(1)])
  have "\<not> t8_clear ?d" "tcnt ?d \<noteq> 0xff"
    using Suc.prems lt by (auto simp: t8_clear_def t8_quiet_def t8_hit_Suc eq)
  moreover have fl: "t8_flags n c OR (if tcnt c + of_nat n = tcora c then T8_CMFA else 0)
      OR (if tcnt c + of_nat n = tcorb c then T8_CMFB else 0) = t8_flags (Suc n) c"
    unfolding eq t8_flags_def t8_hit_Suc by auto
  ultimately have "t8_tick ?d = c\<lparr>tcnt := tcnt c + of_nat (Suc n), t8_tcsr := t8_tcsr c OR t8_flags (Suc n) c\<rparr>"
    by (simp add: t8_tick_def Let_def or.assoc add.assoc add.commute [of 1] fl)
  with Suc.IH [OF q] show ?case
    by simp
qed

lemma t8_incr_cond:
  assumes "k \<le> 256"
  shows "(ucast (t :: u8) :: u32) \<le> ucast (x :: u8) \<and> (ucast x :: u32) < ucast t + of_nat k
    \<longleftrightarrow> t8_hit (unat t) k x"
proof -
  have t: "unat t < 256"
    using unat_less_2p [of t] by simp
  then have "unat (ucast t + of_nat k :: u32) = unat t + k"
    using assms by (simp add: unat_word_ariths unat_of_nat unat_ucast_up)
  then show ?thesis
    by (simp add: t8_hit_def word_le_nat_alt word_less_nat_alt unat_ucast_up)
qed


lemma t8_output_out: "t8_output sh c = c\<lparr>t8_out := t8_out (t8_output sh c)\<rparr>"
  by (simp add: t8_output_def Let_def)

text \<open>One register: the time reported is taken off \<open>incr\<close>.\<close>

lemma t8_pass_sound:
  assumes k: "k * 2 ^ shift < 2 ^ 32" "k \<le> 256" and t: "t < 256" "y < 256"
  shows "\<exists>ds x k' t'. t8_pass 0 shift (of_nat y) sh (b, c, of_nat k, of_nat t)
      = (b\<lparr>sound_out := sound_out b @ ds\<rparr>, c\<lparr>t8_out := x\<rparr>, of_nat k', of_nat t')
    \<and> k' \<le> k \<and> t' < 256 \<and> sound_total ds + k' * 2 ^ shift = k * 2 ^ shift"
proof -
  have u: "unat (of_nat t :: u32) = t" "unat (of_nat y :: u32) = y"
      "unat (of_nat t + of_nat k :: u32) = t + k"
    using k t by (simp_all add: unat_word_ariths unat_of_nat)
  have cond: "(of_nat t :: u32) \<le> of_nat y \<and> (of_nat y :: u32) < of_nat t + of_nat k \<longleftrightarrow> t \<le> y \<and> y < t + k"
    by (simp add: word_le_nat_alt word_less_nat_alt u)
  show ?thesis
  proof (cases "t \<le> y \<and> y < t + k")
    case False
    then have "t8_pass 0 shift (of_nat y) sh (b, c, of_nat k, of_nat t)
        = (b\<lparr>sound_out := sound_out b @ []\<rparr>, c\<lparr>t8_out := t8_out c\<rparr>, of_nat k, of_nat t)"
      unfolding t8_pass_def split cond if_not_P [OF False] by simp
    moreover have "sound_total [] + k * 2 ^ shift = k * 2 ^ shift"
      by simp
    ultimately show ?thesis
      using t(1) by blast
  next
    case True
    then obtain d where d: "y + 1 = t + d" "d \<le> k"
      by (intro that [of "y + 1 - t"]) auto
    have w: "(of_nat y :: u32) - of_nat t + 1 = of_nat d" "(of_nat k :: u32) - of_nat d = of_nat (k - d)"
      using arg_cong [OF d(1), of "of_nat :: nat \<Rightarrow> u32"] d(2) by (simp_all add: of_nat_diff algebra_simps)
    have le: "d * 2 ^ shift \<le> k * 2 ^ shift"
      using d by simp
    have "d * 2 ^ shift < 2 ^ 32"
      using le k(1) by (rule le_less_trans)
    then have p: "unat (push_bit shift (of_nat d) :: u32) = d * 2 ^ shift"
      by (simp only: push_bit_of_nat_word unat_of_nat) (simp add: take_bit_nat_eq_self)
    have "t8_pass 0 shift (of_nat y) sh (b, c, of_nat k, of_nat t)
        = (sound_update (t8_out c) (push_bit shift (of_nat d)) b, t8_output sh c, of_nat (k - d), of_nat y)"
      unfolding t8_pass_def split cond w if_P [OF True] by (simp add: t8_sound_def)
    also have "\<dots> = (b\<lparr>sound_out := sound_out b @ [(t8_out c, push_bit shift (of_nat d))]\<rparr>,
        c\<lparr>t8_out := t8_out (t8_output sh c)\<rparr>, of_nat (k - d), of_nat y)"
      by (simp add: sound_update_def flip: t8_output_out)
    finally have "t8_pass 0 shift (of_nat y) sh (b, c, of_nat k, of_nat t) = \<dots>" .
    moreover have "sound_total [(t8_out c, push_bit shift (of_nat d))] + (k - d) * 2 ^ shift = k * 2 ^ shift"
      using le by (simp add: p diff_mult_distrib)
    ultimately show ?thesis
      using t(2) diff_le_self [of k d] by blast
  qed
qed

lemma ucast_u8_of_nat: "(ucast (x :: u8) :: u32) = of_nat (unat x)"
  by simp

lemma t8_incr_tcnt_sound:
  assumes k: "k * 2 ^ shift < 2 ^ 32" "k \<le> 256"
  shows "\<exists>ds x. t8_incr_tcnt 0 (of_nat k) shift b c
      = (b\<lparr>sound_out := sound_out b @ ds\<rparr>, c\<lparr>t8_tcsr := t8_tcsr c OR t8_flags k c, t8_out := x\<rparr>)
    \<and> sound_total ds = k * 2 ^ shift"
proof -
  define c2 where "c2 = c\<lparr>t8_tcsr := t8_tcsr c OR t8_flags k c\<rparr>"
  define f where "f = (if tcora c \<le> tcorb c then (unat (tcora c), 0::nat, unat (tcorb c))
                        else (unat (tcorb c), 2, unat (tcora c)))"
  have lt: "unat x < 256" for x :: u8
    using unat_less_2p [of x] by simp
  obtain y1 sh1 y2 where f: "f = (y1, sh1, y2)" by (cases f) auto
  have y: "y1 < 256" "y2 < 256"
    using f lt by (auto simp: f_def split: if_splits)
  obtain ds1 x1 k1 t1 where 1: "t8_pass 0 shift (of_nat y1) sh1 (b, c2, of_nat k, of_nat (unat (tcnt c)))
      = (b\<lparr>sound_out := sound_out b @ ds1\<rparr>, c2\<lparr>t8_out := x1\<rparr>, of_nat k1, of_nat t1)"
    "k1 \<le> k" "t1 < 256" "sound_total ds1 + k1 * 2 ^ shift = k * 2 ^ shift"
    using t8_pass_sound [OF k lt y(1)] by blast
  have k1: "k1 * 2 ^ shift < 2 ^ 32" "k1 \<le> 256"
    using 1 k by (metis le_add2 le_less_trans, linarith)
  obtain ds2 x2 k2 t2 where 2: "t8_pass 0 shift (of_nat y2) (2 - sh1)
      (b\<lparr>sound_out := sound_out b @ ds1\<rparr>, c2\<lparr>t8_out := x1\<rparr>, of_nat k1, of_nat t1)
      = (b\<lparr>sound_out := sound_out b @ ds1 @ ds2\<rparr>, c2\<lparr>t8_out := x2\<rparr>, of_nat k2, of_nat t2)"
    "k2 \<le> k1" "sound_total ds2 + k2 * 2 ^ shift = k1 * 2 ^ shift"
    using t8_pass_sound [OF k1 1(3) y(2), of "2 - sh1" "b\<lparr>sound_out := sound_out b @ ds1\<rparr>" "c2\<lparr>t8_out := x1\<rparr>"]
    by auto
  have k2: "k2 * 2 ^ shift < 2 ^ 32"
    using 2 k1 by (metis le_add2 le_less_trans)
  then have u2: "unat (push_bit shift (of_nat k2) :: u32) = k2 * 2 ^ shift"
    by (simp only: push_bit_of_nat_word unat_of_nat) (simp add: take_bit_nat_eq_self)
  have z: "(of_nat k2 :: u32) = 0 \<longleftrightarrow> k2 = 0"
    using 1(2) 2(2) k(2) by (simp add: word_unat_eq_iff unat_of_nat)
  define ds where "ds = ds1 @ ds2 @ (if k2 = 0 then [] else [(x2, push_bit shift (of_nat k2))])"
  have "t8_incr_tcnt 0 (of_nat k) shift b c = (b\<lparr>sound_out := sound_out b @ ds\<rparr>, c2\<lparr>t8_out := x2\<rparr>)"
  proof -
    have c2': "(if t8_hit (unat (tcnt c)) k (tcorb c)
          then (if t8_hit (unat (tcnt c)) k (tcora c) then c\<lparr>t8_tcsr := t8_tcsr c OR T8_CMFA\<rparr> else c)
            \<lparr>t8_tcsr := t8_tcsr (if t8_hit (unat (tcnt c)) k (tcora c) then c\<lparr>t8_tcsr := t8_tcsr c OR T8_CMFA\<rparr> else c) OR T8_CMFB\<rparr>
          else (if t8_hit (unat (tcnt c)) k (tcora c) then c\<lparr>t8_tcsr := t8_tcsr c OR T8_CMFA\<rparr> else c)) = c2"
      by (auto simp: c2_def t8_flags_def or.assoc)
    have f': "(if (ucast (tcora c) :: u32) \<le> ucast (tcorb c) then (ucast (tcora c) :: u32, 0::nat, ucast (tcorb c) :: u32)
        else (ucast (tcorb c), 2, ucast (tcora c))) = (of_nat y1, sh1, of_nat y2)"
      using f by (auto simp: f_def word_le_nat_alt unat_ucast_up split: if_splits)
    show ?thesis
      unfolding t8_incr_tcnt_def Let_def t8_incr_cond [OF k(2)] c2' f' split
      unfolding ucast_u8_of_nat 1(1) 2(1) split z
      by (simp add: ds_def t8_sound_def sound_update_def)
  qed
  moreover have "sound_total ds = k * 2 ^ shift"
    using 1(4) 2(3) by (cases "k2 = 0") (auto simp: ds_def u2)
  ultimately show ?thesis
    by (auto simp: c2_def)
qed

lemma t8_flags_event:
  "t8_flags (Suc n) c = t8_flags n c OR (if unat (tcora c) = unat (tcnt c) + n then T8_CMFA else 0)
     OR (if unat (tcorb c) = unat (tcnt c) + n then T8_CMFB else 0)"
  unfolding t8_flags_def t8_hit_Suc by auto

text \<open>A run of quiet ticks and the tick after it, which clears or wraps the counter.\<close>

lemma t8_run_event:
  assumes q: "t8_quiet n c" and ev: "t8_clear (c\<lparr>tcnt := tcnt c + of_nat n\<rparr>) \<or> unat (tcnt c) + n = 0xff"
  shows "(t8_tick ^^ Suc n) c = c\<lparr>tcnt := 0, t8_tcsr := t8_tcsr c OR t8_flags (Suc n) c
     OR (if t8_clear (c\<lparr>tcnt := tcnt c + of_nat n\<rparr>) then 0 else T8_OVF)\<rparr>"
proof -
  have le: "unat (tcnt c) + n \<le> 255"
    using q by (simp add: t8_quiet_def)
  define e where "e = tcnt c + of_nat n"
  note eq = u8_eq_unat [OF le, folded e_def]
  have ev': "t8_clear (c\<lparr>tcnt := e\<rparr>) \<or> e = 0xff"
    using ev unfolding eq by (auto simp: e_def)
  let ?d = "c\<lparr>tcnt := tcnt c + of_nat n, t8_tcsr := t8_tcsr c OR t8_flags n c\<rparr>"
  have cl: "t8_clear (c\<lparr>tcnt := e, t8_tcsr := x\<rparr>) = t8_clear (c\<lparr>tcnt := e\<rparr>)" for x
    by (simp add: t8_clear_def)
  have "(t8_tick ^^ Suc n) c = t8_tick ?d"
    by (simp add: t8_run [OF q])
  also have "\<dots> = c\<lparr>tcnt := 0, t8_tcsr := t8_tcsr c OR t8_flags (Suc n) c
     OR (if t8_clear (c\<lparr>tcnt := tcnt c + of_nat n\<rparr>) then 0 else T8_OVF)\<rparr>"
    using ev' unfolding t8_tick_def Let_def t8_flags_event eq [symmetric] e_def [symmetric] cl
    by (cases "t8_clear (c\<lparr>tcnt := e\<rparr>)") (simp_all add: or.assoc)
  finally show ?thesis .
qed


lemma t8_tick_shape [simp]:
  "t8_out (t8_tick c) = t8_out c" "last_cycles (t8_tick c) = last_cycles c"
  "t8_tcr (t8_tick c) = t8_tcr c" "my_next_cycle (t8_tick c) = my_next_cycle c"
  by (auto simp: t8_tick_def Let_def)

lemma t8_ticks_shape [simp]:
  "last_cycles ((t8_tick ^^ n) c) = last_cycles c" "t8_tcr ((t8_tick ^^ n) c) = t8_tcr c"
  "my_next_cycle ((t8_tick ^^ n) c) = my_next_cycle c"
  by (induction n) auto

text \<open>
  The three ways a round of the loop can go, with \<open>n\<close> ticks left: the counter is cleared or
  wraps after \<open>m + 1\<close> ticks, or no event is left.
\<close>

definition t8_event :: "nat \<Rightarrow> t8ch \<Rightarrow> bool" where
  "t8_event m c \<longleftrightarrow> t8_quiet m c
     \<and> (t8_clear (c\<lparr>tcnt := tcnt c + of_nat m\<rparr>) \<or> unat (tcnt c) + m = 0xff)"

lemma t8_hit_int: "uint (t :: u8) \<le> uint x \<and> uint x < uint t + int n \<longleftrightarrow> t8_hit (unat t) n x"
  for x :: u8
  unfolding t8_hit_def using uint_int_unat [of t] uint_int_unat [of x] by presburger

lemma t8_count_quiet:
  assumes "t8_quiet n c" "0 < n"
  shows "t8_count nr shift (int n) b c =
    (let r = t8_incr_tcnt nr (of_nat n) shift b c in (fst r, (snd r)\<lparr>tcnt := tcnt (snd r) + of_nat n\<rparr>))"
proof -
  note hit = t8_hit_int [of "tcnt c" _ n]
  have no: "\<not> (t8_tcr c AND (TCR_CCLR1 OR TCR_CCLR0) = TCR_CCLR0 \<and> t8_hit (unat (tcnt c)) n (tcora c))"
      "\<not> (t8_tcr c AND (TCR_CCLR1 OR TCR_CCLR0) = TCR_CCLR1 \<and> t8_hit (unat (tcnt c)) n (tcorb c))"
    using assms by (simp_all only: t8_quiet_def simp_thms)
  have "unat (tcnt c) + n \<le> 0xff" "int n \<noteq> 0"
    using assms by (simp_all add: t8_quiet_def)
  then have "\<not> 0xff < uint (tcnt c) + int n"
    using uint_int_unat [of "tcnt c"] by linarith
  with \<open>int n \<noteq> 0\<close> show ?thesis
    unfolding t8_count.simps [of nr shift "int n" b c] Let_def hit no [THEN if_not_P]
    by (simp only: if_False of_int_of_nat_eq)
qed

lemma t8_count_event:
  assumes "t8_event m c" "m < n"
  shows "t8_count nr shift (int n) b c =
    (let r = t8_incr_tcnt nr (of_nat (Suc m)) shift b
               (if t8_clear (c\<lparr>tcnt := tcnt c + of_nat m\<rparr>) then c else c\<lparr>t8_tcsr := t8_tcsr c OR T8_OVF\<rparr>)
     in t8_count nr shift (int (n - Suc m)) (fst r) ((snd r)\<lparr>tcnt := 0\<rparr>))"
proof -
  let ?A = "t8_tcr c AND (TCR_CCLR1 OR TCR_CCLR0) = TCR_CCLR0"
  let ?B = "t8_tcr c AND (TCR_CCLR1 OR TCR_CCLR0) = TCR_CCLR1"
  have le: "unat (tcnt c) + m \<le> 255" and q: "t8_quiet m c"
    using assms by (auto simp: t8_event_def t8_quiet_def)
  note eq = u8_eq_unat [OF le]
  have cl: "t8_clear (c\<lparr>tcnt := tcnt c + of_nat m\<rparr>) \<longleftrightarrow>
     ?A \<and> unat (tcora c) = unat (tcnt c) + m \<or> ?B \<and> unat (tcorb c) = unat (tcnt c) + m"
    by (simp add: t8_clear_def eq)
  note hit = t8_hit_int [of "tcnt c" _ n]
  have n0: "(int n = 0) = False" and d: "int n - int (Suc m) = int (n - Suc m)"
    using assms(2) by auto
  consider (a) "?A" "unat (tcora c) = unat (tcnt c) + m"
    | (b) "?B" "unat (tcorb c) = unat (tcnt c) + m"
    | (o) "\<not> t8_clear (c\<lparr>tcnt := tcnt c + of_nat m\<rparr>)" "unat (tcnt c) + m = 0xff"
    using assms cl unfolding t8_event_def by blast
  then show ?thesis
  proof cases
    case a
    have h: "t8_hit (unat (tcnt c)) n (tcora c)" and k: "uint (tcora c) + 1 - uint (tcnt c) = int (Suc m)"
      using a assms(2) uint_int_unat [of "tcnt c"] uint_int_unat [of "tcora c"]
      unfolding t8_hit_def by linarith+
    show ?thesis
      unfolding t8_count.simps [of nr shift "int n" b c] Let_def hit k of_int_of_nat_eq cl
      using a h assms(2) by (simp only: simp_thms if_True n0 if_False d)
  next
    case b
    have h: "t8_hit (unat (tcnt c)) n (tcorb c)" and k: "uint (tcorb c) + 1 - uint (tcnt c) = int (Suc m)"
      using b assms(2) uint_int_unat [of "tcnt c"] uint_int_unat [of "tcorb c"]
      unfolding t8_hit_def by linarith+
    have nA: "\<not> ?A" using b(1) by simp
    show ?thesis
      unfolding t8_count.simps [of nr shift "int n" b c] Let_def hit k of_int_of_nat_eq cl
      using b h assms(2) nA by (simp only: simp_thms if_True n0 if_False d)
  next
    case o
    have k: "0x100 - uint (tcnt c) = int (Suc m)" and w: "0xff < uint (tcnt c) + int n"
      using o(2) assms(2) uint_int_unat [of "tcnt c"] by linarith+
    have lt: "unat x < 256" for x :: u8
      using unat_less_2p [of x] by simp
    have "t8_hit (unat (tcnt c)) n x \<Longrightarrow> t8_hit (unat (tcnt c)) m x \<or> unat x = unat (tcnt c) + m" for x
      using o(2) lt [of x] by (auto simp: t8_hit_def)
    then have nh: "\<not> (?A \<and> t8_hit (unat (tcnt c)) n (tcora c))" "\<not> (?B \<and> t8_hit (unat (tcnt c)) n (tcorb c))"
      using o(1) q unfolding cl t8_quiet_def by blast+
    show ?thesis
      unfolding t8_count.simps [of nr shift "int n" b c] Let_def hit k of_int_of_nat_eq
      using o w by (simp only: simp_thms if_True n0 if_False d nh)
  qed
qed


lemma t8_quiet_or_event: "t8_quiet n c \<or> (\<exists>m < n. t8_event m c)"
proof (induction n)
  case 0
  then show ?case
    using unat_less_2p [of "tcnt c"] by (simp add: t8_quiet_def t8_hit_def)
next
  case (Suc n)
  have "t8_event n c" if q: "t8_quiet n c" "\<not> t8_quiet (Suc n) c"
  proof -
    have le: "unat (tcnt c) + n \<le> 255"
      using q by (simp add: t8_quiet_def)
    show ?thesis
      using q unfolding t8_event_def t8_clear_def t8_quiet_def t8_hit_Suc
      by (auto simp: u8_eq_unat [OF le])
  qed
  with Suc.IH show ?case
    using less_Suc_eq by blast
qed

text \<open>The loop of the update is the iterated tick, and the sound reports add up to the ticks.\<close>

lemma t8_count_ticks:
  assumes "n * 2 ^ shift < 2 ^ 32"
  shows "\<exists>ds x. t8_count 0 shift (int n) b c
      = (b\<lparr>sound_out := sound_out b @ ds\<rparr>, ((t8_tick ^^ n) c)\<lparr>t8_out := x\<rparr>)
    \<and> sound_total ds = n * 2 ^ shift"
  using assms
proof (induction n arbitrary: b c rule: less_induct)
  case (less n)
  consider (zero) "n = 0" | (quiet) "0 < n" "t8_quiet n c" | (event) m where "m < n" "t8_event m c"
    using t8_quiet_or_event by blast
  then show ?case
  proof cases
    case zero
    then have "t8_count 0 shift (int n) b c = (b\<lparr>sound_out := sound_out b @ []\<rparr>, ((t8_tick ^^ n) c)\<lparr>t8_out := t8_out c\<rparr>)"
      by (simp add: t8_count.simps)
    with zero show ?thesis
      by (metis mult_0 sound_total_simps(1))
  next
    case quiet
    then have "n \<le> 256"
      by (simp add: t8_quiet_def)
    from t8_incr_tcnt_sound [OF less.prems this] obtain ds x where
      "t8_incr_tcnt 0 (of_nat n) shift b c
        = (b\<lparr>sound_out := sound_out b @ ds\<rparr>, c\<lparr>t8_tcsr := t8_tcsr c OR t8_flags n c, t8_out := x\<rparr>)"
      "sound_total ds = n * 2 ^ shift"
      by blast
    moreover from this have "t8_count 0 shift (int n) b c
        = (b\<lparr>sound_out := sound_out b @ ds\<rparr>, ((t8_tick ^^ n) c)\<lparr>t8_out := x\<rparr>)"
      by (simp add: t8_count_quiet [OF quiet(2,1)] t8_run [OF quiet(2)] Let_def)
    ultimately show ?thesis
      by blast
  next
    case event
    let ?cl = "t8_clear (c\<lparr>tcnt := tcnt c + of_nat m\<rparr>)"
    define c1 where "c1 = (if ?cl then c else c\<lparr>t8_tcsr := t8_tcsr c OR T8_OVF\<rparr>)"
    have c1: "t8_flags k c1 = t8_flags k c" for k
      by (simp add: t8_flags_def c1_def)
    have m: "Suc m \<le> 256"
      using event by (simp add: t8_event_def t8_quiet_def)
    have sum: "Suc m * 2 ^ shift + (n - Suc m) * 2 ^ shift = n * 2 ^ shift"
      using event(1) by (metis Suc_leI add_mult_distrib le_add_diff_inverse)
    then have "Suc m * 2 ^ shift < 2 ^ 32" and rest: "(n - Suc m) * 2 ^ shift < 2 ^ 32"
      using less.prems by linarith+
    with m obtain ds x where 1:
      "t8_incr_tcnt 0 (of_nat (Suc m)) shift b c1
        = (b\<lparr>sound_out := sound_out b @ ds\<rparr>, c1\<lparr>t8_tcsr := t8_tcsr c1 OR t8_flags (Suc m) c1, t8_out := x\<rparr>)"
      "sound_total ds = Suc m * 2 ^ shift"
      using t8_incr_tcnt_sound [of "Suc m" shift b c1] by blast
    have "c1\<lparr>t8_tcsr := t8_tcsr c1 OR t8_flags (Suc m) c1, t8_out := x\<rparr>\<lparr>tcnt := 0\<rparr>
        = ((t8_tick ^^ Suc m) c)\<lparr>t8_out := x\<rparr>"
      using event(2) unfolding t8_event_def c1
      by (subst t8_run_event) (auto simp: c1_def or.assoc or.commute or.left_commute)
    then have step: "t8_count 0 shift (int n) b c = t8_count 0 shift (int (n - Suc m))
        (b\<lparr>sound_out := sound_out b @ ds\<rparr>) (((t8_tick ^^ Suc m) c)\<lparr>t8_out := x\<rparr>)"
      unfolding t8_count_event [OF event(2,1)] c1_def [symmetric] 1(1) Let_def fst_conv snd_conv by simp
    obtain ds' x' where 2:
      "t8_count 0 shift (int (n - Suc m)) (b\<lparr>sound_out := sound_out b @ ds\<rparr>) (((t8_tick ^^ Suc m) c)\<lparr>t8_out := x\<rparr>)
        = (b\<lparr>sound_out := sound_out b @ ds @ ds'\<rparr>,
           ((t8_tick ^^ (n - Suc m)) (((t8_tick ^^ Suc m) c)\<lparr>t8_out := x\<rparr>))\<lparr>t8_out := x'\<rparr>)"
      "sound_total ds' = (n - Suc m) * 2 ^ shift"
      using less.IH [OF _ rest, of "b\<lparr>sound_out := sound_out b @ ds\<rparr>" "((t8_tick ^^ Suc m) c)\<lparr>t8_out := x\<rparr>"] event(1)
      by auto
    have "(t8_tick ^^ (n - Suc m)) ((t8_tick ^^ Suc m) c) = (t8_tick ^^ n) c"
      using event(1) by (metis Suc_leI comp_apply funpow_add le_add_diff_inverse2)
    then have "t8_count 0 shift (int n) b c
        = (b\<lparr>sound_out := sound_out b @ ds @ ds'\<rparr>, ((t8_tick ^^ n) c)\<lparr>t8_out := x'\<rparr>)"
      unfolding step 2(1) t8_ticks_out by simp
    moreover have "sound_total (ds @ ds') = n * 2 ^ shift"
      using 1(2) 2(2) sum by simp
    ultimately show ?thesis
      by blast
  qed
qed


section \<open>The update and its deadline\<close>

definition t8_elapsed :: "bus \<Rightarrow> t8 \<Rightarrow> nat" where
  "t8_elapsed b s = unat (cycles b - last_cycles (t8_ch0 s))"

abbreviation t8_shift :: "t8 \<Rightarrow> nat" where
  "t8_shift s \<equiv> t8_freq 0 (stcr s) (t8_tcr (t8_ch0 s))"

lemma t8_check_next_cycle_sel [simp]:
  "cycles (fst (t8_check_next_cycle b s)) = cycles b"
  "next_nmi_cycle (fst (t8_check_next_cycle b s)) = next_nmi_cycle b"
  "sound_out (fst (t8_check_next_cycle b s)) = sound_out b"
  "stcr (snd (t8_check_next_cycle b s)) = stcr s"
  "t8_ch1 (snd (t8_check_next_cycle b s)) = t8_ch1 s"
  by (auto simp: t8_check_next_cycle_def Let_def)

lemma t8_check_next_cycle_ch0:
  obtains y where "t8_ch0 (snd (t8_check_next_cycle b s)) = (t8_ch0 s)\<lparr>my_next_cycle := y\<rparr>"
proof
  show "t8_ch0 (snd (t8_check_next_cycle b s)) =
      (t8_ch0 s)\<lparr>my_next_cycle := my_next_cycle (t8_ch0 (snd (t8_check_next_cycle b s)))\<rparr>"
    by (auto simp: t8_check_next_cycle_def Let_def)
qed

lemma t8_incr_small:
  assumes "t8_elapsed b s < 2 ^ 31"
  shows "sint (ucast (drop_bit n (cycles b - last_cycles (t8_ch0 s))) :: u32) = int (t8_elapsed b s div 2 ^ n)"
    and "scast (push_bit n (ucast (drop_bit n (cycles b - last_cycles (t8_ch0 s))) :: u32))
       = (of_nat (t8_elapsed b s div 2 ^ n * 2 ^ n) :: u64)"
proof -
  define e where "e = t8_elapsed b s"
  have w: "cycles b - last_cycles (t8_ch0 s) = of_nat e"
    by (simp add: e_def t8_elapsed_def)
  have e: "e < 2 ^ 31"
    using assms by (simp add: e_def)
  then have small: "e div 2 ^ n < 2 ^ 31" "e div 2 ^ n * 2 ^ n < 2 ^ 31"
    using div_le_dividend [of e "2 ^ n"] div_times_less_eq_dividend [of e "2 ^ n"] by linarith+
  have "drop_bit n (of_nat e :: u64) = of_nat (e div 2 ^ n)"
    using e small(1) unat_drop_bit_eq [of n "of_nat e :: u64"]
    by (simp only: word_unat_eq_iff) (simp add: unat_of_nat take_bit_nat_eq_self drop_bit_eq_div)
  then have i: "(ucast (drop_bit n (of_nat e :: u64)) :: u32) = of_nat (e div 2 ^ n)"
    using small(1) by (simp add: unsigned_of_nat take_bit_nat_eq_self)
  show "sint (ucast (drop_bit n (cycles b - last_cycles (t8_ch0 s))) :: u32) = int (t8_elapsed b s div 2 ^ n)"
    unfolding w i e_def [symmetric] by (rule sint_of_nat_small [OF small(1)])
  show "scast (push_bit n (ucast (drop_bit n (cycles b - last_cycles (t8_ch0 s))) :: u32))
       = (of_nat (t8_elapsed b s div 2 ^ n * 2 ^ n) :: u64)"
    unfolding w i e_def [symmetric] push_bit_of_nat_word by (rule scast_of_nat_small [OF small(2)])
qed


lemma t8_update_cases:
  assumes "t8_elapsed b s < 2 ^ 31"
  obtains
    (stopped) "t8_shift s = 31"
      "t8_update_time b s = t8_check_next_cycle
         (sound_update (t8_out (t8_ch0 s)) (of_nat (t8_elapsed b s)) b)
         (s\<lparr>t8_ch0 := (t8_ch0 s)\<lparr>last_cycles := cycles b\<rparr>\<rparr>)"
  | (early) "t8_shift s \<noteq> 31" "cycles b < my_next_cycle (t8_ch0 s)"
      "t8_update_time b s = t8_check_next_cycle b s"
  | (run) n ds x where "t8_shift s \<noteq> 31" "my_next_cycle (t8_ch0 s) \<le> cycles b"
      "n = t8_elapsed b s div 2 ^ t8_shift s" "sound_total ds = n * 2 ^ t8_shift s"
      "t8_update_time b s = t8_check_next_cycle (b\<lparr>sound_out := sound_out b @ ds\<rparr>)
         (s\<lparr>t8_ch0 := ((t8_tick ^^ n) (t8_ch0 s))
            \<lparr>last_cycles := last_cycles (t8_ch0 s) + of_nat (n * 2 ^ t8_shift s), t8_out := x\<rparr>\<rparr>)"
proof (cases "t8_shift s = 31")
  case True
  have "(ucast (cycles b - last_cycles (t8_ch0 s)) :: u32) = of_nat (t8_elapsed b s)"
    by (simp add: t8_elapsed_def)
  with True show ?thesis
    by (intro stopped) (simp_all add: t8_update_time_def t8_sound_def Let_def)
next
  case False
  define n where "n = t8_elapsed b s div 2 ^ t8_shift s"
  show ?thesis
  proof (cases "cycles b < my_next_cycle (t8_ch0 s)")
    case True
    with False show ?thesis
      by (intro early) (simp_all add: t8_update_time_def Let_def)
  next
    case late: False
    have "n * 2 ^ t8_shift s < 2 ^ 31"
      unfolding n_def by (rule le_less_trans [OF div_times_less_eq_dividend assms])
    then have "n * 2 ^ t8_shift s < 2 ^ 32"
      by simp
    then obtain ds x where "t8_count 0 (t8_shift s) (int n) b
        ((t8_ch0 s)\<lparr>last_cycles := last_cycles (t8_ch0 s) + of_nat (n * 2 ^ t8_shift s)\<rparr>)
      = (b\<lparr>sound_out := sound_out b @ ds\<rparr>, ((t8_tick ^^ n)
          ((t8_ch0 s)\<lparr>last_cycles := last_cycles (t8_ch0 s) + of_nat (n * 2 ^ t8_shift s)\<rparr>))\<lparr>t8_out := x\<rparr>)"
      and "sound_total ds = n * 2 ^ t8_shift s"
      using t8_count_ticks by blast
    with False late t8_incr_small [OF assms, of "t8_shift s", folded n_def] show ?thesis
      by (intro run [of n ds x]) (simp_all add: t8_update_time_def n_def t8_ticks_last Let_def del: of_nat_mult)
  qed
qed

lemma t8_check_irq_255:
  "t8_check_irq s = 255 \<longleftrightarrow>
     (t8_tcsr (t8_ch0 s) AND t8_tcr (t8_ch0 s) OR t8_tcsr (t8_ch1 s) AND t8_tcr (t8_ch1 s)) AND 0xe0 = 0"
proof -
  have e0: "(0xe0 :: u8) = push_bit 5 (mask 3)"
    by (simp add: mask_eq_decr_exp)
  show ?thesis
    unfolding e0 u8_eq_iff
    by (simp add: t8_check_irq_def Let_def upt_rec bit_simps e0 split: list.splits)
qed

lemma t8_check_next_cycle_irq [simp]: "t8_check_irq (snd (t8_check_next_cycle b s)) = t8_check_irq s"
  by (auto simp: t8_check_next_cycle_def Let_def t8_check_irq_def)

lemma t8_check_next_cycle_pending:
  "t8_check_irq s \<noteq> 255 \<Longrightarrow> next_timer_cycle (fst (t8_check_next_cycle b s)) = cycles b"
  by (simp add: t8_check_irq_255 t8_check_next_cycle_def Let_def)

lemma t8_freq_le: "t8_freq 0 st tc = 31 \<or> t8_freq 0 st tc \<le> 10"
proof -
  let ?i = "(tc AND 7) OR push_bit 3 (st AND 1)"
  have "tc AND 7 \<le> 7" "push_bit 3 (st AND 1) \<le> 8"
    using word_and_le1 [of tc 7] by (simp_all add: and_one_eq mod_2_eq_odd)
  then have "uint (tc AND 7) \<le> 7" "uint (push_bit 3 (st AND 1)) \<le> 8"
    by (simp_all add: word_le_def)
  then have "uint ?i < 2 ^ 4"
    unfolding unsigned_or_eq by (intro OR_upper) auto
  then have "unat ?i < 2 ^ 4"
    by (simp only: uint_int_unat of_nat_less_numeral_power_cancel_iff)
  then have "unat ?i < 16"
    by (rule less_le_trans) simp
  moreover have "length t8_freq_table = 16" "list_all (\<lambda>x. x = 31 \<or> x \<le> 10) t8_freq_table"
    by (simp_all add: t8_freq_table_def)
  ultimately show ?thesis
    by (simp add: t8_freq_def list_all_length)
qed

lemma t8_next_bounds:
  assumes "sh \<le> 10"
  shows "- (2 ^ 18) \<le> t8_next c sh" and "t8_next c sh \<le> 2 ^ 18"
proof -
  have p: "(2 :: int) ^ sh \<le> 2 ^ 10" "(0 :: int) < 2 ^ sh"
    using assms by (simp_all only: power_increasing zero_less_power)
  have u: "0 \<le> uint x" "uint x \<le> 255" for x :: u8
    using uint_lt2p [of x] by simp_all
  have lo: "- (2 ^ 18) \<le> d * 2 ^ sh" if "- 256 \<le> d" for d :: int
  proof -
    have "- 256 * 2 ^ 10 \<le> - 256 * (2 :: int) ^ sh"
      using p by simp
    also have "\<dots> \<le> d * 2 ^ sh"
      using that p by (intro mult_right_mono) auto
    finally show ?thesis by simp
  qed
  have "- 256 \<le> 0x100 - uint x" "- 256 \<le> uint y + 1 - uint x" for x y :: u8
    using u [of x] u [of y] by linarith+
  then show "- (2 ^ 18) \<le> t8_next c sh"
    by (auto simp: t8_next_def Let_def intro!: lo [simplified])
  show "t8_next c sh \<le> 2 ^ 18"
    by (auto simp: t8_next_def Let_def)
qed

definition t8_ok :: "bus \<Rightarrow> t8 \<Rightarrow> bool" where
  "t8_ok b s \<longleftrightarrow> recent (last_cycles (t8_ch0 s)) b \<and> 2 ^ 18 \<le> uint (last_cycles (t8_ch0 s))
     \<and> uint (cycles b) - uint (last_cycles (t8_ch0 s)) < 2 ^ 29"

lemma t8_check_deadline:
  assumes "t8_ok b s"
    and near: "near_deadline b"
  shows "uint (next_timer_cycle (fst (t8_check_next_cycle b s))) \<le> uint (next_timer_cycle b)
         \<or> next_timer_cycle (fst (t8_check_next_cycle b s)) = cycles b"
    and "near_deadline (fst (t8_check_next_cycle b s))"
proof -
  note last = assms(1) [unfolded t8_ok_def]
  let ?l = "last_cycles (t8_ch0 s)" and ?n = "t8_next (t8_ch0 s) (t8_shift s)"
  let ?b = "fst (t8_check_next_cycle b s)"
  let ?P = "(uint (next_timer_cycle ?b) \<le> uint (next_timer_cycle b) \<or> next_timer_cycle ?b = cycles b)
     \<and> near_deadline ?b"
  have ?P if "t8_check_irq s = 255" "t8_shift s \<noteq> 31"
  proof -
    define n l where "n = ?n" and "l = ?l"
    have n: "- (2 ^ 18) \<le> n" "n \<le> 2 ^ 18"
      using t8_next_bounds that(2) t8_freq_le unfolding n_def by blast+
    have "?l + of_int ?n = of_int (uint ?l + ?n)"
      by simp
    then have "uint (?l + of_int ?n) = (uint ?l + ?n) mod 2 ^ 64"
      by (simp only: uint_word_of_int) simp
    also have "\<dots> = uint ?l + ?n"
      using last near n unfolding n_def
      by (intro mod_pos_pos_trivial) (simp_all add: recent_def near_deadline_def)
    finally have at: "uint (?l + of_int ?n) = uint l + n"
      by (simp add: l_def n_def)
    have d: "sint (int32_of (next_timer_cycle b - ?l)) = uint (next_timer_cycle b) - uint l"
      unfolding l_def using last near by (intro sint_int32_of_diff) (auto simp: recent_def near_deadline_def abs_less_iff)
    have "uint (next_timer_cycle ?b) = min (uint (next_timer_cycle b)) (uint l + n)"
      using that d at unfolding t8_check_irq_255
      by (auto simp: t8_check_next_cycle_def Let_def min_def simp flip: n_def l_def)
    then show ?thesis
      using last near n by (auto simp: near_deadline_def recent_def abs_less_iff min_def simp flip: l_def)
  qed
  moreover have ?P if "t8_check_irq s = 255" "t8_shift s = 31"
    using that near by (simp add: t8_check_irq_255 t8_check_next_cycle_def Let_def)
  moreover have ?P if "t8_check_irq s \<noteq> 255"
    using near by (simp add: t8_check_next_cycle_pending [OF that] near_deadline_def)
  ultimately show "uint (next_timer_cycle ?b) \<le> uint (next_timer_cycle b) \<or> next_timer_cycle ?b = cycles b"
    and "near_deadline ?b"
    by blast+
qed


lemma t8_ok_elapsed:
  assumes "t8_ok b s"
  shows "int (t8_elapsed b s) = uint (cycles b) - uint (last_cycles (t8_ch0 s))" and "t8_elapsed b s < 2 ^ 31"
proof -
  show 1: "int (t8_elapsed b s) = uint (cycles b) - uint (last_cycles (t8_ch0 s))"
    using assms by (simp add: t8_ok_def recent_def t8_elapsed_def uint_sub_if' unat_eq_nat_uint)
  have "int (t8_elapsed b s) < 2 ^ 31"
    unfolding 1 using assms by (simp add: t8_ok_def)
  then show "t8_elapsed b s < 2 ^ 31"
    by simp
qed

text \<open>Every update hands a state that satisfies \<open>t8_ok\<close> to \<open>t8_check_next_cycle\<close>.\<close>

lemma t8_update_ok:
  assumes "t8_ok b s"
  obtains ds s' where "t8_update_time b s = t8_check_next_cycle (b\<lparr>sound_out := sound_out b @ ds\<rparr>) s'"
    "t8_ok b s'" "last_cycles (t8_ch0 s') = last_cycles (t8_ch0 s) + of_nat (sound_total ds)"
    "sound_total ds \<le> t8_elapsed b s"
proof -
  note el = t8_ok_elapsed [OF assms]
  have adv: "t8_ok b s'" if "last_cycles (t8_ch0 s') = last_cycles (t8_ch0 s) + of_nat k" "k \<le> t8_elapsed b s"
    for s' k
  proof -
    have r: "recent (last_cycles (t8_ch0 s)) b" and k: "int k \<le> uint (cycles b) - uint (last_cycles (t8_ch0 s))"
      using assms that(2) el(1) by (simp_all add: t8_ok_def)
    note recent_advance [OF r k]
    then show ?thesis
      using assms that(1) by (simp add: t8_ok_def)
  qed
  show ?thesis
    using el(2)
  proof (cases rule: t8_update_cases)
    case stopped
    have "unat (of_nat (t8_elapsed b s) :: u32) = t8_elapsed b s"
      using el(2) by (simp add: unat_of_nat take_bit_nat_eq_self)
    moreover have "cycles b = last_cycles (t8_ch0 s) + of_nat (t8_elapsed b s)"
      by (simp add: t8_elapsed_def)
    ultimately show ?thesis
      using stopped
      by (intro that [of "[(t8_out (t8_ch0 s), of_nat (t8_elapsed b s))]"
              "s\<lparr>t8_ch0 := (t8_ch0 s)\<lparr>last_cycles := cycles b\<rparr>\<rparr>"] adv [of _ "t8_elapsed b s"])
        (simp_all add: sound_update_def)
  next
    case early
    then show ?thesis
      using assms by (intro that [of "[]" s]) simp_all
  next
    case (run n ds x)
    then have "sound_total ds \<le> t8_elapsed b s"
      by simp
    with run(5) show ?thesis
      unfolding run(4) [symmetric] by (intro that [OF run(5) [folded run(4)]] adv [of _ "sound_total ds"]) simp_all
  qed
qed

text \<open>In every state the update changes nothing of the shared state but the sound log and the deadline.\<close>

lemma silent_pass:
  "(fst (t8_pass nr shift x sh r))\<lparr>sound_out := []\<rparr> = (fst r)\<lparr>sound_out := []\<rparr>"
  by (cases r) (simp add: t8_pass_def t8_sound_def sound_update_def)

lemma silent_incr:
  "(fst (t8_incr_tcnt nr incr shift b c))\<lparr>sound_out := []\<rparr> = b\<lparr>sound_out := []\<rparr>"
  by (simp add: t8_incr_tcnt_def Let_def split_beta t8_sound_def sound_update_def silent_pass)

lemma silent_count: "(fst (t8_count nr shift incr b c))\<lparr>sound_out := []\<rparr> = b\<lparr>sound_out := []\<rparr>"
proof (induction nr shift incr b c rule: t8_count.induct)
  case (1 nr shift incr b c)
  then show ?case
    by (subst t8_count.simps) (simp add: Let_def silent_incr)
qed

lemma t8_update_shape:
  obtains b' s' where "t8_update_time b s = t8_check_next_cycle b' s'" "cycles b' = cycles b"
    "next_nmi_cycle b' = next_nmi_cycle b"
proof -
  let ?c = "t8_ch0 s"
  define r where "r = (if t8_shift s = 31 then
      (t8_sound 0 (t8_out ?c) (ucast (cycles b - last_cycles ?c)) b, ?c\<lparr>last_cycles := cycles b\<rparr>)
    else if cycles b < my_next_cycle ?c then (b, ?c)
    else let incr = ucast (drop_bit (t8_shift s) (cycles b - last_cycles ?c)) :: u32
      in t8_count 0 (t8_shift s) (sint incr) b
           (?c\<lparr>last_cycles := last_cycles ?c + scast (push_bit (t8_shift s) incr)\<rparr>))"
  have upd: "t8_update_time b s = t8_check_next_cycle (fst r) (s\<lparr>t8_ch0 := snd r\<rparr>)"
    unfolding t8_update_time_def Let_def r_def split_beta by simp
  have silent: "(fst r)\<lparr>sound_out := []\<rparr> = b\<lparr>sound_out := []\<rparr>"
    by (simp add: r_def Let_def silent_count t8_sound_def sound_update_def)
  have "cycles (fst r) = cycles b" "next_nmi_cycle (fst r) = next_nmi_cycle b"
    using arg_cong [OF silent, of cycles] arg_cong [OF silent, of next_nmi_cycle] by simp_all
  with upd show ?thesis
    by (rule that)
qed

interpretation t8_irq: irq_source t8_update_time t8_check_irq t8_ok
proof unfold_locales
  fix b b' :: bus and s :: t8
  let ?c = "fst (t8_update_time b s)"
  show ok: "t8_ok b s = t8_ok b' s" if "cycles b = cycles b'"
    using that by (simp add: t8_ok_def recent_def)
  obtain b1 s1 where 1: "t8_update_time b s = t8_check_next_cycle b1 s1" "cycles b1 = cycles b"
    "next_nmi_cycle b1 = next_nmi_cycle b"
    by (rule t8_update_shape)
  then show "cycles ?c = cycles b" and "next_nmi_cycle ?c = next_nmi_cycle b"
    by simp_all
  show "next_timer_cycle ?c = cycles b" if "t8_check_irq (snd (t8_update_time b s)) \<noteq> 255"
    using 1 that by (simp add: t8_check_next_cycle_pending)
  assume "t8_ok b s" "near_deadline b"
  from \<open>t8_ok b s\<close> obtain ds s' where *: "t8_update_time b s = t8_check_next_cycle (b\<lparr>sound_out := sound_out b @ ds\<rparr>) s'" "t8_ok b s'"
    by (rule t8_update_ok)
  let ?b = "b\<lparr>sound_out := sound_out b @ ds\<rparr>"
  have "t8_ok ?b s'" "near_deadline ?b"
    using *(2) \<open>near_deadline b\<close> by (simp_all add: t8_ok_def recent_def near_deadline_def)
  from t8_check_deadline [OF this]
  show "uint (next_timer_cycle ?c) \<le> uint (next_timer_cycle b) \<or> next_timer_cycle ?c = cycles b"
    and "near_deadline ?c"
    by (simp_all add: *(1))
qed

lemma t8_update_ticks:
  assumes "t8_elapsed b s < 2 ^ 31" and "t8_freq 0 (stcr s) (t8_tcr (t8_ch0 s)) = k" and "k \<noteq> 31"
    and "my_next_cycle (t8_ch0 s) \<le> cycles b"
  shows "tcnt (t8_ch0 (snd (t8_update_time b s))) = tcnt ((t8_tick ^^ (t8_elapsed b s div 2 ^ k)) (t8_ch0 s))
    \<and> t8_tcsr (t8_ch0 (snd (t8_update_time b s))) = t8_tcsr ((t8_tick ^^ (t8_elapsed b s div 2 ^ k)) (t8_ch0 s))
    \<and> t8_elapsed b (snd (t8_update_time b s)) = t8_elapsed b s mod 2 ^ k
    \<and> t8_tcr (t8_ch0 (snd (t8_update_time b s))) = t8_tcr (t8_ch0 s)
    \<and> t8_ch1 (snd (t8_update_time b s)) = t8_ch1 s"
  using assms(1)
proof (cases rule: t8_update_cases)
  case (run n ds x)
  define c' where "c' = ((t8_tick ^^ n) (t8_ch0 s))
    \<lparr>last_cycles := last_cycles (t8_ch0 s) + of_nat (n * 2 ^ t8_shift s), t8_out := x\<rparr>"
  obtain y where y: "t8_ch0 (snd (t8_update_time b s)) = c'\<lparr>my_next_cycle := y\<rparr>"
    using t8_check_next_cycle_ch0 [of "b\<lparr>sound_out := sound_out b @ ds\<rparr>" "s\<lparr>t8_ch0 := c'\<rparr>"]
    by (auto simp: run(5) c'_def)
  have "cycles b - (last_cycles (t8_ch0 s) + of_nat (n * 2 ^ k))
      = (of_nat (t8_elapsed b s) :: u64) - of_nat (n * 2 ^ k)"
    by (simp add: t8_elapsed_def diff_diff_add)
  also have "\<dots> = of_nat (t8_elapsed b s mod 2 ^ k)"
    using run(3) assms(2) by (simp add: minus_div_mult_eq_mod [symmetric] of_nat_diff)
  finally have "unat (cycles b - (last_cycles (t8_ch0 s) + of_nat (n * 2 ^ k)))
      = unat (of_nat (t8_elapsed b s mod 2 ^ k) :: u64)"
    by simp
  also have "\<dots> = t8_elapsed b s mod 2 ^ k"
    using assms(1) le_less_trans [OF mod_less_eq_dividend [of "t8_elapsed b s" "2 ^ k"], of "2 ^ 64"]
    by (simp add: unat_of_nat)
  finally show ?thesis
    using run(3) assms(2)
    by (simp add: y c'_def t8_elapsed_def [of b "snd (t8_update_time b s)"]) (simp add: run(5))
qed (use assms in auto)

section \<open>Properties\<close>

text \<open>
  C15. Unless it is stopped or called before \<open>my_next_cycle\<close>, the update of the 8-bit timer has on
  counter and status the effect of the whole ticks that elapsed, each executed by the
  reference \<open>t8_tick\<close>, and it leaves as not yet counted exactly the remainder of the cycles.
\<close>

theorem t8_update_time_ticks:
  assumes "t8_elapsed b s < 2 ^ 31" and "t8_freq 0 (stcr s) (t8_tcr (t8_ch0 s)) = k" and "k \<noteq> 31"
    and "my_next_cycle (t8_ch0 s) \<le> cycles b"
  shows "tcnt (t8_ch0 (snd (t8_update_time b s))) = tcnt ((t8_tick ^^ (t8_elapsed b s div 2 ^ k)) (t8_ch0 s))
    \<and> t8_tcsr (t8_ch0 (snd (t8_update_time b s))) = t8_tcsr ((t8_tick ^^ (t8_elapsed b s div 2 ^ k)) (t8_ch0 s))
    \<and> t8_elapsed b (snd (t8_update_time b s)) = t8_elapsed b s mod 2 ^ k"
  using t8_update_ticks [OF assms] by blast

definition t8_ex :: t8 where
  "t8_ex = \<lparr>t8_ch0 = \<lparr>tcnt = 0, t8_tcr = 0x41, t8_tcsr = 0x10, tcora = 10, tcorb = 200, t8_out = 0,
       last_cycles = 0x100000, my_next_cycle = 0x100000\<rparr>,
     t8_ch1 = \<lparr>tcnt = 0, t8_tcr = 0, t8_tcsr = 0x10, tcora = 0xff, tcorb = 0xff, t8_out = 0,
       last_cycles = 0x100000, my_next_cycle = 0\<rparr>, stcr = 0xf8\<rparr>"

definition t8_bus_ex :: "u64 \<Rightarrow> bus" where
  "t8_bus_ex c = \<lparr>cycles = c, next_timer_cycle = 0x180000, next_nmi_cycle = 0x180000, gui_out = [],
     ser_out = [], sound_out = []\<rparr>"

lemma t8_ex_simps:
  "t8_freq 0 (stcr t8_ex) (t8_tcr (t8_ch0 t8_ex)) = 3" "my_next_cycle (t8_ch0 t8_ex) = 0x100000"
  "t8_elapsed (t8_bus_ex 0x10005a) t8_ex = 90"
  "(t8_tick ^^ 11) (t8_ch0 t8_ex) = (t8_ch0 t8_ex)\<lparr>tcnt := 11, t8_tcsr := 0x50\<rparr>"
proof -
  show "t8_freq 0 (stcr t8_ex) (t8_tcr (t8_ch0 t8_ex)) = 3"
    by (simp add: t8_freq_def t8_freq_table_def t8_ex_def)
  show "my_next_cycle (t8_ch0 t8_ex) = 0x100000" "t8_elapsed (t8_bus_ex 0x10005a) t8_ex = 90"
    by (simp_all add: t8_ex_def t8_elapsed_def t8_bus_ex_def)
  have "t8_quiet 11 (t8_ch0 t8_ex)"
    by (simp add: t8_quiet_def t8_hit_def t8_ex_def)
  from t8_run [OF this] show "(t8_tick ^^ 11) (t8_ch0 t8_ex) = (t8_ch0 t8_ex)\<lparr>tcnt := 11, t8_tcsr := 0x50\<rparr>"
    by (simp add: t8_flags_def t8_hit_def t8_ex_def)
qed

theorem t8_update_time_ticks_witness:
  "tcnt (t8_ch0 (snd (t8_update_time (t8_bus_ex 0x10005a) t8_ex))) = 11
    \<and> t8_tcsr (t8_ch0 (snd (t8_update_time (t8_bus_ex 0x10005a) t8_ex))) = 0x50
    \<and> t8_elapsed (t8_bus_ex 0x10005a) (snd (t8_update_time (t8_bus_ex 0x10005a) t8_ex)) = 2"
  using t8_update_time_ticks [of "t8_bus_ex 0x10005a" t8_ex 3] t8_ex_simps by (simp add: t8_bus_ex_def)

text \<open>
  The durations a timer update reports to the sound driver add up to exactly the cycles by
  which it moves \<open>last_cycles\<close> forward, whatever compare registers the counter passed.
\<close>

theorem t8_sound_complete:
  assumes "t8_ok b s"
  shows "\<exists>ds. sound_out (fst (t8_update_time b s)) = sound_out b @ ds
    \<and> last_cycles (t8_ch0 (snd (t8_update_time b s))) = last_cycles (t8_ch0 s) + of_nat (sound_total ds)
    \<and> sound_total ds \<le> t8_elapsed b s"
proof -
  obtain ds s' where 1: "t8_update_time b s = t8_check_next_cycle (b\<lparr>sound_out := sound_out b @ ds\<rparr>) s'"
    "last_cycles (t8_ch0 s') = last_cycles (t8_ch0 s) + of_nat (sound_total ds)"
    "sound_total ds \<le> t8_elapsed b s"
    using assms by (rule t8_update_ok)
  obtain y where "t8_ch0 (snd (t8_update_time b s)) = (t8_ch0 s')\<lparr>my_next_cycle := y\<rparr>"
    unfolding 1(1) by (rule t8_check_next_cycle_ch0)
  with 1 show ?thesis
    by (intro exI [of _ ds]) simp
qed

theorem t8_sound_complete_witness:
  "\<exists>ds. sound_out (fst (t8_update_time (t8_bus_ex 0x10005a) t8_ex)) = ds
    \<and> last_cycles (t8_ch0 (snd (t8_update_time (t8_bus_ex 0x10005a) t8_ex))) = 0x100000 + of_nat (sound_total ds)
    \<and> sound_total ds \<le> 90"
proof -
  have "t8_ok (t8_bus_ex 0x10005a) t8_ex"
    by (simp add: t8_ok_def recent_def t8_bus_ex_def t8_ex_def)
  moreover have "sound_out (t8_bus_ex 0x10005a) = []" "last_cycles (t8_ch0 t8_ex) = 0x100000"
    by (simp_all add: t8_bus_ex_def t8_ex_def)
  ultimately show ?thesis
    using t8_sound_complete [of "t8_bus_ex 0x10005a" t8_ex] t8_ex_simps(3) by simp
qed

text \<open>
  A compare-match interrupt of the 8-bit timer is not scheduled: \<open>t8_check_next_cycle\<close> tests
  the enable bits \<open>CMIEA\<close> and \<open>CMIEB\<close> in the status register. Here the interrupt is enabled and
  the match is 88 cycles away, the deadline is left 2048 cycles away; an update after 90 cycles
  has the interrupt pending.
\<close>

theorem t8_compare_match_not_scheduled:
  "next_timer_cycle (fst (t8_check_next_cycle (t8_bus_ex 0x100000) t8_ex)) = 0x100800
    \<and> t8_check_irq (snd (t8_update_time (t8_bus_ex 0x10005a) t8_ex)) = 20"
proof -
  have "t8_next (t8_ch0 t8_ex) 3 = 0x800"
    by (simp add: t8_next_def t8_ex_def)
  moreover have "sint (int32_of (next_timer_cycle (t8_bus_ex 0x100000) - last_cycles (t8_ch0 t8_ex))) = 0x80000"
    by (simp add: t8_bus_ex_def t8_ex_def int32_of_def)
  moreover have "(t8_tcsr (t8_ch0 t8_ex) AND t8_tcr (t8_ch0 t8_ex) OR t8_tcsr (t8_ch1 t8_ex) AND t8_tcr (t8_ch1 t8_ex)) AND 0xe0 = 0"
    by (simp add: t8_ex_def)
  moreover have "last_cycles (t8_ch0 t8_ex) = 0x100000"
    by (simp add: t8_ex_def)
  ultimately have "next_timer_cycle (fst (t8_check_next_cycle (t8_bus_ex 0x100000) t8_ex)) = 0x100800"
    by (simp add: t8_check_next_cycle_def Let_def t8_ex_simps)
  moreover have "t8_check_irq (snd (t8_update_time (t8_bus_ex 0x10005a) t8_ex)) = 20"
    using t8_update_ticks [of "t8_bus_ex 0x10005a" t8_ex 3] t8_ex_simps
    by (simp add: t8_bus_ex_def t8_check_irq_def upt_rec) (simp add: t8_ex_def)
  ultimately show ?thesis ..
qed

end
