(* ===== verification/Watchdog.thy ===== *)
theory Watchdog
  imports Base
begin

text \<open>
  The watchdog timer, \<^verbatim>\<open>watchdog.c\<close>. In watchdog mode an overflow ends in a reset or an NMI a
  fixed time after the counter wrapped; in interval mode the counter goes on. The properties say
  when the overflow happens and that the deadlines it asks for are not late.
\<close>

section \<open>State and operations\<close>

record wdog =
  wd_tcsr :: u8
  readtcsr :: u8
  wd_tcnt :: u8
  pw :: u8
  wd_last_cycles :: u64

abbreviation WD_OVF :: u8 where "WD_OVF \<equiv> 0x80"
abbreviation WD_WTIT :: u8 where "WD_WTIT \<equiv> 0x40"
abbreviation WD_TME :: u8 where "WD_TME \<equiv> 0x20"
abbreviation WD_RST :: u8 where "WD_RST \<equiv> 0x08"

definition wd_freq :: "u8 \<Rightarrow> nat" where
  "wd_freq t = [1, 5, 6, 7, 8, 9, 11, 12] ! unat (t AND 7)"

record wdog_save_type =
  svw_last_cycles :: u64
  svw_tcsr :: u8
  svw_readtcsr :: u8
  svw_tcnt :: u8
  svw_pw :: u8

definition wdog_save :: "wdog \<Rightarrow> wdog_save_type" where
  "wdog_save s = \<lparr>svw_last_cycles = htonl_cc (wd_last_cycles s), svw_tcsr = wd_tcsr s,
     svw_readtcsr = readtcsr s, svw_tcnt = wd_tcnt s, svw_pw = pw s\<rparr>"

definition wdog_load :: "wdog_save_type \<Rightarrow> wdog" where
  "wdog_load d = \<lparr>wd_tcsr = svw_tcsr d, readtcsr = svw_readtcsr d, wd_tcnt = svw_tcnt d,
     pw = svw_pw d, wd_last_cycles = htonl_cc (svw_last_cycles d)\<rparr>"

definition wdog_reset :: "bus \<Rightarrow> wdog" where
  "wdog_reset b = \<lparr>wd_tcsr = 0x10, readtcsr = 0x10, wd_tcnt = 0, pw = 0, wd_last_cycles = cycles b\<rparr>"

definition wdog_check_next_cycle :: "bus \<Rightarrow> wdog \<Rightarrow> bus" where
  "wdog_check_next_cycle b s =
    (if wd_tcsr s AND WD_TME \<noteq> 0 then
       let next_cycle = wd_last_cycles s + push_bit (wd_freq (wd_tcsr s)) (0x100 - ucast (wd_tcnt s));
           b1 = (if next_cycle < next_nmi_cycle b then b\<lparr>next_nmi_cycle := next_cycle\<rparr> else b)
       in if next_cycle < next_timer_cycle b1 then b1\<lparr>next_timer_cycle := next_cycle\<rparr> else b1
     else b)"

text \<open>
  \<open>incr\<close> is the low 32 bits of the elapsed ticks, as an \<open>int\<close>. A negative \<open>incr\<close> leaves the
  counter alone.
\<close>

definition wdog_update_time :: "bus \<Rightarrow> wdog \<Rightarrow> bus \<times> wdog" where
  "wdog_update_time b s =
    (if wd_tcsr s AND WD_TME \<noteq> 0 then
       let f = wd_freq (wd_tcsr s);
           incr = ucast (drop_bit f (cycles b - wd_last_cycles s)) :: u32
       in if incr <s 0 then (wdog_check_next_cycle b s, s)
          else
            let s1 = s\<lparr>wd_last_cycles := wd_last_cycles s + scast (push_bit f incr)\<rparr>;
                total = uint (wd_tcnt s) + sint incr;
                s2 = (if 0xff < total then
                        let s' = s1\<lparr>wd_tcsr := wd_tcsr s1 OR WD_OVF\<rparr>
                        in if wd_tcsr s' AND WD_WTIT \<noteq> 0 then
                             s'\<lparr>wd_last_cycles := wd_last_cycles s'
                                  - scast (push_bit f (of_int (total - 0x100) :: u32)) + 518,
                                wd_tcnt := 0\<rparr>
                           else s'\<lparr>wd_tcnt := wd_tcnt s' + of_int (sint incr)\<rparr>
                      else s1\<lparr>wd_tcnt := wd_tcnt s1 + of_int (sint incr)\<rparr>)
            in (wdog_check_next_cycle b s2, s2)
     else (b, s))"

definition wdog_check_irq :: "bus \<Rightarrow> wdog \<Rightarrow> nat \<times> bus \<times> wdog" where
  "wdog_check_irq b s =
    (if wd_tcsr s AND WD_OVF \<noteq> 0 then
       let s1 = s\<lparr>wd_tcsr := wd_tcsr s AND NOT WD_OVF\<rparr>
       in if wd_tcsr s1 AND WD_RST \<noteq> 0 then (0, b\<lparr>next_nmi_cycle := wd_last_cycles s1\<rparr>, s1)
          else (3, b, s1)
     else (255, b, s))"

definition set_pw :: "u8 \<Rightarrow> wdog \<Rightarrow> wdog" where
  "set_pw val s = s\<lparr>pw := val\<rparr>"

definition set_val :: "u8 \<Rightarrow> bus \<Rightarrow> wdog \<Rightarrow> bus \<times> wdog" where
  "set_val val b s =
    (if pw s = 0xa5 then
       let (b1, s1) = wdog_update_time b s;
           v = ((val OR 0x10) OR (0x80 AND NOT (readtcsr s1))) AND (0x7f OR wd_tcsr s1);
           s2 = s1\<lparr>wd_tcsr := v, wd_last_cycles := cycles b1, pw := 0\<rparr>
       in (wdog_check_next_cycle b1 s2, s2)
     else if pw s = 0x5a then
       let (b1, s1) = wdog_update_time b s;
           s2 = s1\<lparr>wd_tcnt := val, wd_last_cycles := cycles b1, pw := 0\<rparr>
       in (wdog_check_next_cycle b1 s2, s2)
     else (b, s))"

definition wd_get_TCSR :: "wdog \<Rightarrow> u8 \<times> wdog" where
  "wd_get_TCSR s = (wd_tcsr s, s\<lparr>readtcsr := wd_tcsr s\<rparr>)"

definition wd_get_TCNT :: "wdog \<Rightarrow> u8" where
  "wd_get_TCNT s = wd_tcnt s"

section \<open>The time of the overflow\<close>

definition wd_elapsed :: "bus \<Rightarrow> wdog \<Rightarrow> nat" where
  "wd_elapsed b s = unat (cycles b - wd_last_cycles s)"

text \<open>The cycles from \<open>wd_last_cycles\<close> to the wrap of the counter.\<close>

definition wd_period :: "wdog \<Rightarrow> nat" where
  "wd_period s = (0x100 - unat (wd_tcnt s)) * 2 ^ wd_freq (wd_tcsr s)"

lemma wd_freq_le: "wd_freq t \<le> 12"
proof -
  have "unat (t AND 7) < length [1, 5, 6, 7, 8, 9, 11, 12 :: nat]"
    using word_and_le1 [of t 7] by (simp add: word_le_nat_alt)
  moreover have "list_all (\<lambda>x. x \<le> 12) [1, 5, 6, 7, 8, 9, 11, 12 :: nat]"
    by simp
  ultimately show ?thesis
    unfolding wd_freq_def list_all_length by blast
qed

lemma wd_freq_flag: "wd_freq (t OR WD_OVF) = wd_freq t" 
proof -
  have "(t OR WD_OVF) AND 7 = t AND 7"
    by (simp add: bit.conj_disj_distrib2)
  then show ?thesis
    by (simp add: wd_freq_def)
qed

lemma wd_elapsed_word:
  assumes "wd_elapsed b s < 2 ^ 31"
  shows "(ucast (drop_bit f (cycles b - wd_last_cycles s)) :: u32) = of_nat (wd_elapsed b s div 2 ^ f)"
proof -
  define e where "e = wd_elapsed b s"
  have w: "cycles b - wd_last_cycles s = of_nat e"
    by (simp add: e_def wd_elapsed_def)
  have e: "e < 2 ^ 31"
    using assms by (simp add: e_def)
  then have small: "e div 2 ^ f < 2 ^ 31"
    using div_le_dividend [of e "2 ^ f"] by linarith
  have "drop_bit f (of_nat e :: u64) = of_nat (e div 2 ^ f)"
    using e small(1) unat_drop_bit_eq [of f "of_nat e :: u64"]
    by (simp only: word_unat_eq_iff) (simp add: unat_of_nat take_bit_nat_eq_self drop_bit_eq_div)
  then show ?thesis
    using small unfolding w e_def [symmetric] by (simp add: unsigned_of_nat take_bit_nat_eq_self)
qed

text \<open>The update with the elapsed ticks \<open>n\<close> as a number.\<close>

lemma wd_update_eq:
  assumes "wd_tcsr s AND WD_TME \<noteq> 0" and el: "wd_elapsed b s < 2 ^ 31"
    and n: "n = wd_elapsed b s div 2 ^ wd_freq (wd_tcsr s)"
  shows "snd (wdog_update_time b s) =
    (if unat (wd_tcnt s) + n < 0x100
     then s\<lparr>wd_last_cycles := wd_last_cycles s + of_nat (n * 2 ^ wd_freq (wd_tcsr s)),
            wd_tcnt := wd_tcnt s + of_nat n\<rparr>
     else if wd_tcsr s AND WD_WTIT \<noteq> 0
     then s\<lparr>wd_last_cycles := wd_last_cycles s + of_nat (wd_period s) + 518, wd_tcnt := 0,
            wd_tcsr := wd_tcsr s OR WD_OVF\<rparr>
     else s\<lparr>wd_last_cycles := wd_last_cycles s + of_nat (n * 2 ^ wd_freq (wd_tcsr s)),
            wd_tcnt := wd_tcnt s + of_nat n, wd_tcsr := wd_tcsr s OR WD_OVF\<rparr>)"
proof -
  let ?f = "wd_freq (wd_tcsr s)"
  have small: "n < 2 ^ 31" "n * 2 ^ ?f < 2 ^ 31"
    unfolding n using div_le_dividend [of "wd_elapsed b s" "2 ^ ?f"] el
      le_less_trans [OF div_times_less_eq_dividend [of "wd_elapsed b s" "2 ^ ?f"] el] by linarith+
  have w: "(ucast (drop_bit ?f (cycles b - wd_last_cycles s)) :: u32) = of_nat n"
    unfolding n by (rule wd_elapsed_word [OF el])
  have neg: "\<not> (of_nat n :: u32) <s 0"
    by (simp add: word_sless_alt sint_of_nat_small [OF small(1)])
  have sh: "scast (push_bit ?f (of_nat n :: u32)) = (of_nat (n * 2 ^ ?f) :: u64)"
    unfolding push_bit_of_nat_word by (rule scast_of_nat_small [OF small(2)])
  have ov: "0xff < uint (wd_tcnt s) + int n \<longleftrightarrow> \<not> unat (wd_tcnt s) + n < 0x100"
    using uint_int_unat [of "wd_tcnt s"] by linarith
  have flag: "(wd_tcsr s OR WD_OVF) AND WD_WTIT = wd_tcsr s AND WD_WTIT"
    by (simp add: bit.conj_disj_distrib2)
  have over: "of_nat (n * 2 ^ ?f) - scast (push_bit ?f (of_int (uint (wd_tcnt s) + int n - 0x100) :: u32))
      = (of_nat (wd_period s) :: u64)" if "\<not> unat (wd_tcnt s) + n < 0x100"
  proof -
    define k where "k = unat (wd_tcnt s) + n - 0x100"
    have t: "unat (wd_tcnt s) < 0x100"
      using unat_less_2p [of "wd_tcnt s"] by simp
    have "int k = uint (wd_tcnt s) + int n - 0x100" and kn: "k \<le> n" and sum: "n = k + (0x100 - unat (wd_tcnt s))"
      using that t uint_int_unat [of "wd_tcnt s"] unfolding k_def by linarith+
    then have "(of_int (uint (wd_tcnt s) + int n - 0x100) :: u32) = of_nat k"
      by (metis of_int_of_nat_eq)
    moreover have "k * 2 ^ ?f \<le> n * 2 ^ ?f"
      using kn by simp
    then have "scast (push_bit ?f (of_nat k :: u32)) = (of_nat (k * 2 ^ ?f) :: u64)"
      unfolding push_bit_of_nat_word using small(2) by (intro scast_of_nat_small) linarith
    moreover have "n * 2 ^ ?f = k * 2 ^ ?f + wd_period s"
      unfolding wd_period_def by (subst sum) (simp add: add_mult_distrib)
    ultimately show ?thesis
      by simp
  qed
  show ?thesis
    unfolding wdog_update_time_def Let_def w sint_of_nat_small [OF small(1)]
    using assms(1) neg over by (simp add: ov flag sh del: of_nat_mult)
qed


lemma wd_overflow_iff:
  "unat (wd_tcnt s) + wd_elapsed b s div 2 ^ wd_freq (wd_tcsr s) < 0x100 \<longleftrightarrow> wd_elapsed b s < wd_period s"
proof -
  let ?q = "wd_elapsed b s div 2 ^ wd_freq (wd_tcsr s)"
  have t: "unat (wd_tcnt s) < 0x100"
    using unat_less_2p [of "wd_tcnt s"] by simp
  have "unat (wd_tcnt s) + ?q < 0x100 \<longleftrightarrow> ?q < 0x100 - unat (wd_tcnt s)"
    using t by linarith
  also have "\<dots> \<longleftrightarrow> wd_elapsed b s < wd_period s"
    unfolding wd_period_def by (rule div_less_iff_less_mult) simp
  finally show ?thesis .
qed

lemma wdog_check_next_cycle_sel [simp]: "cycles (wdog_check_next_cycle b s) = cycles b"
  by (simp add: wdog_check_next_cycle_def Let_def)

section \<open>Properties\<close>

text \<open>
  C25. The watchdog fires at the wrap of its counter and not before: with the timer running in
  watchdog mode, an update that comes before the period is over raises nothing, one that comes after
  it yields a reset (or an NMI when reset is not selected), and the cycle at which the reset
  is over is 518 cycles after the wrap, however late the update comes.
\<close>

theorem wdog_fires:
  assumes "wd_tcsr s AND WD_TME \<noteq> 0" and "wd_tcsr s AND WD_WTIT \<noteq> 0" and "wd_tcsr s AND WD_OVF = 0"
    and "wd_elapsed b s < 2 ^ 31"
    and "wdog_update_time b s = (b', s')"
  shows "fst (wdog_check_irq b' s') =
      (if wd_elapsed b s < wd_period s then 255 else if wd_tcsr s AND WD_RST \<noteq> 0 then 0 else 3)
    \<and> (wd_period s \<le> wd_elapsed b s \<longrightarrow>
         wd_last_cycles s' = wd_last_cycles s + of_nat (wd_period s) + 518 \<and> wd_tcnt s' = 0)
    \<and> (fst (wdog_check_irq b' s') = 0 \<longrightarrow>
         next_nmi_cycle (fst (snd (wdog_check_irq b' s'))) = wd_last_cycles s')"
proof -
  have s': "s' = (if wd_elapsed b s < wd_period s
     then s\<lparr>wd_last_cycles := wd_last_cycles s
              + of_nat (wd_elapsed b s div 2 ^ wd_freq (wd_tcsr s) * 2 ^ wd_freq (wd_tcsr s)),
            wd_tcnt := wd_tcnt s + of_nat (wd_elapsed b s div 2 ^ wd_freq (wd_tcsr s))\<rparr>
     else s\<lparr>wd_last_cycles := wd_last_cycles s + of_nat (wd_period s) + 518, wd_tcnt := 0,
            wd_tcsr := wd_tcsr s OR WD_OVF\<rparr>)"
    using wd_update_eq [OF assms(1,4) refl] assms(2,5) by (simp only: wd_overflow_iff) auto
  have flags: "(wd_tcsr s OR WD_OVF) AND WD_OVF \<noteq> 0"
      "((wd_tcsr s OR WD_OVF) AND NOT WD_OVF) AND WD_RST = wd_tcsr s AND WD_RST"
  proof -
    show "(wd_tcsr s OR WD_OVF) AND WD_OVF \<noteq> 0"
      by (simp add: flag_simps bit_or_iff)
    have absorb: "((x OR y) AND NOT y) AND z = x AND z" if "y AND z = 0" for x y z :: u8
      using that by (auto simp: bit_eq_iff bit_simps)
    show "((wd_tcsr s OR WD_OVF) AND NOT WD_OVF) AND WD_RST = wd_tcsr s AND WD_RST"
      by (rule absorb) simp
  qed
  show ?thesis
  proof (cases "wd_elapsed b s < wd_period s")
    case True
    with assms(3) show ?thesis
      by (simp add: s' wdog_check_irq_def)
  next
    case False
    with flags show ?thesis
      unfolding wdog_check_irq_def Let_def by (simp add: s')
  qed
qed

text \<open>
  The deadlines the running watchdog asks for are the wrap of its counter, or earlier when an
  earlier one was already set.
\<close>

theorem wdog_deadline:
  assumes "wd_tcsr s AND WD_TME \<noteq> 0" and "recent (wd_last_cycles s) b" and "uint (cycles b) < 2 ^ 63"
  shows "uint (next_nmi_cycle (wdog_check_next_cycle b s))
           = min (uint (next_nmi_cycle b)) (uint (wd_last_cycles s) + int (wd_period s))
    \<and> uint (next_timer_cycle (wdog_check_next_cycle b s))
           = min (uint (next_timer_cycle b)) (uint (wd_last_cycles s) + int (wd_period s))"
proof -
  let ?f = "wd_freq (wd_tcsr s)"
  have "wd_period s \<le> 0x100 * 2 ^ 12"
    unfolding wd_period_def using wd_freq_le by (intro mult_le_mono power_increasing) auto
  then have p: "int (wd_period s) \<le> 2 ^ 20"
    by simp
  have "(0x100 - ucast (wd_tcnt s) :: u64) = of_nat (0x100 - unat (wd_tcnt s))"
    using unat_less_2p [of "wd_tcnt s"] by (simp add: of_nat_diff)
  then have "push_bit ?f (0x100 - ucast (wd_tcnt s) :: u64) = of_nat (wd_period s)"
    unfolding wd_period_def by (simp only: push_bit_of_nat_word)
  then have w: "wd_last_cycles s + push_bit ?f (0x100 - ucast (wd_tcnt s))
      = of_int (uint (wd_last_cycles s) + int (wd_period s))"
    by simp
  have "uint (of_int (uint (wd_last_cycles s) + int (wd_period s)) :: u64)
      = (uint (wd_last_cycles s) + int (wd_period s)) mod 2 ^ 64"
    by (simp only: uint_word_of_int) simp
  also have "\<dots> = uint (wd_last_cycles s) + int (wd_period s)"
    using assms(2,3) p by (intro mod_pos_pos_trivial) (simp_all add: recent_def)
  finally have u: "uint (wd_last_cycles s + push_bit ?f (0x100 - ucast (wd_tcnt s)))
      = uint (wd_last_cycles s) + int (wd_period s)"
    by (simp only: w)
  show ?thesis
    using assms(1) by (simp add: wdog_check_next_cycle_def Let_def word_less_def u min_def)
qed


definition wdog_ex :: wdog where
  "wdog_ex = \<lparr>wd_tcsr = 0x78, readtcsr = 0x18, wd_tcnt = 0xf0, pw = 0, wd_last_cycles = 1000\<rparr>"

definition wdog_bus_ex :: bus where
  "wdog_bus_ex = \<lparr>cycles = 1100, next_timer_cycle = 90000, next_nmi_cycle = 90000, gui_out = [],
     ser_out = [], sound_out = []\<rparr>"

lemma wdog_ex_simps:
  "wd_elapsed wdog_bus_ex wdog_ex = 100" "wd_period wdog_ex = 32" "wd_last_cycles wdog_ex = 1000"
  by (simp_all add: wd_elapsed_def wd_period_def wdog_bus_ex_def wdog_ex_def wd_freq_def)

theorem wdog_fires_witness:
  "\<exists>b' s'. wdog_update_time wdog_bus_ex wdog_ex = (b', s') \<and> fst (wdog_check_irq b' s') = 0
     \<and> next_nmi_cycle (fst (snd (wdog_check_irq b' s'))) = 1550"
proof -
  obtain b' s' where u: "wdog_update_time wdog_bus_ex wdog_ex = (b', s')"
    by (cases "wdog_update_time wdog_bus_ex wdog_ex")
  have f: "wd_tcsr wdog_ex AND WD_TME \<noteq> 0" "wd_tcsr wdog_ex AND WD_WTIT \<noteq> 0"
      "wd_tcsr wdog_ex AND WD_OVF = 0" "wd_tcsr wdog_ex AND WD_RST \<noteq> 0"
    by (simp_all add: wdog_ex_def)
  have e: "wd_elapsed wdog_bus_ex wdog_ex < 2 ^ 31"
    by (simp add: wdog_ex_simps)
  show ?thesis
    using wdog_fires [OF f(1-3) e u] f(4) u by (auto simp: wdog_ex_simps)
qed

theorem wdog_deadline_witness:
  "uint (next_nmi_cycle (wdog_check_next_cycle wdog_bus_ex wdog_ex)) = 1032"
proof -
  have "wd_tcsr wdog_ex AND WD_TME \<noteq> 0" "recent (wd_last_cycles wdog_ex) wdog_bus_ex" "uint (cycles wdog_bus_ex) < 2 ^ 63"
    by (simp_all add: wdog_ex_def wdog_bus_ex_def recent_def)
  from wdog_deadline [OF this] show ?thesis
    by (simp add: wdog_ex_simps wdog_bus_ex_def)
qed

end
