(* ===== verification/AdSensors.thy ===== *)
theory AdSensors
  imports Base
begin

text \<open>
  The A/D converter with the sensor inputs, \<^verbatim>\<open>adsensors.c\<close>: single and scan conversions that
  copy the sensor values set by the GUI into the four result registers. Shown are the bounds of
  every array access, the termination of the conversion loop, what a complete scan leaves in the
  registers, and the interrupt contract.
\<close>

section \<open>State and operations\<close>

record ad =
  ad_values :: "u16 list"
  polled :: "u16 list"
  ad_tmp :: u8
  adcsr :: u8
  read_adcsr :: u8
  adcr :: u8
  adchannel :: u8
  ad_start_cycle :: u64

abbreviation ADCSR_ADF :: u8 where "ADCSR_ADF \<equiv> 0x80"
abbreviation ADCSR_ADIE :: u8 where "ADCSR_ADIE \<equiv> 0x40"
abbreviation ADCSR_ADST :: u8 where "ADCSR_ADST \<equiv> 0x20"
abbreviation ADCSR_SCAN :: u8 where "ADCSR_SCAN \<equiv> 0x10"
abbreviation ADCSR_CKS :: u8 where "ADCSR_CKS \<equiv> 0x08"
abbreviation ADCSR_CH :: u8 where "ADCSR_CH \<equiv> 0x07"

record ad_save_type =
  sva_ad_start_cycle :: u64
  sva_polled :: "u16 list"
  sva_tmp :: u8
  sva_adcsr :: u8
  sva_read_adcsr :: u8
  sva_adcr :: u8
  sva_adchannel :: u8

definition ad_save :: "ad \<Rightarrow> ad_save_type" where
  "ad_save s = \<lparr>sva_ad_start_cycle = htonl_cc (ad_start_cycle s), sva_polled = map htons (polled s),
     sva_tmp = ad_tmp s, sva_adcsr = adcsr s, sva_read_adcsr = read_adcsr s, sva_adcr = adcr s,
     sva_adchannel = adchannel s\<rparr>"

definition ad_load :: "ad_save_type \<Rightarrow> ad \<Rightarrow> ad" where
  "ad_load d s = s\<lparr>polled := map htons (sva_polled d), ad_tmp := sva_tmp d, adcsr := sva_adcsr d,
     read_adcsr := sva_read_adcsr d, adcr := sva_adcr d, adchannel := sva_adchannel d,
     ad_start_cycle := htonl_cc (sva_ad_start_cycle d)\<rparr>"

definition ad_reset :: "ad \<Rightarrow> ad" where
  "ad_reset s = s\<lparr>adcr := 0x7f, adcsr := 0, adchannel := 0\<rparr>"

text \<open>
  A message of the GUI: the sensor number, three hexadecimal digits and a newline, as \<open>char\<close>
  codes. The digits are not checked and the array index \<open>buf[0] - '0'\<close> is not checked either:
  an index outside the array is \<open>None\<close>.
\<close>

definition ad_digit :: "int \<Rightarrow> int" where
  "ad_digit c = (if c > 57 then c - 97 + 10 else c - 48)"

definition ad_read_fd :: "int list \<Rightarrow> ad \<Rightarrow> ad option" where
  "ad_read_fd buf s =
    (let i = buf ! 0 - 48;
         v = push_bit 14 (of_int (ad_digit (buf ! 1)) :: u32)
          OR push_bit 10 (of_int (ad_digit (buf ! 2)))
          OR push_bit 6 (of_int (ad_digit (buf ! 3)))
     in if 0 \<le> i \<and> i < 8 then Some (s\<lparr>ad_values := (ad_values s)[nat i := ucast v]\<rparr>) else None)"

definition conv_time :: "u8 \<Rightarrow> nat" where
  "conv_time csr = (if csr AND ADCSR_CKS \<noteq> 0 then 134 else 266)"

definition ad_check_next_cycle :: "bus \<Rightarrow> ad \<Rightarrow> bus" where
  "ad_check_next_cycle b s =
    (if adcsr s AND 0xc0 = 0xc0 then b\<lparr>next_timer_cycle := cycles b\<rparr>
     else if adcsr s AND (ADCSR_ADIE OR ADCSR_ADST) = ADCSR_ADIE OR ADCSR_ADST then
       let next_conv_time = add_to_cycle (CHR ''S'') (ad_start_cycle s) (of_nat (conv_time (adcsr s)))
       in if next_conv_time < next_timer_cycle b then b\<lparr>next_timer_cycle := next_conv_time\<rparr> else b
     else b)"

lemma ADST_cleared: "((x AND NOT ADCSR_ADST) OR ADCSR_ADF) AND ADCSR_ADST = 0"
proof -
  have "(0x20 :: u8) = 2 ^ 5" "(0x80 :: u8) = 2 ^ 7"
    by simp_all
  then show ?thesis
    by (simp only: u8_eq_iff bit_simps bit_exp_iff) simp
qed

lemmas ADST_cleared' [simp] = ADST_cleared [simplified]

lemma channel_step: "c < (csr :: u8) AND 7 \<Longrightarrow> unat (c + 1) = Suc (unat c) \<and> unat c < 7"
proof -
  assume a: "c < csr AND 7"
  have "csr AND 7 \<le> 7"
    by (rule word_and_le1)
  then have "unat c < 7"
    using a by (simp add: word_less_nat_alt word_le_nat_alt)
  then show ?thesis
    using a by (metis unat_less_Suc)
qed

text \<open>
  The loop of \<open>ad_update_time\<close>: \<open>ct\<close> is the local \<open>conv_time\<close>, computed once before the loop. It ends
  because a round clears \<open>ADST\<close> or moves to a higher channel.
\<close>

function ad_convert :: "nat \<Rightarrow> bus \<Rightarrow> ad \<Rightarrow> ad" where
  "ad_convert ct b s =
    (if adcsr s AND ADCSR_ADST = 0 then s
     else if sint (int32_of (cycles b - ad_start_cycle s)) < int ct then s
     else
       let s1 = s\<lparr>polled := (polled s)[unat (adchannel s AND 3) := ad_values s ! unat (adchannel s)]\<rparr>;
           stop = \<lambda>s. s\<lparr>adcsr := (adcsr s AND NOT ADCSR_ADST) OR ADCSR_ADF\<rparr>
       in if adcsr s1 AND ADCSR_SCAN \<noteq> 0 then
            let s2 = s1\<lparr>ad_start_cycle := ad_start_cycle s1 + of_nat ct\<rparr>
            in if adchannel s2 < adcsr s2 AND ADCSR_CH
               then ad_convert ct b (s2\<lparr>adchannel := adchannel s2 + 1\<rparr>)
               else ad_convert ct b (stop (s2\<lparr>adchannel := adchannel s2 AND 4\<rparr>))
          else ad_convert ct b (stop s1))"
  by pat_completeness auto

termination
proof (relation "measure (\<lambda>(ct, b, s). if adcsr s AND ADCSR_ADST = 0 then 0 else 256 - unat (adchannel s))", goal_cases)
  case 1
  then show ?case by simp
next
  case (2 ct b s s1 stop s2)
  then have "unat (adchannel s + 1) = Suc (unat (adchannel s)) \<and> unat (adchannel s) < 7"
    by (intro channel_step [of _ "adcsr s"]) simp
  with 2 show ?case by auto
next
  case (3 ct b s s1 stop s2)
  then show ?case using unat_less_2p [of "adchannel s"] by auto
next
  case (4 ct b s s1 stop)
  then show ?case using unat_less_2p [of "adchannel s"] by auto
qed

declare ad_convert.simps [simp del]

definition ad_update_time :: "bus \<Rightarrow> ad \<Rightarrow> bus \<times> ad" where
  "ad_update_time b s =
    (let s1 = ad_convert (conv_time (adcsr s)) b s in (ad_check_next_cycle b s1, s1))"

definition ad_check_irq :: "ad \<Rightarrow> nat" where
  "ad_check_irq s = (if adcsr s AND 0xc0 = 0xc0 then 35 else 255)"

definition set_adcsr :: "u8 \<Rightarrow> bus \<Rightarrow> ad \<Rightarrow> bus \<times> ad" where
  "set_adcsr value b s =
    (let v = value AND (0x7f OR read_adcsr s);
         s1 = (if NOT (adcsr s) AND v AND ADCSR_ADST \<noteq> 0
               then s\<lparr>adchannel := (if v AND ADCSR_SCAN \<noteq> 0 then v AND 4 else v AND ADCSR_CH),
                       ad_start_cycle := cycles b\<rparr>
               else s);
         s2 = s1\<lparr>adcsr := v\<rparr>
     in (ad_check_next_cycle b s2, s2))"

definition get_adcsr :: "ad \<Rightarrow> u8 \<times> ad" where
  "get_adcsr s = (adcsr s, s\<lparr>read_adcsr := adcsr s\<rparr>)"

definition set_adcr :: "u8 \<Rightarrow> bus \<Rightarrow> ad \<Rightarrow> bus \<times> ad" where
  "set_adcr value b s = (let s1 = s\<lparr>adcr := value OR 0x7f\<rparr> in (ad_check_next_cycle b s1, s1))"

definition get_adcr :: "ad \<Rightarrow> u8" where
  "get_adcr s = adcr s"

text \<open>
  The eight readers of the result registers come in four pairs; \<open>get_addr_h i\<close> is
  \<open>get_addrah\<close>, \<open>get_addrbh\<close>, \<open>get_addrch\<close>, \<open>get_addrdh\<close> for \<open>i\<close> = 0, 1, 2, 3.
\<close>

definition get_addr_h :: "nat \<Rightarrow> ad \<Rightarrow> u8 \<times> ad" where
  "get_addr_h i s = (ucast (drop_bit 8 (polled s ! i)), s\<lparr>ad_tmp := ucast (polled s ! i AND 0xc0)\<rparr>)"

definition get_addr_l :: "ad \<Rightarrow> u8" where
  "get_addr_l s = ad_tmp s"

section \<open>Bounds\<close>

definition ad_inv :: "ad \<Rightarrow> bool" where
  "ad_inv s \<longleftrightarrow> length (ad_values s) = 8 \<and> length (polled s) = 4 \<and> unat (adchannel s) < 8"

lemma unat_and_7: "unat (x AND 7 :: u8) < 8" and unat_and_4: "unat (x AND 4 :: u8) < 8"
  and unat_and_3: "unat (x AND 3 :: u8) < 4"
  using word_and_le1 [of x 7] word_and_le1 [of x 4] word_and_le1 [of x 3]
  by (simp_all add: word_le_nat_alt)

lemma ad_convert_inv: "ad_inv s \<Longrightarrow> ad_inv (ad_convert ct b s)"
proof (induction ct b s rule: ad_convert.induct)
  case (1 ct b s)
  have next_ch: "unat (adchannel s + 1) < 8" if "adchannel s < adcsr s AND ADCSR_CH"
    using channel_step [OF that] by simp
  show ?case
    using 1 unat_and_4
    by (subst ad_convert.simps) (simp add: ad_inv_def Let_def next_ch)
qed

lemma ad_update_inv: "ad_inv s \<Longrightarrow> ad_inv (snd (ad_update_time b s))"
  by (simp add: ad_update_time_def Let_def ad_convert_inv)

lemma set_adcsr_inv: "ad_inv s \<Longrightarrow> ad_inv (snd (set_adcsr v b s))"
  using unat_and_4 unat_and_7 by (simp add: set_adcsr_def Let_def ad_inv_def)

section \<open>A scan\<close>

definition ad_elapsed :: "bus \<Rightarrow> ad \<Rightarrow> nat" where
  "ad_elapsed b s = unat (cycles b - ad_start_cycle s)"

lemma ad_elapsed_sint:
  "ad_elapsed b s < 2 ^ 31 \<Longrightarrow> sint (int32_of (cycles b - ad_start_cycle s)) = int (ad_elapsed b s)"
  unfolding ad_elapsed_def by (simp only: int32_of_small sint_of_nat_small)

lemma unat_mod_4: "unat (x AND 3 :: u8) = unat x mod 4"
proof -
  have "x AND 3 = take_bit 2 x"
    by (simp add: take_bit_eq_mask mask_eq_decr_exp)
  then show ?thesis
    by (simp only: unsigned_take_bit_eq) (simp add: take_bit_eq_mod)
qed

definition ad_store :: "u16 list \<Rightarrow> nat \<Rightarrow> u16 list \<Rightarrow> u16 list" where
  "ad_store vs i p = p[i mod 4 := vs ! i]"

lemma ad_elapsed_step:
  assumes "ct \<le> ad_elapsed b s"
  shows "unat (cycles b - (ad_start_cycle s + of_nat ct)) = ad_elapsed b s - ct"
proof -
  have "ad_elapsed b s < 2 ^ 64"
    using unat_less_2p [of "cycles b - ad_start_cycle s"] by (simp add: ad_elapsed_def)
  then have "ct < 2 ^ 64" and le: "(of_nat ct :: u64) \<le> cycles b - ad_start_cycle s"
    using assms by (simp_all add: word_le_nat_alt ad_elapsed_def unat_of_nat take_bit_nat_eq_self)
  have "cycles b - (ad_start_cycle s + of_nat ct) = (cycles b - ad_start_cycle s) - of_nat ct"
    by simp
  then show ?thesis
    using \<open>ct < 2 ^ 64\<close> by (simp only: unat_sub [OF le]) (simp add: ad_elapsed_def unat_of_nat take_bit_nat_eq_self)
qed

lemma ad_scan:
  assumes "adcsr s AND ADCSR_ADST \<noteq> 0" "adcsr s AND ADCSR_SCAN \<noteq> 0"
    and "unat (adchannel s) + k = unat (adcsr s AND ADCSR_CH)"
    and "Suc k * ct \<le> ad_elapsed b s" "ad_elapsed b s < 2 ^ 31"
  shows "ad_convert ct b s = s\<lparr>
    polled := fold (ad_store (ad_values s)) [unat (adchannel s)..<Suc (unat (adchannel s) + k)] (polled s),
    ad_start_cycle := ad_start_cycle s + of_nat (Suc k * ct),
    adchannel := of_nat (unat (adchannel s) + k) AND 4,
    adcsr := (adcsr s AND NOT ADCSR_ADST) OR ADCSR_ADF\<rparr>"
  using assms
proof (induction k arbitrary: s)
  case 0
  then have c: "\<not> adchannel s < adcsr s AND ADCSR_CH" "\<not> ad_elapsed b s < ct"
    by (simp_all add: word_less_nat_alt)
  let ?s = "s\<lparr>polled := ad_store (ad_values s) (unat (adchannel s)) (polled s),
      ad_start_cycle := ad_start_cycle s + of_nat ct, adchannel := adchannel s AND 4,
      adcsr := (adcsr s AND NOT ADCSR_ADST) OR ADCSR_ADF\<rparr>"
  have "ad_convert ct b ?s = ?s"
    by (subst ad_convert.simps) simp
  moreover have "unat (adcsr s AND ADCSR_CH) = unat (adchannel s)"
    using 0(3) by simp
  ultimately show ?case
    using 0(1,2,4,5) c by (subst ad_convert.simps) (simp add: ad_elapsed_sint ad_store_def unat_mod_4 Let_def)
next
  case (Suc k)
  have lt: "adchannel s < adcsr s AND ADCSR_CH" and ge: "\<not> ad_elapsed b s < ct"
    using Suc.prems by (simp_all add: word_less_nat_alt)
  let ?s = "s\<lparr>polled := ad_store (ad_values s) (unat (adchannel s)) (polled s),
      ad_start_cycle := ad_start_cycle s + of_nat ct, adchannel := adchannel s + 1\<rparr>"
  have ch: "unat (adchannel s + 1) = Suc (unat (adchannel s))"
    using channel_step [OF lt] by simp
  have el: "ad_elapsed b ?s = ad_elapsed b s - ct"
    using ge ad_elapsed_step [of ct b s] by (simp add: ad_elapsed_def)
  have "ad_convert ct b s = ad_convert ct b ?s"
    using Suc.prems lt ge by (subst ad_convert.simps) (simp add: ad_elapsed_sint ad_store_def unat_mod_4 Let_def)
  also have "ad_convert ct b ?s = ?s\<lparr>
    polled := fold (ad_store (ad_values ?s)) [unat (adchannel ?s)..<Suc (unat (adchannel ?s) + k)] (polled ?s),
    ad_start_cycle := ad_start_cycle ?s + of_nat (Suc k * ct),
    adchannel := of_nat (unat (adchannel ?s) + k) AND 4,
    adcsr := (adcsr ?s AND NOT ADCSR_ADST) OR ADCSR_ADF\<rparr>"
  proof (rule Suc.IH)
    show "unat (adchannel ?s) + k = unat (adcsr ?s AND ADCSR_CH)"
      using Suc.prems(3) ch by simp
    show "Suc k * ct \<le> ad_elapsed b ?s" "ad_elapsed b ?s < 2 ^ 31"
      unfolding el using Suc.prems(4,5) by simp_all
  qed (use Suc.prems in simp_all)
  moreover have "[unat (adchannel s)..<Suc (unat (adchannel s) + Suc k)]
      = unat (adchannel s) # [Suc (unat (adchannel s))..<Suc (Suc (unat (adchannel s)) + k)]"
    by (simp add: upt_conv_Cons del: upt_Suc)
  ultimately show ?case
    using ch by (simp del: upt_Suc add: add.assoc)
qed

lemma fold_ad_store_length: "length (fold (ad_store vs) is p) = length p"
  by (induction "is" arbitrary: p) (simp_all add: ad_store_def)

lemma fold_ad_store_other:
  "(\<And>i. i \<in> set is \<Longrightarrow> i mod 4 \<noteq> j) \<Longrightarrow> fold (ad_store vs) is p ! j = p ! j"
  by (induction "is" arbitrary: p) (auto simp: ad_store_def)

lemma ad_store_nth: "length p = 4 \<Longrightarrow> ad_store vs n p ! (n mod 4) = vs ! n"
  by (simp add: ad_store_def)

lemma fold_ad_store_range:
  "a \<le> i \<Longrightarrow> i < n \<Longrightarrow> n \<le> a + 4 \<Longrightarrow> length p = 4 \<Longrightarrow> fold (ad_store vs) [a..<n] p ! (i mod 4) = vs ! i"
proof (induction n)
  case (Suc n)
  show ?case
  proof (cases "i = n")
    case False
    then have "i mod 4 \<noteq> n mod 4"
      using Suc.prems mod_eq_dvd_iff_nat [of i n 4] nat_dvd_not_less [of "n - i" 4] by auto
    with False Suc show ?thesis
      by (simp add: ad_store_def)
  qed (use Suc.prems in \<open>simp add: ad_store_nth fold_ad_store_length\<close>)
qed simp

section \<open>Interrupts\<close>

lemma ad_convert_recent: "recent (ad_start_cycle s) b \<Longrightarrow> recent (ad_start_cycle (ad_convert ct b s)) b"
proof (induction ct b s rule: ad_convert.induct)
  case (1 ct b s)
  have d: "sint (int32_of (cycles b - ad_start_cycle s)) = uint (cycles b) - uint (ad_start_cycle s)"
    using 1(4) by (intro sint_int32_of_diff) (simp_all add: recent_def)
  have "recent (ad_start_cycle s + of_nat ct) b" if "\<not> uint (cycles b) - uint (ad_start_cycle s) < int ct"
    using that by (intro recent_advance(1) [OF 1(4)]) simp
  then show ?case
    using 1 by (subst ad_convert.simps) (simp add: Let_def d)
qed

lemma conv_time_le: "conv_time c \<le> 266"
  by (simp add: conv_time_def)

lemma ad_check_next_cycle_sel [simp]:
  "cycles (ad_check_next_cycle b s) = cycles b"
  "next_nmi_cycle (ad_check_next_cycle b s) = next_nmi_cycle b"
  by (auto simp: ad_check_next_cycle_def Let_def)

lemma ad_check_deadline:
  assumes r: "recent (ad_start_cycle s) b" and near: "near_deadline b"
  shows "(uint (next_timer_cycle (ad_check_next_cycle b s)) \<le> uint (next_timer_cycle b)
         \<or> next_timer_cycle (ad_check_next_cycle b s) = cycles b) \<and> near_deadline (ad_check_next_cycle b s)"
proof -
  define c where "c = int (conv_time (adcsr s))"
  have c: "0 \<le> c" "c \<le> 266"
    using conv_time_le [of "adcsr s"] by (simp_all add: c_def)
  have "conv_time (adcsr s) < 2 ^ 31"
    using conv_time_le [of "adcsr s"] by simp
  then have at: "add_to_cycle x (ad_start_cycle s) (of_nat (conv_time (adcsr s))) = of_int (uint (ad_start_cycle s) + c)" for x
    by (simp add: add_to_cycle_def scast_of_nat_small c_def)
  have len64: "LENGTH(64) = 64"
    by simp
  have u: "uint (add_to_cycle x (ad_start_cycle s) (of_nat (conv_time (adcsr s)))) = uint (ad_start_cycle s) + c" for x
    unfolding at uint_word_of_int using r near c
    by (simp only: len64) (rule mod_pos_pos_trivial, simp_all add: recent_def near_deadline_def)
  have 1: "next_timer_cycle (ad_check_next_cycle b s) = next_timer_cycle b
      \<or> next_timer_cycle (ad_check_next_cycle b s) = cycles b
      \<or> uint (next_timer_cycle (ad_check_next_cycle b s)) = uint (ad_start_cycle s) + c
        \<and> uint (ad_start_cycle s) + c < uint (next_timer_cycle b)"
    using u by (auto simp: ad_check_next_cycle_def Let_def word_less_def)
  then show ?thesis
    using r near c unfolding near_deadline_def recent_def by (auto simp: abs_less_iff)
qed

interpretation ad_irq: irq_source ad_update_time ad_check_irq "\<lambda>b s. recent (ad_start_cycle s) b"
proof unfold_locales
  fix b b' :: bus and s :: ad
  show "cycles (fst (ad_update_time b s)) = cycles b"
    and "next_nmi_cycle (fst (ad_update_time b s)) = next_nmi_cycle b"
    by (simp_all add: ad_update_time_def Let_def)
  show "next_timer_cycle (fst (ad_update_time b s)) = cycles b"
    if "ad_check_irq (snd (ad_update_time b s)) \<noteq> 255"
    using that by (simp add: ad_update_time_def ad_check_irq_def ad_check_next_cycle_def Let_def split: if_splits)
  show "recent (ad_start_cycle s) b = recent (ad_start_cycle s) b'" if "cycles b = cycles b'"
    using that by (simp add: recent_def)
  assume "recent (ad_start_cycle s) b" "near_deadline b"
  then show "uint (next_timer_cycle (fst (ad_update_time b s))) \<le> uint (next_timer_cycle b)
       \<or> next_timer_cycle (fst (ad_update_time b s)) = cycles b"
    and "near_deadline (fst (ad_update_time b s))"
    using ad_check_deadline [OF ad_convert_recent] by (simp_all add: ad_update_time_def Let_def)
qed

section \<open>Properties\<close>

text \<open>
  C26. A scan that had the time to complete has copied the value of every channel from the current one up
  to the selected one into its result register, kept the other registers, raised \<open>ADF\<close> and
  stopped.
\<close>

theorem ad_scan_complete:
  assumes "ad_inv s" and "adcsr s AND ADCSR_ADST \<noteq> 0" and "adcsr s AND ADCSR_SCAN \<noteq> 0"
    and "unat (adchannel s) + k = unat (adcsr s AND ADCSR_CH)" and "k < 4"
    and "Suc k * conv_time (adcsr s) \<le> ad_elapsed b s" and "ad_elapsed b s < 2 ^ 31"
  shows "(\<forall>i \<le> k. polled (snd (ad_update_time b s)) ! ((unat (adchannel s) + i) mod 4)
              = ad_values s ! (unat (adchannel s) + i))
    \<and> (\<forall>j < 4. (\<forall>i \<le> k. (unat (adchannel s) + i) mod 4 \<noteq> j) \<longrightarrow>
              polled (snd (ad_update_time b s)) ! j = polled s ! j)
    \<and> adcsr (snd (ad_update_time b s)) AND (ADCSR_ADF OR ADCSR_ADST) = ADCSR_ADF"
proof -
  let ?a = "unat (adchannel s)" and ?r = "snd (ad_update_time b s)"
  have r: "?r = s\<lparr>
    polled := fold (ad_store (ad_values s)) [?a..<Suc (?a + k)] (polled s),
    ad_start_cycle := ad_start_cycle s + of_nat (Suc k * conv_time (adcsr s)),
    adchannel := of_nat (?a + k) AND 4,
    adcsr := (adcsr s AND NOT ADCSR_ADST) OR ADCSR_ADF\<rparr>"
    unfolding ad_update_time_def Let_def snd_conv using assms by (intro ad_scan) auto
  have p: "polled ?r = fold (ad_store (ad_values s)) [?a..<Suc (?a + k)] (polled s)"
    and c: "adcsr ?r = (adcsr s AND NOT ADCSR_ADST) OR ADCSR_ADF"
    unfolding r by simp_all
  have len: "length (polled s) = 4"
    using assms(1) by (simp add: ad_inv_def)
  have 1: "polled ?r ! ((?a + i) mod 4) = ad_values s ! (?a + i)" if "i \<le> k" for i
    unfolding p using that assms(5) len by (intro fold_ad_store_range) auto
  have 2: "polled ?r ! j = polled s ! j" if "\<forall>i \<le> k. (?a + i) mod 4 \<noteq> j" for j
    unfolding p
  proof (rule fold_ad_store_other)
    fix i assume "i \<in> set [?a..<Suc (?a + k)]"
    then have "i - ?a \<le> k" "?a + (i - ?a) = i"
      by auto
    then show "i mod 4 \<noteq> j"
      using that by metis
  qed
  have "((x AND NOT y) OR z) AND (z OR y) = z" for x y z :: u8
    by (rule bit_word_eqI) (auto simp: bit_simps)
  then have 3: "adcsr ?r AND (ADCSR_ADF OR ADCSR_ADST) = ADCSR_ADF"
    unfolding c .
  show ?thesis
    using 1 2 3 by blast
qed

definition ad_ex :: ad where
  "ad_ex = \<lparr>ad_values = [10, 20, 30, 40, 50, 60, 70, 80], polled = [1, 2, 3, 4], ad_tmp = 0,
     adcsr = 0x32, read_adcsr = 0, adcr = 0x7f, adchannel = 0, ad_start_cycle = 5000\<rparr>"

definition ad_bus_ex :: bus where
  "ad_bus_ex = \<lparr>cycles = 6000, next_timer_cycle = 9000, next_nmi_cycle = 9000, gui_out = [],
     ser_out = [], sound_out = []\<rparr>"

theorem ad_scan_complete_witness:
  "polled (snd (ad_update_time ad_bus_ex ad_ex)) ! 2 = 30
    \<and> polled (snd (ad_update_time ad_bus_ex ad_ex)) ! 3 = 4
    \<and> adcsr (snd (ad_update_time ad_bus_ex ad_ex)) AND 0xa0 = 0x80"
proof -
  have el: "ad_elapsed ad_bus_ex ad_ex = 1000"
    by (simp add: ad_elapsed_def ad_ex_def ad_bus_ex_def)
  have ct: "conv_time (adcsr ad_ex) = 266"
    by (simp add: conv_time_def ad_ex_def)
  have ch: "unat (adchannel ad_ex) = 0"
    by (simp add: ad_ex_def)
  have scan: "(\<forall>i \<le> 2. polled (snd (ad_update_time ad_bus_ex ad_ex)) ! ((unat (adchannel ad_ex) + i) mod 4)
              = ad_values ad_ex ! (unat (adchannel ad_ex) + i))
    \<and> (\<forall>j < 4. (\<forall>i \<le> 2. (unat (adchannel ad_ex) + i) mod 4 \<noteq> j) \<longrightarrow>
              polled (snd (ad_update_time ad_bus_ex ad_ex)) ! j = polled ad_ex ! j)
    \<and> adcsr (snd (ad_update_time ad_bus_ex ad_ex)) AND (ADCSR_ADF OR ADCSR_ADST) = ADCSR_ADF"
    by (rule ad_scan_complete) (simp_all add: el ct, simp_all add: ad_inv_def ad_ex_def)
  note 1 = scan [THEN conjunct1, rule_format, of 2]
  note 2 = scan [THEN conjunct2, THEN conjunct1, rule_format, of 3]
  note 3 = scan [THEN conjunct2, THEN conjunct2]
  show ?thesis
    using 1 2 3 by (simp add: ch) (simp add: ad_ex_def numeral_2_eq_2)
qed



end
