(* ===== verification/Buttons.thy ===== *)
theory Buttons
  imports Base
begin

text \<open>
  The four buttons and the external interrupt lines, \<^verbatim>\<open>buttons.c\<close>. The interrupt query has a side
  effect: it consumes the pending edge it reports.
\<close>

section \<open>State and operations\<close>

text \<open>A bit of \<open>btn_state\<close> is 0 while the button is pressed.\<close>

record btn =
  btn_state :: u8
  iscr :: u8
  ier :: u8
  irqpending :: u8

record btn_save_type =
  svb_btn_state :: u8
  svb_iscr :: u8
  svb_ier :: u8
  svb_irqpending :: u8

definition btn_reset :: "btn \<Rightarrow> btn" where
  "btn_reset s = \<lparr>btn_state = 0xff, iscr = 0, ier = 0, irqpending = 0\<rparr>"

definition btn_check_next_cycle :: "bus \<Rightarrow> btn \<Rightarrow> bus" where
  "btn_check_next_cycle b s =
    (if (NOT (btn_state s) AND ier s AND NOT (iscr s) AND 7) OR (irqpending s AND iscr s) \<noteq> 0
     then b\<lparr>next_timer_cycle := cycles b\<rparr> else b)"

definition btn_save :: "btn \<Rightarrow> btn_save_type" where
  "btn_save s = \<lparr>svb_btn_state = btn_state s, svb_iscr = iscr s, svb_ier = ier s,
     svb_irqpending = irqpending s\<rparr>"

text \<open>The buttons keep their present state; a press since the save counts as an edge.\<close>

definition btn_load :: "btn_save_type \<Rightarrow> bus \<Rightarrow> btn \<Rightarrow> bus \<times> btn" where
  "btn_load d b s =
    (let s1 = s\<lparr>iscr := svb_iscr d, ier := svb_ier d,
          irqpending := svb_irqpending d OR (svb_btn_state d AND NOT (btn_state s) AND svb_iscr d AND 7)\<rparr>
     in (btn_check_next_cycle b s1, s1))"

definition btn_mask :: "char \<Rightarrow> u8" where
  "btn_mask c =
    (if c = CHR ''O'' \<or> c = CHR ''o'' then 0x02
     else if c = CHR ''P'' \<or> c = CHR ''p'' then 0x80
     else if c = CHR ''R'' \<or> c = CHR ''r'' then 0x01
     else if c = CHR ''V'' \<or> c = CHR ''v'' then 0x40
     else 0)"

text \<open>A message of the GUI: the button, its new value and a newline.\<close>

definition btn_read_fd :: "string \<Rightarrow> bus \<Rightarrow> btn \<Rightarrow> bus \<times> btn" where
  "btn_read_fd buf b s =
    (let mask = btn_mask (buf ! 0);
         newval = (if buf ! 1 = CHR ''1'' then 0 else 0xff)
     in if (btn_state s XOR newval) AND mask \<noteq> 0 then
          let s1 = s\<lparr>irqpending := irqpending s OR (btn_state s AND mask AND iscr s AND 7),
                     btn_state := btn_state s XOR mask\<rparr>
          in (btn_check_next_cycle b s1, s1)
        else (b, s))"

definition btn_irqs :: "btn \<Rightarrow> u8" where
  "btn_irqs s = (NOT (btn_state s) AND ier s AND NOT (iscr s) AND 7) OR irqpending s"

definition btn_check_irq :: "btn \<Rightarrow> nat \<times> btn" where
  "btn_check_irq s =
    (case filter (\<lambda>i. bit (btn_irqs s) i) [0..<3] of
       [] \<Rightarrow> (255, s)
     | i # _ \<Rightarrow> (4 + i, s\<lparr>irqpending := irqpending s AND NOT (push_bit i 1)\<rparr>))"

definition set_iscr :: "u8 \<Rightarrow> bus \<Rightarrow> btn \<Rightarrow> bus \<times> btn" where
  "set_iscr value b s =
    (let s1 = s\<lparr>iscr := value AND 7, irqpending := irqpending s AND (value AND 7)\<rparr>
     in (btn_check_next_cycle b s1, s1))"

definition get_iscr :: "btn \<Rightarrow> u8" where
  "get_iscr s = ier s OR 0xf8"

definition set_ier :: "u8 \<Rightarrow> bus \<Rightarrow> btn \<Rightarrow> bus \<times> btn" where
  "set_ier value b s = (let s1 = s\<lparr>ier := value AND 7\<rparr> in (btn_check_next_cycle b s1, s1))"

definition get_ier :: "btn \<Rightarrow> u8" where
  "get_ier s = ier s OR 0xf8"

definition get_port4 :: "btn \<Rightarrow> u8" where
  "get_port4 s = 1 OR (btn_state s AND 2) OR push_bit 2 (btn_state s AND 1)"

definition get_port7 :: "btn \<Rightarrow> u8" where
  "get_port7 s = btn_state s AND 0xc0"

section \<open>Edges\<close>

lemma bit_btn_irqs:
  "bit (btn_irqs s) k \<longleftrightarrow> bit (irqpending s) k
     \<or> k < 3 \<and> \<not> bit (btn_state s) k \<and> bit (ier s) k \<and> \<not> bit (iscr s) k"
proof -
  have "(7 :: u8) = mask 3"
    by (simp add: mask_eq_decr_exp)
  then show ?thesis
    by (simp only: btn_irqs_def bit_or_iff bit_and_iff bit_not_iff bit_mask_iff)
      (auto dest: bit_imp_le_length)
qed

lemma btn_check_irq_255: "fst (btn_check_irq s) = 255 \<longleftrightarrow> (\<forall>i < 3. \<not> bit (btn_irqs s) i)"
proof (cases "filter (\<lambda>i. bit (btn_irqs s) i) [0..<3]")
  case Nil
  then show ?thesis
    by (simp add: btn_check_irq_def filter_empty_conv)
next
  case (Cons i js)
  then have "i \<in> set (filter (\<lambda>i. bit (btn_irqs s) i) [0..<3])"
    by simp
  then have "i < 3 \<and> bit (btn_irqs s) i"
    by simp
  with Cons show ?thesis
    by (auto simp: btn_check_irq_def)
qed

lemma btn_check_irq_single:
  assumes "i < 3" "\<And>k. k < 3 \<Longrightarrow> bit (btn_irqs s) k \<longleftrightarrow> k = i"
  shows "btn_check_irq s = (4 + i, s\<lparr>irqpending := irqpending s AND NOT (push_bit i 1)\<rparr>)"
proof -
  have "filter (\<lambda>k. bit (btn_irqs s) k) [0..<3] = filter (\<lambda>k. k = i) [0..<3]"
    using assms(2) by (intro filter_cong) auto
  moreover have "filter (\<lambda>k. k = i) [0..<3] = [i]"
    using assms(1) by (auto simp: upt_rec numeral_3_eq_3)
  ultimately show ?thesis
    by (simp add: btn_check_irq_def)
qed

section \<open>Properties\<close>


definition btn_ex :: btn where
  "btn_ex = \<lparr>btn_state = 0xff, iscr = 0x03, ier = 0x03, irqpending = 0\<rparr>"

definition btn_bus_ex :: bus where
  "btn_bus_ex = \<lparr>cycles = 5000, next_timer_cycle = 9000, next_nmi_cycle = 9000, gui_out = [],
     ser_out = [], sound_out = []\<rparr>"


text \<open>
  The program cannot read back the sense register: the reader of \<open>ISCR\<close> returns the enable
  register, whatever was written.
\<close>

theorem get_iscr_ignores_iscr: "get_iscr (snd (set_iscr v b s)) = ier s OR 0xf8"
  by (simp add: get_iscr_def set_iscr_def Let_def)

end
