(* ===== verification/Motor.thy ===== *)
theory Motor
  imports Base
begin

text \<open>
  The three motor outputs and the active-sensor lines, \<^verbatim>\<open>motor.c\<close>, and the wait-state register,
  \<^verbatim>\<open>waitstate.c\<close>. The motor code measures for how many cycles each motor was driven and reports the
  share every 100 ms.
\<close>

section \<open>Motor: state and operations\<close>

record motor =
  next_output_cycles :: u64
  motor_cycles :: u64
  motor_on :: "u64 list"
  last_on :: "u64 list"
  motor_dir :: "int list"
  last_dir :: "int list"
  motor_val :: u8
  cur_analog_active :: u8
  analog_active :: u8
  last_analog_active :: u8

abbreviation UPDATE_INTERVAL :: nat where "UPDATE_INTERVAL \<equiv> 1600000"
abbreviation SCALER :: nat where "SCALER \<equiv> 256"

definition motor_add :: "nat \<Rightarrow> u8 \<Rightarrow> nat \<Rightarrow> u64 \<Rightarrow> motor \<Rightarrow> motor" where
  "motor_add i msk sh dcycles m =
    (if motor_val m AND msk \<noteq> 0
     then m\<lparr>motor_on := (motor_on m)[i := motor_on m ! i + dcycles],
            motor_dir := (motor_dir m)[i := uint (drop_bit sh (motor_val m) AND 3)]\<rparr>
     else m)"

definition motor_update :: "bus \<Rightarrow> motor \<Rightarrow> motor" where
  "motor_update b m =
    (let dcycles = cycles b - motor_cycles m
     in (motor_add 2 0x03 0 dcycles (motor_add 1 0x0c 2 dcycles (motor_add 0 0xc0 6 dcycles m)))
          \<lparr>motor_cycles := cycles b\<rparr>)"

text \<open>One round of the report loop; \<open>%d\<close> prints the low 32 bits of the share.\<close>

definition motor_report :: "nat \<Rightarrow> bus \<times> motor \<Rightarrow> bus \<times> motor" where
  "motor_report i = (\<lambda>(b, m).
     let share = motor_on m ! i div of_nat (UPDATE_INTERVAL div SCALER);
         d = motor_dir m ! i;
         (b1, m1) =
           (if d \<noteq> last_dir m ! i \<or> share \<noteq> last_on m ! i
            then (gui_write (''M'' @ print_dec i @ '','' @ print_int d @ '','' @ print_int (sint (int32_of share))
                    @ [CHR 0x0A]) b,
                  m\<lparr>last_on := (last_on m)[i := share], last_dir := (last_dir m)[i := d]\<rparr>)
            else (b, m))
     in (b1, m1\<lparr>motor_on := (motor_on m1)[i := 0], motor_dir := (motor_dir m1)[i := 0]\<rparr>))"

definition motor_update_time :: "bus \<Rightarrow> motor \<Rightarrow> bus \<times> motor" where
  "motor_update_time b m =
    (let m1 = motor_update b m;
         (b2, m2) =
           (if next_output_cycles m1 \<le> cycles b then
              let (b', m') = fold motor_report [0, 1, 2]
                    (b, m1\<lparr>next_output_cycles :=
                       add_to_cycle (CHR ''M'') (next_output_cycles m1) (of_nat UPDATE_INTERVAL)\<rparr>);
                  (b'', m'') =
                    (if analog_active m' XOR last_analog_active m' \<noteq> 0
                     then (gui_write (''A'' @ print_dec (unat (analog_active m' AND 7)) @ [CHR 0x0A]) b',
                           m'\<lparr>last_analog_active := analog_active m'\<rparr>)
                     else (b', m'))
              in (b'', m''\<lparr>analog_active := cur_analog_active m''\<rparr>)
            else (b, m1))
     in (if next_output_cycles m2 < next_timer_cycle b2
         then b2\<lparr>next_timer_cycle := next_output_cycles m2\<rparr> else b2, m2))"

definition set_analog_active :: "u8 \<Rightarrow> motor \<Rightarrow> motor" where
  "set_analog_active val m =
     m\<lparr>cur_analog_active := val, analog_active := analog_active m OR val\<rparr>"

definition set_motor :: "u8 \<Rightarrow> bus \<Rightarrow> motor \<Rightarrow> motor" where
  "set_motor val b m = (motor_update b m)\<lparr>motor_val := val\<rparr>"

section \<open>Wait states\<close>

record waitstate =
  wcsr :: u16
  wait_states :: nat

definition set_WCSR :: "u8 \<Rightarrow> waitstate \<Rightarrow> waitstate" where
  "set_WCSR val w =
    (let w1 = w\<lparr>wcsr := ucast val\<rparr>; k = val AND 0x0c
     in if k = 0 then w1\<lparr>wait_states := unat (val AND 3)\<rparr>
        else if k = 4 then w1\<lparr>wait_states := 0\<rparr>
        else if k = 8 then w1\<lparr>wait_states := 0\<rparr>
        else w1\<lparr>wait_states := unat (val AND 3)\<rparr>)"

definition get_WCSR :: "waitstate \<Rightarrow> u8" where
  "get_WCSR w = ucast (wcsr w)"

section \<open>The measured on-time\<close>

text \<open>
  The specification: over a sequence of writes \<open>(cycle, value)\<close> to the motor register, the time during
  which the bits of a motor were not all zero.
\<close>

fun on_time :: "u8 \<Rightarrow> u8 \<Rightarrow> u64 \<Rightarrow> (u64 \<times> u8) list \<Rightarrow> u64 \<Rightarrow> u64" where
  "on_time msk v t [] T = (if v AND msk \<noteq> 0 then T - t else 0)"
| "on_time msk v t ((t', v') # evs) T = (if v AND msk \<noteq> 0 then t' - t else 0) + on_time msk v' t' evs T"

definition motor_run :: "bus \<Rightarrow> (u64 \<times> u8) list \<Rightarrow> motor \<Rightarrow> motor" where
  "motor_run b evs m = fold (\<lambda>(t, v). set_motor v (b\<lparr>cycles := t\<rparr>)) evs m"

definition motor_bits :: "nat \<Rightarrow> u8" where
  "motor_bits i = [0xc0, 0x0c, 0x03] ! i"

lemma motor_add_sel [simp]:
  "motor_cycles (motor_add i msk sh d m) = motor_cycles m" "motor_val (motor_add i msk sh d m) = motor_val m"
  "length (motor_on (motor_add i msk sh d m)) = length (motor_on m)"
  "motor_on (motor_add i msk sh d m)
     = (if motor_val m AND msk \<noteq> 0 then (motor_on m)[i := motor_on m ! i + d] else motor_on m)"
  by (simp_all add: motor_add_def)

lemma motor_update_sel:
  "motor_cycles (motor_update b m) = cycles b" "motor_val (motor_update b m) = motor_val m"
  "length (motor_on (motor_update b m)) = length (motor_on m)"
  by (simp_all add: motor_update_def Let_def)

lemma motor_update_on:
  assumes "length (motor_on m) = 3" "i < 3"
  shows "motor_on (motor_update b m) ! i
    = motor_on m ! i + (if motor_val m AND motor_bits i \<noteq> 0 then cycles b - motor_cycles m else 0)"
proof -
  have "i = 0 \<or> i = 1 \<or> i = 2"
    using assms by auto
  with assms(1) show ?thesis
    by (elim disjE) (simp_all add: motor_update_def motor_bits_def Let_def nth_list_update)
qed

section \<open>Properties\<close>

text \<open>
  However the program switches the motors, at every update the counter of each motor holds the
  time (modulo \<open>2 ^ 64\<close>) for which it was driven since the counter was last reset.
\<close>

theorem motor_on_time:
  assumes "length (motor_on m) = 3" and "i < 3"
  shows "motor_on (motor_update (b\<lparr>cycles := T\<rparr>) (motor_run b evs m)) ! i
    = motor_on m ! i + on_time (motor_bits i) (motor_val m) (motor_cycles m) evs T"
  using assms(1)
proof (induction evs arbitrary: m)
  case Nil
  then show ?case
    by (simp add: motor_run_def motor_update_on assms(2))
next
  case (Cons ev evs)
  obtain t v where ev: "ev = (t, v)"
    by (cases ev)
  let ?m = "set_motor v (b\<lparr>cycles := t\<rparr>) m"
  have "motor_run b (ev # evs) m = motor_run b evs ?m"
    by (simp add: motor_run_def ev)
  with Cons.IH [of ?m] Cons.prems show ?case
    by (simp add: ev set_motor_def motor_update_sel motor_update_on assms(2) add.assoc)
qed

definition motor_ex :: motor where
  "motor_ex = \<lparr>next_output_cycles = 1600000, motor_cycles = 0, motor_on = [0, 0, 0], last_on = [0, 0, 0],
     motor_dir = [0, 0, 0], last_dir = [0, 0, 0], motor_val = 0, cur_analog_active = 0,
     analog_active = 0, last_analog_active = 0\<rparr>"

definition motor_bus_ex :: bus where
  "motor_bus_ex = \<lparr>cycles = 0, next_timer_cycle = 90000, next_nmi_cycle = 90000, gui_out = [],
     ser_out = [], sound_out = []\<rparr>"

theorem motor_on_time_witness:
  "motor_on (motor_update (motor_bus_ex\<lparr>cycles := 1000\<rparr>)
     (motor_run motor_bus_ex [(100, 0x40), (300, 0xc1), (700, 0)] motor_ex)) ! 0 = 600"
proof -
  have "length (motor_on motor_ex) = 3" "(0 :: nat) < 3"
    by (simp_all add: motor_ex_def)
  from motor_on_time [OF this, of 1000 motor_bus_ex "[(100, 0x40), (300, 0xc1), (700, 0)]"]
  show ?thesis
    by (simp add: motor_ex_def motor_bits_def)
qed

end
