(* ===== verification/Serial.thy ===== *)
theory Serial
  imports Base
begin

text \<open>
  The serial interface to the infra-red port, \<^verbatim>\<open>serial.c\<close>. Bytes leave through the socket \<open>serfd\<close>
  (logged in \<open>ser_out\<close>) and arrive from it; \<open>ser_in\<close> holds the bytes waiting there, which a
  non-blocking \<open>read\<close> takes one at a time.
\<close>

section \<open>State and operations\<close>

record ser =
  ser_in :: "u8 list"
  receiving :: bool
  ser_cycles :: u32
  rdr :: u8
  tdr :: u8
  smr :: u8
  scr :: u8
  ssr :: u8
  readssr :: u8
  brr :: u8
  ser_stcr :: u8
  rx_cycle :: u64
  tx_cycle :: u64

abbreviation SMR_CHR :: u8 where "SMR_CHR \<equiv> 0x40"
abbreviation SMR_PE :: u8 where "SMR_PE \<equiv> 0x20"
abbreviation SMR_STOP :: u8 where "SMR_STOP \<equiv> 0x08"
abbreviation SCR_TE :: u8 where "SCR_TE \<equiv> 0x20"
abbreviation SCR_RE :: u8 where "SCR_RE \<equiv> 0x10"
abbreviation SSR_TDRE :: u8 where "SSR_TDRE \<equiv> 0x80"
abbreviation SSR_RDRF :: u8 where "SSR_RDRF \<equiv> 0x40"
abbreviation SSR_ORER :: u8 where "SSR_ORER \<equiv> 0x20"
abbreviation SSR_FER :: u8 where "SSR_FER \<equiv> 0x10"
abbreviation SSR_PER :: u8 where "SSR_PER \<equiv> 0x08"
abbreviation SSR_TEND :: u8 where "SSR_TEND \<equiv> 0x04"
abbreviation SSR_MPBT :: u8 where "SSR_MPBT \<equiv> 0x01"

definition ser_bits :: "u8 \<Rightarrow> nat" where
  "ser_bits m = (if m AND SMR_CHR \<noteq> 0 then 7 else 8) + (if m AND SMR_PE \<noteq> 0 then 1 else 0)
     + (if m AND SMR_STOP \<noteq> 0 then 2 else 1) + 1"

definition ser_update_cycles :: "bus \<Rightarrow> ser \<Rightarrow> ser" where
  "ser_update_cycles b s =
    (let n = of_nat ((unat (brr s) + 1) * 2 ^ (2 * unat (smr s AND 3) + 5) * ser_bits (smr s))
     in s\<lparr>ser_cycles := n, rx_cycle := add_to_cycle (CHR ''r'') (cycles b) n\<rparr>)"

record ser_save_type =
  svs_rdr :: u8
  svs_tdr :: u8
  svs_smr :: u8
  svs_scr :: u8
  svs_ssr :: u8
  svs_readssr :: u8
  svs_brr :: u8
  svs_stcr :: u8

definition ser_save :: "ser \<Rightarrow> ser_save_type" where
  "ser_save s = \<lparr>svs_rdr = rdr s, svs_tdr = tdr s, svs_smr = smr s, svs_scr = scr s, svs_ssr = ssr s,
     svs_readssr = readssr s, svs_brr = brr s, svs_stcr = ser_stcr s\<rparr>"

definition ser_load :: "ser_save_type \<Rightarrow> bus \<Rightarrow> ser \<Rightarrow> ser" where
  "ser_load d b s =
    (let s1 = ser_update_cycles b (s\<lparr>rdr := svs_rdr d, tdr := svs_tdr d, smr := svs_smr d, scr := svs_scr d,
           ssr := svs_ssr d, readssr := svs_readssr d, brr := svs_brr d, ser_stcr := svs_stcr d\<rparr>)
     in s1\<lparr>tx_cycle := add_to_cycle (CHR ''t'') (cycles b) (ser_cycles s1)\<rparr>)"

definition ser_reset :: "bus \<Rightarrow> ser \<Rightarrow> ser" where
  "ser_reset b s =
    (ser_update_cycles b (s\<lparr>rdr := 0, smr := 0, scr := 0, tdr := 0xff, brr := 0xff, ssr := 0x84,
        readssr := 0x84, ser_stcr := 0xf8, receiving := False\<rparr>))\<lparr>tx_cycle := cycles b\<rparr>"

definition ser_next :: "bus \<Rightarrow> ser \<Rightarrow> u32" where
  "ser_next b s =
    (let next = ser_cycles s;
         next = (if rx_cycle s \<noteq> cycles b \<and> int32_of (rx_cycle s - cycles b) < next
                    \<and> scr s AND SSR_RDRF \<noteq> 0
                 then int32_of (rx_cycle s - cycles b) else next);
         next = (if int32_of (tx_cycle s - cycles b) < next \<and> scr s AND (SSR_TDRE OR SSR_TEND) \<noteq> 0
                 then int32_of (tx_cycle s - cycles b) else next)
     in next)"

definition ser_check_next_cycle :: "bus \<Rightarrow> ser \<Rightarrow> bus" where
  "ser_check_next_cycle b s =
    (if scr s AND ssr s AND (SSR_RDRF OR SSR_TDRE OR SSR_TEND) \<noteq> 0
     then b\<lparr>next_timer_cycle := cycles b\<rparr>
     else if ser_next b s <s int32_of (next_timer_cycle b - cycles b)
     then b\<lparr>next_timer_cycle := add_to_cycle (CHR ''q'') (cycles b) (ser_next b s)\<rparr>
     else b)"

definition ser_transmit :: "bus \<Rightarrow> ser \<Rightarrow> bus \<times> ser" where
  "ser_transmit b s =
    (if 0 \<le>s int32_of (cycles b - tx_cycle s) then
       if ssr s AND SSR_TDRE = 0 then
         (if scr s AND SCR_TE \<noteq> 0 then ser_write (tdr s) b else b,
          s\<lparr>ssr := ssr s OR SSR_TDRE,
             tx_cycle := add_to_cycle (CHR ''u'') (tx_cycle s) (ser_cycles s)\<rparr>)
       else (b, s\<lparr>ssr := ssr s OR SSR_TEND, tx_cycle := cycles b - 1\<rparr>)
     else (b, s))"

definition ser_receive :: "bus \<Rightarrow> ser \<Rightarrow> ser" where
  "ser_receive b s =
    (if 0 \<le>s int32_of (cycles b - rx_cycle s) then
       case ser_in s of
         buf # rest \<Rightarrow>
           let s1 = s\<lparr>ser_in := rest\<rparr>
           in if scr s1 AND SCR_RE \<noteq> 0 then
                let s2 = s1\<lparr>rx_cycle := add_to_cycle (CHR ''s'') (rx_cycle s1) (ser_cycles s1), receiving := True\<rparr>
                in if ssr s2 AND SSR_RDRF \<noteq> 0 then s2\<lparr>ssr := ssr s2 OR SSR_ORER\<rparr>
                   else s2\<lparr>rdr := (if smr s2 AND SMR_CHR \<noteq> 0 then buf AND 0x7f else buf),
                           ssr := ssr s2 OR SSR_RDRF\<rparr>
              else s1\<lparr>rx_cycle := cycles b - 1, receiving := False\<rparr>
       | [] \<Rightarrow> s\<lparr>rx_cycle := cycles b - 1, receiving := False\<rparr>
     else s)"

definition ser_update_time :: "bus \<Rightarrow> ser \<Rightarrow> bus \<times> ser" where
  "ser_update_time b s =
    (let (b1, s1) = ser_transmit b s; s2 = ser_receive b1 s1
     in (ser_check_next_cycle b1 s2, s2))"

definition ser_check_irq :: "ser \<Rightarrow> nat" where
  "ser_check_irq s =
    (let irqs = scr s AND ssr s AND (SSR_RDRF OR SSR_TDRE OR SSR_TEND)
     in if irqs AND SSR_RDRF \<noteq> 0 then 28
        else if irqs AND SSR_TDRE \<noteq> 0 then 29
        else if irqs AND SSR_TEND \<noteq> 0 then 30
        else 255)"

definition set_SMR :: "u8 \<Rightarrow> bus \<Rightarrow> ser \<Rightarrow> ser" where
  "set_SMR val b s = ser_update_cycles b (s\<lparr>smr := val\<rparr>)"

definition get_SMR :: "ser \<Rightarrow> u8" where
  "get_SMR s = smr s"

definition set_BRR :: "u8 \<Rightarrow> bus \<Rightarrow> ser \<Rightarrow> ser" where
  "set_BRR val b s = ser_update_cycles b (s\<lparr>brr := val\<rparr>)"

definition get_BRR :: "ser \<Rightarrow> u8" where
  "get_BRR s = brr s"

definition set_SCR :: "u8 \<Rightarrow> bus \<Rightarrow> ser \<Rightarrow> bus \<times> ser" where
  "set_SCR val b s = (let s1 = s\<lparr>scr := val\<rparr> in (ser_check_next_cycle b s1, s1))"

definition get_SCR :: "ser \<Rightarrow> u8" where
  "get_SCR s = scr s"

definition set_SSR :: "u8 \<Rightarrow> bus \<Rightarrow> ser \<Rightarrow> bus \<times> ser" where
  "set_SSR val b s =
    (let (b1, s1) =
           (if readssr s AND NOT val AND SSR_TDRE \<noteq> 0 then
              let s' = s\<lparr>ssr := ssr s AND NOT (SSR_TDRE OR SSR_TEND)\<rparr>
              in if int32_of (tx_cycle s' - cycles b) <s 0 then
                   (if scr s' AND SCR_TE \<noteq> 0 then ser_write (tdr s') b else b,
                    s'\<lparr>tx_cycle := add_to_cycle (CHR ''v'') (cycles b) (ser_cycles s'),
                       ssr := ssr s' OR SSR_TDRE\<rparr>)
                 else (b, s')
            else (b, s));
         s2 = s1\<lparr>ssr := ssr s1 AND
                (NOT (readssr s1) OR val OR NOT (SSR_RDRF OR SSR_ORER OR SSR_FER OR SSR_PER))\<rparr>;
         s3 = s2\<lparr>ssr := ssr s2 XOR ((ssr s2 XOR val) AND SSR_MPBT)\<rparr>
     in (ser_check_next_cycle b1 s3, s3))"

definition get_SSR :: "ser \<Rightarrow> u8 \<times> ser" where
  "get_SSR s = (ssr s, s\<lparr>readssr := ssr s\<rparr>)"

definition set_TDR :: "u8 \<Rightarrow> ser \<Rightarrow> ser" where
  "set_TDR val s = s\<lparr>tdr := val\<rparr>"

definition get_TDR :: "ser \<Rightarrow> u8" where
  "get_TDR s = tdr s"

definition get_RDR :: "ser \<Rightarrow> u8" where
  "get_RDR s = rdr s"

section \<open>The transmitted stream\<close>

text \<open>
  What the program has handed over: the bytes on the wire and, while \<open>TDRE\<close> is clear, the one that waits
  in \<open>TDR\<close>.
\<close>

definition ser_sent :: "bus \<times> ser \<Rightarrow> u8 list" where
  "ser_sent = (\<lambda>(b, s). ser_out b @ (if ssr s AND SSR_TDRE = 0 then [tdr s] else []))"

lemma ser_check_next_cycle_sel [simp]:
  "ser_out (ser_check_next_cycle b s) = ser_out b" "cycles (ser_check_next_cycle b s) = cycles b"
  "next_nmi_cycle (ser_check_next_cycle b s) = next_nmi_cycle b"
  by (simp_all add: ser_check_next_cycle_def)

lemma ser_receive_sel [simp]:
  "tdr (ser_receive b s) = tdr s" "bit (ssr (ser_receive b s)) 7 = bit (ssr s) 7"
  "scr (ser_receive b s) = scr s" "ser_cycles (ser_receive b s) = ser_cycles s"
  by (auto simp: ser_receive_def Let_def bit_or_iff split: list.split)

lemma ser_transmit_sent:
  assumes "scr s AND SCR_TE \<noteq> 0"
  shows "ser_sent (ser_transmit b s) = ser_sent (b, s)"
  using assms by (auto simp: ser_sent_def ser_transmit_def ser_write_def flag_simps bit_or_iff)

lemma ser_update_time_sent:
  assumes "scr s AND SCR_TE \<noteq> 0"
  shows "ser_sent (ser_update_time b s) = ser_sent (b, s)"
  using ser_transmit_sent [OF assms, of b]
  by (auto simp: ser_update_time_def Let_def split_beta ser_sent_def flag_simps split: if_splits)

lemma set_SSR_sent:
  assumes "scr s AND SCR_TE \<noteq> 0" "ssr s AND SSR_TDRE \<noteq> 0" "readssr s AND SSR_TDRE \<noteq> 0"
    and "val AND SSR_TDRE = 0"
  shows "ser_sent (set_SSR val b (set_TDR x s)) = ser_sent (b, s) @ [x]"
proof -
  have tdre: "bit (readssr s) 7" "bit (ssr s) 7" "\<not> bit val 7"
    using assms by (simp_all add: flag_simps)
  have cond: "readssr s AND NOT val AND SSR_TDRE \<noteq> 0"
    using tdre by (simp add: flag_simps bit_and_iff bit_not_iff flip: and.assoc)
  show ?thesis
    using assms(1,2) cond
    by (simp add: ser_sent_def set_SSR_def set_TDR_def Let_def ser_write_def split_beta)
       (simp add: flag_simps bit_simps)
qed

section \<open>Interrupts\<close>

definition ser_ok :: "ser \<Rightarrow> bool" where
  "ser_ok s \<longleftrightarrow> unat (ser_cycles s) < 2 ^ 24"

lemma ser_cycles_bound: "ser_ok (ser_update_cycles b s)"
proof -
  have "unat (brr s) + 1 \<le> 2 ^ 8"
    using unat_less_2p [of "brr s"] by simp
  moreover have "unat (smr s AND 3) \<le> 3"
    using word_and_le1 [of "smr s" 3] by (simp add: word_le_nat_alt)
  then have "(2 :: nat) ^ (2 * unat (smr s AND 3) + 5) \<le> 2 ^ 11"
    by (intro power_increasing) auto
  moreover have "ser_bits (smr s) \<le> 12"
    by (simp add: ser_bits_def)
  ultimately have "(unat (brr s) + 1) * 2 ^ (2 * unat (smr s AND 3) + 5) * ser_bits (smr s) \<le> 2 ^ 8 * 2 ^ 11 * 12"
    by (intro mult_le_mono)
  then have "(unat (brr s) + 1) * 2 ^ (2 * unat (smr s AND 3) + 5) * ser_bits (smr s) < 2 ^ 24"
    by simp
  moreover from this have "unat (of_nat ((unat (brr s) + 1) * 2 ^ (2 * unat (smr s AND 3) + 5) * ser_bits (smr s)) :: u32)
      = (unat (brr s) + 1) * 2 ^ (2 * unat (smr s AND 3) + 5) * ser_bits (smr s)"
    by (simp only: unat_of_nat) (simp add: take_bit_nat_eq_self)
  ultimately show ?thesis
    by (simp add: ser_ok_def ser_update_cycles_def Let_def del: of_nat_mult of_nat_add)
qed

lemma ser_next_le: "ser_next b s \<le> ser_cycles s"
  by (auto simp: ser_next_def Let_def)

lemma ser_check_deadline:
  assumes ok: "ser_ok s" and near: "near_deadline b"
  shows "(uint (next_timer_cycle (ser_check_next_cycle b s)) \<le> uint (next_timer_cycle b)
         \<or> next_timer_cycle (ser_check_next_cycle b s) = cycles b) \<and> near_deadline (ser_check_next_cycle b s)"
proof -
  define n where "n = unat (ser_next b s)"
  have n: "n < 2 ^ 24"
    using ok ser_next_le [of b s] by (simp add: n_def ser_ok_def word_le_nat_alt)
  then have n31: "n < 2 ^ 31"
    by simp
  have w: "ser_next b s = of_nat n"
    by (simp add: n_def)
  have at: "uint (add_to_cycle x (cycles b) (ser_next b s)) = uint (cycles b) + int n" for x
  proof -
    have "add_to_cycle x (cycles b) (ser_next b s) = of_int (uint (cycles b) + int n)"
      by (simp add: add_to_cycle_def w scast_of_nat_small [OF n31])
    then have "uint (add_to_cycle x (cycles b) (ser_next b s)) = (uint (cycles b) + int n) mod 2 ^ 64"
      by (simp only: uint_word_of_int) simp
    also have "\<dots> = uint (cycles b) + int n"
      using near n by (intro mod_pos_pos_trivial) (simp_all add: near_deadline_def)
    finally show ?thesis .
  qed
  have lt: "ser_next b s <s int32_of (next_timer_cycle b - cycles b)
      \<longleftrightarrow> int n < uint (next_timer_cycle b) - uint (cycles b)"
    using near_deadline_sint [OF near] by (simp add: word_sless_alt w sint_of_nat_small [OF n31])
  have "next_timer_cycle (ser_check_next_cycle b s) = next_timer_cycle b
      \<or> next_timer_cycle (ser_check_next_cycle b s) = cycles b
      \<or> uint (next_timer_cycle (ser_check_next_cycle b s)) = uint (cycles b) + int n
        \<and> uint (cycles b) + int n < uint (next_timer_cycle b)"
    using at lt by (auto simp: ser_check_next_cycle_def)
  then show ?thesis
    using near n unfolding near_deadline_def by (auto simp: abs_less_iff)
qed

lemma ser_transmit_bus:
  "cycles (fst (ser_transmit b s)) = cycles b" "next_nmi_cycle (fst (ser_transmit b s)) = next_nmi_cycle b"
  "next_timer_cycle (fst (ser_transmit b s)) = next_timer_cycle b"
  "ser_cycles (snd (ser_transmit b s)) = ser_cycles s"
  by (auto simp: ser_transmit_def ser_write_def)

lemma ser_check_irq_255: "ser_check_irq s = 255 \<longleftrightarrow> scr s AND ssr s AND (SSR_RDRF OR SSR_TDRE OR SSR_TEND) = 0"
proof -
  have m: "SSR_RDRF OR SSR_TDRE OR SSR_TEND = push_bit 2 1 OR push_bit 6 1 OR (push_bit 7 1 :: u8)"
    by simp
  show ?thesis
    unfolding ser_check_irq_def Let_def m
    by (simp only: flag_simps u8_eq_iff) (simp add: bit_simps)
qed

interpretation ser_irq: irq_source ser_update_time ser_check_irq "\<lambda>b s. ser_ok s"
proof unfold_locales
  fix b b' :: bus and s :: ser
  let ?b1 = "fst (ser_transmit b s)" and ?s2 = "ser_receive (fst (ser_transmit b s)) (snd (ser_transmit b s))"
  have upd: "ser_update_time b s = (ser_check_next_cycle ?b1 ?s2, ?s2)"
    by (simp add: ser_update_time_def Let_def split_beta)
  show "cycles (fst (ser_update_time b s)) = cycles b"
    and "next_nmi_cycle (fst (ser_update_time b s)) = next_nmi_cycle b"
    by (simp_all add: upd ser_transmit_bus)
  show "next_timer_cycle (fst (ser_update_time b s)) = cycles b"
    if "ser_check_irq (snd (ser_update_time b s)) \<noteq> 255"
    using that by (simp add: upd ser_check_irq_255 ser_check_next_cycle_def ser_transmit_bus)
  show "ser_ok s = ser_ok s" ..
  assume "ser_ok s" "near_deadline b"
  then have "ser_ok ?s2" "near_deadline ?b1"
    by (simp_all add: ser_ok_def near_deadline_def ser_transmit_bus)
  from ser_check_deadline [OF this]
  show "uint (next_timer_cycle (fst (ser_update_time b s))) \<le> uint (next_timer_cycle b)
       \<or> next_timer_cycle (fst (ser_update_time b s)) = cycles b"
    and "near_deadline (fst (ser_update_time b s))"
    by (simp_all add: upd ser_transmit_bus)
qed

section \<open>Properties\<close>


definition ser_ex :: ser where
  "ser_ex = \<lparr>ser_in = [0x55, 0xaa], receiving = False, ser_cycles = 1000, rdr = 7, tdr = 0xff, smr = 0,
     scr = 0x30, ssr = 0xc4, readssr = 0x84, brr = 0, ser_stcr = 0xf8, rx_cycle = 4000, tx_cycle = 9000\<rparr>"

definition ser_bus_ex :: bus where
  "ser_bus_ex = \<lparr>cycles = 5000, next_timer_cycle = 9000, next_nmi_cycle = 9000, gui_out = [],
     ser_out = [0x10], sound_out = []\<rparr>"


text \<open>
  A received byte never overwrites one the program has not fetched: when a byte is due and
  \<open>RDRF\<close> is still set, \<open>RDR\<close> keeps its value and \<open>ORER\<close> is raised; otherwise \<open>RDR\<close> takes the byte
  (7 bits of it in 7-bit mode) and \<open>RDRF\<close> is raised. In both cases the byte leaves the socket.
\<close>

theorem ser_receive_overrun:
  assumes "0 \<le>s int32_of (cycles b - rx_cycle s)" and "scr s AND SCR_RE \<noteq> 0" and "ser_in s = x # xs"
  shows "ser_in (snd (ser_update_time b s)) = xs
    \<and> (if ssr s AND SSR_RDRF \<noteq> 0
       then rdr (snd (ser_update_time b s)) = rdr s \<and> ssr (snd (ser_update_time b s)) AND SSR_ORER \<noteq> 0
       else rdr (snd (ser_update_time b s)) = (if smr s AND SMR_CHR \<noteq> 0 then x AND 0x7f else x)
         \<and> ssr (snd (ser_update_time b s)) AND SSR_RDRF \<noteq> 0
         \<and> (ssr (snd (ser_update_time b s)) AND SSR_ORER = 0 \<longleftrightarrow> ssr s AND SSR_ORER = 0))"
proof -
  let ?b = "fst (ser_transmit b s)" and ?s = "snd (ser_transmit b s)"
  have t: "cycles ?b = cycles b" "rx_cycle ?s = rx_cycle s" "scr ?s = scr s" "ser_in ?s = ser_in s"
      "rdr ?s = rdr s" "smr ?s = smr s" "bit (ssr ?s) 6 = bit (ssr s) 6" "bit (ssr ?s) 5 = bit (ssr s) 5"
    by (auto simp: ser_transmit_def ser_write_def bit_or_iff)
  have u: "snd (ser_update_time b s) = ser_receive ?b ?s"
    by (simp add: ser_update_time_def Let_def split_beta)
  show ?thesis
    unfolding u using assms by (simp add: ser_receive_def Let_def t flag_simps bit_or_iff)
qed

theorem ser_receive_overrun_witness:
  "rdr (snd (ser_update_time ser_bus_ex ser_ex)) = 7 \<and> ser_in (snd (ser_update_time ser_bus_ex ser_ex)) = [0xaa]"
proof -
  have "0 \<le>s int32_of (cycles ser_bus_ex - rx_cycle ser_ex)" "scr ser_ex AND SCR_RE \<noteq> 0"
    "ser_in ser_ex = 0x55 # [0xaa]" "ssr ser_ex AND SSR_RDRF \<noteq> 0" "rdr ser_ex = 7"
    by (simp_all add: ser_bus_ex_def ser_ex_def int32_of_def word_sle_eq)
  with ser_receive_overrun [OF this(1-3)] show ?thesis
    by simp
qed

text \<open>
  The receive flags are cleared only by a write of 0 after they were read as 1: for each of
  \<open>RDRF\<close>, \<open>ORER\<close>, \<open>FER\<close>, \<open>PER\<close> (bits 6 to 3) the flag stays set after a write to \<open>SSR\<close> unless the last read
  returned 1 for it and 0 is written to it.
\<close>

theorem set_SSR_receive_flags:
  assumes "k \<in> {3, 4, 5, 6}"
  shows "bit (ssr (snd (set_SSR val b s))) k \<longleftrightarrow> bit (ssr s) k \<and> (bit (readssr s) k \<longrightarrow> bit val k)"
proof -
  consider "k = 3" | "k = 4" | "k = 5" | "k = 6"
    using assms by blast
  then show ?thesis
    by cases (auto simp: set_SSR_def Let_def split_beta bit_simps)
qed

theorem set_SSR_receive_flags_witness:
  "\<not> bit (ssr (snd (set_SSR 0x84 ser_bus_ex (ser_ex\<lparr>readssr := 0xc4\<rparr>)))) 6
    \<and> bit (ssr (snd (set_SSR 0x84 ser_bus_ex ser_ex))) 6"
  using set_SSR_receive_flags [of 6 "0x84" ser_bus_ex ser_ex]
    set_SSR_receive_flags [of 6 "0x84" ser_bus_ex "ser_ex\<lparr>readssr := 0xc4\<rparr>"]
  by (simp add: ser_ex_def)

end
