(* ===== verification/Lcd.thy ===== *)
theory Lcd
  imports Base
begin

text \<open>
  The LCD controller behind the bit-banged I2C lines of port 6, \<^verbatim>\<open>lcd.c\<close>. Two of its routines call
  \<open>wait_peripherals\<close> in the middle, so the operations work on the triple of the LCD, the shared state
  and the rest of the machine, and take \<open>wait\<close> on such a triple, and \<open>set_analog_active\<close> on the rest,
  as arguments. An access outside \<open>lcd_data\<close> is \<open>None\<close>.
\<close>

section \<open>State and operations\<close>

text \<open>\<open>lcd_mode\<close>, \<open>lcd_ptr\<close> and \<open>lcd_subaddr\<close> are \<open>int8\<close>, read as signed bytes where it matters.\<close>

record lcd =
  lcd_data :: "u8 list"
  lcd_mode :: u8
  lcd_ptr :: u8
  lcd_subaddr :: u8
  i2c_state :: int
  i2c_data :: u8
  i2c_bitnr :: u8
  port6 :: u8

type_synonym 'r lcd_st = "lcd \<times> bus \<times> 'r"

record lcd_save_type =
  svl_data :: "u8 list"
  svl_mode :: u8
  svl_ptr :: u8
  svl_subaddr :: u8
  svl_i2c_state :: int
  svl_i2c_data :: u8
  svl_i2c_bitnr :: u8
  svl_port6 :: u8

definition lcd_save :: "lcd \<Rightarrow> lcd_save_type" where
  "lcd_save l = \<lparr>svl_data = lcd_data l, svl_mode = lcd_mode l, svl_ptr = lcd_ptr l,
     svl_subaddr = lcd_subaddr l, svl_i2c_state = i2c_state l, svl_i2c_data = i2c_data l,
     svl_i2c_bitnr = i2c_bitnr l, svl_port6 = port6 l\<rparr>"

definition lcd_cell_msg :: "nat \<Rightarrow> u8 \<Rightarrow> string" where
  "lcd_cell_msg i x = ''L'' @ print_dec i @ '','' @ print_hex2 x @ [CHR 0x0A]"

definition lcd_enable_msg :: "u8 \<Rightarrow> string" where
  "lcd_enable_msg md = ''L99,'' @ print_dec (if md AND 0x08 \<noteq> 0 then 1 else 0) @ [CHR 0x0A]"

definition lcd_load :: "lcd_save_type \<Rightarrow> bus \<Rightarrow> bus \<times> lcd" where
  "lcd_load d b =
    (let l = \<lparr>lcd_data = svl_data d, lcd_mode = svl_mode d, lcd_ptr = svl_ptr d,
           lcd_subaddr = svl_subaddr d, i2c_state = svl_i2c_state d, i2c_data = svl_i2c_data d,
           i2c_bitnr = svl_i2c_bitnr d, port6 = svl_port6 d\<rparr>;
         b1 = fold (\<lambda>i. gui_write (lcd_cell_msg i (lcd_data l ! i))) [0..<12] b;
         b2 = gui_write (lcd_enable_msg (lcd_mode l)) b1
     in (gui_write (''A'' @ print_dec (unat (port6 l AND 7)) @ [CHR 0x0A]) b2, l))"

definition lcd_display :: "('r lcd_st \<Rightarrow> 'r lcd_st option) \<Rightarrow> int \<Rightarrow> u8 \<Rightarrow> 'r lcd_st \<Rightarrow> 'r lcd_st option" where
  "lcd_display wait ptr data = (\<lambda>(l, b, r).
     if ptr < 0 \<or> 12 \<le> ptr then None
     else if lcd_data l ! nat ptr = data then Some (l, b, r)
     else
       map_option (\<lambda>(l1, b1, r1). (l1, gui_write (lcd_cell_msg (nat ptr) data) b1, r1))
         (wait (l\<lparr>lcd_data := (lcd_data l)[nat ptr := data]\<rparr>, b, r)))"

definition lcd_enable :: "('r lcd_st \<Rightarrow> 'r lcd_st option) \<Rightarrow> u8 \<Rightarrow> 'r lcd_st \<Rightarrow> 'r lcd_st option" where
  "lcd_enable wait md st = map_option (\<lambda>(l1, b1, r1). (l1, gui_write (lcd_enable_msg md) b1, r1)) (wait st)"

text \<open>The ninth clock of a byte: \<open>i2c_byte\<close> is the \<open>switch (i2c_state)\<close> and the two resets after it.\<close>

definition i2c_command :: "('r lcd_st \<Rightarrow> 'r lcd_st option) \<Rightarrow> 'r lcd_st \<Rightarrow> 'r lcd_st option" where
  "i2c_command wait st =
    (let d = i2c_data (fst st); cmd = d AND 0x60
     in map_option (\<lambda>(l, br). (if i2c_data l AND 0x80 = 0 then l\<lparr>i2c_state := 2\<rparr> else l, br))
          (if cmd = 0x40 then
             map_option (\<lambda>(l1, br). (l1\<lparr>lcd_mode := i2c_data l1 AND 0x1f\<rparr>, br))
               (if (lcd_mode (fst st) XOR d) AND 0x08 \<noteq> 0 then lcd_enable wait d st else Some st)
           else case st of (l, br) \<Rightarrow>
             Some (if cmd = 0x00 then (l\<lparr>lcd_ptr := d AND 0x1f\<rparr>, br)
                   else if cmd = 0x60 then (l\<lparr>lcd_subaddr := d AND 0x7\<rparr>, br)
                   else (l, br))))"

definition i2c_byte :: "('r lcd_st \<Rightarrow> 'r lcd_st option) \<Rightarrow> 'r lcd_st \<Rightarrow> 'r lcd_st option" where
  "i2c_byte wait st =
    (let l = fst st;
         res =
           (if i2c_state l = 0 then
              Some (l\<lparr>i2c_state := (if i2c_data l = 0x7c then 1 else -1)\<rparr>, snd st)
            else if i2c_state l = 1 then i2c_command wait st
            else if i2c_state l = 2 \<and> lcd_subaddr l = 0 then
              map_option (\<lambda>(l1, br). (l1\<lparr>lcd_ptr := lcd_ptr l1 + 2\<rparr>, br))
                (lcd_display wait (sint (signed_drop_bit 1 (lcd_ptr l))) (i2c_data l) st)
            else Some st)
     in map_option (\<lambda>(l1, br). (l1\<lparr>i2c_bitnr := 0xff, i2c_data := 0\<rparr>, br)) res)"

definition set_port6 ::
  "('r lcd_st \<Rightarrow> 'r lcd_st option) \<Rightarrow> (u8 \<Rightarrow> 'r \<Rightarrow> 'r) \<Rightarrow> u8 \<Rightarrow> 'r lcd_st \<Rightarrow> 'r lcd_st option" where
  "set_port6 wait analog val st =
    (let l = fst st;
         res =
           (if val AND 0x20 = 0 then Some st
            else
              let res1 =
                (if port6 l AND 0x20 = 0 \<and> 0 \<le> i2c_state l then
                   let l1 = l\<lparr>i2c_bitnr := i2c_bitnr l + 1\<rparr>
                   in if i2c_bitnr l1 < 8 then
                        Some (l1\<lparr>i2c_data := i2c_data l1
                                   OR drop_bit (unat (i2c_bitnr l1)) ((val + val) AND 0x80)\<rparr>, snd st)
                      else i2c_byte wait (l1, snd st)
                 else if port6 l AND NOT val AND 0x40 \<noteq> 0 then
                   Some (l\<lparr>i2c_state := 0, i2c_bitnr := 0xff, i2c_data := 0\<rparr>, snd st)
                 else if NOT (port6 l) AND val AND 0x40 \<noteq> 0 then
                   Some (l\<lparr>i2c_state := -1\<rparr>, snd st)
                 else Some st)
              in map_option (\<lambda>(l1, b1, r1).
                   (l1, b1, if (port6 l1 XOR val) AND 7 \<noteq> 0 then analog (val AND 7) r1 else r1)) res1)
     in map_option (\<lambda>(l1, br). (l1\<lparr>port6 := val\<rparr>, br)) res)"

definition lcd_writes ::
  "('r lcd_st \<Rightarrow> 'r lcd_st option) \<Rightarrow> (u8 \<Rightarrow> 'r \<Rightarrow> 'r) \<Rightarrow> u8 list \<Rightarrow> 'r lcd_st \<Rightarrow> 'r lcd_st option" where
  "lcd_writes wait analog vs st =
     fold (\<lambda>v res. Option.bind res (set_port6 wait analog v)) vs (Some st)"

section \<open>Receiving a byte\<close>

text \<open>
  One bit on the bus: the data line is set while the clock is low and the clock goes up. \<open>v\<close> holds the other bits of
  the port. A byte is sent highest bit first.
\<close>

definition i2c_pulse :: "u8 \<Rightarrow> bool \<Rightarrow> u8 list" where
  "i2c_pulse v d = (let w = v OR (if d then 0x40 else 0) in [w, w OR 0x20])"

definition i2c_send :: "u8 \<Rightarrow> u8 \<Rightarrow> u8 list" where
  "i2c_send v x = concat (map (\<lambda>k. i2c_pulse v (bit x (7 - k))) [0..<8])"

lemma lcd_writes_append:
  "lcd_writes wait analog (vs @ ws) st = Option.bind (lcd_writes wait analog vs st) (lcd_writes wait analog ws)"
proof -
  have none: "fold (\<lambda>v res. Option.bind res (set_port6 wait analog v)) ws None = None" for ws
    by (induction ws) simp_all
  show ?thesis
    by (cases "lcd_writes wait analog vs st") (simp_all add: lcd_writes_def none)
qed

lemma lcd_writes_2:
  "lcd_writes wait analog [v, w] st = Option.bind (set_port6 wait analog v st) (set_port6 wait analog w)"
  by (simp add: lcd_writes_def)

lemma set_port6_low: "val AND 0x20 = 0 \<Longrightarrow> set_port6 wait analog val (l, b, r) = Some (l\<lparr>port6 := val\<rparr>, b, r)"
  by (simp add: set_port6_def)

text \<open>The port values of a pulse: \<open>v\<close> with clock and data low, \<open>w\<close> with the data bit, then with the clock.\<close>

lemma pulse_bits:
  fixes v :: u8
  assumes "v AND 0x60 = 0" and w: "w = v OR (if d then 0x40 else 0)"
  shows "w AND 0x20 = 0" and "(w OR 0x20) AND 0x20 \<noteq> 0" and "(w XOR (w OR 0x20)) AND 7 = 0"
    and "((w OR 0x20) + (w OR 0x20)) AND 0x80 = (if d then 0x80 else 0)"
proof -
  have v: "\<not> bit v 5" "\<not> bit v 6"
    using assms(1) by (simp_all add: u8_eq_iff bit_and_iff)
  then have b: "bit w 6 = d" "\<not> bit w 5"
    by (auto simp: w bit_or_iff)
  then show "w AND 0x20 = 0" "(w OR 0x20) AND 0x20 \<noteq> 0"
    by (simp_all add: flag_simps bit_or_iff)
  show "(w XOR (w OR 0x20)) AND 7 = 0"
    by (simp add: u8_eq_iff bit_simps)
  have "(w OR 0x20) + (w OR 0x20) = push_bit 1 (w OR 0x20)"
    by (simp add: push_bit_eq_mult)
  then show "((w OR 0x20) + (w OR 0x20)) AND 0x80 = (if d then 0x80 else 0)"
    using b by (simp only:) (simp add: u8_eq_iff bit_simps)
qed

lemma i2c_pulse_bit:
  assumes v: "v AND 0x60 = 0" and "0 \<le> i2c_state l" and "unat (i2c_bitnr l + 1) = k" "k < 8"
  shows "\<exists>p. lcd_writes wait analog (i2c_pulse v d) (l, b, r) =
    Some (l\<lparr>i2c_bitnr := i2c_bitnr l + 1, i2c_data := i2c_data l OR (if d then push_bit (7 - k) 1 else 0),
           port6 := p\<rparr>, b, r)"
proof -
  define w where "w = v OR (if d then 0x40 else 0)"
  note pb = pulse_bits [OF v w_def]
  have lt: "i2c_bitnr l + 1 < 8"
    using assms(3,4) by (simp add: word_less_nat_alt)
  have "drop_bit k (if d then 0x80 else 0 :: u8) = (if d then push_bit (7 - k) 1 else 0)"
  proof -
    have "push_bit k (push_bit (7 - k) 1) = (push_bit 7 1 :: u8)"
      using assms(4) by (simp only: push_bit_push_bit) simp
    then have "(0x80 :: u8) = push_bit k (push_bit (7 - k) 1)"
      by simp
    moreover have "drop_bit k (push_bit k (push_bit (7 - k) 1 :: u8)) = push_bit (7 - k) 1"
      using assms(4) by (intro bit_word_eqI) (auto simp: bit_simps)
    ultimately show ?thesis
      by simp
  qed
  then have "set_port6 wait analog (w OR 0x20) (l\<lparr>port6 := w\<rparr>, b, r) =
    Some (l\<lparr>i2c_bitnr := i2c_bitnr l + 1, i2c_data := i2c_data l OR (if d then push_bit (7 - k) 1 else 0),
           port6 := w OR 0x20\<rparr>, b, r)"
    unfolding set_port6_def Let_def fst_conv snd_conv
    using pb assms(2,3) lt by simp
  then show ?thesis
    by (auto simp: i2c_pulse_def Let_def lcd_writes_2 set_port6_low pb simp flip: w_def)
qed

lemma i2c_send_prefix:
  fixes x :: u8
  assumes v: "v AND 0x60 = 0" and "0 \<le> i2c_state l" "i2c_bitnr l = 0xff" and "n \<le> 8"
  shows "\<exists>p. lcd_writes wait analog (concat (map (\<lambda>k. i2c_pulse v (bit x (7 - k))) [0..<n])) (l, b, r) =
    Some (if n = 0 then l else
      l\<lparr>i2c_bitnr := of_nat n - 1, port6 := p,
        i2c_data := fold (\<lambda>k a. a OR (if bit x (7 - k) then push_bit (7 - k) 1 else 0)) [0..<n] (i2c_data l)\<rparr>, b, r)"
  using assms(4)
proof (induction n)
  case 0
  then show ?case by (simp add: lcd_writes_def)
next
  case (Suc n)
  let ?f = "\<lambda>k a. a OR (if bit x (7 - k) then push_bit (7 - k) 1 else 0)"
  from Suc obtain p where p: "lcd_writes wait analog (concat (map (\<lambda>k. i2c_pulse v (bit x (7 - k))) [0..<n])) (l, b, r) =
    Some (if n = 0 then l else
      l\<lparr>i2c_bitnr := of_nat n - 1, port6 := p, i2c_data := fold ?f [0..<n] (i2c_data l)\<rparr>, b, r)"
    by auto
  define l' where "l' = (if n = 0 then l else
      l\<lparr>i2c_bitnr := of_nat n - 1, port6 := p, i2c_data := fold ?f [0..<n] (i2c_data l)\<rparr>)"
  have l': "0 \<le> i2c_state l'" "i2c_bitnr l' + 1 = of_nat n" "i2c_data l' = fold ?f [0..<n] (i2c_data l)"
    using assms by (auto simp: l'_def)
  have n: "unat (i2c_bitnr l' + 1) = n" "n < 8"
    using Suc.prems by (simp_all add: l' unat_of_nat take_bit_nat_eq_self)
  obtain q where q: "lcd_writes wait analog (i2c_pulse v (bit x (7 - n))) (l', b, r) =
    Some (l'\<lparr>i2c_bitnr := i2c_bitnr l' + 1, i2c_data := i2c_data l' OR (if bit x (7 - n) then push_bit (7 - n) 1 else 0),
           port6 := q\<rparr>, b, r)"
    by (rule exE [OF i2c_pulse_bit [OF v l'(1) n]])
  have "lcd_writes wait analog (concat (map (\<lambda>k. i2c_pulse v (bit x (7 - k))) [0..<Suc n])) (l, b, r) =
    Some (l\<lparr>i2c_bitnr := of_nat (Suc n) - 1, port6 := q, i2c_data := fold ?f [0..<Suc n] (i2c_data l)\<rparr>, b, r)"
    using q l'(2,3) by (simp add: lcd_writes_append p flip: l'_def) (simp add: l'_def)
  then show ?case
    by auto
qed

lemma byte_of_bits:
  "fold (\<lambda>k a. a OR (if bit x (7 - k) then push_bit (7 - k) 1 else 0)) [0..<8] 0 = (x :: u8)"
  by (simp add: upt_rec numeral_eq_Suc u8_eq_iff bit_simps)


definition i2c_frame :: "u8 \<Rightarrow> u8 list \<Rightarrow> u8 list" where
  "i2c_frame v xs = concat (map (\<lambda>x. i2c_send v x @ i2c_pulse v True) xs)"

lemma lcd_writes_frame:
  "lcd_writes wait analog (i2c_frame v []) st = Some st"
  "lcd_writes wait analog (i2c_frame v (x # xs)) st =
     Option.bind (lcd_writes wait analog (i2c_send v x @ i2c_pulse v True) st) (lcd_writes wait analog (i2c_frame v xs))"
proof -
  show "lcd_writes wait analog (i2c_frame v []) st = Some st"
    by (simp add: i2c_frame_def lcd_writes_def)
  have "i2c_frame v (x # xs) = (i2c_send v x @ i2c_pulse v True) @ i2c_frame v xs"
    by (simp add: i2c_frame_def)
  then show "lcd_writes wait analog (i2c_frame v (x # xs)) st =
     Option.bind (lcd_writes wait analog (i2c_send v x @ i2c_pulse v True) st) (lcd_writes wait analog (i2c_frame v xs))"
    by (simp only: lcd_writes_append)
qed

lemma bind_Some_right: "Option.bind m (lcd_writes wait analog (i2c_frame v [])) = m"
  by (cases m) (simp_all add: lcd_writes_frame)

lemma signed_half: "unat p < 128 \<Longrightarrow> sint (signed_drop_bit 1 p) = int (unat p div 2)" for p :: u8
proof -
  assume a: "unat p < 128"
  then have "uint p < 128"
    using uint_int_unat [of p] by linarith
  moreover have "0 \<le> uint p"
    by simp
  then have "- (2 ^ 7) \<le> uint p"
    by (rule order_trans [rotated]) simp
  ultimately have "signed_take_bit 7 (uint p) = uint p"
    by (intro signed_take_bit_int_eq_self) simp_all
  then have "sint p = int (unat p)"
    by (simp add: sint_uint)
  then show ?thesis
    by (simp add: sint_signed_drop_bit_eq drop_bit_eq_div zdiv_int)
qed

text \<open>
  The contract the LCD needs of \<open>wait_peripherals\<close>: in a calm machine, in which nothing arrives from the GUI or
  the debugger, it leaves the LCD alone.
\<close>

locale quiet_wait =
  fixes wait :: "'r lcd_st \<Rightarrow> 'r lcd_st option"
    and calm :: "bus \<times> 'r \<Rightarrow> bool"
  assumes wait_keeps: "calm br \<Longrightarrow> \<exists>br'. wait (l, br) = Some (l, br') \<and> calm br'"
    and calm_gui: "calm (b, r) \<Longrightarrow> calm (gui_write msg b, r)"
begin

lemma lcd_display_calm:
  assumes "calm br" "0 \<le> p" "p < 12"
  shows "\<exists>br1. lcd_display wait p x (l, br) = Some (l\<lparr>lcd_data := (lcd_data l)[nat p := x]\<rparr>, br1) \<and> calm br1"
proof -
  let ?l = "l\<lparr>lcd_data := (lcd_data l)[nat p := x]\<rparr>"
  obtain b r where br: "br = (b, r)" by (cases br)
  obtain b1 r1 where w: "wait (?l, b, r) = Some (?l, b1, r1)" "calm (b1, r1)"
    using wait_keeps [OF assms(1), of ?l] unfolding br by auto
  have "?l = l" if "lcd_data l ! nat p = x"
    using that by (metis lcd.surjective lcd.update_convs(1) list_update_id)
  then show ?thesis
    using assms w by (auto simp: lcd_display_def br calm_gui)
qed

lemma lcd_display_outside: "p < 0 \<or> 12 \<le> p \<Longrightarrow> lcd_display wait p x st = None"
  by (cases st) (auto simp: lcd_display_def)

lemma lcd_display_fst:
  "calm br \<Longrightarrow> lcd_display wait p x (l, br) = Some (l1, br1) \<Longrightarrow> l1 = l\<lparr>lcd_data := (lcd_data l)[nat p := x]\<rparr>"
  using lcd_display_calm [of br p x l] lcd_display_outside [of p x "(l, br)"] by (cases "0 \<le> p \<and> p < 12") fastforce+

lemma lcd_enable_fst: "calm br \<Longrightarrow> lcd_enable wait m (l, br) = Some (l1, br1) \<Longrightarrow> l1 = l"
  using wait_keeps [of br l] by (auto simp: lcd_enable_def)

lemma i2c_command_port6:
  assumes c: "calm br" and "i2c_command wait (l, br) = Some (l1, br1)"
  shows "port6 l1 = port6 l"
  using assms(2) by (auto simp: i2c_command_def Let_def split: if_splits dest!: lcd_enable_fst [OF c])

lemma i2c_byte_port6:
  assumes c: "calm br" and "i2c_byte wait (l, br) = Some (l1, br1)"
  shows "port6 l1 = port6 l"
  using assms(2) by (auto simp: i2c_byte_def Let_def split: if_splits
      dest!: lcd_display_fst [OF c] i2c_command_port6 [OF c])

text \<open>A byte and its acknowledge pulse run the handler of the byte.\<close>

lemma i2c_transfer:
  assumes v: "v AND 0x60 = 0" and c: "calm (b, r)" and st: "0 \<le> i2c_state l" "i2c_bitnr l = 0xff" "i2c_data l = 0"
  shows "\<exists>p q. lcd_writes wait analog (i2c_send v x @ i2c_pulse v d) (l, b, r) =
    map_option (\<lambda>(l1, br). (l1\<lparr>port6 := q\<rparr>, br))
      (i2c_byte wait (l\<lparr>i2c_data := x, port6 := p, i2c_bitnr := 8\<rparr>, b, r))"
proof -
  define w where "w = v OR (if d then 0x40 else 0)"
  note pb = pulse_bits [OF v w_def]
  obtain p where p: "lcd_writes wait analog (i2c_send v x) (l, b, r) =
      Some (l\<lparr>i2c_bitnr := 7, port6 := p, i2c_data := x\<rparr>, b, r)"
    using i2c_send_prefix [OF v st(1,2) order.refl, of wait analog x b r] st(3)
    by (auto simp: i2c_send_def byte_of_bits simp del: upt_Suc)
  let ?l = "l\<lparr>i2c_data := x, port6 := w, i2c_bitnr := 8\<rparr>"
  have "set_port6 wait analog (w OR 0x20) (l\<lparr>i2c_bitnr := 7, i2c_data := x, port6 := w\<rparr>, b, r) =
      map_option (\<lambda>(l1, br). (l1\<lparr>port6 := w OR 0x20\<rparr>, br)) (i2c_byte wait (?l, b, r))"
  proof (cases "i2c_byte wait (?l, b, r)")
    case (Some res)
    obtain l1 b1 r1 where res: "res = (l1, b1, r1)"
      by (cases res)
    have "port6 l1 = w"
      using i2c_byte_port6 [OF c Some [unfolded res]] by simp
    with Some res pb st(1) show ?thesis
      by (simp add: set_port6_def Let_def)
  qed (use pb st(1) in \<open>simp add: set_port6_def Let_def\<close>)
  then have "lcd_writes wait analog (i2c_send v x @ i2c_pulse v d) (l, b, r) =
      map_option (\<lambda>(l1, br). (l1\<lparr>port6 := w OR 0x20\<rparr>, br)) (i2c_byte wait (?l, b, r))"
    by (simp add: lcd_writes_append p i2c_pulse_def Let_def lcd_writes_2 set_port6_low pb flip: w_def)
  then show ?thesis
    by blast
qed

text \<open>
  A transfer addresses the controller, sets the data pointer and writes a data byte. The data byte lands in
  the cell the pointer selects; there are 12 cells but the pointer has 5 bits, and a pointer of
  24 or more leaves the array.
\<close>

lemma i2c_byte_address:
  "i2c_state l = 0 \<Longrightarrow> i2c_data l = 0x7c \<Longrightarrow>
   i2c_byte wait (l, br) = Some (l\<lparr>i2c_state := 1, i2c_bitnr := 0xff, i2c_data := 0\<rparr>, br)"
  by (simp add: i2c_byte_def)

lemma i2c_byte_pointer:
  assumes "i2c_state l = 1" "i2c_data l = p" "unat p < 32"
  shows "i2c_byte wait (l, br) = Some (l\<lparr>lcd_ptr := p, i2c_state := 2, i2c_bitnr := 0xff, i2c_data := 0\<rparr>, br)"
proof -
  have "take_bit 5 (unat p) = unat p"
    using assms(3) by (simp add: take_bit_nat_eq_self)
  then have "take_bit 5 p = p"
    by (metis unsigned_take_bit_eq word_unat_eq_iff)
  then have "p AND mask 5 = p" and hi: "\<not> bit p 5" "\<not> bit p 6" "\<not> bit p 7"
    by (metis take_bit_eq_mask, (metis bit_take_bit_iff less_irrefl order_less_asym numeral_less_iff semiring_norm)+)
  moreover have "(0x1f :: u8) = mask 5"
    by (simp add: mask_eq_decr_exp)
  moreover from hi have "p AND 0x60 = 0" "p AND 0x80 = 0"
    by (simp_all add: u8_eq_iff bit_and_iff)
  ultimately show ?thesis
    using assms(1,2) by (cases br) (simp add: i2c_byte_def i2c_command_def Let_def)
qed

lemma i2c_byte_data:
  assumes "calm br" "i2c_state l = 2" "lcd_subaddr l = 0" "unat (lcd_ptr l) < 24"
  shows "\<exists>br1. i2c_byte wait (l, br) =
    Some (l\<lparr>lcd_data := (lcd_data l)[unat (lcd_ptr l) div 2 := i2c_data l], lcd_ptr := lcd_ptr l + 2,
            i2c_bitnr := 0xff, i2c_data := 0\<rparr>, br1) \<and> calm br1"
proof -
  have h: "sint (signed_drop_bit 1 (lcd_ptr l)) = int (unat (lcd_ptr l) div 2)"
    using assms(4) by (intro signed_half) simp
  have "int (unat (lcd_ptr l) div 2) < 12"
    using assms(4) by linarith
  then obtain br1 where "lcd_display wait (int (unat (lcd_ptr l) div 2)) (i2c_data l) (l, br)
      = Some (l\<lparr>lcd_data := (lcd_data l)[unat (lcd_ptr l) div 2 := i2c_data l]\<rparr>, br1)" "calm br1"
    using lcd_display_calm [OF assms(1), of "int (unat (lcd_ptr l) div 2)" "i2c_data l" l] by auto
  then show ?thesis
    using assms(2,3) by (simp add: i2c_byte_def h del: One_nat_def)
qed

lemma i2c_byte_outside:
  assumes "i2c_state l = 2" "lcd_subaddr l = 0" "24 \<le> unat (lcd_ptr l)" "unat (lcd_ptr l) < 128"
  shows "i2c_byte wait (l, br) = None"
proof -
  have h: "sint (signed_drop_bit 1 (lcd_ptr l)) = int (unat (lcd_ptr l) div 2)"
    using assms(4) by (intro signed_half) simp
  have "lcd_display wait (int (unat (lcd_ptr l) div 2)) (i2c_data l) (l, br) = None"
    using assms(3) by (intro lcd_display_outside) linarith
  then show ?thesis
    using assms(1,2) by (simp add: i2c_byte_def h del: One_nat_def)
qed

text \<open>The data bytes that follow land in successive cells.\<close>

lemma lcd_data_bytes:
  assumes v: "v AND 0x60 = 0" and "calm (b, r)" "i2c_state l = 2" "i2c_bitnr l = 0xff" "i2c_data l = 0" "lcd_subaddr l = 0"
    and "unat (lcd_ptr l) div 2 + length xs \<le> 12"
  shows "\<exists>l' br'. lcd_writes wait analog (i2c_frame v xs) (l, b, r) = Some (l', br') \<and> calm br'
    \<and> lcd_data l' = fold (\<lambda>(i, x) d. d[i := x]) (zip [unat (lcd_ptr l) div 2..<12] xs) (lcd_data l)"
  using assms(2-)
proof (induction xs arbitrary: l b r)
  case Nil
  then show ?case
    by (simp add: lcd_writes_frame)
next
  case (Cons x xs)
  let ?k = "unat (lcd_ptr l) div 2"
  obtain p q where 1: "lcd_writes wait analog (i2c_send v x @ i2c_pulse v True) (l, b, r) =
      map_option (\<lambda>(l1, br). (l1\<lparr>port6 := q\<rparr>, br)) (i2c_byte wait (l\<lparr>i2c_data := x, port6 := p, i2c_bitnr := 8\<rparr>, b, r))"
    using i2c_transfer [OF v Cons.prems(1), of l analog x True] Cons.prems by auto
  have lt: "unat (lcd_ptr l) < 24"
    using Cons.prems(6) by simp
  define l1 where "l1 = l\<lparr>lcd_data := (lcd_data l)[?k := x], lcd_ptr := lcd_ptr l + 2, i2c_bitnr := 0xff, i2c_data := 0, port6 := q\<rparr>"
  obtain b1 r1 where 2: "lcd_writes wait analog (i2c_send v x @ i2c_pulse v True) (l, b, r) = Some (l1, b1, r1)" "calm (b1, r1)"
    using i2c_byte_data [OF Cons.prems(1), of "l\<lparr>i2c_data := x, port6 := p, i2c_bitnr := 8\<rparr>"] Cons.prems lt
    unfolding 1 l1_def by auto
  have "unat (lcd_ptr l + 2) = unat (lcd_ptr l) + 2"
    using lt by (simp add: unat_plus_if_size word_size)
  then have k: "unat (lcd_ptr l1) div 2 = Suc ?k"
    by (simp add: l1_def)
  obtain l' br' where 3: "lcd_writes wait analog (i2c_frame v xs) (l1, b1, r1) = Some (l', br')" "calm br'"
    "lcd_data l' = fold (\<lambda>(i, x) d. d[i := x]) (zip [Suc ?k..<12] xs) (lcd_data l1)"
    using Cons.IH [OF 2(2), of l1] Cons.prems k by (auto simp: l1_def)
  have "[?k..<12] = ?k # [Suc ?k..<12]"
    using Cons.prems(6) by (simp add: upt_rec)
  then show ?case
    using 2(1) 3 by (simp add: lcd_writes_frame(2) l1_def)
qed

text \<open>A transfer: the address of the controller, the data pointer, and data bytes.\<close>

lemma lcd_transfer_start:
  assumes v: "v AND 0x60 = 0" and c: "calm (b, r)" and st: "i2c_state l = 0" "i2c_bitnr l = 0xff" "i2c_data l = 0"
    and p: "unat p < 32"
  shows "\<exists>q. lcd_writes wait analog (i2c_frame v (0x7c # p # xs)) (l, b, r) =
    lcd_writes wait analog (i2c_frame v xs)
      (l\<lparr>lcd_ptr := p, i2c_state := 2, i2c_bitnr := 0xff, i2c_data := 0, port6 := q\<rparr>, b, r)"
proof -
  obtain p1 where 1: "lcd_writes wait analog (i2c_send v 0x7c @ i2c_pulse v True) (l, b, r) =
      Some (l\<lparr>i2c_state := 1, i2c_bitnr := 0xff, i2c_data := 0, port6 := p1\<rparr>, b, r)"
    using i2c_transfer [OF v c _ st(2,3), of analog "0x7c" True] st(1) by (auto simp: i2c_byte_address)
  let ?l1 = "l\<lparr>i2c_state := 1, i2c_bitnr := 0xff, i2c_data := 0, port6 := p1\<rparr>"
  obtain p2 where 2: "lcd_writes wait analog (i2c_send v p @ i2c_pulse v True) (?l1, b, r) =
      Some (?l1\<lparr>lcd_ptr := p, i2c_state := 2, i2c_bitnr := 0xff, i2c_data := 0, port6 := p2\<rparr>, b, r)"
    using i2c_transfer [OF v c, of ?l1 analog p True] p by (auto simp: i2c_byte_pointer)
  have "?l1\<lparr>lcd_ptr := p, i2c_state := 2, i2c_bitnr := 0xff, i2c_data := 0, port6 := p2\<rparr>
      = l\<lparr>lcd_ptr := p, i2c_state := 2, i2c_bitnr := 0xff, i2c_data := 0, port6 := p2\<rparr>"
    by simp
  then show ?thesis
    using 1 2 by (auto simp: lcd_writes_frame)
qed

lemma lcd_transfer:
  assumes v: "v AND 0x60 = 0" and c: "calm (b, r)" and st: "i2c_state l = 0" "i2c_bitnr l = 0xff" "i2c_data l = 0"
    and "lcd_subaddr l = 0" "unat p div 2 + length xs \<le> 12" "unat p < 32"
  shows "\<exists>l' br'. lcd_writes wait analog (i2c_frame v (0x7c # p # xs)) (l, b, r) = Some (l', br')
      \<and> lcd_data l' = fold (\<lambda>(i, x) d. d[i := x]) (zip [unat p div 2..<12] xs) (lcd_data l)"
proof -
  obtain q where q: "lcd_writes wait analog (i2c_frame v (0x7c # p # xs)) (l, b, r) = lcd_writes wait analog (i2c_frame v xs)
      (l\<lparr>lcd_ptr := p, i2c_state := 2, i2c_bitnr := 0xff, i2c_data := 0, port6 := q\<rparr>, b, r)"
    using lcd_transfer_start [OF v c st assms(8)] by blast
  show ?thesis
    unfolding q using lcd_data_bytes [OF v c, of "l\<lparr>lcd_ptr := p, i2c_state := 2, i2c_bitnr := 0xff, i2c_data := 0, port6 := q\<rparr>" xs analog]
      assms(6,7) by auto
qed

lemma lcd_transfer_outside:
  assumes v: "v AND 0x60 = 0" and c: "calm (b, r)" and st: "i2c_state l = 0" "i2c_bitnr l = 0xff" "i2c_data l = 0"
    and "lcd_subaddr l = 0" "24 \<le> unat p" "unat p < 32"
  shows "lcd_writes wait analog (i2c_frame v (0x7c # p # x # xs)) (l, b, r) = None"
proof -
  obtain q where q: "lcd_writes wait analog (i2c_frame v (0x7c # p # x # xs)) (l, b, r) = lcd_writes wait analog (i2c_frame v (x # xs))
      (l\<lparr>lcd_ptr := p, i2c_state := 2, i2c_bitnr := 0xff, i2c_data := 0, port6 := q\<rparr>, b, r)"
    using lcd_transfer_start [OF v c st assms(8)] by blast
  let ?l2 = "l\<lparr>lcd_ptr := p, i2c_state := 2, i2c_bitnr := 0xff, i2c_data := 0, port6 := q\<rparr>"
  obtain p3 q3 where 3: "lcd_writes wait analog (i2c_send v x @ i2c_pulse v True) (?l2, b, r) =
      map_option (\<lambda>(l1, br). (l1\<lparr>port6 := q3\<rparr>, br))
        (i2c_byte wait (?l2\<lparr>i2c_data := x, port6 := p3, i2c_bitnr := 8\<rparr>, b, r))"
    using i2c_transfer [OF v c, of ?l2 analog x True] by auto
  have "i2c_byte wait (?l2\<lparr>i2c_data := x, port6 := p3, i2c_bitnr := 8\<rparr>, b, r) = None"
    using assms(6-8) by (intro i2c_byte_outside) simp_all
  then show ?thesis
    unfolding q by (simp add: lcd_writes_frame 3)
qed

end

end
