(* ===== verification/Tables.thy ===== *)
theory Tables
  imports Base
begin

text \<open>
  The contract of a lookup table: a finite map for clients that create only missing keys. Two components
  provide it, the hash table of \<^verbatim>\<open>hash.c\<close> and the splay tree of \<^verbatim>\<open>symbols.c\<close>.
\<close>

locale kv_table =
  fixes lookup :: "'t \<Rightarrow> 'k \<Rightarrow> 'v option"
    and create :: "'t \<Rightarrow> 'k \<Rightarrow> 'v \<Rightarrow> 't"
    and remove :: "'t \<Rightarrow> 'k \<Rightarrow> 't"
    and ok :: "'t \<Rightarrow> bool"
  assumes create_ok: "ok t \<Longrightarrow> lookup t k = None \<Longrightarrow> ok (create t k v)"
    and lookup_create: "ok t \<Longrightarrow> lookup t k = None \<Longrightarrow> lookup (create t k v) = (lookup t)(k \<mapsto> v)"
    and remove_ok: "ok t \<Longrightarrow> ok (remove t k)"
    and lookup_remove: "ok t \<Longrightarrow> lookup (remove t k) = (lookup t)(k := None)"
begin

lemma create_remove:
  "ok t \<Longrightarrow> lookup t k = None \<Longrightarrow> lookup (remove (create t k v) k) = lookup t"
  by (auto simp: lookup_remove create_ok lookup_create)

lemma replace:
  "ok t \<Longrightarrow> ok (create (remove t k) k v) \<and> lookup (create (remove t k) k v) = (lookup t)(k \<mapsto> v)"
  by (simp add: create_ok remove_ok lookup_create lookup_remove)

end

text \<open>A table whose entries can be given another key.\<close>

locale kv_renaming_table = kv_table lookup create remove ok
  for lookup :: "'t \<Rightarrow> 'k \<Rightarrow> 'v option" and create :: "'t \<Rightarrow> 'k \<Rightarrow> 'v \<Rightarrow> 't"
    and remove :: "'t \<Rightarrow> 'k \<Rightarrow> 't" and ok :: "'t \<Rightarrow> bool" +
  fixes move :: "'t \<Rightarrow> 'k \<Rightarrow> 'k \<Rightarrow> 't"
  assumes move_ok: "ok t \<Longrightarrow> lookup t k = Some v \<Longrightarrow> lookup t k' = None \<Longrightarrow> ok (move t k k')"
    and lookup_move: "ok t \<Longrightarrow> lookup t k = Some v \<Longrightarrow> lookup t k' = None \<Longrightarrow>
      lookup (move t k k') = (lookup t)(k := None, k' \<mapsto> v)"
begin

lemma move_back:
  assumes "ok t" "lookup t k = Some v" "lookup t k' = None"
  shows "lookup (move (move t k k') k' k) = lookup t"
proof -
  have "k \<noteq> k'" using assms by auto
  then show ?thesis
    using assms by (subst lookup_move [where v = v]) (auto simp: move_ok lookup_move)
qed

end

end
