(* ===== verification/Symbols.thy ===== *)
theory Symbols
  imports Tables "HOL-Library.Product_Lexorder"
begin

text \<open>
  The symbol table of \<^verbatim>\<open>symbols.c\<close>, a top-down splay tree ordered by address and type. Every access reorders
  the tree. Shown are that no access changes the sequence of symbols, that lookups find exactly the
  symbols present, and that the table is a finite map as long as no key is added twice.
\<close>

section \<open>State and operations\<close>

text \<open>The key is the pair \<open>(addr, type)\<close>; \<open>type\<close> is an \<open>int16\<close>.\<close>

type_synonym symkey = "u16 \<times> int"

datatype symbol = Null | Sym (sleft: symbol) (skey: symkey) (sname: string) (sright: symbol)

definition key_less :: "symkey \<Rightarrow> symkey \<Rightarrow> bool" where
  "key_less x y \<longleftrightarrow> fst x < fst y \<or> fst x = fst y \<and> snd x < snd y"

text \<open>
  The loop of \<open>splay\<close> builds two trees below the local \<open>N\<close>, each open at one place: \<open>l\<close> is the last node of the left one,
  whose right child is still to be set, \<open>r\<close> the last node of the right one. They are kept as
  lists of the nodes on the spine, last node first: \<open>(left child, key, name)\<close> and \<open>(key, name, right child)\<close>. Closing a
  tree puts a subtree at the open place.
\<close>

type_synonym lspine = "(symbol \<times> symkey \<times> string) list"
type_synonym rspine = "(symkey \<times> string \<times> symbol) list"

fun close_left :: "lspine \<Rightarrow> symbol \<Rightarrow> symbol" where
  "close_left [] t = t"
| "close_left ((l, k, n) # L) t = close_left L (Sym l k n t)"

fun close_right :: "rspine \<Rightarrow> symbol \<Rightarrow> symbol" where
  "close_right [] t = t"
| "close_right ((k, n, r) # R) t = close_right R (Sym t k n r)"

text \<open>The assembly after the loop.\<close>

fun assemble :: "symbol \<Rightarrow> lspine \<Rightarrow> rspine \<Rightarrow> symbol" where
  "assemble (Sym lc k n rc) L R = Sym (close_left L lc) k n (close_right R rc)"
| "assemble Null L R = Null"

function splay_loop :: "symkey \<Rightarrow> symbol \<Rightarrow> lspine \<Rightarrow> rspine \<Rightarrow> string option \<times> symbol" where
  "splay_loop x Null L R = (None, Null)"
| "splay_loop x (Sym lc k n rc) L R =
    (if key_less x k then
       case lc of
         Null \<Rightarrow> (None, assemble (Sym lc k n rc) L R)
       | Sym yl yk yn yr \<Rightarrow>
           if key_less x yk then
             (if yl = Null then (None, assemble (Sym yl yk yn (Sym yr k n rc)) L R)
              else splay_loop x yl L ((yk, yn, Sym yr k n rc) # R))
           else splay_loop x lc L ((k, n, rc) # R)
     else if key_less k x then
       case rc of
         Null \<Rightarrow> (None, assemble (Sym lc k n rc) L R)
       | Sym yl yk yn yr \<Rightarrow>
           if key_less yk x then
             (if yr = Null then (None, assemble (Sym (Sym lc k n yl) yk yn yr) L R)
              else splay_loop x yr ((Sym lc k n yl, yk, yn) # L) R)
           else splay_loop x rc ((lc, k, n) # L) R
     else (Some n, assemble (Sym lc k n rc) L R))"
  by pat_completeness auto
termination
  by (relation "measure (\<lambda>(x, t, L, R). size t)") auto

declare splay_loop.simps(2) [simp del]

definition splay :: "symkey \<Rightarrow> symbol \<Rightarrow> string option \<times> symbol" where
  "splay x root =
    (case root of
       Null \<Rightarrow> (None, Null)
     | Sym l k n r \<Rightarrow> if k = x then (Some n, root) else splay_loop x root [] [])"

definition symbols_add :: "symkey \<Rightarrow> string \<Rightarrow> symbol \<Rightarrow> symbol" where
  "symbols_add x name root =
    (case snd (splay x root) of
       Null \<Rightarrow> Sym Null x name Null
     | Sym l k n r \<Rightarrow>
         if fst x < fst k \<or> fst x = fst k \<and> snd x \<le> snd k
         then Sym l x name (Sym Null k n r)
         else Sym (Sym l k n Null) x name r)"

definition symbols_get :: "symkey \<Rightarrow> symbol \<Rightarrow> string option \<times> symbol" where
  "symbols_get x root = splay x root"

fun symbols_getaddr_subtree :: "string \<Rightarrow> symbol \<Rightarrow> u16" where
  "symbols_getaddr_subtree name Null = 0"
| "symbols_getaddr_subtree name (Sym l k n r) =
    (let addr = symbols_getaddr_subtree name l
     in if addr \<noteq> 0 then addr
        else if name = n then fst k
        else symbols_getaddr_subtree name r)"

definition symbols_getaddr :: "string \<Rightarrow> symbol \<Rightarrow> u16" where
  "symbols_getaddr name root = symbols_getaddr_subtree name root"

definition symbols_remove :: "symkey \<Rightarrow> symbol \<Rightarrow> bool \<times> symbol" where
  "symbols_remove x root =
    (case splay x root of
       (Some _, Sym l k n r) \<Rightarrow>
         (case l of
            Null \<Rightarrow> (True, r)
          | Sym _ _ _ _ \<Rightarrow>
              (case snd (splay x l) of
                 Sym l' k' n' r' \<Rightarrow> (True, Sym l' k' n' r)
               | Null \<Rightarrow> (True, Null)))
     | (_, t) \<Rightarrow> (False, t))"

text \<open>\<open>symbols_removeall\<close> frees both subtrees and clears the root.\<close>

definition symbols_removeall :: "symbol \<Rightarrow> symbol" where
  "symbols_removeall root = Null"

fun symbols_iterate :: "symbol \<Rightarrow> (symkey \<times> string) list" where
  "symbols_iterate Null = []"
| "symbols_iterate (Sym l k n r) = symbols_iterate l @ [(k, n)] @ symbols_iterate r"

section \<open>The sequence of symbols\<close>

abbreviation inorder :: "symbol \<Rightarrow> (symkey \<times> string) list" where
  "inorder \<equiv> symbols_iterate"

fun in_left :: "lspine \<Rightarrow> (symkey \<times> string) list" where
  "in_left [] = []"
| "in_left ((l, k, n) # L) = in_left L @ inorder l @ [(k, n)]"

fun in_right :: "rspine \<Rightarrow> (symkey \<times> string) list" where
  "in_right [] = []"
| "in_right ((k, n, r) # R) = (k, n) # inorder r @ in_right R"

lemma inorder_close_left: "inorder (close_left L t) = in_left L @ inorder t"
  by (induction L t rule: close_left.induct) simp_all

lemma inorder_close_right: "inorder (close_right R t) = inorder t @ in_right R"
  by (induction R t rule: close_right.induct) simp_all

lemma inorder_assemble: "t \<noteq> Null \<Longrightarrow> inorder (assemble t L R) = in_left L @ inorder t @ in_right R"
  by (cases t) (simp_all add: inorder_close_left inorder_close_right)

lemma inorder_splay_loop:
  "t \<noteq> Null \<Longrightarrow> inorder (snd (splay_loop x t L R)) = in_left L @ inorder t @ in_right R"
proof (induction x t L R rule: splay_loop.induct)
  case (2 x lc k n rc L R)
  have a: "inorder (assemble (Sym l k' n' r) L R) = in_left L @ inorder (Sym l k' n' r) @ in_right R" for l k' n' r
    by (rule inorder_assemble) simp
  show ?case
    using 2 by (subst splay_loop.simps) (auto simp: a simp del: assemble.simps split: symbol.split)
qed simp

lemma inorder_splay: "inorder (snd (splay x t)) = inorder t"
  by (simp add: splay_def inorder_splay_loop split: symbol.split)

section \<open>Order\<close>

lemma key_less_iff: "key_less x y \<longleftrightarrow> x < y"
  by (simp add: key_less_def less_prod_def')

abbreviation keys :: "symbol \<Rightarrow> symkey list" where
  "keys t \<equiv> map fst (inorder t)"

definition sym_ok :: "symbol \<Rightarrow> bool" where
  "sym_ok t \<longleftrightarrow> sorted_wrt (<) (keys t)"

lemma map_of_sorted:
  fixes k :: symkey
  assumes "sorted_wrt (<) (map fst (xs @ (k, n) # ys))"
  shows "map_of (xs @ (k, n) # ys) x = (if x < k then map_of xs x else if k < x then map_of ys x else Some n)"
proof -
  have 1: "\<forall>k' \<in> fst ` set xs. k' < k" and 2: "\<forall>k' \<in> fst ` set ys. k < k'"
    using assms by (auto simp: sorted_wrt_append)
  have "x \<le> k \<Longrightarrow> map_of ys x = None"
    unfolding map_of_eq_None_iff using 2 by (metis leD)
  moreover have "k \<le> x \<Longrightarrow> map_of xs x = None"
    unfolding map_of_eq_None_iff using 1 by (metis leD)
  ultimately show ?thesis
    by (auto simp: map_add_def split: option.split)
qed

lemma map_of_Sym:
  "sorted_wrt (<) (keys (Sym l k n r)) \<Longrightarrow>
   map_of (inorder (Sym l k n r)) x = (if x < k then map_of (inorder l) x else if k < x then map_of (inorder r) x else Some n)"
  using map_of_sorted [of "inorder l" k n "inorder r" x] by simp

lemma sorted_Sym:
  "sorted_wrt (<) (keys (Sym l k n r)) \<Longrightarrow> sorted_wrt (<) (keys l) \<and> sorted_wrt (<) (keys r)"
  by (simp add: sorted_wrt_append)

lemma splay_loop_get:
  "sorted_wrt (<) (keys t) \<Longrightarrow> fst (splay_loop x t L R) = map_of (inorder t) x"
proof (induction x t L R rule: splay_loop.induct)
  case (2 x lc k n rc L R)
  note so = sorted_Sym [OF 2(5)]
  have lk: "yk < k" if "lc = Sym yl yk yn yr" for yl yk yn yr
    using 2(5) that by (simp add: sorted_wrt_append)
  have rk: "k < yk" if "rc = Sym yl yk yn yr" for yl yk yn yr
    using 2(5) that by (simp add: sorted_wrt_append)
  show ?case
  proof (cases "x < k")
    case True
    show ?thesis
    proof (cases lc)
      case (Sym yl yk yn yr)
      then have "fst (splay_loop x (Sym lc k n rc) L R) = map_of (inorder lc) x"
        using True 2(1,2) so map_of_Sym [of yl yk yn yr x] sorted_Sym [of yl yk yn yr]
        by (subst splay_loop.simps) (auto simp: key_less_iff simp del: symbols_iterate.simps(2))
      then show ?thesis
        using True map_of_Sym [OF 2(5)] by simp
    qed (use True map_of_Sym [OF 2(5)] in \<open>simp add: splay_loop.simps key_less_iff\<close>)
  next
    case False
    show ?thesis
    proof (cases "k < x")
      case True
      show ?thesis
      proof (cases rc)
        case (Sym yl yk yn yr)
        then have "fst (splay_loop x (Sym lc k n rc) L R) = map_of (inorder rc) x"
          using True False 2(3,4) so map_of_Sym [of yl yk yn yr x] sorted_Sym [of yl yk yn yr]
          by (subst splay_loop.simps) (auto simp: key_less_iff simp del: symbols_iterate.simps(2))
        then show ?thesis
          using True False map_of_Sym [OF 2(5)] by simp
      qed (use True False map_of_Sym [OF 2(5)] in \<open>simp add: splay_loop.simps key_less_iff\<close>)
    next
      case nlt: False
      then show ?thesis
        using False map_of_Sym [OF 2(5)] by (simp add: splay_loop.simps key_less_iff)
    qed
  qed
qed simp


lemma splay_get: "sym_ok t \<Longrightarrow> fst (splay x t) = map_of (inorder t) x"
proof (cases t)
  case (Sym l k n r)
  assume ok: "sym_ok t"
  show ?thesis
  proof (cases "k = x")
    case True
    then show ?thesis
      using ok map_of_Sym [of l k n r x] Sym by (simp add: splay_def sym_ok_def)
  next
    case False
    with ok Sym show ?thesis
      by (simp add: splay_def splay_loop_get sym_ok_def del: symbols_iterate.simps)
  qed
qed (simp add: splay_def)

lemma splay_ok: "sym_ok (snd (splay x t)) = sym_ok t"
  by (simp add: sym_ok_def inorder_splay)

text \<open>
  What \<open>symbols_add\<close> and \<open>symbols_remove\<close> rely on: after the splay the root separates the symbols below the
  key from those above it.
\<close>

definition root_splits :: "symkey \<Rightarrow> symbol \<Rightarrow> bool" where
  "root_splits x t \<longleftrightarrow> (case t of Null \<Rightarrow> True | Sym l k n r \<Rightarrow>
     (x < k \<longrightarrow> (\<forall>y \<in> set (keys l). y < x)) \<and> (k < x \<longrightarrow> (\<forall>y \<in> set (keys r). x < y)))"

lemma splay_loop_splits:
  assumes "\<forall>y \<in> fst ` set (in_left L). y < x" "\<forall>y \<in> fst ` set (in_right R). x < y"
    and "sorted_wrt (<) (keys t)"
  shows "root_splits x (snd (splay_loop x t L R))"
  using assms
proof (induction x t L R rule: splay_loop.induct)
  case (2 x lc k n rc L R)
  note so = sorted_Sym [OF 2(7)]
  have lt: "\<forall>y \<in> set (keys lc). y < k" and gt: "\<forall>y \<in> set (keys rc). k < y"
    using 2(7) by (auto simp: sorted_wrt_append)
  have brk: "root_splits x (assemble (Sym l k' n' r) L R)"
    if "x < k' \<Longrightarrow> l = Null" "k' < x \<Longrightarrow> r = Null" for l k' n' r
    using that 2(5,6) by (auto simp: root_splits_def inorder_close_left inorder_close_right)
  show ?case
  proof (cases "x < k")
    case True
    have above: "\<forall>y \<in> set (keys rc). x < y"
      using gt True by (meson less_trans)
    show ?thesis
    proof (cases lc)
      case Null
      with True show ?thesis
        using brk [of k lc rc n] by (subst splay_loop.simps) (simp add: key_less_iff del: assemble.simps)
    next
      case (Sym yl yk yn yr)
      show ?thesis
      proof (cases "x < yk")
        case xy: True
        have y: "\<forall>y \<in> set (keys yr). x < y" "sorted_wrt (<) (keys yl)"
          using so Sym xy by (auto simp: sorted_wrt_append)
        show ?thesis
          using 2(1) [OF _ Sym] 2(5,6) True xy Sym y above brk [of yk yl "Sym yr k n rc" yn]
          by (subst splay_loop.simps) (auto simp: key_less_iff simp del: assemble.simps)
      next
        case False
        then show ?thesis
          using 2(2) [OF _ Sym] 2(5,6) True Sym so above
          by (subst splay_loop.simps) (auto simp: key_less_iff simp del: assemble.simps)
      qed
    qed
  next
    case nlt: False
    show ?thesis
    proof (cases "k < x")
      case True
      have below: "\<forall>y \<in> set (keys lc). y < x"
        using lt True by (meson less_trans)
      show ?thesis
      proof (cases rc)
        case Null
        with True nlt show ?thesis
          using brk [of k lc rc n] by (subst splay_loop.simps) (simp add: key_less_iff del: assemble.simps)
      next
        case (Sym yl yk yn yr)
        show ?thesis
        proof (cases "yk < x")
          case xy: True
          have y: "\<forall>y \<in> set (keys yl). y < x" "sorted_wrt (<) (keys yr)"
            using so Sym xy by (auto simp: sorted_wrt_append)
          show ?thesis
            using 2(3) [OF _ _ Sym] 2(5,6) True nlt xy Sym y below brk [of yk "Sym lc k n yl" yr yn]
            by (subst splay_loop.simps) (auto simp: key_less_iff simp del: assemble.simps)
        next
          case False
          then show ?thesis
            using 2(4) [OF _ _ Sym] 2(5,6) True nlt Sym so below
            by (subst splay_loop.simps) (auto simp: key_less_iff simp del: assemble.simps)
        qed
      qed
    next
      case False
      with nlt brk [of k lc rc n] show ?thesis
        by (subst splay_loop.simps) (simp add: key_less_iff del: assemble.simps)
    qed
  qed
qed (simp add: root_splits_def)


lemma splay_splits: "sym_ok t \<Longrightarrow> root_splits x (snd (splay x t))"
  using splay_loop_splits [of "[]" x "[]" t]
  by (auto simp: splay_def sym_ok_def root_splits_def split: symbol.splits)

lemma splay_loop_found: "fst (splay_loop x t L R) = Some nm \<Longrightarrow> \<exists>l r. snd (splay_loop x t L R) = Sym l x nm r"
proof (induction x t L R rule: splay_loop.induct)
  case (2 x lc k n rc L R)
  then show ?case
    by (subst (asm) splay_loop.simps, subst splay_loop.simps)
      (auto simp: key_less_iff split: symbol.splits if_splits)
qed simp

lemma splay_found: "fst (splay x t) = Some nm \<Longrightarrow> \<exists>l r. snd (splay x t) = Sym l x nm r"
  using splay_loop_found [of x t "[]" "[]" nm] by (auto simp: splay_def split: symbol.splits if_splits)

lemma splay_Null: "snd (splay x t) = Null \<longleftrightarrow> t = Null"
  using inorder_splay [of x t] by (cases t; cases "snd (splay x t)") auto

lemma sorted_distinct: "sym_ok t \<Longrightarrow> distinct (keys t)"
  by (simp add: sym_ok_def strict_sorted_iff)

section \<open>The operations are those of a map\<close>

lemma symbols_add_inorder:
  assumes ok: "sym_ok t" and none: "map_of (inorder t) x = None"
  shows "sym_ok (symbols_add x name t)" and "set (inorder (symbols_add x name t)) = insert (x, name) (set (inorder t))"
proof -
  have "sym_ok (symbols_add x name t) \<and> set (inorder (symbols_add x name t)) = insert (x, name) (set (inorder t))"
  proof (cases "snd (splay x t)")
    case Null
    then have "t = Null"
      by (simp add: splay_Null)
    then show ?thesis
      by (simp add: symbols_add_def sym_ok_def splay_def)
  next
    case (Sym l k n r)
    have io: "inorder t = inorder l @ (k, n) # inorder r"
      using inorder_splay [of x t] Sym by simp
    have so: "sorted_wrt (<) (map fst (inorder l @ (k, n) # inorder r))"
      using ok unfolding sym_ok_def io .
    have ne: "x \<noteq> k"
      using none io by (auto simp: map_of_eq_None_iff)
    have sp: "x < k \<Longrightarrow> \<forall>y \<in> set (keys l). y < x" "k < x \<Longrightarrow> \<forall>y \<in> set (keys r). x < y"
      using splay_splits [OF ok, of x] Sym by (simp_all add: root_splits_def)
    have le: "(fst x < fst k \<or> fst x = fst k \<and> snd x \<le> snd k) \<longleftrightarrow> x < k"
      using ne by (cases x; cases k) (auto simp: less_prod_def')
    show ?thesis
    proof (cases "x < k")
      case True
      then have "inorder (symbols_add x name t) = inorder l @ (x, name) # (k, n) # inorder r"
        by (simp add: symbols_add_def Sym le)
      with True sp(1) [OF True] so io show ?thesis
        by (auto simp: sym_ok_def sorted_wrt_append)
    next
      case False
      then have "k < x"
        using ne by simp
      have "inorder (symbols_add x name t) = inorder l @ (k, n) # (x, name) # inorder r"
        using False by (simp add: symbols_add_def Sym le)
      with \<open>k < x\<close> sp(2) [OF \<open>k < x\<close>] so io show ?thesis
        by (auto simp: sym_ok_def sorted_wrt_append)
    qed
  qed
  then show "sym_ok (symbols_add x name t)" "set (inorder (symbols_add x name t)) = insert (x, name) (set (inorder t))"
    by blast+
qed

lemma symbols_add_map:
  assumes "sym_ok t" "map_of (inorder t) x = None"
  shows "map_of (inorder (symbols_add x name t)) = (map_of (inorder t))(x \<mapsto> name)"
proof -
  have "map_of (inorder (symbols_add x name t)) = map_of ((x, name) # inorder t)"
    using symbols_add_inorder [OF assms] assms sorted_distinct
    by (subst map_of_inject_set) (auto simp: map_of_eq_None_iff)
  then show ?thesis
    by simp
qed

lemma symbols_remove_inorder:
  assumes ok: "sym_ok t"
  shows "if map_of (inorder t) x = None
    then fst (symbols_remove x t) = False \<and> inorder (snd (symbols_remove x t)) = inorder t
    else fst (symbols_remove x t) = True \<and> (\<exists>xs n ys. inorder t = xs @ (x, n) # ys \<and> inorder (snd (symbols_remove x t)) = xs @ ys)"
proof (cases "map_of (inorder t) x")
  case None
  then have "fst (splay x t) = None"
    using splay_get [OF ok] by simp
  then have "symbols_remove x t = (False, snd (splay x t))"
    by (cases "splay x t") (simp add: symbols_remove_def)
  then show ?thesis
    using None by (simp add: inorder_splay)
next
  case (Some nm)
  then have f: "fst (splay x t) = Some nm"
    using splay_get [OF ok] by simp
  then obtain l r where lr: "snd (splay x t) = Sym l x nm r"
    using splay_found by blast
  have sp: "splay x t = (Some nm, Sym l x nm r)"
    using f lr by (metis prod.collapse)
  have io: "inorder t = inorder l @ (x, nm) # inorder r"
    using inorder_splay [of x t] lr by simp
  have so: "sorted_wrt (<) (map fst (inorder l @ (x, nm) # inorder r))"
    using ok unfolding sym_ok_def io .
  have "\<exists>t'. symbols_remove x t = (True, t') \<and> inorder t' = inorder l @ inorder r"
  proof (cases "l = Null")
    case True
    then show ?thesis
      by (simp add: symbols_remove_def sp)
  next
    case False
    then obtain l' k' n' r' where s: "snd (splay x l) = Sym l' k' n' r'"
      using splay_Null [of x l] by (cases "snd (splay x l)") auto
    have io': "inorder l = inorder l' @ (k', n') # inorder r'"
      using inorder_splay [of x l] s by simp
    have lt: "\<forall>y \<in> set (keys l). y < x"
      using so by (auto simp: sorted_wrt_append)
    moreover have "sym_ok l"
      using so by (simp add: sym_ok_def sorted_wrt_append)
    then have "k' < x \<longrightarrow> (\<forall>y \<in> set (keys r'). x < y)"
      using splay_splits [of l x] s by (simp add: root_splits_def)
    ultimately have "keys r' = []"
      unfolding io' by (cases "keys r'") (auto dest: less_asym)
    then have "r' = Null"
      by (cases r') auto
    then show ?thesis
      using False s io' by (cases l) (auto simp: symbols_remove_def sp)
  qed
  then obtain t' where t': "symbols_remove x t = (True, t')" "inorder t' = inorder l @ inorder r"
    by blast
  have "\<exists>xs n ys. inorder t = xs @ (x, n) # ys \<and> inorder (snd (symbols_remove x t)) = xs @ ys"
    by (rule exI [of _ "inorder l"], rule exI [of _ nm], rule exI [of _ "inorder r"]) (simp add: t' io)
  with Some t' show ?thesis
    by simp
qed

lemma symbols_remove_ok:
  assumes ok: "sym_ok t"
  shows "sym_ok (snd (symbols_remove x t))"
    and "map_of (inorder (snd (symbols_remove x t))) = (map_of (inorder t))(x := None)"
    and "fst (symbols_remove x t) \<longleftrightarrow> map_of (inorder t) x \<noteq> None"
proof -
  have "sym_ok (snd (symbols_remove x t))
    \<and> map_of (inorder (snd (symbols_remove x t))) = (map_of (inorder t))(x := None)
    \<and> (fst (symbols_remove x t) \<longleftrightarrow> map_of (inorder t) x \<noteq> None)"
  proof (cases "map_of (inorder t) x")
    case None
    then show ?thesis
      using symbols_remove_inorder [OF ok, of x] ok by (auto simp: sym_ok_def)
  next
    case (Some nm)
    then obtain xs n ys where r: "fst (symbols_remove x t)" "inorder t = xs @ (x, n) # ys"
        "inorder (snd (symbols_remove x t)) = xs @ ys"
      using symbols_remove_inorder [OF ok, of x] by auto
    have so: "sorted_wrt (<) (map fst (xs @ (x, n) # ys))"
      using ok unfolding sym_ok_def r(2) .
    then have "x \<notin> fst ` set xs" "x \<notin> fst ` set ys"
      by (auto simp: sorted_wrt_append)
    then have none: "map_of xs x = None" "map_of ys x = None"
      by (simp_all add: map_of_eq_None_iff)
    have "map_of (xs @ ys) = (map_of (xs @ (x, n) # ys))(x := None)"
      using none by (auto simp: fun_eq_iff map_add_def split: option.split)
    with so r Some show ?thesis
      by (simp add: sym_ok_def sorted_wrt_append)
  qed
  then show "sym_ok (snd (symbols_remove x t))"
    "map_of (inorder (snd (symbols_remove x t))) = (map_of (inorder t))(x := None)"
    "fst (symbols_remove x t) \<longleftrightarrow> map_of (inorder t) x \<noteq> None"
    by blast+
qed

definition sym_lookup :: "symbol \<Rightarrow> symkey \<Rightarrow> string option" where
  "sym_lookup t x = fst (symbols_get x t)"

lemma sym_lookup_map: "sym_ok t \<Longrightarrow> sym_lookup t = map_of (inorder t)"
  by (simp add: fun_eq_iff sym_lookup_def symbols_get_def splay_get)

interpretation symbol_table: kv_table sym_lookup "\<lambda>t x nm. symbols_add x nm t" "\<lambda>t x. snd (symbols_remove x t)" sym_ok
  by unfold_locales
    (simp_all add: sym_lookup_map symbols_add_inorder symbols_add_map symbols_remove_ok)


section \<open>Properties\<close>

text \<open>
  Splaying never loses, adds or reorders a symbol, in any tree, even one with equal keys: the sequence of symbols that
  \<open>symbols_iterate\<close> visits is the same before and after every lookup.
\<close>

theorem splay_keeps_sequence: "symbols_iterate (snd (symbols_get x t)) = symbols_iterate t"
  by (simp add: symbols_get_def inorder_splay)

text \<open>
  C18. While no key is added twice the symbol table is a finite map and its tree stays ordered: a lookup finds a
  symbol exactly when it is there, adding and removing change the lookups as on a map, and \<open>symbols_remove\<close> reports
  whether it removed something.
\<close>

theorem symbols_refine_map:
  assumes "sym_ok t" and "sym_lookup t x = None"
  shows "sym_ok (symbols_add x nm t) \<and> sym_lookup (symbols_add x nm t) = (sym_lookup t)(x \<mapsto> nm)
    \<and> sym_ok (snd (symbols_remove y t)) \<and> sym_lookup (snd (symbols_remove y t)) = (sym_lookup t)(y := None)
    \<and> (fst (symbols_remove y t) \<longleftrightarrow> sym_lookup t y \<noteq> None)
    \<and> sym_lookup t = map_of (symbols_iterate t)"
  using assms symbol_table.create_ok [OF assms] symbol_table.lookup_create [OF assms]
    symbol_table.remove_ok [OF assms(1)] symbol_table.lookup_remove [OF assms(1)]
  by (simp add: sym_lookup_map [OF assms(1)] symbols_remove_ok(3))

definition sym_ex :: symbol where
  "sym_ex = Sym (Sym Null (2, 0) ''start'' Null) (4, 0) ''main'' (Sym Null (9, 1) ''stop'' Null)"

theorem symbols_refine_map_witness:
  "sym_lookup (symbols_add (5, 0) ''loop'' sym_ex) (9, 1) = Some ''stop''
    \<and> sym_lookup (symbols_add (5, 0) ''loop'' sym_ex) (5, 0) = Some ''loop''"
proof -
  have ok: "sym_ok sym_ex"
    by (simp add: sym_ok_def sym_ex_def less_prod_def')
  have "sym_lookup sym_ex (5, 0) = None" "sym_lookup sym_ex (9, 1) = Some ''stop''"
    using sym_lookup_map [OF ok] by (simp_all add: sym_ex_def)
  with symbols_refine_map [OF ok, of "(5, 0)" "''loop''"] show ?thesis
    by simp
qed

end
