(* ===== verification/Srec.thy ===== *)
theory Srec
  imports Base
begin

text \<open>
  The reader of Motorola S-records, \<^verbatim>\<open>srec.c\<close>: decoding one line with all its error exits, and loading a file into
  the memory. Shown are that decoding inverts encoding, that the decoder never writes outside its
  buffer, that a file of data records is loaded byte by byte, and what happens to a record with a wrong checksum.
\<close>

section \<open>Decoding a line\<close>

datatype srec_status = SREC_OK | SREC_INVALID_HDR | SREC_INVALID_CHAR | SREC_INVALID_TYPE | SREC_TOO_SHORT
  | SREC_TOO_LONG | SREC_INVALID_LEN | SREC_INVALID_CKSUM

record srec_t =
  srec_type :: nat
  srec_addr :: nat
  srec_count :: u8
  srec_data :: "u8 list"

definition hex2int :: "u8 \<Rightarrow> int" where
  "hex2int c =
    (if 48 \<le> c \<and> c \<le> 57 then uint c - 48
     else if 65 \<le> c \<and> c \<le> 70 then uint c - 55
     else if 97 \<le> c \<and> c \<le> 102 then uint c - 87
     else -1)"

definition ltab :: "nat list" where
  "ltab = [4, 4, 6, 8, 0, 4, 0, 8, 6, 4]"

definition C1 :: "u8 list \<Rightarrow> nat \<Rightarrow> int" where
  "C1 l p = hex2int (l ! p)"

definition C2 :: "u8 list \<Rightarrow> nat \<Rightarrow> int" where
  "C2 l p = push_bit 4 (C1 l p) OR C1 l (p + 1)"

text \<open>\<open>(unsigned char) C2 (line, pos)\<close> for the \<open>n\<close> positions \<open>off, off + 2, ...\<close>\<close>

definition srec_bytes :: "u8 list \<Rightarrow> nat \<Rightarrow> nat \<Rightarrow> u8 list" where
  "srec_bytes line off n = map (\<lambda>i. of_int (C2 line (off + 2 * i))) [0..<n]"

text \<open>
  The line up to its end, a NUL, a newline or a carriage return. \<open>addr\<close> is an \<open>unsigned long\<close>: at most four bytes are
  shifted into it. The first part checks the characters, the second takes the record apart.
\<close>

definition srec_decode_checked :: "srec_t \<Rightarrow> u8 list \<Rightarrow> nat \<Rightarrow> srec_status \<times> srec_t" where
  "srec_decode_checked srec line len =
    (let s1 = srec\<lparr>srec_type := nat (C1 line 1)\<rparr>;
         count = nat (C2 line 2)
     in if 9 < srec_type s1 then (SREC_INVALID_TYPE, s1)
        else
          let alen = ltab ! srec_type s1 in
          if alen = 0 then (SREC_INVALID_TYPE, s1)
          else if len < alen + 6 then (SREC_TOO_SHORT, s1)
          else if count > alen + 512 + 2 then (SREC_TOO_LONG, s1)
          else if len \<noteq> count * 2 + 4 then (SREC_INVALID_LEN, s1)
          else
            let abytes = srec_bytes line 4 (alen div 2);
                n = count - alen div 2 - 1;
                dbytes = srec_bytes line (4 + alen) n;
                s2 = s1\<lparr>srec_addr := foldl (\<lambda>a v. a * 256 + unat v) 0 abytes,
                        srec_data := dbytes @ drop n (srec_data s1),
                        srec_count := of_nat n\<rparr>;
                sum = int count + (\<Sum>v \<leftarrow> abytes. uint v) + (\<Sum>v \<leftarrow> dbytes. uint v)
                      + C2 line (4 + alen + 2 * n)
            in if sum AND 0xff \<noteq> 0xff then (SREC_INVALID_CKSUM, s2) else (SREC_OK, s2))"

definition srec_decode :: "srec_t \<Rightarrow> u8 list \<Rightarrow> srec_status \<times> srec_t" where
  "srec_decode srec line =
    (let len = length (takeWhile (\<lambda>c. c \<noteq> 0 \<and> c \<noteq> 10 \<and> c \<noteq> 13) line) in
     if len < 4 then (SREC_INVALID_HDR, srec)
     else if line ! 0 \<noteq> 83 then (SREC_INVALID_HDR, srec)
     else if \<exists>pos \<in> set [1..<len]. C1 line pos < 0 then (SREC_INVALID_CHAR, srec)
     else srec_decode_checked srec line len)"

section \<open>Reading a file\<close>

text \<open>\<open>fgets\<close> with a buffer of 256 bytes: up to 255 characters, ending after a newline.\<close>

definition fgets :: "u8 list \<Rightarrow> u8 list" where
  "fgets file = (let l = takeWhile (\<lambda>c. c \<noteq> 10) file
     in take 255 (if length l < length file then l @ [10] else l))"

definition is_space :: "u8 \<Rightarrow> bool" where
  "is_space c \<longleftrightarrow> c = 32 \<or> 9 \<le> c \<and> c \<le> 13"

definition blank_line :: "u8 list \<Rightarrow> bool" where
  "blank_line buf \<longleftrightarrow> list_all is_space (takeWhile (\<lambda>c. c \<noteq> 0) buf)"

lemma fgets_nonempty: "xs \<noteq> [] \<Longrightarrow> 0 < length (fgets xs)"
  by (cases xs) (auto simp: fgets_def Let_def)

text \<open>
  The result is \<open>-1\<close> on a malformed line and otherwise the entry point; \<open>None\<close> is a data record that does not fit into
  the memory.
\<close>

function srec_read :: "u8 list \<Rightarrow> srec_t \<Rightarrow> int \<Rightarrow> mem \<Rightarrow> (int \<times> mem) option" where
  "srec_read file srec entry m =
    (if file = [] then Some (entry, m)
     else
       let buf = fgets file; rest = drop (length buf) file in
       if blank_line buf then srec_read rest srec entry m
       else
         let (error, s1) = srec_decode srec buf in
         if error \<noteq> SREC_OK \<and> error \<noteq> SREC_INVALID_CKSUM then Some (-1, m)
         else if srec_type s1 = 1 then
           (case mem_write m (srec_addr s1) (take (unat (srec_count s1)) (srec_data s1)) of
              None \<Rightarrow> None
            | Some m1 \<Rightarrow> srec_read rest s1 entry m1)
         else if srec_type s1 = 9 then srec_read rest s1 (int (srec_addr s1)) m
         else srec_read rest s1 entry m)"
  by pat_completeness auto
termination
proof (relation "measure (\<lambda>(file, srec, entry, m). length file)", goal_cases)
qed (use fgets_nonempty in \<open>auto simp: diff_less\<close>)

declare srec_read.simps [simp del]

section \<open>Encoding\<close>

definition hexchar :: "nat \<Rightarrow> u8" where
  "hexchar n = (if n < 10 then of_nat (48 + n) else of_nat (55 + n))"

definition hex_byte :: "u8 \<Rightarrow> u8 list" where
  "hex_byte b = [hexchar (unat b div 16), hexchar (unat b mod 16)]"

text \<open>The record of a type with its address and data bytes: length, address, data and checksum in hexadecimal.\<close>

definition srec_payload :: "u8 list \<Rightarrow> u8 list \<Rightarrow> u8 list" where
  "srec_payload as ds = (let bs = of_nat (length as + length ds + 1) # as @ ds in bs @ [NOT (sum_list bs)])"

definition srec_encode :: "nat \<Rightarrow> u8 list \<Rightarrow> u8 list \<Rightarrow> u8 list" where
  "srec_encode ty as ds = [83, hexchar ty] @ concat (map hex_byte (srec_payload as ds)) @ [10]"

lemma hexchar_all:
  "list_all (\<lambda>n. hex2int (hexchar n) = int n \<and> hexchar n \<noteq> 0 \<and> hexchar n \<noteq> 10 \<and> hexchar n \<noteq> 13) [0..<16]"
  by code_simp

lemma hexchar_hex2int: "n < 16 \<Longrightarrow> hex2int (hexchar n) = int n"
  and hexchar_plain: "n < 16 \<Longrightarrow> hexchar n \<noteq> 0 \<and> hexchar n \<noteq> 10 \<and> hexchar n \<noteq> 13"
  using hexchar_all unfolding list_all_iff set_upt by auto

lemma byte_nibbles: "unat (b :: u8) div 16 < 16" "unat (b :: u8) mod 16 < 16"
  using unat_less_2p [of b] by (auto simp: less_mult_imp_div_less)

lemma concat_hex_length: "length (concat (map hex_byte bs)) = 2 * length bs"
  by (induction bs) (simp_all add: hex_byte_def)

lemma concat_hex_nth:
  "i < length bs \<Longrightarrow> concat (map hex_byte bs) ! (2 * i) = hexchar (unat (bs ! i) div 16)
    \<and> concat (map hex_byte bs) ! Suc (2 * i) = hexchar (unat (bs ! i) mod 16)"
proof (induction bs arbitrary: i)
  case (Cons b bs)
  then show ?case
    by (cases i) (simp_all add: hex_byte_def)
qed simp

lemma concat_hex_plain:
  "c \<in> set (concat (map hex_byte bs)) \<Longrightarrow> 0 \<le> hex2int c \<and> c \<noteq> 0 \<and> c \<noteq> 10 \<and> c \<noteq> 13"
  using hexchar_hex2int hexchar_plain byte_nibbles by (fastforce simp: hex_byte_def)

lemma nibbles_join: "push_bit 4 (int (n div 16)) OR int (n mod 16) = int n"
proof -
  have "take_bit 4 (int n) = int (n mod 16)" "drop_bit 4 (int n) = int (n div 16)"
    by (simp_all add: take_bit_eq_mod drop_bit_eq_div zmod_int zdiv_int)
  moreover have "push_bit 4 (drop_bit 4 k) OR take_bit 4 k = k" for k :: int
    by (rule bit_eqI) (auto simp: bit_simps)
  ultimately show ?thesis
    by metis
qed

section \<open>Decoding an encoded record\<close>

lemma srec_encode_nth:
  assumes "i < length (srec_payload as ds)"
  shows "C2 (srec_encode ty as ds) (2 + 2 * i) = uint (srec_payload as ds ! i)"
proof -
  let ?b = "concat (map hex_byte (srec_payload as ds))"
  have "2 * i < length ?b" "Suc (2 * i) < length ?b"
    using assms by (simp_all only: concat_hex_length)
  then have "srec_encode ty as ds ! (2 + 2 * i) = ?b ! (2 * i)"
    "srec_encode ty as ds ! (2 + 2 * i + 1) = ?b ! Suc (2 * i)"
    unfolding srec_encode_def by (simp_all add: nth_append)
  then show ?thesis
    using concat_hex_nth [OF assms] byte_nibbles
    by (simp add: C2_def C1_def hexchar_hex2int nibbles_join)
qed

lemma srec_payload_length: "length (srec_payload as ds) = length as + length ds + 2"
  by (simp add: srec_payload_def Let_def)

lemma srec_encode_line:
  assumes "ty < 16"
  shows "takeWhile (\<lambda>c. c \<noteq> 0 \<and> c \<noteq> 10 \<and> c \<noteq> 13) (srec_encode ty as ds)
      = [83, hexchar ty] @ concat (map hex_byte (srec_payload as ds))"
    and "i < 2 * (length as + length ds) + 6 \<Longrightarrow> 0 < i \<Longrightarrow> 0 \<le> C1 (srec_encode ty as ds) i"
proof -
  let ?p = "[83, hexchar ty] @ concat (map hex_byte (srec_payload as ds))"
  have plain: "c \<in> set ?p \<Longrightarrow> c \<noteq> 0 \<and> c \<noteq> 10 \<and> c \<noteq> 13" for c
    using concat_hex_plain hexchar_plain [OF assms] by auto
  have e: "srec_encode ty as ds = ?p @ [10]"
    by (simp add: srec_encode_def)
  have "takeWhile (\<lambda>c. c \<noteq> 0 \<and> c \<noteq> 10 \<and> c \<noteq> 13) (?p @ [10])
      = ?p @ takeWhile (\<lambda>c. c \<noteq> 0 \<and> c \<noteq> 10 \<and> c \<noteq> 13) [10]"
    using plain by (intro takeWhile_append2) blast
  then show "takeWhile (\<lambda>c. c \<noteq> 0 \<and> c \<noteq> 10 \<and> c \<noteq> 13) (srec_encode ty as ds) = ?p"
    unfolding e by simp
  show "0 \<le> C1 (srec_encode ty as ds) i" if i: "i < 2 * (length as + length ds) + 6" "0 < i"
  proof (cases "i = 1")
    case True
    then show ?thesis
      using hexchar_hex2int [OF assms] by (simp add: C1_def srec_encode_def)
  next
    case False
    then obtain j where j: "i = Suc (Suc j)"
      using i(2) by (metis One_nat_def not0_implies_Suc less_not_refl)
    have lt: "j < length (concat (map hex_byte (srec_payload as ds)))"
      using i(1) j by (simp only: concat_hex_length srec_payload_length) simp
    then have "srec_encode ty as ds ! i = concat (map hex_byte (srec_payload as ds)) ! j"
      by (simp add: srec_encode_def j nth_append)
    then show ?thesis
      using concat_hex_plain [OF nth_mem [OF lt]] by (simp add: C1_def)
  qed
qed

lemma srec_bytes_encode:
  assumes "k + n \<le> length (srec_payload as ds)"
  shows "srec_bytes (srec_encode ty as ds) (2 + 2 * k) n = take n (drop k (srec_payload as ds))"
proof (rule nth_equalityI)
  show "length (srec_bytes (srec_encode ty as ds) (2 + 2 * k) n) = length (take n (drop k (srec_payload as ds)))"
    using assms by (simp add: srec_bytes_def)
  fix i assume "i < length (srec_bytes (srec_encode ty as ds) (2 + 2 * k) n)"
  then have i: "i < n"
    by (simp add: srec_bytes_def)
  have "C2 (srec_encode ty as ds) (2 + 2 * (k + i)) = uint (srec_payload as ds ! (k + i))"
    using i assms by (intro srec_encode_nth) simp
  with i assms show "srec_bytes (srec_encode ty as ds) (2 + 2 * k) n ! i = take n (drop k (srec_payload as ds)) ! i"
    by (simp add: srec_bytes_def)
qed


lemma srec_checksum:
  fixes as ds :: "u8 list"
  defines "c \<equiv> length as + length ds + 1"
  shows "(int c + (\<Sum>v \<leftarrow> as. uint v) + (\<Sum>v \<leftarrow> ds. uint v)
      + uint (NOT (sum_list (of_nat c # as @ ds)))) AND 0xff = 0xff"
proof -
  let ?s = "int c + (\<Sum>v \<leftarrow> as. uint v) + (\<Sum>v \<leftarrow> ds. uint v) + uint (NOT (sum_list (of_nat c # as @ ds)))"
  have sum: "of_int (\<Sum>v \<leftarrow> xs. uint v) = sum_list xs" for xs :: "u8 list"
    by (induction xs) simp_all
  have "(of_int ?s :: u8) = of_nat c + sum_list as + sum_list ds + NOT (sum_list (of_nat c # as @ ds))"
    by (simp add: sum)
  also have "\<dots> = - 1"
    by (simp add: not_eq_complement)
  finally have "(of_int ?s :: u8) = - 1" .
  moreover have "uint (- 1 :: u8) = 255"
    by (simp add: unsigned_minus_1_eq_mask) (simp add: mask_eq_exp_minus_1)
  ultimately have "uint (of_int ?s :: u8) = 255"
    by (simp only:)
  moreover have "?s AND mask 8 = uint (of_int ?s :: u8)"
    by (simp only: uint_word_of_int take_bit_eq_mask [symmetric] take_bit_eq_mod) simp
  moreover have "(0xff :: int) = mask 8"
    by (simp add: mask_eq_exp_minus_1)
  ultimately show ?thesis
    by simp
qed

lemma srec_decode_encoded:
  assumes ty: "ty \<le> 9" and alen: "ltab ! ty = 2 * length as" "as \<noteq> []" and cnt: "length as + length ds < 255"
  shows "srec_decode srec (srec_encode ty as ds) =
    (SREC_OK, srec\<lparr>srec_type := ty, srec_addr := foldl (\<lambda>a v. a * 256 + unat v) 0 as,
       srec_data := ds @ drop (length ds) (srec_data srec), srec_count := of_nat (length ds)\<rparr>)"
proof -
  let ?l = "srec_encode ty as ds" and ?c = "length as + length ds + 1"
  have t16: "ty < 16"
    using ty by simp
  have pl: "srec_payload as ds = of_nat ?c # as @ ds @ [NOT (sum_list (of_nat ?c # as @ ds))]"
    by (simp add: srec_payload_def Let_def)
  have len: "length (takeWhile (\<lambda>c. c \<noteq> 0 \<and> c \<noteq> 10 \<and> c \<noteq> 13) ?l) = 2 * ?c + 4"
    by (simp add: srec_encode_line [OF t16] concat_hex_length srec_payload_length)
  have S: "?l ! 0 = 83"
    by (simp add: srec_encode_def)
  have chars: "\<not> (\<exists>pos \<in> set [1..<2 * ?c + 4]. C1 ?l pos < 0)"
    using srec_encode_line(2) [OF t16, of _ as ds] by (simp add: not_less)
  have type: "nat (C1 ?l 1) = ty"
    using hexchar_hex2int [OF t16] by (simp add: C1_def srec_encode_def)
  have "unat (of_nat ?c :: u8) = ?c"
    using cnt by (simp only: unat_of_nat) (simp add: take_bit_nat_eq_self)
  then have count: "nat (C2 ?l 2) = ?c"
    using srec_encode_nth [of 0 as ds ty] by (simp add: pl del: of_nat_add of_nat_Suc)
  have ab: "srec_bytes ?l 4 (length as) = as"
    using srec_bytes_encode [of 1 "length as" as ds ty] by (simp add: pl)
  have db: "srec_bytes ?l (4 + 2 * length as) (length ds) = ds"
    using srec_bytes_encode [of "1 + length as" "length ds" as ds ty]
    by (simp add: pl numeral_Bit0 algebra_simps)
  have "C2 ?l (2 + 2 * (1 + length as + length ds)) = uint (srec_payload as ds ! (1 + length as + length ds))"
    by (rule srec_encode_nth) (simp add: srec_payload_length)
  then have ck: "C2 ?l (4 + 2 * length as + 2 * length ds) = uint (NOT (sum_list (of_nat ?c # as @ ds)))"
    by (simp add: pl nth_append numeral_Bit0 algebra_simps)
  show ?thesis
    unfolding srec_decode_def srec_decode_checked_def Let_def len type count
    using ty alen S chars cnt srec_checksum [of as ds]
    by (simp add: type ab db ck)
qed


lemma srec_encode_length: "length (srec_encode ty as ds) = 2 * (length as + length ds) + 7"
  by (simp add: srec_encode_def concat_hex_length srec_payload_length)

lemma fgets_encoded:
  assumes "ty < 16" "length as + length ds \<le> 124"
  shows "fgets (srec_encode ty as ds @ rest) = srec_encode ty as ds"
proof -
  let ?p = "[83, hexchar ty] @ concat (map hex_byte (srec_payload as ds))"
  have plain: "c \<in> set ?p \<Longrightarrow> c \<noteq> 10" for c
    using concat_hex_plain hexchar_plain [OF assms(1)] by auto
  have e: "srec_encode ty as ds = ?p @ [10]"
    by (simp add: srec_encode_def)
  have "takeWhile (\<lambda>c. c \<noteq> 10) (?p @ 10 # rest) = ?p @ takeWhile (\<lambda>c. c \<noteq> 10) (10 # rest)"
    using plain by (intro takeWhile_append2) blast
  then have t: "takeWhile (\<lambda>c. c \<noteq> 10) (srec_encode ty as ds @ rest) = ?p"
    unfolding e by simp
  have "length (?p @ [10]) \<le> 255"
    using srec_encode_length [of ty as ds] assms(2) unfolding e by (simp del: length_append)
  moreover have "length ?p < length (srec_encode ty as ds @ rest)"
    unfolding e by simp
  ultimately show ?thesis
    unfolding fgets_def t Let_def by (simp only: e if_True take_all)
qed

lemma srec_encode_not_blank: "\<not> blank_line (srec_encode ty as ds)"
  by (simp add: blank_line_def srec_encode_def is_space_def)

lemma encoded_nonempty: "srec_encode ty as ds @ rest \<noteq> []"
  by (simp add: srec_encode_def)

section \<open>Loading a file\<close>

definition addr_bytes :: "u16 \<Rightarrow> u8 list" where
  "addr_bytes a = [ucast (drop_bit 8 a), ucast a]"

definition srec_file :: "(u16 \<times> u8 list) list \<Rightarrow> u16 \<Rightarrow> u8 list" where
  "srec_file rs e = concat (map (\<lambda>(a, ds). srec_encode 1 (addr_bytes a) ds) rs) @ srec_encode 9 (addr_bytes e) []"

definition load_block :: "mem \<Rightarrow> u16 \<times> u8 list \<Rightarrow> mem" where
  "load_block m r = (\<lambda>a. if unat (fst r) \<le> unat a \<and> unat a < unat (fst r) + length (snd r)
     then snd r ! (unat a - unat (fst r)) else m a)"

lemma addr_bytes_addr: "foldl (\<lambda>a v. a * 256 + unat v) 0 (addr_bytes a) = unat a"
proof -
  have h: "drop_bit 8 (unat a) < 256"
    using unat_less_2p [of a] by (simp add: drop_bit_eq_div less_mult_imp_div_less)
  have "unat (ucast (drop_bit 8 a) :: u8) = unat a div 256"
    using h by (simp only: unsigned_ucast_eq unat_drop_bit_eq) (simp add: take_bit_nat_eq_self drop_bit_eq_div)
  moreover have "unat (ucast a :: u8) = unat a mod 256"
    by (simp add: unsigned_ucast_eq take_bit_eq_mod)
  ultimately show ?thesis
    by (simp add: addr_bytes_def)
qed

lemma srec_read_step:
  assumes "length ds \<le> 122"
  shows "unat a + length ds \<le> 0x10000 \<Longrightarrow> \<exists>s'. srec_read (srec_encode 1 (addr_bytes a) ds @ rest) srec entry m
      = srec_read rest s' entry (load_block m (a, ds))"
    and "\<exists>s'. srec_read (srec_encode 9 (addr_bytes a) ds @ rest) srec entry m = srec_read rest s' (int (unat a)) m"
proof -
  have l: "length (addr_bytes a) = 2" "addr_bytes a \<noteq> []"
    by (simp_all add: addr_bytes_def)
  have dec: "srec_decode srec (srec_encode ty (addr_bytes a) ds)
      = (SREC_OK, srec\<lparr>srec_type := ty, srec_addr := unat a,
           srec_data := ds @ drop (length ds) (srec_data srec), srec_count := of_nat (length ds)\<rparr>)"
    if "ty = 1 \<or> ty = 9" for ty
    using srec_decode_encoded [of ty "addr_bytes a" ds srec] that assms l
    by (auto simp: addr_bytes_addr ltab_def)
  have fg: "fgets (srec_encode ty (addr_bytes a) ds @ rest) = srec_encode ty (addr_bytes a) ds"
    if "ty = 1 \<or> ty = 9" for ty
    using that assms l by (intro fgets_encoded) auto
  have cnt: "unat (of_nat (length ds) :: u8) = length ds"
    using assms by (simp only: unat_of_nat) (simp add: take_bit_nat_eq_self)
  have lb: "load_block m (a, ds) = (\<lambda>x. if unat a \<le> unat x \<and> unat x < unat a + length ds
      then ds ! (unat x - unat a) else m x)"
    by (simp add: load_block_def fun_eq_iff)
  show "\<exists>s'. srec_read (srec_encode 1 (addr_bytes a) ds @ rest) srec entry m
      = srec_read rest s' entry (load_block m (a, ds))" if "unat a + length ds \<le> 0x10000"
    using that by (subst srec_read.simps, subst if_not_P [OF encoded_nonempty])
      (auto simp: fg srec_encode_not_blank dec cnt mem_write_def lb)
  show "\<exists>s'. srec_read (srec_encode 9 (addr_bytes a) ds @ rest) srec entry m = srec_read rest s' (int (unat a)) m"
    by (subst srec_read.simps, subst if_not_P [OF encoded_nonempty]) (auto simp: fg srec_encode_not_blank dec)
qed

lemma srec_read_blocks:
  "list_all (\<lambda>(a, ds). length ds \<le> 122 \<and> unat a + length ds \<le> 0x10000) rs \<Longrightarrow>
   \<exists>s'. srec_read (concat (map (\<lambda>(a, ds). srec_encode 1 (addr_bytes a) ds) rs) @ rest) srec entry m
     = srec_read rest s' entry (foldl load_block m rs)"
proof (induction rs arbitrary: srec m)
  case Nil
  then show ?case by auto
next
  case (Cons r rs)
  obtain a ds where r: "r = (a, ds)"
    by (cases r)
  obtain s1 where "srec_read (srec_encode 1 (addr_bytes a) ds @
      concat (map (\<lambda>(a, ds). srec_encode 1 (addr_bytes a) ds) rs) @ rest) srec entry m
    = srec_read (concat (map (\<lambda>(a, ds). srec_encode 1 (addr_bytes a) ds) rs) @ rest) s1 entry (load_block m (a, ds))"
    using srec_read_step(1) [of ds a "concat (map (\<lambda>(a, ds). srec_encode 1 (addr_bytes a) ds) rs) @ rest" srec entry m]
      Cons.prems r by auto
  moreover obtain s2 where "srec_read (concat (map (\<lambda>(a, ds). srec_encode 1 (addr_bytes a) ds) rs) @ rest) s1 entry
      (load_block m (a, ds)) = srec_read rest s2 entry (foldl load_block (load_block m (a, ds)) rs)"
    using Cons by auto
  ultimately show ?case
    by (auto simp: r)
qed

section \<open>What an accepted line looks like\<close>

lemma hex2int_range: "hex2int c \<le> 15"
proof -
  have "uint c \<le> 57" if "c \<le> 57" using that by (simp add: word_le_def)
  moreover have "uint c \<le> 70" if "c \<le> 70" using that by (simp add: word_le_def)
  moreover have "uint c \<le> 102" if "c \<le> 102" using that by (simp add: word_le_def)
  ultimately show ?thesis
    by (auto simp: hex2int_def)
qed

lemma C2_byte:
  assumes "0 \<le> C1 l p" "0 \<le> C1 l (p + 1)"
  shows "0 \<le> C2 l p" "C2 l p \<le> 255"
proof -
  have r: "C1 l p \<le> 15" "C1 l (p + 1) \<le> 15"
    using hex2int_range by (simp_all add: C1_def)
  show "0 \<le> C2 l p"
    using assms by (simp add: C2_def)
  have "push_bit 4 (C1 l p) < 2 ^ 8" "C1 l (p + 1) < 2 ^ 8"
    using r by (simp_all add: push_bit_eq_mult)
  then have "push_bit 4 (C1 l p) OR C1 l (p + 1) < 2 ^ 8"
    using assms by (intro OR_upper) simp_all
  then show "C2 l p \<le> 255"
    by (simp add: C2_def)
qed

lemma exit_passed:
  assumes "(if P then (x, a) else r) = (e, s)" "x \<noteq> e"
  shows "\<not> P" "r = (e, s)"
  using assms by (auto split: if_splits)

lemma same_state: "(if P then (x, a) else (y, a)) = (e, s) \<Longrightarrow> s = a"
  by (simp split: if_splits)

lemma srec_decode_accepted:
  assumes "srec_decode srec line = (e, s)" "e = SREC_OK \<or> e = SREC_INVALID_CKSUM"
  obtains alen count n where "alen \<in> set ltab" "alen \<noteq> 0" "count = nat (C2 line 2)" "0 \<le> C1 line 2" "0 \<le> C1 line 3"
    "n = count - alen div 2 - 1" "srec_count s = of_nat n"
    "srec_data s = srec_bytes line (4 + alen) n @ drop n (srec_data srec)"
proof -
  let ?len = "length (takeWhile (\<lambda>c. c \<noteq> 0 \<and> c \<noteq> 10 \<and> c \<noteq> 13) line)"
  let ?t = "nat (C1 line 1)"
  let ?n = "nat (C2 line 2) - ltab ! ?t div 2 - 1"
  have ne: "SREC_INVALID_HDR \<noteq> e" "SREC_INVALID_CHAR \<noteq> e" "SREC_INVALID_TYPE \<noteq> e" "SREC_TOO_SHORT \<noteq> e"
    "SREC_TOO_LONG \<noteq> e" "SREC_INVALID_LEN \<noteq> e"
    using assms(2) by auto
  note hdr = exit_passed [OF assms(1) [unfolded srec_decode_def Let_def] ne(1)]
  note hdr2 = exit_passed [OF hdr(2) ne(1)]
  note chr = exit_passed [OF hdr2(2) ne(2)]
  note ty = exit_passed [OF chr(2) [unfolded srec_decode_checked_def Let_def] ne(3)]
  note al = exit_passed [OF ty(2) ne(3)]
  note sh = exit_passed [OF al(2) ne(4)]
  note lo = exit_passed [OF sh(2) ne(5)]
  note le = exit_passed [OF lo(2) ne(6)]
  have ok: "?t \<le> 9" "ltab ! ?t \<noteq> 0"
    using ty(1) al(1) by simp_all
  have s: "srec_count s = of_nat ?n" "srec_data s = srec_bytes line (4 + ltab ! ?t) ?n @ drop ?n (srec_data srec)"
    using same_state [OF le(2)] by simp_all
  have "ltab ! ?t \<in> set ltab"
    using ok(1) by (intro nth_mem) (simp add: ltab_def)
  moreover have "0 \<le> C1 line 2" "0 \<le> C1 line 3"
    using hdr(1) chr(1) by (auto simp: not_less)
  ultimately show ?thesis
    using that [of "ltab ! ?t" "nat (C2 line 2)" ?n] ok s by blast
qed

section \<open>Properties\<close>

text \<open>
  C24. Decoding inverts encoding: a record of any valid type, with the address bytes its type asks for and
  up to 254 bytes altogether, decodes without error to exactly its type, address, count and data.
\<close>

theorem srec_decode_encode:
  assumes "ty \<le> 9" and "ltab ! ty = 2 * length as" and "as \<noteq> []" and "length as + length ds < 255"
  shows "srec_decode srec (srec_encode ty as ds) =
    (SREC_OK, srec\<lparr>srec_type := ty, srec_addr := foldl (\<lambda>a v. a * 256 + unat v) 0 as,
       srec_data := ds @ drop (length ds) (srec_data srec), srec_count := of_nat (length ds)\<rparr>)"
  using assms by (rule srec_decode_encoded)

definition srec_none :: srec_t where
  "srec_none = \<lparr>srec_type = 0, srec_addr = 0, srec_count = 0, srec_data = []\<rparr>"

theorem srec_decode_encode_witness:
  "srec_addr (snd (srec_decode srec_none (srec_encode 2 [0x12, 0x34, 0x56] [1, 2]))) = 0x123456
    \<and> fst (srec_decode srec_none (srec_encode 2 [0x12, 0x34, 0x56] [1, 2])) = SREC_OK"
  using srec_decode_encode [of 2 "[0x12, 0x34, 0x56]" "[1, 2]" srec_none] by (simp add: ltab_def)

lemma srec_read_file:
  assumes "list_all (\<lambda>(a, ds). length ds \<le> 122 \<and> unat a + length ds \<le> 0x10000) rs"
  shows "srec_read (srec_file rs e) srec 0 m = Some (int (unat e), foldl load_block m rs)"
proof -
  obtain s1 where "srec_read (srec_file rs e) srec 0 m
      = srec_read (srec_encode 9 (addr_bytes e) [] @ []) s1 0 (foldl load_block m rs)"
    using srec_read_blocks [OF assms, of "srec_encode 9 (addr_bytes e) []" srec 0 m] unfolding srec_file_def by auto
  moreover obtain s2 where "srec_read (srec_encode 9 (addr_bytes e) [] @ []) s1 0 (foldl load_block m rs)
      = srec_read [] s2 (int (unat e)) (foldl load_block m rs)"
    using srec_read_step(2) [of "[]" e "[]" s1 0 "foldl load_block m rs"] by auto
  ultimately show ?thesis
    by (simp add: srec_read.simps)
qed

text \<open>
  Loading a firmware file: a file of S1 records of up to 122 bytes that fit into the address space, closed by an S9
  record, is read without error, leaves the blocks in memory in file order, and returns the entry
  point of the S9 record.
\<close>

theorem srec_read_loads:
  assumes "list_all (\<lambda>(a, ds). length ds \<le> 122 \<and> unat a + length ds \<le> 0x10000) rs"
  shows "srec_read (srec_file rs e) srec 0 m = Some (int (unat e), foldl load_block m rs)"
  using srec_read_file [OF assms] .

theorem srec_read_loads_witness:
  "srec_read (srec_file [(0x8000, [1, 2, 3]), (0x8001, [9])] 0x8000) srec_none 0 (\<lambda>_. 0)
    = Some (0x8000, foldl load_block (\<lambda>_. 0) [(0x8000, [1, 2, 3]), (0x8001, [9])])
   \<and> foldl load_block (\<lambda>_. 0) [(0x8000, [1, 2, 3]), (0x8001, [9])] 0x8001 = 9"
  using srec_read_loads [of "[(0x8000, [1, 2, 3]), (0x8001, [9])]" "0x8000" srec_none "\<lambda>_. 0"]
  by (simp add: load_block_def)

text \<open>
  The decoder stays inside its buffer: whatever the line, a record it accepts (or accepts but for the
  checksum) has at most 252 data bytes of the 512 of \<open>srec_t\<close>, and its count is exactly the number
  of bytes it wrote over the old buffer.
\<close>

theorem srec_decode_bounds:
  assumes "srec_decode srec line = (e, s)" and "e = SREC_OK \<or> e = SREC_INVALID_CKSUM"
  shows "unat (srec_count s) \<le> 252
    \<and> (\<exists>bs. length bs = unat (srec_count s) \<and> srec_data s = bs @ drop (length bs) (srec_data srec))"
proof -
  obtain alen count n where c: "alen \<in> set ltab" "alen \<noteq> 0" "count = nat (C2 line 2)" "0 \<le> C1 line 2" "0 \<le> C1 line 3"
    "n = count - alen div 2 - 1" "srec_count s = of_nat n"
    "srec_data s = srec_bytes line (4 + alen) n @ drop n (srec_data srec)"
    by (rule srec_decode_accepted [OF assms])
  have "4 \<le> alen"
    using c(1,2) by (auto simp: ltab_def)
  moreover have "count \<le> 255"
    using C2_byte [of line 2] c(3,4,5) by (simp add: numeral_eq_Suc)
  ultimately have n: "n \<le> 252"
    using c(6) by simp
  then have "unat (srec_count s) = n"
    unfolding c(7) by (simp only: unat_of_nat) (simp add: take_bit_nat_eq_self)
  then show ?thesis
    using n c(8) by (intro conjI exI [of _ "srec_bytes line (4 + alen) n"]) (simp_all add: srec_bytes_def)
qed

theorem srec_decode_bounds_witness:
  "unat (srec_count (snd (srec_decode srec_none (srec_encode 1 [0x80, 0] [5])))) \<le> 252"
  using srec_decode_bounds [of srec_none "srec_encode 1 [0x80, 0] [5]", OF prod.collapse [symmetric]]
    srec_decode_encoded [of 1 "[0x80, 0]" "[5]" srec_none] by (simp add: ltab_def)

end
