(* ===== verification/Coff.thy ===== *)
theory Coff
  imports Symbols
begin

text \<open>
  The loaders of COFF images, \<^verbatim>\<open>coff.c\<close>, and of brickOS programs in LX format, \<^verbatim>\<open>lx.c\<close>. A file is its list of bytes. A read
  that meets the end of the file fills only a part of the buffer and the rest keeps what was there; the
  contents of a buffer that was never written are given by the argument \<open>g\<close>. \<open>None\<close> is an access outside the memory
  of the brick or of the string table.
\<close>

section \<open>Reading files\<close>

definition uninit :: "(nat \<Rightarrow> u8) \<Rightarrow> nat \<Rightarrow> u8 list" where
  "uninit g n = map g [0..<n]"

definition fread :: "u8 list \<Rightarrow> nat \<Rightarrow> nat \<Rightarrow> u8 list" where
  "fread file pos n = take n (drop pos file)"

definition fread_into :: "u8 list \<Rightarrow> nat \<Rightarrow> nat \<Rightarrow> u8 list \<Rightarrow> u8 list" where
  "fread_into file pos n buf = (let bs = fread file pos n in bs @ drop (length bs) buf)"

text \<open>\<open>ntohs\<close> and \<open>ntohl\<close> of a field at a byte offset of a buffer.\<close>

definition be16 :: "u8 list \<Rightarrow> nat \<Rightarrow> u16" where
  "be16 b i = push_bit 8 (ucast (b ! i)) OR ucast (b ! (i + 1))"

definition be32 :: "u8 list \<Rightarrow> nat \<Rightarrow> u32" where
  "be32 b i = push_bit 24 (ucast (b ! i)) OR push_bit 16 (ucast (b ! (i + 1)))
     OR push_bit 8 (ucast (b ! (i + 2))) OR ucast (b ! (i + 3))"

definition text_of :: "u8 list \<Rightarrow> string" where
  "text_of bs = map (\<lambda>b. char_of (unat b)) bs"

section \<open>COFF\<close>

text \<open>
  The structures of \<^verbatim>\<open>coff.h\<close>, with the values of their fields in host order, and how they are laid out in 20, 28, 40 and 18 bytes. The name of a
  symbol is either in its first 8 bytes or, when the first four of them are zero, at an offset in the string table.
\<close>

record coff_header =
  ch_magic :: u16
  ch_nscns :: u16
  ch_timdat :: u32
  ch_symptr :: u32
  ch_nsyms :: u32
  ch_opthdr :: u16
  ch_flags :: u16

definition coff_header_of :: "u8 list \<Rightarrow> coff_header" where
  "coff_header_of b =
    \<lparr>ch_magic = be16 b 0, ch_nscns = be16 b 2, ch_timdat = be32 b 4, ch_symptr = be32 b 8, ch_nsyms = be32 b 12,
     ch_opthdr = be16 b 16, ch_flags = be16 b 18\<rparr>"

record coff_aouthdr =
  ao_magic :: u16
  ao_vstamp :: u16
  ao_tsize :: u32
  ao_dsize :: u32
  ao_bsize :: u32
  ao_entry :: u32
  ao_text_start :: u32
  ao_data_start :: u32

definition coff_aouthdr_of :: "u8 list \<Rightarrow> coff_aouthdr" where
  "coff_aouthdr_of b =
    \<lparr>ao_magic = be16 b 0, ao_vstamp = be16 b 2, ao_tsize = be32 b 4, ao_dsize = be32 b 8, ao_bsize = be32 b 12,
     ao_entry = be32 b 16, ao_text_start = be32 b 20, ao_data_start = be32 b 24\<rparr>"

record coff_sect =
  cs_sectname :: "u8 list"
  cs_paddr :: u32
  cs_vaddr :: u32
  cs_size :: u32
  cs_scnptr :: u32
  cs_relptr :: u32
  cs_lnnoptr :: u32
  cs_nreloc :: u16
  cs_nlnno :: u16
  cs_flags :: u32

definition coff_sect_of :: "u8 list \<Rightarrow> coff_sect" where
  "coff_sect_of b =
    \<lparr>cs_sectname = take 8 b, cs_paddr = be32 b 8, cs_vaddr = be32 b 12, cs_size = be32 b 16, cs_scnptr = be32 b 20,
     cs_relptr = be32 b 24, cs_lnnoptr = be32 b 28, cs_nreloc = be16 b 32, cs_nlnno = be16 b 34, cs_flags = be32 b 36\<rparr>"

record coff_syment =
  e_name :: "u8 list"
  e_offset :: u32
  e_value :: u32
  e_scnum :: u16
  e_type :: u16
  e_sclass :: u8
  e_numaux :: u8

definition coff_syment_of :: "u8 list \<Rightarrow> coff_syment" where
  "coff_syment_of b =
    \<lparr>e_name = take 8 b, e_offset = be32 b 4, e_value = be32 b 8, e_scnum = be16 b 12, e_type = be16 b 14,
     e_sclass = b ! 16, e_numaux = b ! 17\<rparr>"

lemmas coff_structs = coff_header_of_def coff_aouthdr_of_def coff_sect_of_def coff_syment_of_def

abbreviation F_EXEC :: u16 where "F_EXEC \<equiv> 0x0002"
abbreviation STYP_LOAD :: u32 where "STYP_LOAD \<equiv> 0x60"
abbreviation C_EXT :: u8 where "C_EXT \<equiv> 2"
abbreviation C_STAT :: u8 where "C_STAT \<equiv> 3"
abbreviation C_LABEL :: u8 where "C_LABEL \<equiv> 6"

definition coff_section :: "u8 list \<Rightarrow> u8 list \<Rightarrow> mem \<Rightarrow> mem option" where
  "coff_section file sect m =
    (let h = coff_sect_of sect
     in if cs_flags h AND STYP_LOAD \<noteq> 0
        then mem_write m (unat (cs_paddr h)) (fread file (unat (cs_scnptr h)) (unat (cs_size h)))
        else Some m)"

fun coff_sections :: "u8 list \<Rightarrow> nat list \<Rightarrow> u8 list \<Rightarrow> mem \<Rightarrow> mem option" where
  "coff_sections file [] sect m = Some m"
| "coff_sections file (i # is) sect m =
    (let sect1 = fread_into file (20 + 28 + i * 40) 40 sect
     in Option.bind (coff_section file sect1 m) (coff_sections file is sect1))"

definition coff_read :: "(nat \<Rightarrow> u8) \<Rightarrow> u8 list \<Rightarrow> mem \<Rightarrow> (int \<times> mem) option" where
  "coff_read g file m =
    (let header = fread_into file 0 20 (uninit g 20);
         aouthdr = fread_into file (length (fread file 0 20)) 28 (uninit g 28)
     in map_option (Pair (sint (ao_entry (coff_aouthdr_of aouthdr))))
          (coff_sections file [0..<unat (ch_nscns (coff_header_of header))] (uninit g 40) m))"

definition coff_init :: "(nat \<Rightarrow> u8) \<Rightarrow> u8 list \<Rightarrow> bool" where
  "coff_init g file =
    (let header = coff_header_of (fread_into file 0 20 (uninit g 20))
     in ch_magic header = 0x8300 \<and> ch_flags header AND F_EXEC \<noteq> 0 \<and> ch_opthdr header = 28)"

definition coff_name :: "u8 list \<Rightarrow> coff_syment \<Rightarrow> string option" where
  "coff_name symtable entry =
    (if take 4 (e_name entry) \<noteq> [0, 0, 0, 0] then Some (text_of (takeWhile (\<lambda>b. b \<noteq> 0) (e_name entry)))
     else
       let s = drop (unat (e_offset entry)) symtable
       in if 0 \<in> set s then Some (text_of (takeWhile (\<lambda>b. b \<noteq> 0) s)) else None)"

definition coff_symbol :: "coff_syment \<Rightarrow> string \<Rightarrow> symbol \<Rightarrow> symbol" where
  "coff_symbol entry name tree =
    (let address = ucast (e_value entry) :: u16; sclass = e_sclass entry
     in if name \<noteq> [] \<and> hd name = CHR ''.'' then tree
        else if sclass = C_EXT \<or> sclass = C_STAT then symbols_add (address, 0) name tree
        else if sclass = C_LABEL then
          let (found, tree1) = symbols_get (address, 0) tree
          in if found = None then symbols_add (address, 0) name tree1 else tree1
        else tree)"

fun coff_entries :: "u8 list \<Rightarrow> u8 list \<Rightarrow> nat \<Rightarrow> nat \<Rightarrow> u8 list \<Rightarrow> symbol \<Rightarrow> symbol option" where
  "coff_entries file symtable pos 0 entry tree = Some tree"
| "coff_entries file symtable pos (Suc n) entry tree =
    (let entry1 = fread_into file pos 18 entry;
         ent = coff_syment_of entry1;
         pos1 = pos + length (fread file pos 18) + 18 * unat (e_numaux ent)
     in Option.bind (coff_name symtable ent)
          (\<lambda>name. coff_entries file symtable pos1 n entry1 (coff_symbol ent name tree)))"

text \<open>The string table is \<open>malloc (length + 4)\<close> bytes, in 32-bit arithmetic, and is filled from its fifth byte on.\<close>

definition coff_symbols :: "(nat \<Rightarrow> u8) \<Rightarrow> u8 list \<Rightarrow> symbol \<Rightarrow> symbol option" where
  "coff_symbols g file tree =
    (let header = coff_header_of (fread_into file 0 20 (uninit g 20));
         nsyms = ch_nsyms header;
         symptr = ch_symptr header;
         strpos = unat (symptr + 18 * nsyms);
         len = be32 (fread_into file strpos 4 (uninit g 4)) 0;
         strs = fread file (strpos + length (fread file strpos 4)) (unat len);
         small = 2 ^ 32 \<le> unat len + 4;
         symtable = (if small then uninit g (unat (len + 4)) else uninit g 4 @ strs @ uninit g (unat len - length strs))
     in if small \<and> strs \<noteq> [] then None
        else coff_entries file symtable (unat symptr) (unat nsyms) (uninit g 18) tree)"

section \<open>LX\<close>

record lx_header =
  lx_version :: u16
  lx_base :: u16
  lx_text_size :: u16
  lx_data_size :: u16
  lx_bss_size :: u16
  lx_stack_size :: u16
  lx_offset :: u16
  lx_num_relocs :: u16

text \<open>\<open>buf\<close> holds the previous contents of the header of the caller.\<close>

definition lx_init :: "(nat \<Rightarrow> u8) \<Rightarrow> u8 list \<Rightarrow> u8 list \<Rightarrow> lx_header option" where
  "lx_init g file buf =
    (if text_of (fread_into file 0 8 (uninit g 8)) \<noteq> ''brickOS'' @ [CHR 0x00] then None
     else
       let b = fread_into file 8 16 buf;
           h = \<lparr>lx_version = be16 b 0, lx_base = be16 b 2, lx_text_size = be16 b 4, lx_data_size = be16 b 6,
                lx_bss_size = be16 b 8, lx_stack_size = be16 b 10, lx_offset = be16 b 12, lx_num_relocs = be16 b 14\<rparr>
       in if lx_version h \<noteq> 0 then None else Some h)"

text \<open>One relocation: the word at \<open>start + reloc\<close> is moved by \<open>start - base\<close>.\<close>

definition lx_reloc :: "nat \<Rightarrow> u16 \<Rightarrow> u16 \<Rightarrow> mem \<Rightarrow> mem option" where
  "lx_reloc start base reloc m =
    (let a = start + unat reloc
     in if 0x10000 \<le> a + 1 then None
        else
          let val = (push_bit 8 (ucast (m (of_nat a))) OR ucast (m (of_nat (a + 1)))) + (of_nat start - base)
          in mem_write m a [ucast (drop_bit 8 val), ucast val])"

text \<open>\<open>buf\<close> holds the bytes of the variable \<open>reloc\<close>, which the code converts to host order in place.\<close>

fun lx_relocs :: "u8 list \<Rightarrow> nat \<Rightarrow> u16 \<Rightarrow> nat \<Rightarrow> nat \<Rightarrow> u8 list \<Rightarrow> mem \<Rightarrow> mem option" where
  "lx_relocs file start base pos 0 buf m = Some m"
| "lx_relocs file start base pos (Suc n) buf m =
    (let buf1 = fread_into file pos 2 buf
     in Option.bind (lx_reloc start base (be16 buf1 0) m)
          (lx_relocs file start base (pos + length (fread file pos 2)) n (rev buf1)))"

definition lx_read :: "(nat \<Rightarrow> u8) \<Rightarrow> u8 list \<Rightarrow> lx_header \<Rightarrow> nat \<Rightarrow> mem \<Rightarrow> mem option" where
  "lx_read g file h start m =
    (let bs = fread file 24 (unat (lx_text_size h) + unat (lx_data_size h))
     in Option.bind (mem_write m start bs)
          (lx_relocs file start (lx_base h) (24 + length bs) (unat (lx_num_relocs h)) (uninit g 2)))"

section \<open>Encoding\<close>

definition enc16 :: "u16 \<Rightarrow> u8 list" where
  "enc16 w = [ucast (drop_bit 8 w), ucast w]"

definition enc32 :: "u32 \<Rightarrow> u8 list" where
  "enc32 w = [ucast (drop_bit 24 w), ucast (drop_bit 16 w), ucast (drop_bit 8 w), ucast w]"

lemma enc_length [simp]: "length (enc16 w) = 2" "length (enc32 v) = 4"
  by (simp_all add: enc16_def enc32_def)

lemma be16_enc: "length xs = i \<Longrightarrow> be16 (xs @ enc16 w @ ys) i = w"
  by (simp add: be16_def enc16_def nth_append) (auto intro!: bit_word_eqI simp: bit_simps)

lemma join32:
  fixes w :: u32
  shows "push_bit 24 (ucast (ucast (drop_bit 24 w) :: u8)) OR push_bit 16 (ucast (ucast (drop_bit 16 w) :: u8))
    OR push_bit 8 (ucast (ucast (drop_bit 8 w) :: u8)) OR ucast (ucast w :: u8) = w"
proof (rule bit_word_eqI)
  fix n assume n: "n < LENGTH(32)"
  then consider "n < 8" | "8 \<le> n" "n < 16" | "16 \<le> n" "n < 24" | "24 \<le> n" "n < 32"
    by fastforce
  then show "bit (push_bit 24 (ucast (ucast (drop_bit 24 w) :: u8)) OR push_bit 16 (ucast (ucast (drop_bit 16 w) :: u8))
    OR push_bit 8 (ucast (ucast (drop_bit 8 w) :: u8)) OR ucast (ucast w :: u8) :: u32) n = bit w n"
    by cases (auto simp: bit_simps)
qed

lemma be32_enc: "length xs = i \<Longrightarrow> be32 (xs @ enc32 w @ ys) i = w"
  by (simp add: be32_def enc32_def nth_append join32)


text \<open>A COFF file without symbols: each section has its flags, its address and its bytes.\<close>

type_synonym coff_sec = "u32 \<times> u32 \<times> u8 list"

fun sec_header :: "nat \<Rightarrow> coff_sec \<Rightarrow> u8 list" where
  "sec_header off (fl, pa, ds) = replicate 8 0 @ enc32 pa @ enc32 pa @ enc32 (of_nat (length ds)) @ enc32 (of_nat off)
     @ replicate 12 0 @ enc32 fl"

fun sec_headers :: "nat \<Rightarrow> coff_sec list \<Rightarrow> u8 list" where
  "sec_headers off [] = []"
| "sec_headers off (s # ss) = sec_header off s @ sec_headers (off + length (snd (snd s))) ss"

definition sec_data :: "coff_sec list \<Rightarrow> u8 list" where
  "sec_data ss = concat (map (\<lambda>s. snd (snd s)) ss)"

definition coff_head :: "u32 \<Rightarrow> nat \<Rightarrow> u8 list" where
  "coff_head e n = (enc16 0x8300 @ enc16 (of_nat n) @ replicate 12 0 @ enc16 28 @ enc16 2)
     @ (replicate 16 0 @ enc32 e @ replicate 8 0)"

definition coff_file :: "u32 \<Rightarrow> coff_sec list \<Rightarrow> u8 list" where
  "coff_file e ss = coff_head e (length ss) @ sec_headers (48 + 40 * length ss) ss @ sec_data ss"

text \<open>What loading them means.\<close>

fun load_sections :: "coff_sec list \<Rightarrow> mem \<Rightarrow> mem option" where
  "load_sections [] m = Some m"
| "load_sections ((fl, pa, ds) # ss) m =
    Option.bind (if fl AND 0x60 \<noteq> 0 then mem_write m (unat pa) ds else Some m) (load_sections ss)"

lemma sec_header_length: "length (sec_header off s) = 40"
  by (cases s) simp

lemma sec_headers_length: "length (sec_headers off ss) = 40 * length ss"
  by (induction ss arbitrary: off) (simp_all add: sec_header_length)

lemma sec_headers_append:
  "sec_headers off (xs @ ys) = sec_headers off xs @ sec_headers (off + length (sec_data xs)) ys"
  by (induction xs arbitrary: off) (simp_all add: sec_data_def add.assoc)

lemma sec_header_fields:
  assumes "s = (fl, pa, ds)"
  shows "be32 (sec_header off s) 8 = pa" "be32 (sec_header off s) 16 = of_nat (length ds)"
    "be32 (sec_header off s) 20 = of_nat off" "be32 (sec_header off s) 36 = fl"
proof -
  have "sec_header off s = replicate 8 0 @ enc32 pa @ (enc32 pa @ enc32 (of_nat (length ds)) @ enc32 (of_nat off)
     @ replicate 12 0 @ enc32 fl)"
    by (simp add: assms)
  then show "be32 (sec_header off s) 8 = pa"
    by (simp only:) (rule be32_enc, simp)
  have "sec_header off s = (replicate 8 0 @ enc32 pa @ enc32 pa) @ enc32 (of_nat (length ds)) @ (enc32 (of_nat off)
     @ replicate 12 0 @ enc32 fl)"
    by (simp add: assms)
  then show "be32 (sec_header off s) 16 = of_nat (length ds)"
    by (simp only:) (rule be32_enc, simp)
  have "sec_header off s = (replicate 8 0 @ enc32 pa @ enc32 pa @ enc32 (of_nat (length ds))) @ enc32 (of_nat off)
     @ (replicate 12 0 @ enc32 fl)"
    by (simp add: assms)
  then show "be32 (sec_header off s) 20 = of_nat off"
    by (simp only:) (rule be32_enc, simp)
  have "sec_header off s = (replicate 8 0 @ enc32 pa @ enc32 pa @ enc32 (of_nat (length ds)) @ enc32 (of_nat off)
     @ replicate 12 0) @ enc32 fl @ []"
    by (simp add: assms)
  then show "be32 (sec_header off s) 36 = fl"
    by (simp only:) (rule be32_enc, simp)
qed

lemma coff_head_length: "length (coff_head e n) = 48"
  by (simp add: coff_head_def)

lemma fread_mid: "length xs = p \<Longrightarrow> length ys = n \<Longrightarrow> fread (xs @ ys @ zs) p n = ys"
  by (simp add: fread_def)

lemma be32_append: "i + 3 < length xs \<Longrightarrow> be32 (xs @ ys) i = be32 xs i"
  by (simp add: be32_def nth_append)

lemma coff_section_at:
  fixes xs ys :: "coff_sec list" and s :: coff_sec and e :: u32
  defines "off \<equiv> 48 + 40 * length (xs @ s # ys) + length (sec_data xs)"
  shows "fread (coff_file e (xs @ s # ys)) (20 + 28 + length xs * 40) 40 = sec_header off s"
    and "fread (coff_file e (xs @ s # ys)) off (length (snd (snd s))) = snd (snd s)"
proof -
  let ?n = "length (xs @ s # ys)" and ?l = "length (snd (snd s))"
  have split: "sec_headers (48 + 40 * ?n) (xs @ s # ys) = sec_headers (48 + 40 * ?n) xs @ sec_header off s @ sec_headers (off + ?l) ys"
    by (simp add: sec_headers_append off_def)
  have data: "sec_data (xs @ s # ys) = sec_data xs @ snd (snd s) @ sec_data ys"
    by (simp add: sec_data_def)
  have 1: "coff_file e (xs @ s # ys) = (coff_head e ?n @ sec_headers (48 + 40 * ?n) xs) @ sec_header off s
      @ (sec_headers (off + ?l) ys @ sec_data (xs @ s # ys))"
    unfolding coff_file_def split by simp
  show "fread (coff_file e (xs @ s # ys)) (20 + 28 + length xs * 40) 40 = sec_header off s"
    unfolding 1 by (rule fread_mid) (simp_all add: coff_head_length sec_headers_length sec_header_length)
  have 2: "coff_file e (xs @ s # ys) = (coff_head e ?n @ sec_headers (48 + 40 * ?n) (xs @ s # ys) @ sec_data xs)
      @ snd (snd s) @ sec_data ys"
    unfolding coff_file_def data by simp
  show "fread (coff_file e (xs @ s # ys)) off (length (snd (snd s))) = snd (snd s)"
    unfolding 2 by (rule fread_mid) (simp_all add: coff_head_length sec_headers_length off_def)
qed

lemma coff_sections_file:
  assumes "f = coff_file e (xs @ ys)" "length f < 2 ^ 32"
  shows "coff_sections f [length xs..<length xs + length ys] sect m = load_sections ys m"
  using assms
proof (induction ys arbitrary: xs sect m)
  case (Cons s ys)
  define off where "off = 48 + 40 * length (xs @ s # ys) + length (sec_data xs)"
  obtain fl pa ds where s: "s = (fl, pa, ds)"
    by (cases s)
  have hdr: "fread f (20 + 28 + length xs * 40) 40 = sec_header off s"
    unfolding Cons.prems(1) off_def by (rule coff_section_at)
  have dat: "fread f off (length ds) = ds"
    using coff_section_at(2) [of e xs s ys] by (simp only: s Cons.prems(1) off_def snd_conv)
  have "length f = off + length ds + length (sec_data ys)"
    unfolding Cons.prems(1) by (simp add: coff_file_def coff_head_length sec_headers_length sec_data_def s off_def)
  then have "off < 2 ^ 32" "length ds < 2 ^ 32"
    using Cons.prems(2) by linarith+
  then have n: "unat (of_nat off :: u32) = off" "unat (of_nat (length ds) :: u32) = length ds"
    by (simp_all only: unat_of_nat) (simp_all add: take_bit_nat_eq_self)
  define sect1 where "sect1 = fread_into f (20 + 28 + length xs * 40) 40 sect"
  have "sect1 = sec_header off s @ drop 40 sect"
    by (simp only: sect1_def fread_into_def Let_def hdr sec_header_length)
  then have sect1: "be32 sect1 i = be32 (sec_header off s) i" if "i < 37" for i
    using that by (simp only:) (rule be32_append, simp add: sec_header_length)
  have "coff_section f sect1 m = (if fl AND 0x60 \<noteq> 0 then mem_write m (unat pa) ds else Some m)"
    by (simp add: coff_section_def coff_sect_of_def sect1 sec_header_fields [OF s] n dat del: of_nat_add of_nat_mult)
  moreover have "coff_sections f [Suc (length xs)..<length xs + length (s # ys)] sect1 = load_sections ys"
    using Cons.IH [of "xs @ [s]"] Cons.prems by (simp add: fun_eq_iff)
  moreover have "[length xs..<length xs + length (s # ys)] = length xs # [Suc (length xs)..<length xs + length (s # ys)]"
    by (rule upt_conv_Cons) simp
  ultimately show ?case
    by (simp only: coff_sections.simps load_sections.simps s Let_def sect1_def [symmetric])
qed simp

lemma coff_headers:
  fixes e ss
  defines "f \<equiv> coff_file e ss"
  shows "be16 (fread_into f 0 20 b) 0 = 0x8300" "be16 (fread_into f 0 20 b) 2 = of_nat (length ss)"
    "be16 (fread_into f 0 20 b) 16 = 28" "be16 (fread_into f 0 20 b) 18 = 2"
    "length (fread f 0 20) = 20" "be32 (fread_into f 20 28 b) 16 = e"
proof -
  let ?h = "enc16 0x8300 @ enc16 (of_nat (length ss)) @ replicate 12 0 @ enc16 28 @ enc16 2"
  have h: "fread_into f 0 20 b = ?h @ drop 20 b" and "length (fread f 0 20) = 20"
    by (simp_all add: fread_into_def fread_def f_def coff_file_def coff_head_def Let_def)
  have "fread_into f 20 28 b = replicate 16 0 @ enc32 e @ (replicate 8 0 @ drop 28 b)"
    by (simp add: fread_into_def fread_def f_def coff_file_def coff_head_def Let_def)
  then show "be32 (fread_into f 20 28 b) 16 = e"
    by (simp only:) (rule be32_enc, simp)
  show "length (fread f 0 20) = 20" by fact
  show "be16 (fread_into f 0 20 b) 0 = 0x8300"
    using be16_enc [of "[]" 0 "0x8300"] by (simp add: h)
  show "be16 (fread_into f 0 20 b) 2 = of_nat (length ss)"
    using be16_enc [of "enc16 0x8300" 2 "of_nat (length ss)"] by (simp add: h)
  show "be16 (fread_into f 0 20 b) 16 = 28"
    using be16_enc [of "enc16 0x8300 @ enc16 (of_nat (length ss)) @ replicate 12 0" 16 28] by (simp add: h)
  show "be16 (fread_into f 0 20 b) 18 = 2"
    using be16_enc [of "enc16 0x8300 @ enc16 (of_nat (length ss)) @ replicate 12 0 @ enc16 28" 18 2] by (simp add: h)
qed


section \<open>Relocation\<close>

text \<open>The word at a byte offset of the loaded image, and the effect of one relocation on it.\<close>

definition word_at :: "mem \<Rightarrow> nat \<Rightarrow> u16" where
  "word_at m a = push_bit 8 (ucast (m (of_nat a))) OR ucast (m (of_nat (a + 1)))"

lemma word_at_cong:
  "m (of_nat a) = n (of_nat a) \<Longrightarrow> m (of_nat (a + 1)) = n (of_nat (a + 1)) \<Longrightarrow> word_at m a = word_at n a"
  by (simp only: word_at_def)

lemma join16: "push_bit 8 (ucast (ucast (drop_bit 8 w) :: u8)) OR ucast (ucast w :: u8) = (w :: u16)"
proof (rule bit_word_eqI)
  fix n assume n: "n < LENGTH(16)"
  then consider "n < 8" | "8 \<le> n" "n < 16"
    by fastforce
  then show "bit (push_bit 8 (ucast (ucast (drop_bit 8 w) :: u8)) OR ucast (ucast w :: u8) :: u16) n = bit w n"
    by cases (auto simp: bit_simps)
qed

lemma lx_reloc_effect:
  assumes "start + unat r + 1 < 0x10000"
  shows "\<exists>m'. lx_reloc start base r m = Some m'
    \<and> word_at m' (start + unat r) = word_at m (start + unat r) + (of_nat start - base)
    \<and> (\<forall>a < 0x10000. a \<noteq> start + unat r \<longrightarrow> a \<noteq> start + unat r + 1 \<longrightarrow> m' (of_nat a) = m (of_nat a))"
proof -
  let ?a = "start + unat r"
  let ?v = "word_at m ?a + (of_nat start - base)"
  obtain m' where m': "mem_write m ?a [ucast (drop_bit 8 ?v), ucast ?v] = Some m'"
    using assms by (simp add: mem_write_def)
  have 0: "m' (of_nat ?a) = ucast (drop_bit 8 ?v)" and 1: "m' (of_nat (?a + 1)) = ucast ?v"
    using mem_write_read [OF m', of 0] mem_write_read [OF m', of 1] by (simp_all del: of_nat_add)
  have w: "word_at m' ?a = ?v"
    unfolding word_at_def [of m'] 0 1 by (rule join16)
  have "m' (of_nat a) = m (of_nat a)" if "a < 0x10000" "a \<noteq> ?a" "a \<noteq> ?a + 1" for a
  proof (rule mem_write_other [OF m'])
    have "unat (of_nat a :: u16) = a"
      using that(1) by (simp only: unat_of_nat) (simp add: take_bit_nat_eq_self)
    then show "\<not> (?a \<le> unat (of_nat a :: u16) \<and> unat (of_nat a :: u16) < ?a + length [ucast (drop_bit 8 ?v), ucast ?v :: u8])"
      using that(2,3) by simp
  qed
  moreover have "lx_reloc start base r m = Some m'"
    using m' assms by (simp add: lx_reloc_def Let_def word_at_def del: of_nat_add)
  ultimately show ?thesis
    using w by blast
qed


text \<open>Relocations of different words do not disturb each other.\<close>

definition apart :: "u16 \<Rightarrow> u16 \<Rightarrow> bool" where
  "apart r s \<longleftrightarrow> unat r + 1 < unat s \<or> unat s + 1 < unat r"

lemma be16_fread_into: "fread file pos 2 = enc16 r \<Longrightarrow> be16 (fread_into file pos 2 buf) 0 = r"
  using be16_enc [of "[]" 0 r] by (simp add: fread_into_def Let_def)

lemma lx_relocs_effect:
  assumes "fread file pos (2 * length rs) = concat (map enc16 rs)" and "length (concat (map enc16 rs)) = 2 * length rs"
    and "pairwise apart (set rs)" "distinct rs" "\<forall>r \<in> set rs. start + unat r + 1 < 0x10000"
  shows "\<exists>m'. lx_relocs file start base pos (length rs) buf m = Some m'
    \<and> (\<forall>r \<in> set rs. word_at m' (start + unat r) = word_at m (start + unat r) + (of_nat start - base))
    \<and> (\<forall>a < 0x10000. (\<forall>r \<in> set rs. a \<noteq> start + unat r \<and> a \<noteq> start + unat r + 1) \<longrightarrow> m' (of_nat a) = m (of_nat a))"
  using assms
proof (induction rs arbitrary: pos buf m)
  case (Cons r rs)
  have all: "take (2 * Suc (length rs)) (drop pos file) = enc16 r @ concat (map enc16 rs)"
    using Cons.prems(1) by (simp add: fread_def)
  have 1: "fread file pos 2 = enc16 r"
    using arg_cong [OF all, of "take 2"] by (simp add: fread_def min_def)
  have 2: "fread file (pos + 2) (2 * length rs) = concat (map enc16 rs)"
    using arg_cong [OF all, of "drop 2"] by (simp add: fread_def drop_take add.commute)
  obtain m1 where m1: "lx_reloc start base r m = Some m1"
    "word_at m1 (start + unat r) = word_at m (start + unat r) + (of_nat start - base)"
    "\<forall>a < 0x10000. a \<noteq> start + unat r \<longrightarrow> a \<noteq> start + unat r + 1 \<longrightarrow> m1 (of_nat a) = m (of_nat a)"
    using lx_reloc_effect [of start r base m] Cons.prems(5) by auto
  let ?buf = "rev (fread_into file pos 2 buf)"
  obtain m2 where m2: "lx_relocs file start base (pos + 2) (length rs) ?buf m1 = Some m2"
    "\<forall>s \<in> set rs. word_at m2 (start + unat s) = word_at m1 (start + unat s) + (of_nat start - base)"
    "\<forall>a < 0x10000. (\<forall>s \<in> set rs. a \<noteq> start + unat s \<and> a \<noteq> start + unat s + 1) \<longrightarrow> m2 (of_nat a) = m1 (of_nat a)"
    using Cons.IH [OF 2, of ?buf m1] Cons.prems(2-5) by (auto simp: pairwise_insert)
  have away: "apart r s" "apart s r" if "s \<in> set rs" for s
    using Cons.prems(3,4) that by (auto simp: pairwise_def apart_def)
  have bound: "start + unat s + 1 < 0x10000" if "s \<in> set (r # rs)" for s
    using Cons.prems(5) that by blast
  have "word_at m1 (start + unat s) = word_at m (start + unat s)" if "s \<in> set rs" for s
    using away(1) [OF that] bound [of s] that
    by (intro word_at_cong m1(3) [rule_format]) (auto simp: apart_def)
  moreover have "word_at m2 (start + unat r) = word_at m1 (start + unat r)"
    using bound [of r] by (intro word_at_cong m2(3) [rule_format]) (auto simp: apart_def dest!: away(1))
  moreover have "lx_relocs file start base pos (length (r # rs)) buf m = Some m2"
    using m1(1) m2(1) by (simp add: Let_def be16_fread_into [OF 1] 1)
  ultimately show ?case
    using m1(2,3) m2(2,3) by (intro exI [of _ m2]) auto
qed simp


definition lx_head :: "lx_header \<Rightarrow> u8 list" where
  "lx_head h = [0x62, 0x72, 0x69, 0x63, 0x6b, 0x4f, 0x53, 0] @ enc16 (lx_version h) @ enc16 (lx_base h) @ enc16 (lx_text_size h)
     @ enc16 (lx_data_size h) @ enc16 (lx_bss_size h) @ enc16 (lx_stack_size h) @ enc16 (lx_offset h) @ enc16 (lx_num_relocs h)"

definition lx_file :: "lx_header \<Rightarrow> u8 list \<Rightarrow> u16 list \<Rightarrow> u8 list" where
  "lx_file h img rs = lx_head h @ img @ concat (map enc16 rs)"

lemma lx_head_length: "length (lx_head h) = 24"
  by (simp add: lx_head_def)

lemma be16_first: "be16 (enc16 w @ ys) 0 = w"
  using be16_enc [of "[]" 0 w ys] by simp

lemma be16_skip: "2 \<le> i \<Longrightarrow> be16 (enc16 w @ ys) i = be16 ys (i - 2)"
proof -
  assume "2 \<le> i"
  then obtain j where "i = Suc (Suc j)"
    by (metis add_2_eq_Suc le_Suc_ex)
  then show ?thesis
    by (simp add: be16_def enc16_def)
qed

lemma lx_init_file:
  assumes "lx_version h = 0"
  shows "lx_init g (lx_file h img rs) buf = Some h"
proof -
  have 0: "fread_into (lx_file h img rs) 0 8 (uninit g 8) = [0x62, 0x72, 0x69, 0x63, 0x6b, 0x4f, 0x53, 0]"
    by (simp add: fread_into_def fread_def lx_file_def lx_head_def uninit_def)
  have 1: "fread_into (lx_file h img rs) 8 16 buf = drop 8 (lx_head h) @ drop 16 buf"
    by (simp add: fread_into_def fread_def lx_file_def lx_head_def Let_def)
  have "char_of (98 :: nat) = CHR ''b''" "char_of (114 :: nat) = CHR ''r''" "char_of (105 :: nat) = CHR ''i''"
    "char_of (99 :: nat) = CHR ''c''" "char_of (107 :: nat) = CHR ''k''" "char_of (79 :: nat) = CHR ''O''"
    "char_of (83 :: nat) = CHR ''S''" "char_of (0 :: nat) = CHR 0x00"
    by code_simp+
  then have sig: "text_of [0x62, 0x72, 0x69, 0x63, 0x6b, 0x4f, 0x53, 0] = ''brickOS'' @ [CHR 0x00]"
    by (simp add: text_of_def)
  have 2: "drop 8 (lx_head h) @ ys = enc16 (lx_version h) @ enc16 (lx_base h) @ enc16 (lx_text_size h)
     @ enc16 (lx_data_size h) @ enc16 (lx_bss_size h) @ enc16 (lx_stack_size h) @ enc16 (lx_offset h) @ enc16 (lx_num_relocs h) @ ys" for ys
    by (simp add: lx_head_def)
  show ?thesis
    unfolding lx_init_def 0 1 2 sig by (simp add: be16_first be16_skip Let_def assms)
qed


lemma enc16s_length: "length (concat (map enc16 rs)) = 2 * length rs"
  by (induction rs) simp_all

section \<open>Properties\<close>

text \<open>
  Loading a COFF image: a file with the headers and up to 65535 sections is recognised, exactly its text and data sections
  are copied to their addresses in file order, and the entry point of its header is returned; the load is undefined only if
  such a section does not fit into the memory.
\<close>

theorem coff_read_loads:
  assumes "length ss < 2 ^ 16" and "length (coff_file e ss) < 2 ^ 32"
  shows "coff_init g (coff_file e ss)
    \<and> coff_read g (coff_file e ss) m = map_option (Pair (sint e)) (load_sections ss m)"
proof -
  have "unat (of_nat (length ss) :: u16) = length ss"
    using assms(1) by (simp only: unat_of_nat) (simp add: take_bit_nat_eq_self)
  then show ?thesis
    using coff_sections_file [OF _ assms(2), of e "[]" ss]
    by (simp add: coff_init_def coff_read_def coff_structs coff_headers Let_def)
qed

theorem coff_read_loads_witness:
  "coff_read (\<lambda>_. 0) (coff_file 0x8010 [(0x20, 0x8000, [1, 2]), (0x80, 0x9000, [3]), (0x40, 0x8001, [9])]) (\<lambda>_. 0)
    = map_option (Pair 0x8010) (load_sections [(0x20, 0x8000, [1, 2]), (0x80, 0x9000, [3]), (0x40, 0x8001, [9])] (\<lambda>_. 0))
   \<and> load_sections [(0x20, 0x8000, [1, 2]), (0x80, 0x9000, [3]), (0x40, 0x8001, [9])] (\<lambda>_. 0) \<noteq> None"
  using coff_read_loads [of "[(0x20, 0x8000, [1, 2]), (0x80, 0x9000, [3]), (0x40, 0x8001, [9])]" "0x8010" "\<lambda>_. 0" "\<lambda>_. 0"]
  by (simp add: coff_file_def coff_head_length sec_headers_length sec_data_def mem_write_def)

text \<open>
  C19. Loading a program: a file in LX format is recognised with its header, its text and data are placed at the start
  address, every word named in the relocation table is moved by the distance from the link address, each exactly once, and
  every other byte is the byte of the file, provided the relocated words lie in the image and do not overlap.
\<close>

theorem lx_read_relocates:
  assumes "lx_version h = 0" and "unat (lx_text_size h) + unat (lx_data_size h) = length img"
    and "unat (lx_num_relocs h) = length rs" and "start + length img \<le> 0x10000"
    and "distinct rs" and "pairwise apart (set rs)" and "\<forall>r \<in> set rs. unat r + 1 < length img"
  shows "lx_init g (lx_file h img rs) buf = Some h
    \<and> (\<exists>m'. lx_read g (lx_file h img rs) h start m = Some m'
        \<and> (\<forall>r \<in> set rs. word_at m' (start + unat r) =
              (push_bit 8 (ucast (img ! unat r)) OR ucast (img ! (unat r + 1))) + (of_nat start - lx_base h))
        \<and> (\<forall>i < length img. (\<forall>r \<in> set rs. i \<noteq> unat r \<and> i \<noteq> unat r + 1) \<longrightarrow> m' (of_nat (start + i)) = img ! i))"
proof -
  let ?f = "lx_file h img rs"
  have f1: "fread ?f 24 (length img) = img"
    unfolding lx_file_def by (rule fread_mid) (simp_all add: lx_head_length)
  have f2: "fread ?f (24 + length img) (2 * length rs) = concat (map enc16 rs)"
    using fread_mid [of "lx_head h @ img" "24 + length img" "concat (map enc16 rs)" "2 * length rs" "[]"]
    by (simp add: lx_file_def lx_head_length enc16s_length)
  obtain m1 where m1: "mem_write m start img = Some m1"
    using assms(4) by (simp add: mem_write_def)
  have bound: "start + unat r + 1 < 0x10000" if "r \<in> set rs" for r
    using assms(4,7) that by fastforce
  obtain m' where m': "lx_relocs ?f start (lx_base h) (24 + length img) (length rs) (uninit g 2) m1 = Some m'"
    "\<forall>r \<in> set rs. word_at m' (start + unat r) = word_at m1 (start + unat r) + (of_nat start - lx_base h)"
    "\<forall>a < 0x10000. (\<forall>r \<in> set rs. a \<noteq> start + unat r \<and> a \<noteq> start + unat r + 1) \<longrightarrow> m' (of_nat a) = m1 (of_nat a)"
    using lx_relocs_effect [OF f2 enc16s_length assms(6,5), of start "lx_base h" "uninit g 2" m1] bound by auto
  have img: "m1 (of_nat (start + i)) = img ! i" if "i < length img" for i
    using mem_write_read [OF m1 that] .
  have w: "word_at m1 (start + unat r) = push_bit 8 (ucast (img ! unat r)) OR ucast (img ! (unat r + 1))" if "r \<in> set rs" for r
    using img [of "unat r"] img [of "unat r + 1"] assms(7) that by (simp only: word_at_def add.assoc) fastforce
  have "m' (of_nat (start + i)) = img ! i" if "i < length img" "\<forall>r \<in> set rs. i \<noteq> unat r \<and> i \<noteq> unat r + 1" for i
    using m'(3) [rule_format, of "start + i"] img [OF that(1)] that assms(4) by auto
  moreover have "lx_read g ?f h start m = Some m'"
    using m1 m'(1) assms(2,3) by (simp add: lx_read_def f1 Let_def)
  ultimately show ?thesis
    using lx_init_file [OF assms(1)] m'(2) w by auto
qed

definition lx_ex :: lx_header where
  "lx_ex = \<lparr>lx_version = 0, lx_base = 0xb000, lx_text_size = 4, lx_data_size = 2, lx_bss_size = 0, lx_stack_size = 0,
     lx_offset = 0, lx_num_relocs = 1\<rparr>"

theorem lx_read_relocates_witness:
  "\<exists>m'. lx_read (\<lambda>_. 0) (lx_file lx_ex [1, 2, 0xb0, 0x04, 5, 6] [2]) lx_ex 0xc000 (\<lambda>_. 0) = Some m'
    \<and> word_at m' 0xc002 = 0xc004 \<and> m' 0xc005 = 6"
proof -
  have "lx_version lx_ex = 0" "unat (lx_text_size lx_ex) + unat (lx_data_size lx_ex) = length [1, 2, 0xb0, 0x04, 5, 6 :: u8]"
    "unat (lx_num_relocs lx_ex) = length [2 :: u16]" "(0xc000 :: nat) + length [1, 2, 0xb0, 0x04, 5, 6 :: u8] \<le> 0x10000"
    "distinct [2 :: u16]" "pairwise apart (set [2])" "\<forall>r \<in> set [2 :: u16]. unat r + 1 < length [1, 2, 0xb0, 0x04, 5, 6 :: u8]"
    by (simp_all add: lx_ex_def)
  from lx_read_relocates [OF this, of "\<lambda>_. 0" "[]" "\<lambda>_. 0"] obtain m' where
    m': "lx_read (\<lambda>_. 0) (lx_file lx_ex [1, 2, 0xb0, 0x04, 5, 6] [2]) lx_ex 0xc000 (\<lambda>_. 0) = Some m'"
    "word_at m' 0xc002 = (push_bit 8 (ucast (0xb0 :: u8)) OR ucast (4 :: u8)) + (0xc000 - 0xb000)"
    "\<forall>i < 6. i \<noteq> 2 \<and> i \<noteq> 3 \<longrightarrow> m' (of_nat (0xc000 + i)) = [1, 2, 0xb0, 0x04, 5, 6] ! i"
    by (auto simp: lx_ex_def)
  have "m' 0xc005 = 6"
    using m'(3) [rule_format, of 5] by simp
  moreover have "(push_bit 8 (ucast (0xb0 :: u8)) OR ucast (4 :: u8)) + (0xc000 - 0xb000) = (0xc004 :: u16)"
    by code_simp
  ultimately show ?thesis
    using m'(1,2) by simp
qed

end
