(* ===== verification/Hash.thy ===== *)
theory Hash
  imports Tables
begin

text \<open>
  The hash table of \<^verbatim>\<open>hash.c\<close>: an array of bucket lists that grows when it is filled to four fifths. The
  value of a bucket is what the caller stores through the pointer it gets. Two buckets with the
  same key can exist (\<open>hash_create\<close> does not look for one); the invariant of the callers, who create only
  missing keys, rules that out, and under it the table is a finite map.
\<close>

section \<open>State and operations\<close>

record 'v hash_type =
  hsize :: u32
  elems :: u32
  hlist :: "(u32 \<times> 'v) list list"

definition hash_init :: "u32 \<Rightarrow> 'v hash_type" where
  "hash_init initsize = \<lparr>hsize = initsize, elems = 0, hlist = replicate (unat initsize) []\<rparr>"

definition hidx :: "u32 \<Rightarrow> u32 \<Rightarrow> nat" where
  "hidx sz key = unat (key mod sz)"

definition hash_get :: "'v hash_type \<Rightarrow> u32 \<Rightarrow> 'v option" where
  "hash_get h key = map_of (hlist h ! hidx (hsize h) key) key"

text \<open>Unlinking the first bucket with a key.\<close>

fun bucket_remove :: "u32 \<Rightarrow> (u32 \<times> 'v) list \<Rightarrow> ('v \<times> (u32 \<times> 'v) list) option" where
  "bucket_remove key [] = None"
| "bucket_remove key ((k, v) # bs) =
    (if k = key then Some (v, bs)
     else map_option (\<lambda>(w, bs'). (w, (k, v) # bs')) (bucket_remove key bs))"

definition hash_push :: "u32 \<Rightarrow> (u32 \<times> 'v) \<Rightarrow> (u32 \<times> 'v) list list \<Rightarrow> (u32 \<times> 'v) list list" where
  "hash_push sz kv l = l[hidx sz (fst kv) := kv # l ! hidx sz (fst kv)]"

definition hash_move :: "'v hash_type \<Rightarrow> u32 \<Rightarrow> u32 \<Rightarrow> 'v hash_type" where
  "hash_move h key newkey =
    (let idx = hidx (hsize h) key
     in case bucket_remove key (hlist h ! idx) of
          None \<Rightarrow> h
        | Some (v, bs) \<Rightarrow> h\<lparr>hlist := hash_push (hsize h) (newkey, v) ((hlist h)[idx := bs])\<rparr>)"

definition hash_grow :: "'v hash_type \<Rightarrow> 'v hash_type" where
  "hash_grow h =
    (let nsize = 2 * hsize h + 1;
         nlist = fold (hash_push nsize) (concat (take (unat (hsize h)) (hlist h))) (replicate (unat nsize) [])
     in h\<lparr>hlist := nlist, hsize := nsize\<rparr>)"

definition hash_create :: "'v hash_type \<Rightarrow> u32 \<Rightarrow> 'v \<Rightarrow> 'v hash_type" where
  "hash_create h key v =
    (let h1 = (if hsize h * 4 < elems h * 5 then hash_grow h else h)
     in h1\<lparr>elems := elems h1 + 1, hlist := hash_push (hsize h1) (key, v) (hlist h1)\<rparr>)"

text \<open>The bucket grown in place by \<open>realloc\<close> keeps its place in the list; \<open>f\<close> is what the caller makes of the old value.\<close>

fun bucket_update :: "u32 \<Rightarrow> ('v \<Rightarrow> 'v) \<Rightarrow> (u32 \<times> 'v) list \<Rightarrow> (u32 \<times> 'v) list option" where
  "bucket_update key f [] = None"
| "bucket_update key f ((k, v) # bs) =
    (if k = key then Some ((k, f v) # bs) else map_option ((#) (k, v)) (bucket_update key f bs))"

definition hash_realloc :: "'v hash_type \<Rightarrow> u32 \<Rightarrow> ('v \<Rightarrow> 'v) \<Rightarrow> 'v \<Rightarrow> 'v hash_type" where
  "hash_realloc h key f new =
    (let idx = hidx (hsize h) key
     in case bucket_update key f (hlist h ! idx) of
          None \<Rightarrow> hash_create h key new
        | Some bs \<Rightarrow> h\<lparr>hlist := (hlist h)[idx := bs]\<rparr>)"

definition hash_remove :: "'v hash_type \<Rightarrow> u32 \<Rightarrow> bool \<times> 'v hash_type" where
  "hash_remove h key =
    (let idx = hidx (hsize h) key
     in case bucket_remove key (hlist h ! idx) of
          None \<Rightarrow> (False, h)
        | Some (v, bs) \<Rightarrow> (True, h\<lparr>hlist := (hlist h)[idx := bs]\<rparr>))"

definition hash_enumerate :: "'v hash_type \<Rightarrow> (u32 \<times> 'v) list" where
  "hash_enumerate h = concat (take (unat (hsize h)) (hlist h))"

section \<open>The invariant\<close>

text \<open>Every bucket sits in the list of its index, and no list holds a key twice.\<close>

definition placed :: "u32 \<Rightarrow> (u32 \<times> 'v) list list \<Rightarrow> bool" where
  "placed sz l \<longleftrightarrow> length l = unat sz
     \<and> (\<forall>i < length l. distinct (map fst (l ! i)) \<and> (\<forall>k \<in> fst ` set (l ! i). hidx sz k = i))"

definition hash_ok :: "'v hash_type \<Rightarrow> bool" where
  "hash_ok h \<longleftrightarrow> hsize h \<noteq> 0 \<and> placed (hsize h) (hlist h)"

lemma hidx_less: "sz \<noteq> 0 \<Longrightarrow> hidx sz k < unat sz"
  by (simp add: hidx_def unat_mod_distrib word_unat_eq_iff)

lemma push_placed:
  assumes "sz \<noteq> 0" "placed sz l" "map_of (l ! hidx sz k) k = None"
  shows "placed sz (hash_push sz (k, v) l)"
    and "map_of (hash_push sz (k, v) l ! hidx sz x) x = (if x = k then Some v else map_of (l ! hidx sz x) x)"
proof -
  have lt: "hidx sz y < length l" for y
    using assms(1,2) hidx_less [of sz y] by (simp add: placed_def)
  show "placed sz (hash_push sz (k, v) l)"
    using assms lt by (auto simp: placed_def hash_push_def nth_list_update map_of_eq_None_iff image_iff)
  show "map_of (hash_push sz (k, v) l ! hidx sz x) x = (if x = k then Some v else map_of (l ! hidx sz x) x)"
    using lt [of k] lt [of x] by (auto simp: hash_push_def nth_list_update)
qed

lemma map_of_concat:
  assumes "idx < length l" "\<And>i. i < length l \<Longrightarrow> i \<noteq> idx \<Longrightarrow> map_of (l ! i) x = None"
  shows "map_of (concat l) x = map_of (l ! idx) x"
  using assms
proof (induction l arbitrary: idx)
  case (Cons b l)
  show ?case
  proof (cases idx)
    case 0
    have "map_of (concat l) x = None"
    proof (rule ccontr)
      assume "map_of (concat l) x \<noteq> None"
      then obtain i where "i < length l" "map_of (l ! i) x \<noteq> None"
        unfolding map_of_eq_None_iff set_concat image_UN by (auto simp: set_conv_nth [of l])
      with Cons.prems(2) [of "Suc i"] 0 show False by auto
    qed
    then show ?thesis using 0 by (simp add: map_add_def split: option.split)
  next
    case (Suc j)
    have "map_of b x = None" using Cons.prems(2) [of 0] Suc by simp
    moreover have "map_of (concat l) x = map_of (l ! j) x"
      using Cons.prems(2) [of "Suc i" for i] Cons.prems(1) Suc by (intro Cons.IH) auto
    ultimately show ?thesis using Suc by (simp add: map_add_def split: option.split)
  qed
qed simp

lemma distinct_concat_keys:
  assumes "\<And>i. i < length l \<Longrightarrow> distinct (map fst (l ! i))"
    and "\<And>i k. i < length l \<Longrightarrow> k \<in> fst ` set (l ! i) \<Longrightarrow> f k = i + off"
  shows "distinct (map fst (concat l))"
  using assms
proof (induction l arbitrary: off)
  case (Cons b l)
  have "distinct (map fst (concat l))"
    using Cons.prems(1) [of "Suc i" for i] Cons.prems(2) [of "Suc i" for i] by (intro Cons.IH [of "Suc off"]) auto
  moreover have "f k = off" if "k \<in> fst ` set b" for k
    using Cons.prems(2) [of 0 k] that by simp
  moreover have "f k \<noteq> off" if k: "k \<in> fst ` set (concat l)" for k
  proof -
    obtain bk where "bk \<in> set l" "k \<in> fst ` set bk"
      using k by auto
    then obtain i where "i < length l" "k \<in> fst ` set (l ! i)"
      by (metis in_set_conv_nth)
    then show ?thesis using Cons.prems(2) [of "Suc i" k] by simp
  qed
  ultimately have "fst ` set b \<inter> fst ` set (concat l) = {}" "distinct (map fst (concat l))"
    by blast+
  moreover have "distinct (map fst b)"
    using Cons.prems(1) [of 0] by simp
  ultimately show ?case
    by (simp only: concat.simps map_append distinct_append set_map simp_thms)
qed simp

lemma placed_concat:
  assumes "sz \<noteq> 0" "placed sz l"
  shows "map_of (concat l) x = map_of (l ! hidx sz x) x" and "distinct (map fst (concat l))"
proof -
  show "map_of (concat l) x = map_of (l ! hidx sz x) x"
  proof (rule map_of_concat)
    show "hidx sz x < length l"
      using assms hidx_less [of sz x] by (simp add: placed_def)
    show "map_of (l ! i) x = None" if "i < length l" "i \<noteq> hidx sz x" for i
      using assms(2) that by (auto simp: placed_def map_of_eq_None_iff)
  qed
  show "distinct (map fst (concat l))"
    using assms(2) by (intro distinct_concat_keys [where f = "hidx sz" and off = 0]) (auto simp: placed_def)
qed

lemma fold_push:
  assumes "sz \<noteq> 0" "placed sz l" "distinct (map fst kvs)"
    and "\<And>k. k \<in> fst ` set kvs \<Longrightarrow> map_of (l ! hidx sz k) k = None"
  shows "placed sz (fold (hash_push sz) kvs l)
    \<and> map_of (fold (hash_push sz) kvs l ! hidx sz x) x
      = (case map_of kvs x of Some v \<Rightarrow> Some v | None \<Rightarrow> map_of (l ! hidx sz x) x)"
  using assms(2-4)
proof (induction kvs arbitrary: l)
  case (Cons kv kvs)
  obtain k v where kv: "kv = (k, v)" by (cases kv)
  have none: "map_of (l ! hidx sz k) k = None"
    using Cons.prems(3) kv by simp
  note p = push_placed [OF assms(1) Cons.prems(1) none]
  have "map_of (hash_push sz (k, v) l ! hidx sz k') k' = None" if "k' \<in> fst ` set kvs" for k'
    using Cons.prems(2,3) that kv p(2) by auto
  then have IH: "placed sz (fold (hash_push sz) kvs (hash_push sz (k, v) l))"
    "map_of (fold (hash_push sz) kvs (hash_push sz (k, v) l) ! hidx sz x) x
      = (case map_of kvs x of Some v \<Rightarrow> Some v | None \<Rightarrow> map_of (hash_push sz (k, v) l ! hidx sz x) x)"
    using Cons.IH [OF p(1)] Cons.prems(2) by auto
  have "map_of kvs k = None"
    using Cons.prems(2) kv by (simp add: map_of_eq_None_iff)
  with IH show ?case
    unfolding kv by (simp add: p(2) split: option.split)
qed simp


section \<open>The operations are those of a map\<close>

lemma odd_size: "2 * sz + 1 \<noteq> (0 :: u32)"
proof
  assume eq: "2 * sz + 1 = 0"
  have "odd (2 * sz + 1)"
    by simp
  then show False
    unfolding eq by simp
qed

lemma hash_grow_ok:
  fixes h :: "'v hash_type"
  assumes "hash_ok h"
  shows "hash_ok (hash_grow h)" and "hash_get (hash_grow h) = hash_get h"
proof -
  let ?n = "2 * hsize h + 1" and ?e = "replicate (unat (2 * hsize h + 1)) [] :: (u32 \<times> 'v) list list"
  have sz: "hsize h \<noteq> 0" and pl: "placed (hsize h) (hlist h)"
    using assms by (simp_all add: hash_ok_def)
  have all: "take (unat (hsize h)) (hlist h) = hlist h"
    using pl by (simp add: placed_def)
  have empty: "map_of (?e ! hidx ?n k) k = None" for k :: u32
    using hidx_less [OF odd_size, of "hsize h" k] by simp
  have "placed ?n ?e"
    by (simp add: placed_def)
  then have "placed ?n (hlist (hash_grow h))
      \<and> map_of (hlist (hash_grow h) ! hidx ?n x) x = map_of (hlist h ! hidx (hsize h) x) x" for x
    using fold_push [OF odd_size _ placed_concat(2) [OF sz pl], of "hsize h" ?e x]
      placed_concat(1) [OF sz pl, of x] empty
    by (simp add: hash_grow_def Let_def all split: option.splits)
  then show "hash_ok (hash_grow h)" "hash_get (hash_grow h) = hash_get h"
    using odd_size by (auto simp: hash_ok_def hash_get_def hash_grow_def Let_def)
qed

lemma hash_create_ok:
  assumes "hash_ok h" "hash_get h k = None"
  shows "hash_ok (hash_create h k v)" and "hash_get (hash_create h k v) = (hash_get h)(k \<mapsto> v)"
proof -
  define h1 where "h1 = (if hsize h * 4 < elems h * 5 then hash_grow h else h)"
  have h1: "hash_ok h1" "hash_get h1 = hash_get h"
    using hash_grow_ok [OF assms(1)] assms(1) by (simp_all add: h1_def)
  have c: "hash_create h k v = h1\<lparr>elems := elems h1 + 1, hlist := hash_push (hsize h1) (k, v) (hlist h1)\<rparr>"
    by (simp add: hash_create_def h1_def Let_def)
  have none: "map_of (hlist h1 ! hidx (hsize h1) k) k = None"
    using assms(2) h1(2) by (metis hash_get_def)
  have ok: "hsize h1 \<noteq> 0" "placed (hsize h1) (hlist h1)"
    using h1(1) by (simp_all add: hash_ok_def)
  note p = push_placed [OF ok none, of v]
  show "hash_ok (hash_create h k v)"
    using p(1) ok by (simp add: c hash_ok_def)
  show "hash_get (hash_create h k v) = (hash_get h)(k \<mapsto> v)"
    using p(2) by (auto simp: c hash_get_def h1(2) [symmetric])
qed

lemma bucket_remove_None: "bucket_remove k bs = None \<longleftrightarrow> map_of bs k = None"
  by (induction k bs rule: bucket_remove.induct) auto

lemma bucket_remove_Some:
  "bucket_remove k bs = Some (v, bs') \<Longrightarrow> distinct (map fst bs) \<Longrightarrow>
   map_of bs k = Some v \<and> map_of bs' = (map_of bs)(k := None) \<and> distinct (map fst bs') \<and> set bs' \<subseteq> set bs"
proof (induction k bs arbitrary: v bs' rule: bucket_remove.induct)
  case (2 k k' w bs)
  show ?case
  proof (cases "k' = k")
    case True
    with 2(2,3) have "map_of bs k = None"
      by (simp add: map_of_eq_None_iff)
    with True 2(2,3) show ?thesis
      by (auto simp: fun_eq_iff)
  next
    case False
    then obtain bs1 where 1: "bucket_remove k bs = Some (v, bs1)" "bs' = (k', w) # bs1"
      using 2(2) by auto
    with 2(1) [OF False 1(1)] 2(3) False show ?thesis
      by (auto simp: fun_eq_iff)
  qed
qed simp

lemma drop_placed:
  assumes "sz \<noteq> 0" "placed sz l" "bucket_remove k (l ! hidx sz k) = Some (v, bs)"
  shows "placed sz (l[hidx sz k := bs])"
    and "map_of (l[hidx sz k := bs] ! hidx sz x) x = (if x = k then None else map_of (l ! hidx sz x) x)"
    and "map_of (l ! hidx sz k) k = Some v"
proof -
  have lt: "hidx sz y < length l" for y
    using assms(1,2) hidx_less [of sz y] by (simp add: placed_def)
  have r: "map_of (l ! hidx sz k) k = Some v" "map_of bs = (map_of (l ! hidx sz k))(k := None)"
      "distinct (map fst bs)" "set bs \<subseteq> set (l ! hidx sz k)"
    using bucket_remove_Some [OF assms(3)] assms(2) lt [of k] by (simp_all add: placed_def)
  show "placed sz (l[hidx sz k := bs])"
    using assms(2) lt r(3,4) by (fastforce simp: placed_def nth_list_update)
  show "map_of (l[hidx sz k := bs] ! hidx sz x) x = (if x = k then None else map_of (l ! hidx sz x) x)"
    using lt [of k] lt [of x] r(2) by (auto simp: nth_list_update)
  show "map_of (l ! hidx sz k) k = Some v"
    by (rule r(1))
qed

lemma hash_remove_ok:
  assumes "hash_ok h"
  shows "hash_ok (snd (hash_remove h k))"
    and "hash_get (snd (hash_remove h k)) = (hash_get h)(k := None)"
    and "fst (hash_remove h k) \<longleftrightarrow> hash_get h k \<noteq> None"
proof -
  have ok: "hsize h \<noteq> 0" "placed (hsize h) (hlist h)"
    using assms by (simp_all add: hash_ok_def)
  have "hash_ok (snd (hash_remove h k)) \<and> hash_get (snd (hash_remove h k)) = (hash_get h)(k := None)
      \<and> (fst (hash_remove h k) \<longleftrightarrow> hash_get h k \<noteq> None)"
  proof (cases "bucket_remove k (hlist h ! hidx (hsize h) k)")
    case None
    then show ?thesis
      using assms None [unfolded bucket_remove_None] by (auto simp: hash_remove_def Let_def hash_get_def fun_eq_iff)
  next
    case (Some r)
    obtain v bs where r: "r = (v, bs)" by (cases r)
    note d = drop_placed [OF ok Some [unfolded r]]
    show ?thesis
      using Some r ok d by (auto simp: hash_remove_def hash_ok_def hash_get_def)
  qed
  then show "hash_ok (snd (hash_remove h k))" "hash_get (snd (hash_remove h k)) = (hash_get h)(k := None)"
    "fst (hash_remove h k) \<longleftrightarrow> hash_get h k \<noteq> None"
    by blast+
qed

lemma hash_move_ok:
  assumes "hash_ok h" "hash_get h k = Some v" "hash_get h k' = None"
  shows "hash_ok (hash_move h k k')" and "hash_get (hash_move h k k') = (hash_get h)(k := None, k' \<mapsto> v)"
proof -
  have ok: "hsize h \<noteq> 0" "placed (hsize h) (hlist h)"
    using assms by (simp_all add: hash_ok_def)
  obtain bs where b: "bucket_remove k (hlist h ! hidx (hsize h) k) = Some (v, bs)"
    using assms(2) drop_placed(3) [OF ok] bucket_remove_None [of k "hlist h ! hidx (hsize h) k"]
    by (cases "bucket_remove k (hlist h ! hidx (hsize h) k)") (auto simp: hash_get_def)
  note d = drop_placed [OF ok b]
  let ?l = "(hlist h)[hidx (hsize h) k := bs]"
  have ne: "k' \<noteq> k"
    using assms by auto
  have none: "map_of (?l ! hidx (hsize h) k') k' = None"
    using d(2) [of k'] ne assms(3) by (simp add: hash_get_def)
  note p = push_placed [OF ok(1) d(1) none, of v]
  have m: "hash_move h k k' = h\<lparr>hlist := hash_push (hsize h) (k', v) ?l\<rparr>"
    using b by (simp add: hash_move_def)
  show "hash_ok (hash_move h k k')"
    using p(1) ok(1) by (simp add: m hash_ok_def)
  show "hash_get (hash_move h k k') = (hash_get h)(k := None, k' \<mapsto> v)"
    using p(2) d(2) by (auto simp: m hash_get_def)
qed

interpretation hash_table: kv_renaming_table hash_get hash_create "\<lambda>h k. snd (hash_remove h k)" hash_ok hash_move
  by unfold_locales (simp_all add: hash_create_ok hash_remove_ok hash_move_ok)


section \<open>Properties\<close>

text \<open>
  C17. For callers that create only missing keys the hash table is a finite map: creating, removing and renaming
  entries change the lookups exactly as on a map, whether or not the table grows, and keep the
  invariant.
\<close>

theorem hash_refines_map:
  assumes "hash_ok h" and "hash_get h k = None" and "hash_get h k' = Some w"
  shows "hash_ok (hash_create h k v) \<and> hash_get (hash_create h k v) = (hash_get h)(k \<mapsto> v)
    \<and> hash_ok (snd (hash_remove h k')) \<and> hash_get (snd (hash_remove h k')) = (hash_get h)(k' := None)
    \<and> fst (hash_remove h k') \<and> \<not> fst (hash_remove h k)
    \<and> hash_ok (hash_move h k' k) \<and> hash_get (hash_move h k' k) = (hash_get h)(k' := None, k \<mapsto> w)"
  using assms by (simp add: hash_table.create_ok hash_table.lookup_create hash_table.remove_ok
      hash_table.lookup_remove hash_table.move_ok hash_table.lookup_move hash_remove_ok(3))

definition hash_ex :: "nat hash_type" where
  "hash_ex = \<lparr>hsize = 2, elems = 2, hlist = [[(4, 40)], [(7, 70)]]\<rparr>"

lemma hash_ex_ok: "hash_ok hash_ex"
  by (auto simp: hash_ok_def placed_def hash_ex_def hidx_def less_Suc_eq)

theorem hash_refines_map_witness:
  "hash_get (hash_create hash_ex 5 50) 7 = Some 70 \<and> hash_get (hash_move hash_ex 7 5) 5 = Some 70"
proof -
  have "hash_get hash_ex 5 = None" "hash_get hash_ex 7 = Some 70"
    by (simp_all add: hash_get_def hash_ex_def hidx_def)
  from hash_refines_map [OF hash_ex_ok this, of 50] this show ?thesis
    by simp
qed

text \<open>
  Growing the table loses and invents nothing: every key, present or not, looks up the same before and
  after, and the new table satisfies the invariant for its new size (also when the size wraps).
\<close>

theorem hash_grow_lookup:
  assumes "hash_ok h"
  shows "hash_ok (hash_grow h) \<and> hash_get (hash_grow h) = hash_get h \<and> hsize (hash_grow h) = 2 * hsize h + 1"
  using hash_grow_ok [OF assms] by (simp add: hash_grow_def Let_def)

theorem hash_grow_lookup_witness: "hash_get (hash_grow hash_ex) 7 = Some 70 \<and> hsize (hash_grow hash_ex) = 5"
proof -
  have "hash_get hash_ex 7 = Some 70" "hsize hash_ex = 2"
    by (simp_all add: hash_get_def hash_ex_def hidx_def)
  with hash_grow_lookup [OF hash_ex_ok] show ?thesis
    by simp
qed

end
