(* ===== verification/Frame.thy ===== *)
theory Frame
  imports Hash Symbols
begin

text \<open>
  The call profiler of \<^verbatim>\<open>frame.c\<close>: a stack of frames per thread of the emulated program, kept in a hash table under the
  saved stack pointer (the running thread under 0), and a profile per function. \<open>cycles\<close>, \<open>pc\<close> and \<open>memory\<close> are
  globals in the code and arguments here. \<open>None\<close> is an access the code must not make: through a null profile,
  past the memory, or into memory of a thread that is not initialised.
\<close>

section \<open>State\<close>

record callee_info =
  ci_calls :: u32
  ci_cycles :: u64

record profile_info =
  local_cycles :: u64
  irq_cycles :: u64
  total_cycles :: u64
  max_local_cycles :: u64
  max_total_cycles :: u64
  pcalls :: u32
  isIRQ :: u8
  callees :: "callee_info hash_type"

record frame_info =
  startcycle :: u64
  childcycles :: u64
  irqcycles :: u64
  threadcycles :: u64
  frame_pc :: u16
  frame_fp :: u16

text \<open>
  \<open>frames\<close> holds the entries \<open>num_frames, ..., 1, 0\<close> of the array, top first; entries above \<open>num_frames\<close> are never
  read. \<open>savefp\<close> is written only and left out.
\<close>

record thread_info =
  minfp :: u16
  switchcycle :: u64
  size_frames :: nat
  frames :: "frame_info list"

text \<open>
  The thread records are shared between the table and \<open>current_thread\<close>, so they are kept in a store and both hold
  their names; \<open>next_thread\<close> is the next unused one.
\<close>

record frame_st =
  profiles :: "u16 \<Rightarrow> profile_info option"
  threads :: "nat hash_type"
  thread_store :: "nat \<Rightarrow> thread_info"
  next_thread :: nat
  current_thread :: "nat option"
  frame_opcstat :: "u8 \<Rightarrow> u32"
  frame_asmopcstat :: "u8 \<Rightarrow> u32"

definition frame_init :: "frame_st \<Rightarrow> frame_st" where
  "frame_init F = F\<lparr>profiles := \<lambda>_. None, threads := hash_init 5, current_thread := None,
     frame_opcstat := \<lambda>_. 0, frame_asmopcstat := \<lambda>_. 0\<rparr>"

definition new_profile :: profile_info where
  "new_profile = \<lparr>local_cycles = 0, irq_cycles = 0, total_cycles = 0, max_local_cycles = 0, max_total_cycles = 0,
     pcalls = 0, isIRQ = 0, callees = hash_init 5\<rparr>"

definition new_frame :: "u64 \<Rightarrow> u16 \<Rightarrow> u16 \<Rightarrow> frame_info" where
  "new_frame cyc p f = \<lparr>startcycle = cyc, childcycles = 0, irqcycles = 0, threadcycles = 0, frame_pc = p, frame_fp = f\<rparr>"

text \<open>A big-endian word read as \<open>memory[a] << 8 | memory[a + 1]\<close>; at the last byte that is past the array.\<close>

definition mem_word :: "mem \<Rightarrow> u16 \<Rightarrow> u16 option" where
  "mem_word m a = (if a = 0xffff then None else Some (push_bit 8 (ucast (m a)) OR ucast (m (a + 1))))"

section \<open>Operations\<close>

text \<open>The value behind the pointer that \<open>hash_get\<close> returns is changed in place.\<close>

definition hash_poke :: "'v hash_type \<Rightarrow> u32 \<Rightarrow> ('v \<Rightarrow> 'v) \<Rightarrow> 'v hash_type" where
  "hash_poke h key f =
    (case bucket_update key f (hlist h ! hidx (hsize h) key) of
       None \<Rightarrow> h
     | Some bs \<Rightarrow> h\<lparr>hlist := (hlist h)[hidx (hsize h) key := bs]\<rparr>)"

definition frame_switch :: "u64 \<Rightarrow> u16 \<Rightarrow> u16 \<Rightarrow> u16 \<Rightarrow> frame_st \<Rightarrow> frame_st" where
  "frame_switch cyc pc oldframe newframe F =
    (if oldframe = newframe then F
     else
       let F1 = (case current_thread F of
                   None \<Rightarrow> F
                 | Some t \<Rightarrow> F\<lparr>thread_store := (thread_store F)(t := (thread_store F t)\<lparr>switchcycle := cyc\<rparr>),
                              threads := hash_move (threads F) 0 (ucast oldframe)\<rparr>);
           (t, F2) = (case hash_get (threads F1) (ucast newframe) of
                   Some t \<Rightarrow> (t, F1\<lparr>threads := hash_move (threads F1) (ucast newframe) 0, current_thread := Some t\<rparr>)
                 | None \<Rightarrow>
                     let t = next_thread F1
                     in (t, F1\<lparr>threads := hash_create (threads F1) 0 t, next_thread := t + 1, current_thread := Some t,
                          thread_store := (thread_store F1)(t := \<lparr>minfp = newframe, switchcycle = cyc, size_frames = 2,
                            frames = [new_frame cyc pc 0]\<rparr>)\<rparr>));
           th = thread_store F2 t;
           f = hd (frames th)
       in F2\<lparr>thread_store := (thread_store F2)(t := th\<lparr>frames :=
            f\<lparr>threadcycles := threadcycles f + (cyc - switchcycle th)\<rparr> # tl (frames th)\<rparr>)\<rparr>)"

text \<open>
  Room for one more frame. The bucket found under 0 has to be the one of the running thread; otherwise the code would go on in
  another thread's or in uninitialised memory.
\<close>

definition frame_grow_num_frames :: "frame_st \<Rightarrow> frame_st option" where
  "frame_grow_num_frames F =
    (case current_thread F of
       None \<Rightarrow> None
     | Some t \<Rightarrow>
         let th = thread_store F t
         in if size_frames th \<le> length (frames th)
            then if hash_get (threads F) 0 = Some t
                 then Some (F\<lparr>thread_store := (thread_store F)(t := th\<lparr>size_frames := size_frames th + 10\<rparr>),
                             threads := hash_realloc (threads F) 0 id t\<rparr>)
                 else None
            else Some F)"

definition frame_insert_subframe :: "u64 \<Rightarrow> mem \<Rightarrow> u16 \<Rightarrow> frame_info option" where
  "frame_insert_subframe cyc m fp = map_option (\<lambda>w. new_frame cyc w 0) (mem_word m fp)"

definition frame_add_callee :: "u16 \<Rightarrow> u64 \<Rightarrow> profile_info \<Rightarrow> profile_info" where
  "frame_add_callee pc cyc prof =
    (let h = (case hash_get (callees prof) (ucast pc) of
                None \<Rightarrow> hash_create (callees prof) (ucast pc) \<lparr>ci_calls = 0, ci_cycles = 0\<rparr>
              | Some _ \<Rightarrow> callees prof)
     in prof\<lparr>callees := hash_poke h (ucast pc)
          (\<lambda>c. c\<lparr>ci_calls := ci_calls c + 1, ci_cycles := ci_cycles c + cyc\<rparr>)\<rparr>)"

abbreviation even_pc :: "u16 \<Rightarrow> u16" where
  "even_pc p \<equiv> p AND NOT 1"

definition frame_begin :: "u64 \<Rightarrow> u16 \<Rightarrow> u16 \<Rightarrow> bool \<Rightarrow> frame_st \<Rightarrow> frame_st option" where
  "frame_begin cyc pc fp in_irq F =
    (case current_thread F of
       None \<Rightarrow> Some F
     | Some t0 \<Rightarrow>
         let th0 = thread_store F t0;
             F1 = (if fp < minfp th0 then F\<lparr>thread_store := (thread_store F)(t0 := th0\<lparr>minfp := fp\<rparr>)\<rparr> else F)
         in case frame_grow_num_frames F1 of
              None \<Rightarrow> None
            | Some F2 \<Rightarrow>
                let th = thread_store F2 t0;
                    frame = new_frame cyc (pc OR (if in_irq then 1 else 0)) fp;
                    ppc = even_pc (frame_pc (hd (frames th)));
                    F3 = F2\<lparr>thread_store := (thread_store F2)(t0 := th\<lparr>frames := frame # frames th\<rparr>)\<rparr>
                in Some (if profiles F3 ppc = None then F3\<lparr>profiles := (profiles F3)(ppc \<mapsto> new_profile)\<rparr> else F3))"

text \<open>The loop that drops frames whose function never returned.\<close>

function frame_unwind :: "u64 \<Rightarrow> mem \<Rightarrow> u16 \<Rightarrow> frame_info list \<Rightarrow> frame_info list option" where
  "frame_unwind cyc m fp (f # p # rest) =
    (if frame_fp f \<noteq> 0 \<and> frame_fp f < fp then
       let p1 = p\<lparr>irqcycles := irqcycles p + irqcycles f, threadcycles := threadcycles p + threadcycles f\<rparr>
       in if rest = []
          then (case frame_insert_subframe cyc m fp of None \<Rightarrow> None | Some s \<Rightarrow> frame_unwind cyc m fp [p1, s])
          else frame_unwind cyc m fp (p1 # rest)
     else Some (f # p # rest))"
| "frame_unwind cyc m fp [f] = None"
| "frame_unwind cyc m fp [] = None"
  by pat_completeness auto
termination
  by (relation "measure (\<lambda>(cyc, m, fp, fs). length (filter (\<lambda>f. frame_fp f \<noteq> 0) fs))")
    (auto simp: frame_insert_subframe_def new_frame_def)

declare frame_unwind.simps(1) [simp del]

text \<open>The cycles of a finished frame go to its parent \<dots>\<close>

definition charge_parent :: "frame_info \<Rightarrow> u64 \<Rightarrow> frame_info \<Rightarrow> frame_info" where
  "charge_parent f tot p =
    (let p1 = p\<lparr>irqcycles := irqcycles p + irqcycles f, threadcycles := threadcycles p + threadcycles f\<rparr>
     in if frame_pc f AND 1 \<noteq> 0 then p1\<lparr>irqcycles := irqcycles p1 + tot\<rparr>
        else p1\<lparr>childcycles := childcycles p1 + tot\<rparr>)"

text \<open>\<dots> and to the profile of its function, which is created when missing.\<close>

definition prof_account :: "frame_info \<Rightarrow> u64 \<Rightarrow> u64 \<Rightarrow> profile_info \<Rightarrow> profile_info" where
  "prof_account f loc tot p =
     p\<lparr>irq_cycles := irq_cycles p + irqcycles f, local_cycles := local_cycles p + loc,
       total_cycles := total_cycles p + tot, pcalls := pcalls p + 1,
       isIRQ := isIRQ p OR ucast (frame_pc f AND 1),
       max_total_cycles := (if max_total_cycles p < tot then tot else max_total_cycles p),
       max_local_cycles := (if max_local_cycles p < loc then loc else max_local_cycles p)\<rparr>"

definition prof_record ::
  "frame_info \<Rightarrow> u64 \<Rightarrow> u64 \<Rightarrow> (u16 \<Rightarrow> profile_info option) \<Rightarrow> u16 \<Rightarrow> profile_info option" where
  "prof_record f loc tot profs =
    (let k = even_pc (frame_pc f)
     in profs(k \<mapsto> prof_account f loc tot (case profs k of None \<Rightarrow> new_profile | Some p \<Rightarrow> p)))"

definition frame_total :: "u64 \<Rightarrow> frame_info \<Rightarrow> u64" where
  "frame_total cyc f = cyc - startcycle f - threadcycles f - irqcycles f"

definition frame_end :: "u64 \<Rightarrow> mem \<Rightarrow> u16 \<Rightarrow> bool \<Rightarrow> frame_st \<Rightarrow> frame_st option" where
  "frame_end cyc m fp in_irq F =
    (case current_thread F of
       None \<Rightarrow> Some F
     | Some t \<Rightarrow>
         let th = thread_store F t;
             fs0 = (if length (frames th) = 1
                    then map_option (\<lambda>s. frames th @ [s]) (frame_insert_subframe cyc m fp)
                    else Some (frames th))
         in case Option.bind fs0 (frame_unwind cyc m fp) of
              Some (frame # pframe # rest) \<Rightarrow>
                let tot = frame_total cyc frame;
                    loc = tot - childcycles frame;
                    finish = (\<lambda>pf profs. F\<lparr>thread_store := (thread_store F)(t := th\<lparr>frames := pf # rest\<rparr>),
                               profiles := prof_record frame loc tot profs\<rparr>)
                in if frame_fp frame \<noteq> 0 then
                     (case profiles F (even_pc (frame_pc pframe)) of
                        None \<Rightarrow> None
                      | Some pprof \<Rightarrow>
                          Some (finish (charge_parent frame tot pframe)
                            ((profiles F)(even_pc (frame_pc pframe) \<mapsto> frame_add_callee (frame_pc frame) tot pprof))))
                   else Some (finish pframe (profiles F))
            | _ \<Rightarrow> None)"

text \<open>At the end of the run every thread is closed as if all its functions returned.\<close>

fun close_frames ::
  "u64 \<Rightarrow> frame_info list \<Rightarrow> (u16 \<Rightarrow> profile_info option) \<Rightarrow> (frame_info list \<times> (u16 \<Rightarrow> profile_info option)) option" where
  "close_frames cyc [] profs = Some ([], profs)"
| "close_frames cyc [f] profs =
    (let tot = frame_total cyc f in Some ([f], prof_record f (tot - childcycles f) tot profs))"
| "close_frames cyc (f # p # rest) profs =
    (let tot = frame_total cyc f; k = even_pc (frame_pc p)
     in case profs k of
          None \<Rightarrow> None
        | Some pprof \<Rightarrow>
            map_option (\<lambda>(fs, q). (f # fs, q))
              (close_frames cyc (charge_parent f tot p # rest)
                 (prof_record f (tot - childcycles f) tot
                    (profs(k \<mapsto> frame_add_callee (frame_pc f) tot pprof)))))"

definition frame_close_thread :: "u64 \<Rightarrow> nat \<Rightarrow> frame_st \<Rightarrow> frame_st option" where
  "frame_close_thread cyc t F =
    (let th = thread_store F t;
         swc = (if current_thread F = Some t then cyc else switchcycle th)
     in map_option (\<lambda>(fs, q). F\<lparr>thread_store := (thread_store F)(t := th\<lparr>frames := fs\<rparr>), profiles := q\<rparr>)
          (close_frames swc (frames th) (profiles F)))"

definition frame_close_threads :: "u64 \<Rightarrow> frame_st \<Rightarrow> frame_st option" where
  "frame_close_threads cyc F =
     fold (\<lambda>(k, t) res. Option.bind res (frame_close_thread cyc t)) (hash_enumerate (threads F)) (Some F)"

text \<open>
  The lines of a stack trace: frame pointer, function name, start of the function and offset. Looking up a name
  reorders the symbol tree.
\<close>

definition hex4 :: "u16 \<Rightarrow> string" where
  "hex4 w = print_hex2 (ucast (drop_bit 8 w)) @ print_hex2 (ucast w)"

fun dump_frames :: "mem \<Rightarrow> u16 \<Rightarrow> frame_info list \<Rightarrow> symbol \<Rightarrow> ((u16 \<times> string \<times> u16 \<times> int) list \<times> symbol) option" where
  "dump_frames m lastpc [] tree = Some ([], tree)"
| "dump_frames m lastpc (f # fs) tree =
    (let fpc = even_pc (frame_pc f);
         (name, tree1) = symbols_get (fpc, 0) tree;
         line = (frame_fp f, (case name of None \<Rightarrow> ''0x'' @ hex4 fpc | Some s \<Rightarrow> s), fpc, uint lastpc - uint fpc)
     in case mem_word m (frame_fp f) of
          None \<Rightarrow> None
        | Some w \<Rightarrow> map_option (\<lambda>(ls, tree2). (line # ls, tree2)) (dump_frames m w fs tree1))"

definition frame_dump_stack ::
  "mem \<Rightarrow> u16 \<Rightarrow> u16 \<Rightarrow> u16 \<Rightarrow> frame_st \<Rightarrow> symbol \<Rightarrow> ((u16 \<times> string \<times> u16 \<times> int) list \<times> symbol) option" where
  "frame_dump_stack m pc r7 fp F tree =
    (case (if fp = r7 then current_thread F else hash_get (threads F) (ucast fp)) of
       None \<Rightarrow> Some ([], tree)
     | Some t \<Rightarrow> dump_frames m pc (frames (thread_store F t)) tree)"

section \<open>Profiling a properly nested execution\<close>

text \<open>
  The specification: a tree of calls, each with its start, function, frame pointer, a mark for interrupt handlers, the calls
  made inside, and its end. The time of a call is divided between interrupt handlers that ran meanwhile, the
  functions it called, and itself.
\<close>

datatype call = Call u64 u16 u16 bool "call list" u64

fun c_mark :: "call \<Rightarrow> u16" where
  "c_mark (Call s p f i cs e) = p OR (if i then 1 else 0)"

definition c_irq :: "call \<Rightarrow> bool" where
  "c_irq c \<longleftrightarrow> c_mark c AND 1 \<noteq> 0"

fun c_dur :: "call \<Rightarrow> u64" where
  "c_dur (Call s p f i cs e) = e - s"

fun irq_time :: "call \<Rightarrow> u64" where
  "irq_time (Call s p f i cs e) = (\<Sum>d \<leftarrow> cs. if c_irq d then c_dur d else irq_time d)"

definition total_time :: "call \<Rightarrow> u64" where
  "total_time c = c_dur c - irq_time c"

fun local_time :: "call \<Rightarrow> u64" where
  "local_time (Call s p f i cs e) =
    total_time (Call s p f i cs e) - (\<Sum>d \<leftarrow> cs. if c_irq d then 0 else total_time d)"

fun all_calls :: "call \<Rightarrow> call list" where
  "all_calls (Call s p f i cs e) = Call s p f i cs e # concat (map all_calls cs)"

fun c_valid :: "call \<Rightarrow> bool" where
  "c_valid (Call s p f i cs e) \<longleftrightarrow> f \<noteq> 0 \<and> list_all c_valid cs"

text \<open>What the code does for it: \<open>frame_begin\<close> at the start, the inner calls, \<open>frame_end\<close> at the end.\<close>

fun run_call :: "mem \<Rightarrow> call \<Rightarrow> frame_st \<Rightarrow> frame_st option"
  and run_calls :: "mem \<Rightarrow> call list \<Rightarrow> frame_st \<Rightarrow> frame_st option" where
  "run_call m (Call s p f i cs e) F =
     Option.bind (frame_begin s p f i F) (\<lambda>F1. Option.bind (run_calls m cs F1) (frame_end e m f i))"
| "run_calls m [] F = Some F"
| "run_calls m (c # cs) F = Option.bind (run_call m c F) (run_calls m cs)"

lemma local_times_sum: "(\<Sum>d \<leftarrow> all_calls c. local_time d) = c_dur c"
proof (induction c)
  case (Call s p f i cs e)
  have "(\<Sum>d \<leftarrow> concat (map all_calls cs). local_time d) = (\<Sum>d \<leftarrow> cs. c_dur d)"
    using Call by (induction cs) simp_all
  moreover have "(\<Sum>d \<leftarrow> cs. c_dur d) = (\<Sum>d \<leftarrow> cs. if c_irq d then c_dur d else irq_time d)
      + (\<Sum>d \<leftarrow> cs. if c_irq d then 0 else total_time d)"
    by (simp flip: sum_list_addf) (rule arg_cong [where f = sum_list], simp add: total_time_def)
  ultimately show ?case
    by (simp add: total_time_def)
qed

text \<open>Running thread, its stack, and the cycles a profile table attributes to a function.\<close>

definition running :: "nat \<Rightarrow> frame_info list \<Rightarrow> frame_st \<Rightarrow> bool" where
  "running t fs F \<longleftrightarrow> current_thread F = Some t \<and> hash_get (threads F) 0 = Some t \<and> frames (thread_store F t) = fs"

definition attributed :: "(u16 \<Rightarrow> profile_info option) \<Rightarrow> u16 \<Rightarrow> u64" where
  "attributed profs k = (case profs k of None \<Rightarrow> 0 | Some p \<Rightarrow> local_cycles p)"

definition charge :: "call \<Rightarrow> frame_info \<Rightarrow> frame_info" where
  "charge c p = (if c_irq c then p\<lparr>irqcycles := irqcycles p + c_dur c\<rparr>
     else p\<lparr>irqcycles := irqcycles p + irq_time c, childcycles := childcycles p + total_time c\<rparr>)"

lemma bucket_update_id: "bucket_update k id bs = (if map_of bs k = None then None else Some bs)"
  by (induction bs) auto

lemma hash_realloc_id: "hash_get h k = Some v \<Longrightarrow> hash_realloc h k id w = h"
  by (simp add: hash_realloc_def hash_get_def bucket_update_id Let_def)

lemma frame_add_callee_simps [simp]: "local_cycles (frame_add_callee pc cyc p) = local_cycles p"
  by (simp add: frame_add_callee_def Let_def)

lemma frame_begin_running:
  assumes "running t (p # ps) F"
  shows "\<exists>F1. frame_begin s pc f i F = Some F1
    \<and> running t (new_frame s (pc OR (if i then 1 else 0)) f # p # ps) F1
    \<and> profiles F1 (even_pc (frame_pc p)) \<noteq> None \<and> dom (profiles F) \<subseteq> dom (profiles F1)
    \<and> attributed (profiles F1) = attributed (profiles F)"
proof -
  have r: "current_thread F = Some t" "hash_get (threads F) 0 = Some t" "frames (thread_store F t) = p # ps"
    using assms by (simp_all add: running_def)
  show ?thesis
    using r by (auto simp: frame_begin_def frame_grow_num_frames_def running_def hash_realloc_id Let_def
        attributed_def new_profile_def fun_eq_iff)
qed


lemma frame_end_running:
  assumes "running t (f # p # ps) F" and "frame_fp f = fp" "fp \<noteq> 0" and "profiles F (even_pc (frame_pc p)) = Some pp"
  shows "\<exists>F1. frame_end e m fp i F = Some F1 \<and> running t (charge_parent f (frame_total e f) p # ps) F1
    \<and> dom (profiles F) \<subseteq> dom (profiles F1)
    \<and> (\<forall>k. attributed (profiles F1) k = attributed (profiles F) k
          + (if k = even_pc (frame_pc f) then frame_total e f - childcycles f else 0))"
proof -
  have r: "current_thread F = Some t" "hash_get (threads F) 0 = Some t" "frames (thread_store F t) = f # p # ps"
    using assms(1) by (simp_all add: running_def)
  define q where "q = (profiles F)(even_pc (frame_pc p) \<mapsto> frame_add_callee (frame_pc f) (frame_total e f) pp)"
  have q: "attributed q = attributed (profiles F)"
    using assms(4) by (simp add: q_def attributed_def fun_eq_iff)
  have "frame_end e m fp i F = Some (F\<lparr>thread_store := (thread_store F)(t := (thread_store F t)\<lparr>frames :=
      charge_parent f (frame_total e f) p # ps\<rparr>),
      profiles := prof_record f (frame_total e f - childcycles f) (frame_total e f) q\<rparr>)"
    using r assms(2-4) by (simp add: frame_end_def frame_unwind.simps(1) Let_def q_def)
  moreover have "attributed (prof_record f l tt q) k = attributed q k + (if k = even_pc (frame_pc f) then l else 0)"
    for l tt k
    by (simp add: prof_record_def attributed_def prof_account_def new_profile_def Let_def split: option.split)
  moreover have "dom (profiles F) \<subseteq> dom (prof_record f l tt q)" for l tt
    by (auto simp: prof_record_def q_def Let_def)
  ultimately show ?thesis
    using r by (simp add: running_def q)
qed

definition local_of :: "u16 \<Rightarrow> call list \<Rightarrow> u64" where
  "local_of k cs = (\<Sum>d \<leftarrow> filter (\<lambda>d. even_pc (c_mark d) = k) (concat (map all_calls cs)). local_time d)"

lemma fold_charge:
  "irqcycles (fold charge cs p) = irqcycles p + (\<Sum>d \<leftarrow> cs. if c_irq d then c_dur d else irq_time d)"
  "childcycles (fold charge cs p) = childcycles p + (\<Sum>d \<leftarrow> cs. if c_irq d then 0 else total_time d)"
  "startcycle (fold charge cs p) = startcycle p" "threadcycles (fold charge cs p) = threadcycles p"
  "frame_pc (fold charge cs p) = frame_pc p" "frame_fp (fold charge cs p) = frame_fp p"
  by (induction cs arbitrary: p) (simp_all add: charge_def)

lemma charge_call:
  fixes cs s pc i fp
  defines "f \<equiv> fold charge cs (new_frame s (pc OR (if i then 1 else 0)) fp)"
  shows "charge_parent f (frame_total e f) p = charge (Call s pc fp i cs e) p"
    and "frame_total e f - childcycles f = local_time (Call s pc fp i cs e)"
proof -
  have t: "frame_total e f = total_time (Call s pc fp i cs e)"
    by (simp add: frame_total_def f_def fold_charge new_frame_def total_time_def)
  have irq: "c_irq (Call s pc fp i cs e) \<longleftrightarrow> (pc OR (if i then 1 else 0)) AND 1 \<noteq> 0"
    by (simp add: c_irq_def)
  show "charge_parent f (frame_total e f) p = charge (Call s pc fp i cs e) p"
    unfolding t by (simp add: charge_parent_def charge_def irq f_def fold_charge new_frame_def Let_def del: c_mark.simps)
      (simp add: total_time_def)
  show "frame_total e f - childcycles f = local_time (Call s pc fp i cs e)"
    unfolding t by (simp add: f_def fold_charge new_frame_def)
qed

lemma run_call_profile:
  "running t (p # ps) F \<Longrightarrow> c_valid c \<Longrightarrow>
    \<exists>F'. run_call m c F = Some F' \<and> running t (charge c p # ps) F' \<and> dom (profiles F) \<subseteq> dom (profiles F')
      \<and> (\<forall>k. attributed (profiles F') k = attributed (profiles F) k + local_of k [c])"
  "running t (p # ps) F \<Longrightarrow> list_all c_valid cs \<Longrightarrow>
    \<exists>F'. run_calls m cs F = Some F' \<and> running t (fold charge cs p # ps) F' \<and> dom (profiles F) \<subseteq> dom (profiles F')
      \<and> (\<forall>k. attributed (profiles F') k = attributed (profiles F) k + local_of k cs)"
proof (induction m c F and m cs F arbitrary: p ps and p ps rule: run_call_run_calls.induct)
  case (1 m s pc f i cs e F)
  let ?c = "Call s pc f i cs e" and ?f = "new_frame s (pc OR (if i then 1 else 0)) f"
  obtain F1 where F1: "frame_begin s pc f i F = Some F1" "running t (?f # p # ps) F1"
    "profiles F1 (even_pc (frame_pc p)) \<noteq> None" "dom (profiles F) \<subseteq> dom (profiles F1)"
    "attributed (profiles F1) = attributed (profiles F)"
    using frame_begin_running [OF 1(2)] by blast
  obtain F2 where F2: "run_calls m cs F1 = Some F2" "running t (fold charge cs ?f # p # ps) F2"
    "dom (profiles F1) \<subseteq> dom (profiles F2)"
    "\<forall>k. attributed (profiles F2) k = attributed (profiles F1) k + local_of k cs"
    using 1(1) [OF F1(1,2)] 1(3) by auto
  obtain pp where pp: "profiles F2 (even_pc (frame_pc p)) = Some pp"
    using F1(3) F2(3) by blast
  have fp: "frame_fp (fold charge cs ?f) = f" "f \<noteq> 0"
    using 1(3) by (simp_all add: fold_charge new_frame_def)
  obtain F3 where F3: "frame_end e m f i F2 = Some F3" "running t (charge ?c p # ps) F3"
    "dom (profiles F2) \<subseteq> dom (profiles F3)"
    "\<forall>k. attributed (profiles F3) k = attributed (profiles F2) k
       + (if k = even_pc (frame_pc (fold charge cs ?f)) then local_time ?c else 0)"
    using frame_end_running [OF F2(2) fp pp] unfolding charge_call by blast
  have "attributed (profiles F3) k = attributed (profiles F) k + local_of k [?c]" for k
    using F3(4) F2(4) F1(5) by (simp add: local_of_def fold_charge new_frame_def)
  then show ?case
    using F1(1,4) F2(1,3) F3 by auto
next
  case (2 m F)
  then show ?case by (simp add: local_of_def)
next
  case (3 m c cs F)
  then obtain F1 where F1: "run_call m c F = Some F1" "running t (charge c p # ps) F1" "dom (profiles F) \<subseteq> dom (profiles F1)"
    "\<forall>k. attributed (profiles F1) k = attributed (profiles F) k + local_of k [c]"
    by (metis list.pred_inject(2))
  obtain F2 where F2: "run_calls m cs F1 = Some F2" "running t (fold charge cs (charge c p) # ps) F2"
    "dom (profiles F1) \<subseteq> dom (profiles F2)"
    "\<forall>k. attributed (profiles F2) k = attributed (profiles F1) k + local_of k cs"
    using 3(2) [OF F1(1,2)] 3(4) by auto
  have "local_of k [c] + local_of k cs = local_of k (c # cs)" for k
    by (simp add: local_of_def)
  then show ?case
    using F1 F2 by (auto simp: add.assoc)
qed

section \<open>The invariant\<close>

text \<open>
  Every stack has a bottom frame without a frame pointer, and every function that called another has a profile. The running
  thread is the one stored under 0, and no thread is stored twice.
\<close>

definition profiled :: "(u16 \<Rightarrow> profile_info option) \<Rightarrow> frame_info \<Rightarrow> bool" where
  "profiled profs f \<longleftrightarrow> profs (even_pc (frame_pc f)) \<noteq> None"

definition stack_ok :: "(u16 \<Rightarrow> profile_info option) \<Rightarrow> frame_info list \<Rightarrow> bool" where
  "stack_ok profs fs \<longleftrightarrow> fs \<noteq> [] \<and> frame_fp (last fs) = 0 \<and> list_all (profiled profs) (tl fs)"

definition frame_ok :: "frame_st \<Rightarrow> bool" where
  "frame_ok F \<longleftrightarrow> hash_ok (threads F) \<and> hash_get (threads F) 0 = current_thread F
    \<and> (\<forall>k t. hash_get (threads F) k = Some t \<longrightarrow>
          t < next_thread F \<and> stack_ok (profiles F) (frames (thread_store F t))
          \<and> (\<forall>k'. hash_get (threads F) k' = Some t \<longrightarrow> k' = k))"

lemma frame_okI:
  assumes "hash_ok (threads F)" "hash_get (threads F) 0 = current_thread F"
    and "\<And>k t. hash_get (threads F) k = Some t \<Longrightarrow> t < next_thread F"
    and "\<And>k t. hash_get (threads F) k = Some t \<Longrightarrow> stack_ok (profiles F) (frames (thread_store F t))"
    and "\<And>k k' t. hash_get (threads F) k = Some t \<Longrightarrow> hash_get (threads F) k' = Some t \<Longrightarrow> k' = k"
  shows "frame_ok F"
  using assms unfolding frame_ok_def by blast

lemma frame_okD:
  assumes "frame_ok F"
  shows "hash_ok (threads F)" "hash_get (threads F) 0 = current_thread F"
    and "hash_get (threads F) k = Some t \<Longrightarrow> t < next_thread F"
    and "hash_get (threads F) k = Some t \<Longrightarrow> stack_ok (profiles F) (frames (thread_store F t))"
    and "hash_get (threads F) k = Some t \<Longrightarrow> hash_get (threads F) k' = Some t \<Longrightarrow> k' = k"
  using assms unfolding frame_ok_def by blast+

lemma profiled_mono: "profiled p f \<Longrightarrow> dom p \<subseteq> dom q \<Longrightarrow> profiled q f"
  unfolding profiled_def by (metis domIff subsetD)

lemma stack_ok_mono: "stack_ok p fs \<Longrightarrow> dom p \<subseteq> dom q \<Longrightarrow> stack_ok q fs"
  using profiled_mono by (auto simp: stack_ok_def list_all_iff)

text \<open>Replacing the stack of the running thread.\<close>

lemma frame_ok_update:
  assumes "frame_ok F" "current_thread F = Some t" "stack_ok q fs" "dom (profiles F) \<subseteq> dom q"
    and "threads F' = threads F" "current_thread F' = current_thread F" "next_thread F' = next_thread F"
      "profiles F' = q" "thread_store F' = (thread_store F)(t := th)" "frames th = fs"
  shows "frame_ok F'"
proof (rule frame_okI)
  fix k t' assume k: "hash_get (threads F') k = Some t'"
  then show "stack_ok (profiles F') (frames (thread_store F' t'))"
    using assms frame_okD(4) [OF assms(1)] stack_ok_mono [OF _ assms(4)] by auto
qed (use assms frame_okD [OF assms(1)] in auto)

lemma frame_begin_ok:
  assumes "frame_ok F"
  shows "\<exists>F1. frame_begin cyc pc fp i F = Some F1 \<and> frame_ok F1"
proof (cases "current_thread F")
  case None
  then show ?thesis
    using assms by (simp add: frame_begin_def)
next
  case (Some t)
  then have h: "hash_get (threads F) 0 = Some t"
    using frame_okD(2) [OF assms] by simp
  then have s: "stack_ok (profiles F) (frames (thread_store F t))"
    by (rule frame_okD(4) [OF assms])
  then obtain p ps where fs: "frames (thread_store F t) = p # ps"
    by (cases "frames (thread_store F t)") (auto simp: stack_ok_def)
  let ?q = "if profiles F (even_pc (frame_pc p)) = None then (profiles F)(even_pc (frame_pc p) \<mapsto> new_profile) else profiles F"
  have q: "stack_ok ?q (new_frame cyc (pc OR (if i then 1 else 0)) fp # p # ps)" "dom (profiles F) \<subseteq> dom ?q"
    using s by (auto simp: fs stack_ok_def profiled_def list_all_iff)
  have "\<exists>F1 th. frame_begin cyc pc fp i F = Some F1 \<and> threads F1 = threads F \<and> current_thread F1 = current_thread F
    \<and> next_thread F1 = next_thread F \<and> profiles F1 = ?q \<and> thread_store F1 = (thread_store F)(t := th)
    \<and> frames th = new_frame cyc (pc OR (if i then 1 else 0)) fp # p # ps"
    using Some h fs by (auto simp: frame_begin_def frame_grow_num_frames_def hash_realloc_id Let_def)
  then show ?thesis
    using frame_ok_update [OF assms Some q] by blast
qed

text \<open>What the unwinding keeps: the frames below the two top ones are profiled, and the second one is if the top one has a caller.\<close>

lemma frame_unwind_ok:
  assumes "frame_fp (last (p # rest)) = 0" "list_all (profiled q) rest" "frame_fp f \<noteq> 0 \<longrightarrow> profiled q p" "fp \<noteq> 0xffff"
  shows "\<exists>f' p' rest'. frame_unwind cyc m fp (f # p # rest) = Some (f' # p' # rest')
    \<and> frame_fp (last (p' # rest')) = 0 \<and> list_all (profiled q) rest' \<and> (frame_fp f' \<noteq> 0 \<longrightarrow> profiled q p')"
  using assms
proof (induction "length (filter (\<lambda>f. frame_fp f \<noteq> 0) (f # p # rest))" arbitrary: f p rest rule: less_induct)
  case less
  let ?p = "p\<lparr>irqcycles := irqcycles p + irqcycles f, threadcycles := threadcycles p + threadcycles f\<rparr>"
  show ?case
  proof (cases "frame_fp f \<noteq> 0 \<and> frame_fp f < fp")
    case True
    show ?thesis
    proof (cases rest)
      case Nil
      obtain s where s: "frame_insert_subframe cyc m fp = Some s" "frame_fp s = 0"
        using less.prems(4) by (auto simp: frame_insert_subframe_def mem_word_def new_frame_def)
      have "frame_fp p = 0"
        using less.prems(1) Nil by simp
      then show ?thesis
        using True Nil s by (simp add: frame_unwind.simps(1))
    next
      case (Cons r rest')
      have "length (filter (\<lambda>f. frame_fp f \<noteq> 0) (?p # r # rest')) < length (filter (\<lambda>f. frame_fp f \<noteq> 0) (f # p # rest))"
        using True Cons by simp
      from less.hyps [OF this] have "\<exists>f' p' rest''. frame_unwind cyc m fp (?p # r # rest') = Some (f' # p' # rest'')
          \<and> frame_fp (last (p' # rest'')) = 0 \<and> list_all (profiled q) rest'' \<and> (frame_fp f' \<noteq> 0 \<longrightarrow> profiled q p')"
        using True Cons less.prems by simp
      moreover have "frame_unwind cyc m fp (f # p # rest) = frame_unwind cyc m fp (?p # r # rest')"
        using True Cons by (subst frame_unwind.simps(1)) simp
      ultimately show ?thesis
        by simp
    qed
  next
    case False
    then have "frame_unwind cyc m fp (f # p # rest) = Some (f # p # rest)"
      by (subst frame_unwind.simps(1)) auto
    then show ?thesis
      using less.prems by auto
  qed
qed

lemma charge_parent_simps [simp]:
  "frame_pc (charge_parent f t p) = frame_pc p" "frame_fp (charge_parent f t p) = frame_fp p"
  by (simp_all add: charge_parent_def Let_def)

lemma prof_record_dom: "dom q \<subseteq> dom (prof_record f l t q)"
  by (auto simp: prof_record_def Let_def)

lemma stack_ok_pop:
  assumes "frame_fp (last (p # rest)) = 0" "list_all (profiled q) rest" "dom q \<subseteq> dom q'" "frame_fp p' = frame_fp p"
  shows "stack_ok q' (p' # rest)"
  using assms by (auto simp: stack_ok_def profiled_def list_all_iff)

lemma frame_end_ok:
  assumes "frame_ok F" "fp \<noteq> 0xffff"
  shows "\<exists>F1. frame_end cyc m fp i F = Some F1 \<and> frame_ok F1"
proof (cases "current_thread F")
  case None
  then show ?thesis
    using assms by (simp add: frame_end_def)
next
  case (Some t)
  let ?th = "thread_store F t"
  have "hash_get (threads F) 0 = Some t"
    using frame_okD(2) [OF assms(1)] Some by simp
  then have s: "stack_ok (profiles F) (frames ?th)"
    by (rule frame_okD(4) [OF assms(1)])
  define fs0 where "fs0 = (if length (frames ?th) = 1
      then map_option (\<lambda>s. frames ?th @ [s]) (frame_insert_subframe cyc m fp) else Some (frames ?th))"
  have "\<exists>f p rest. fs0 = Some (f # p # rest) \<and> frame_fp (last (p # rest)) = 0 \<and> list_all (profiled (profiles F)) rest
      \<and> (frame_fp f \<noteq> 0 \<longrightarrow> profiled (profiles F) p)"
  proof (cases "length (frames ?th) = 1")
    case True
    then obtain f where "frames ?th = [f]"
      by (cases "frames ?th") auto
    then show ?thesis
      using s assms(2) by (auto simp: fs0_def stack_ok_def frame_insert_subframe_def mem_word_def new_frame_def)
  next
    case False
    then obtain f p rest where "frames ?th = f # p # rest"
      using s by (cases "frames ?th" rule: remdups_adj.cases) (auto simp: stack_ok_def)
    then show ?thesis
      using s False by (auto simp: fs0_def stack_ok_def)
  qed
  then obtain f p rest where u: "Option.bind fs0 (frame_unwind cyc m fp) = Some (f # p # rest)"
    "frame_fp (last (p # rest)) = 0" "list_all (profiled (profiles F)) rest" "frame_fp f \<noteq> 0 \<longrightarrow> profiled (profiles F) p"
    using frame_unwind_ok [OF _ _ _ assms(2)] by (metis bind.bind_lunit)
  let ?t = "frame_total cyc f"
  define fin where "fin = (\<lambda>pf q. F\<lparr>thread_store := (thread_store F)(t := ?th\<lparr>frames := pf # rest\<rparr>),
      profiles := prof_record f (?t - childcycles f) ?t q\<rparr>)"
  have fin: "frame_ok (fin pf q)" if "frame_fp pf = frame_fp p" "dom (profiles F) \<subseteq> dom q" for pf q
  proof -
    have d: "dom (profiles F) \<subseteq> dom (prof_record f (?t - childcycles f) ?t q)"
      using that(2) prof_record_dom by blast
    show ?thesis
      by (rule frame_ok_update [OF assms(1) Some stack_ok_pop [OF u(2,3) d that(1)] d,
          where th = "?th\<lparr>frames := pf # rest\<rparr>"]) (simp_all add: fin_def)
  qed
  have e: "frame_end cyc m fp i F = (if frame_fp f \<noteq> 0 then
      (case profiles F (even_pc (frame_pc p)) of None \<Rightarrow> None
       | Some pprof \<Rightarrow> Some (fin (charge_parent f ?t p)
           ((profiles F)(even_pc (frame_pc p) \<mapsto> frame_add_callee (frame_pc f) ?t pprof))))
      else Some (fin p (profiles F)))"
    unfolding frame_end_def Some option.case Let_def u(1) [unfolded fs0_def] list.case fin_def ..
  show ?thesis
  proof (cases "frame_fp f = 0")
    case True
    then show ?thesis using fin [of p "profiles F"] by (simp add: e)
  next
    case False
    then obtain pp where "profiles F (even_pc (frame_pc p)) = Some pp"
      using u(4) by (auto simp: profiled_def)
    moreover have "frame_ok (fin (charge_parent f ?t p)
        ((profiles F)(even_pc (frame_pc p) \<mapsto> frame_add_callee (frame_pc f) ?t pp)))"
      by (rule fin) auto
    ultimately show ?thesis
      using False by (simp add: e)
  qed
qed

section \<open>Switching threads\<close>

lemma key_inject [simp]:
  "(ucast (a :: u16) :: u32) = ucast b \<longleftrightarrow> a = b" "(ucast (a :: u16) :: u32) = 0 \<longleftrightarrow> a = 0"
proof -
  have u: "uint (ucast x :: u32) = uint x" for x :: u16
  proof -
    have "uint x < 2 ^ LENGTH(16)"
      by (rule unsigned_less)
    then show ?thesis
      by (simp add: unsigned_ucast_eq take_bit_int_eq_self)
  qed
  show "(ucast a :: u32) = ucast b \<longleftrightarrow> a = b"
    by (metis u word_uint_eqI)
  show "(ucast a :: u32) = 0 \<longleftrightarrow> a = 0"
    by (metis u unsigned_0 word_uint_eqI)
qed

definition park :: "u64 \<Rightarrow> u16 \<Rightarrow> frame_st \<Rightarrow> frame_st" where
  "park cyc old F =
    (case current_thread F of
       None \<Rightarrow> F
     | Some t \<Rightarrow> F\<lparr>thread_store := (thread_store F)(t := (thread_store F t)\<lparr>switchcycle := cyc\<rparr>),
                  threads := hash_move (threads F) 0 (ucast old)\<rparr>)"

definition add_away :: "u64 \<Rightarrow> thread_info \<Rightarrow> thread_info" where
  "add_away cyc th = (let f = hd (frames th)
     in th\<lparr>frames := f\<lparr>threadcycles := threadcycles f + (cyc - switchcycle th)\<rparr> # tl (frames th)\<rparr>)"

lemma frame_switch_cases:
  assumes "old \<noteq> new"
  shows "hash_get (threads (park cyc old F)) (ucast new) = Some t \<Longrightarrow> frame_switch cyc pc old new F =
      (park cyc old F)\<lparr>threads := hash_move (threads (park cyc old F)) (ucast new) 0, current_thread := Some t,
        thread_store := (thread_store (park cyc old F))(t := add_away cyc (thread_store (park cyc old F) t))\<rparr>"
    and "hash_get (threads (park cyc old F)) (ucast new) = None \<Longrightarrow> frame_switch cyc pc old new F =
      (let t = next_thread F in (park cyc old F)\<lparr>threads := hash_create (threads (park cyc old F)) 0 t, next_thread := t + 1,
        current_thread := Some t, thread_store := (thread_store (park cyc old F))(t := \<lparr>minfp = new, switchcycle = cyc,
          size_frames = 2, frames = [new_frame cyc pc 0]\<rparr>)\<rparr>)"
  using assms by (simp_all add: frame_switch_def park_def add_away_def Let_def new_frame_def split: option.split)

lemma park_table:
  assumes "frame_ok F" "old \<noteq> 0" "hash_get (threads F) (ucast old) = None"
  shows "hash_ok (threads (park cyc old F))"
    and "hash_get (threads (park cyc old F)) =
      (case current_thread F of None \<Rightarrow> hash_get (threads F) | Some t \<Rightarrow> (hash_get (threads F))(0 := None, ucast old \<mapsto> t))"
    and "hash_get (threads (park cyc old F)) 0 = None"
proof -
  note ok = frame_okD(1,2) [OF assms(1)]
  have "current_thread F = Some t \<Longrightarrow> hash_get (threads F) 0 = Some t" for t
    using ok by simp
  then show "hash_ok (threads (park cyc old F))"
    and "hash_get (threads (park cyc old F)) =
      (case current_thread F of None \<Rightarrow> hash_get (threads F) | Some t \<Rightarrow> (hash_get (threads F))(0 := None, ucast old \<mapsto> t))"
    using ok assms(3) by (auto simp: park_def hash_table.move_ok hash_table.lookup_move split: option.split)
  then show "hash_get (threads (park cyc old F)) 0 = None"
    using ok(2) assms(2) key_inject(2) [of old] by (auto split: option.split)
qed

lemma park_parts: "profiles (park cyc old F) = profiles F" "next_thread (park cyc old F) = next_thread F"
  "frames (thread_store (park cyc old F) t) = frames (thread_store F t)"
  by (auto simp: park_def split: option.split)

lemma park_range:
  assumes "frame_ok F" "old \<noteq> 0" "hash_get (threads F) (ucast old) = None"
    and "hash_get (threads (park cyc old F)) k = Some t"
  shows "t < next_thread F" "stack_ok (profiles F) (frames (thread_store F t))"
    and "hash_get (threads (park cyc old F)) k' = Some t \<Longrightarrow> k' = k"
proof -
  have c: "current_thread F = Some t' \<Longrightarrow> hash_get (threads F) 0 = Some t'" for t'
    using frame_okD(2) [OF assms(1)] by simp
  obtain j where j: "hash_get (threads F) j = Some t"
    using assms(4) c unfolding park_table(2) [OF assms(1-3)] by (auto split: option.splits if_splits)
  from frame_okD(3,4) [OF assms(1) j] show "t < next_thread F" "stack_ok (profiles F) (frames (thread_store F t))" .
  show "k' = k" if "hash_get (threads (park cyc old F)) k' = Some t"
    using that assms(4) c frame_okD(5) [OF assms(1)] unfolding park_table(2) [OF assms(1-3)]
    by (auto split: option.splits if_splits)
qed

lemma add_away_stack: "stack_ok q (frames th) \<Longrightarrow> stack_ok q (frames (add_away cyc th))"
  by (cases "frames th") (auto simp: add_away_def stack_ok_def Let_def)

lemma frame_switch_ok:
  assumes "frame_ok F" "old \<noteq> 0" "new \<noteq> 0" "hash_get (threads F) (ucast old) = None"
  shows "frame_ok (frame_switch cyc pc old new F)"
proof (cases "old = new")
  case True
  then show ?thesis
    using assms(1) by (simp add: frame_switch_def)
next
  case False
  let ?P = "park cyc old F"
  note tab = park_table [OF assms(1,2,4), of cyc] and rng = park_range [OF assms(1,2,4), where cyc = cyc]
  show ?thesis
  proof (cases "hash_get (threads ?P) (ucast new)")
    case None
    have l: "hash_get (hash_create (threads ?P) 0 t) = (hash_get (threads ?P))(0 \<mapsto> t)" for t
      by (rule hash_table.lookup_create [OF tab(1,3)])
    show ?thesis
      unfolding frame_switch_cases(2) [OF False None] Let_def
    proof (rule frame_okI)
    qed (auto simp: hash_table.create_ok [OF tab(1,3)] l park_parts stack_ok_def new_frame_def split: if_splits
        dest: rng)
  next
    case (Some t)
    have l: "hash_get (hash_move (threads ?P) (ucast new) 0) = (hash_get (threads ?P))(ucast new := None, 0 \<mapsto> t)"
      by (rule hash_table.lookup_move [OF tab(1) Some tab(3)])
    have n: "(ucast new :: u32) \<noteq> 0"
      using assms(3) by simp
    have old: "\<exists>j. hash_get (threads ?P) j = Some t' \<and> (k = 0 \<longrightarrow> j = ucast new) \<and> (k \<noteq> 0 \<longrightarrow> j = k)"
      if "hash_get (hash_move (threads ?P) (ucast new) 0) k = Some t'" for k t'
      using that Some by (auto simp: l split: if_splits)
    show ?thesis
      unfolding frame_switch_cases(1) [OF False Some]
    proof (rule frame_okI, simp_all add: park_parts hash_table.move_ok [OF tab(1) Some tab(3)])
      show "hash_get (hash_move (threads ?P) (ucast new) 0) 0 = Some t"
        by (simp add: l)
    next
      fix k t' assume "hash_get (hash_move (threads ?P) (ucast new) 0) k = Some t'"
      then obtain j where j: "hash_get (threads ?P) j = Some t'"
        using old by blast
      from rng(1) [OF j] show "t' < next_thread F" .
      show "(t' = t \<longrightarrow> stack_ok (profiles F) (frames (add_away cyc (thread_store ?P t))))
        \<and> (t' \<noteq> t \<longrightarrow> stack_ok (profiles F) (frames (thread_store F t')))"
        using rng(2) [OF j] by (auto simp: park_parts intro: add_away_stack)
    next
      fix k k' t' assume "hash_get (hash_move (threads ?P) (ucast new) 0) k = Some t'"
        "hash_get (hash_move (threads ?P) (ucast new) 0) k' = Some t'"
      then obtain j j' where j: "hash_get (threads ?P) j = Some t'" "(k = 0 \<longrightarrow> j = ucast new) \<and> (k \<noteq> 0 \<longrightarrow> j = k)"
        "hash_get (threads ?P) j' = Some t'" "(k' = 0 \<longrightarrow> j' = ucast new) \<and> (k' \<noteq> 0 \<longrightarrow> j' = k')"
        using old by metis
      have "k \<noteq> ucast new" "k' \<noteq> ucast new"
        using \<open>hash_get (hash_move (threads ?P) (ucast new) 0) k = Some t'\<close>
          \<open>hash_get (hash_move (threads ?P) (ucast new) 0) k' = Some t'\<close> n by (auto simp: l)
      moreover have "j' = j"
        by (rule rng(3) [OF j(1,3)])
      ultimately show "k' = k"
        using j(2,4) by metis
    qed
  qed
qed

lemma frame_switch_parks:
  fixes cyc :: u64 and pc :: u16
  assumes "frame_ok F" "current_thread F = Some t" "old \<noteq> 0" "new \<noteq> 0" "old \<noteq> new" "hash_get (threads F) (ucast old) = None"
  defines "F' \<equiv> frame_switch cyc pc old new F"
  shows "hash_get (threads F') (ucast old) = Some t" "hash_get (threads F') (ucast new) = None"
    and "thread_store F' t = (thread_store F t)\<lparr>switchcycle := cyc\<rparr>"
proof -
  let ?P = "park cyc old F"
  note tab = park_table [OF assms(1,3,6), of cyc]
  have P: "hash_get (threads ?P) (ucast old) = Some t"
    by (simp add: tab(2) assms(2))
  have st: "thread_store ?P t = (thread_store F t)\<lparr>switchcycle := cyc\<rparr>"
    by (simp add: park_def assms(2))
  have keys: "(ucast old :: u32) \<noteq> 0" "(ucast new :: u32) \<noteq> 0" "(ucast old :: u32) \<noteq> ucast new"
    using assms(3-5) by simp_all
  have "t < next_thread F"
    by (rule park_range(1) [OF assms(1,3,6) P])
  have "hash_get (threads F') (ucast old) = Some t \<and> hash_get (threads F') (ucast new) = None
      \<and> thread_store F' t = (thread_store F t)\<lparr>switchcycle := cyc\<rparr>"
  proof (cases "hash_get (threads ?P) (ucast new)")
    case None
    have l: "hash_get (hash_create (threads ?P) 0 t) = (hash_get (threads ?P))(0 \<mapsto> t)" for t
      by (rule hash_table.lookup_create [OF tab(1,3)])
    show ?thesis
      using P st keys \<open>t < next_thread F\<close>
      by (simp add: F'_def frame_switch_cases(2) [OF assms(5) None] Let_def l None)
  next
    case (Some t')
    have l: "hash_get (hash_move (threads ?P) (ucast new) 0) = (hash_get (threads ?P))(ucast new := None, 0 \<mapsto> t')"
      by (rule hash_table.lookup_move [OF tab(1) Some tab(3)])
    have "t' \<noteq> t"
      using park_range(3) [OF assms(1,3,6) P] Some keys(3) by metis
    then show ?thesis
      using P st keys by (simp add: F'_def frame_switch_cases(1) [OF assms(5) Some] l)
  qed
  then show "hash_get (threads F') (ucast old) = Some t" "hash_get (threads F') (ucast new) = None"
    and "thread_store F' t = (thread_store F t)\<lparr>switchcycle := cyc\<rparr>"
    by simp_all
qed

lemma frame_switch_resumes:
  fixes cyc :: u64 and pc :: u16
  assumes "frame_ok F" "hash_get (threads F) (ucast new) = Some t" "old \<noteq> 0" "new \<noteq> 0" "old \<noteq> new"
    "hash_get (threads F) (ucast old) = None"
  defines "F' \<equiv> frame_switch cyc pc old new F"
  shows "current_thread F' = Some t \<and> thread_store F' t = add_away cyc (thread_store F t)"
proof -
  let ?P = "park cyc old F"
  note tab = park_table [OF assms(1,3,6), of cyc]
  have keys: "(ucast new :: u32) \<noteq> 0" "(ucast new :: u32) \<noteq> ucast old"
    using assms(3-5) by simp_all
  then have P: "hash_get (threads ?P) (ucast new) = Some t"
    using assms(2) by (simp add: tab(2) split: option.split)
  have "current_thread F \<noteq> Some t"
    using frame_okD(2,5) [OF assms(1)] assms(2) keys(1) by metis
  then have "thread_store ?P t = thread_store F t"
    by (auto simp: park_def split: option.split)
  then show ?thesis
    by (simp add: F'_def frame_switch_cases(1) [OF assms(5) P])
qed

section \<open>Properties\<close>

text \<open>
  C14. The profiler accounts for every cycle exactly once: for any properly nested execution of calls and interrupt
  handlers the running thread gets its stack back, its frame is charged with the time of the call, each function
  is attributed the time its calls spent outside of their callees and of interrupt handlers, and
  all these local times add up to the duration of the outermost call.
\<close>

theorem frame_profile_exact:
  assumes "running t (p # ps) F" and "c_valid c"
  shows "(\<exists>F'. run_call m c F = Some F' \<and> running t (charge c p # ps) F'
      \<and> (\<forall>k. attributed (profiles F') k = attributed (profiles F) k + local_of k [c]))
    \<and> (\<Sum>d \<leftarrow> all_calls c. local_time d) = c_dur c"
  using run_call_profile(1) [OF assms] local_times_sum by blast

definition frame_ex0 :: frame_st where
  "frame_ex0 = frame_init \<lparr>profiles = \<lambda>_. None, threads = hash_init 5, thread_store = \<lambda>_. \<lparr>minfp = 0, switchcycle = 0, size_frames = 0, frames = []\<rparr>, next_thread = 0,
     current_thread = None, frame_opcstat = \<lambda>_. 0, frame_asmopcstat = \<lambda>_. 0\<rparr>"

definition frame_ex :: frame_st where
  "frame_ex = frame_switch 100 0x8000 0 0xfe00 frame_ex0"

lemma hash_init_ok: "hash_ok (hash_init 5 :: 'v hash_type)" "hash_get (hash_init 5 :: 'v hash_type) = (\<lambda>_. None)"
proof -
  have "hlist (hash_init 5 :: 'v hash_type) ! hidx 5 k = []" for k
    using hidx_less [of 5 k] by (simp add: hash_init_def)
  then show "hash_get (hash_init 5 :: 'v hash_type) = (\<lambda>_. None)"
    by (simp add: hash_get_def hash_init_def fun_eq_iff)
  show "hash_ok (hash_init 5 :: 'v hash_type)"
    by (simp add: hash_ok_def placed_def hash_init_def)
qed

lemma frame_ex_table: "hash_get (threads frame_ex) = [0 \<mapsto> 0]" "hash_ok (threads frame_ex)"
  "current_thread frame_ex = Some 0" "thread_store frame_ex 0 = \<lparr>minfp = 0xfe00, switchcycle = 100, size_frames = 2,
     frames = [new_frame 100 0x8000 0]\<rparr>" "next_thread frame_ex = 1" "profiles frame_ex = (\<lambda>_. None)"
  by (simp_all add: hash_init_ok frame_ex_def frame_ex0_def frame_init_def frame_switch_def new_frame_def Let_def
      hash_table.lookup_create hash_table.create_ok)

lemma frame_ex_ok: "frame_ok frame_ex"
  by (rule frame_okI) (auto simp: frame_ex_table stack_ok_def new_frame_def split: if_splits)

theorem frame_profile_exact_witness:
  "\<exists>F'. run_call (\<lambda>_. 0) (Call 200 0x9000 0xfdf0 False [Call 220 0x9100 0xfde0 True [] 250] 300) frame_ex = Some F'
    \<and> attributed (profiles F') 0x9000 = 70 \<and> attributed (profiles F') 0x9100 = 30"
proof -
  let ?c = "Call 200 0x9000 0xfdf0 False [Call 220 0x9100 0xfde0 True [] 250] 300"
  have "running 0 (new_frame 100 0x8000 0 # []) frame_ex"
    by (simp add: running_def frame_ex_table)
  from frame_profile_exact [OF this, of ?c "\<lambda>_. 0"] show ?thesis
    by (auto simp: local_of_def attributed_def frame_ex_table total_time_def c_irq_def)
qed



text \<open>
  Time spent in other threads is not charged: a thread that is switched away from at one cycle and back to at another is
  running again with its stack unchanged, except that the top frame has recorded the cycles in between as spent elsewhere.
\<close>

theorem frame_switch_back:
  assumes "frame_ok F" and "current_thread F = Some t" and "a \<noteq> 0" and "b \<noteq> 0" and "a \<noteq> b"
    and "hash_get (threads F) (ucast a) = None" and "frames (thread_store F t) = f # fs"
    and "F' = frame_switch c2 pc2 b a (frame_switch c1 pc1 a b F)"
  shows "frame_ok F' \<and> current_thread F' = Some t
    \<and> frames (thread_store F' t) = f\<lparr>threadcycles := threadcycles f + (c2 - c1)\<rparr> # fs"
proof -
  let ?F = "frame_switch c1 pc1 a b F"
  note p = frame_switch_parks [OF assms(1-6), of c1 pc1]
  have ok: "frame_ok ?F"
    by (rule frame_switch_ok [OF assms(1,3,4,6)])
  have "current_thread F' = Some t \<and> thread_store F' t = add_away c2 (thread_store ?F t)"
    unfolding assms(8) by (rule frame_switch_resumes [OF ok p(1) assms(4,3) assms(5) [symmetric] p(2)])
  moreover have "frame_ok F'"
    unfolding assms(8) by (rule frame_switch_ok [OF ok assms(4,3) p(2)])
  ultimately show ?thesis
    using assms(7) p(3) by (simp add: add_away_def)
qed

theorem frame_switch_back_witness:
  "frames (thread_store (frame_switch 500 0x8000 0xfd00 0xfdf0 (frame_switch 300 0x9000 0xfdf0 0xfd00 frame_ex)) 0)
     = [(new_frame 100 0x8000 0)\<lparr>threadcycles := 200\<rparr>]"
  using frame_switch_back [OF frame_ex_ok, of 0 "0xfdf0" "0xfd00" "new_frame 100 0x8000 0" "[]" _ 500 "0x8000" 300 "0x9000"]
  by (simp add: frame_ex_table new_frame_def)

end
