(* ===== verification/Memory.thy ===== *)
theory Memory
  imports Timer16 Timer8 Watchdog AdSensors Buttons Motor Serial Lcd Frame Coff Srec
begin

text \<open>
  The machine as a whole and its memory, \<^verbatim>\<open>memory.c\<close> and the access macros of \<^verbatim>\<open>memory.h\<close>: the memory map, the table of port handlers
  that the \<open>init\<close> functions of the peripherals fill, and reading and writing of bytes and words. A write to port 6 (the LCD) or
  to the TCR of the 16-bit timer calls \<open>wait_peripherals\<close>, which is the argument \<open>wait\<close> here. \<open>None\<close> is an access outside an array.
\<close>

section \<open>The machine\<close>

text \<open>The globals of \<^verbatim>\<open>h8300.c\<close> and the statics of \<^verbatim>\<open>peripherals.c\<close>.\<close>

record cpu =
  reg :: "u8 list"
  pc :: u16
  ccr :: u8
  irq_disabled_one :: bool
  db_trap :: int
  db_singlestep :: bool

record clock =
  lastusecs :: u64
  lastcycles :: u64
  nextsleep :: u64
  startusecs :: u64
  syscr :: u8
  stopped :: int
  sleeping :: bool

text \<open>
  The statics of \<^verbatim>\<open>debugger.c\<close>: whether a debugger is connected (\<open>gdbfd\<close>), the input buffer with the number of bytes in use, the
  used part of the output buffer, what has been written to the debugger, and the rest as in the code.
\<close>

record dbg =
  gdb_open :: bool
  db_in_buffer :: string
  db_len :: nat
  db_out :: string
  gdb_sent :: string
  sigval :: int
  remote_debug :: bool
  db_cont :: bool
  db_registers :: "u8 list"

text \<open>The ROM file, by its extension; a missing or unreadable one is \<open>No_rom\<close>.\<close>

datatype rom = No_rom | Coff_rom "u8 list" | Bin_rom "u8 list" | Srec_rom "u8 list"

text \<open>
  The last fields are the world outside: the bytes the GUI has sent and that are not read yet, what the socket of the debugger will deliver
  (one entry per read, an empty one when the debugger closes the connection), the clock of the host in microseconds, the port of the debugger, the files, and the contents of uninitialised local buffers.
\<close>

record machine =
  m_bus :: bus
  m_cpu :: cpu
  m_mem :: mem
  m_type :: mem
  m_t16 :: t16
  m_t8 :: t8
  m_wdog :: wdog
  m_ad :: ad
  m_btn :: btn
  m_motor :: motor
  m_ws :: waitstate
  m_ser :: ser
  m_lcd :: lcd
  m_frame :: frame_st
  m_syms :: symbol
  m_clock :: clock
  m_dbg :: dbg
  m_rom :: rom
  gui_in :: string
  dbg_in :: "string list"
  host_now :: u64
  monitorport :: int
  m_files :: "string \<Rightarrow> u8 list option"
  m_junk :: "nat \<Rightarrow> u8"

abbreviation MEMTYPE_BREAKPOINT :: u8 where "MEMTYPE_BREAKPOINT \<equiv> 0x01"
abbreviation MEMTYPE_LOG :: u8 where "MEMTYPE_LOG \<equiv> 0x02"
abbreviation MEMTYPE_WRITETRAP :: u8 where "MEMTYPE_WRITETRAP \<equiv> 0x04"
abbreviation MEMTYPE_READTRAP :: u8 where "MEMTYPE_READTRAP \<equiv> 0x08"
abbreviation MEMTYPE_MOTOR :: u8 where "MEMTYPE_MOTOR \<equiv> 0x20"
abbreviation MEMTYPE_FAST :: u8 where "MEMTYPE_FAST \<equiv> 0x40"
abbreviation MEMTYPE_DIV :: u8 where "MEMTYPE_DIV \<equiv> 0x80"

text \<open>A handler of one peripheral, run on the machine.\<close>

definition on_t16 :: "(bus \<Rightarrow> t16 \<Rightarrow> bus \<times> t16) \<Rightarrow> machine \<Rightarrow> machine" where
  "on_t16 f m = (let (b, s) = f (m_bus m) (m_t16 m) in m\<lparr>m_bus := b, m_t16 := s\<rparr>)"

definition on_t8 :: "(bus \<Rightarrow> t8 \<Rightarrow> bus \<times> t8) \<Rightarrow> machine \<Rightarrow> machine" where
  "on_t8 f m = (let (b, s) = f (m_bus m) (m_t8 m) in m\<lparr>m_bus := b, m_t8 := s\<rparr>)"

definition on_wdog :: "(bus \<Rightarrow> wdog \<Rightarrow> bus \<times> wdog) \<Rightarrow> machine \<Rightarrow> machine" where
  "on_wdog f m = (let (b, s) = f (m_bus m) (m_wdog m) in m\<lparr>m_bus := b, m_wdog := s\<rparr>)"

definition on_ad :: "(bus \<Rightarrow> ad \<Rightarrow> bus \<times> ad) \<Rightarrow> machine \<Rightarrow> machine" where
  "on_ad f m = (let (b, s) = f (m_bus m) (m_ad m) in m\<lparr>m_bus := b, m_ad := s\<rparr>)"

definition on_btn :: "(bus \<Rightarrow> btn \<Rightarrow> bus \<times> btn) \<Rightarrow> machine \<Rightarrow> machine" where
  "on_btn f m = (let (b, s) = f (m_bus m) (m_btn m) in m\<lparr>m_bus := b, m_btn := s\<rparr>)"

definition on_motor :: "(bus \<Rightarrow> motor \<Rightarrow> bus \<times> motor) \<Rightarrow> machine \<Rightarrow> machine" where
  "on_motor f m = (let (b, s) = f (m_bus m) (m_motor m) in m\<lparr>m_bus := b, m_motor := s\<rparr>)"

definition on_ser :: "(bus \<Rightarrow> ser \<Rightarrow> bus \<times> ser) \<Rightarrow> machine \<Rightarrow> machine" where
  "on_ser f m = (let (b, s) = f (m_bus m) (m_ser m) in m\<lparr>m_bus := b, m_ser := s\<rparr>)"

text \<open>The LCD works on a triple; the rest is the machine without the LCD and the bus.\<close>

definition lcd_wait :: "(machine \<Rightarrow> machine option) \<Rightarrow> machine lcd_st \<Rightarrow> machine lcd_st option" where
  "lcd_wait wait = (\<lambda>(l, b, r). map_option (\<lambda>m. (m_lcd m, m_bus m, m)) (wait (r\<lparr>m_bus := b, m_lcd := l\<rparr>)))"

definition lcd_analog :: "u8 \<Rightarrow> machine \<Rightarrow> machine" where
  "lcd_analog v r = r\<lparr>m_motor := set_analog_active v (m_motor r)\<rparr>"

definition on_port6 :: "(machine \<Rightarrow> machine option) \<Rightarrow> u8 \<Rightarrow> machine \<Rightarrow> machine option" where
  "on_port6 wait v m =
     map_option (\<lambda>(l, b, r). r\<lparr>m_bus := b, m_lcd := l\<rparr>) (set_port6 (lcd_wait wait) lcd_analog v (m_lcd m, m_bus m, m))"

text \<open>Bits 3 and 1 of SYSCR cannot be written.\<close>

definition set_syscr :: "u8 \<Rightarrow> clock \<Rightarrow> clock" where
  "set_syscr value c = c\<lparr>syscr := value XOR ((syscr c XOR value) AND 0x0A)\<rparr>"

definition get_syscr :: "clock \<Rightarrow> u8" where
  "get_syscr c = syscr c"

section \<open>The port table\<close>

text \<open>The entries \<open>port[0x..].get\<close> and \<open>port[0x..].set\<close> of the registers at \<open>0xff..\<close>, as the \<open>init\<close> function of each
  peripheral fills them in.\<close>

definition ser_port_get :: "(u8 \<times> (machine \<Rightarrow> u8 \<times> machine)) list" where
  "ser_port_get = [
    (0xd8, \<lambda>m. (get_SMR (m_ser m), m)),
    (0xd9, \<lambda>m. (get_BRR (m_ser m), m)),
    (0xda, \<lambda>m. (get_SCR (m_ser m), m)),
    (0xdb, \<lambda>m. (get_TDR (m_ser m), m)),
    (0xdc, \<lambda>m. let (v, s) = get_SSR (m_ser m) in (v, m\<lparr>m_ser := s\<rparr>)),
    (0xdd, \<lambda>m. (get_RDR (m_ser m), m))]"

definition ser_port_set :: "(u8 \<times> (u8 \<Rightarrow> machine \<Rightarrow> machine option)) list" where
  "ser_port_set = [
    (0xd8, \<lambda>v m. Some (m\<lparr>m_ser := set_SMR v (m_bus m) (m_ser m)\<rparr>)),
    (0xd9, \<lambda>v m. Some (m\<lparr>m_ser := set_BRR v (m_bus m) (m_ser m)\<rparr>)),
    (0xda, \<lambda>v m. Some (on_ser (set_SCR v) m)),
    (0xdb, \<lambda>v m. Some (m\<lparr>m_ser := set_TDR v (m_ser m)\<rparr>)),
    (0xdc, \<lambda>v m. Some (on_ser (set_SSR v) m))]"

definition periph_port_get :: "(u8 \<times> (machine \<Rightarrow> u8 \<times> machine)) list" where
  "periph_port_get = [
    (0xc4, \<lambda>m. (get_syscr (m_clock m), m))]"

definition periph_port_set :: "(u8 \<times> (u8 \<Rightarrow> machine \<Rightarrow> machine option)) list" where
  "periph_port_set = [
    (0xc4, \<lambda>v m. Some (m\<lparr>m_clock := set_syscr v (m_clock m)\<rparr>))]"

definition t16_port_get :: "(u8 \<times> (machine \<Rightarrow> u8 \<times> machine)) list" where
  "t16_port_get = [
    (0x90, \<lambda>m. (get_TIER (m_t16 m), m)),
    (0x91, \<lambda>m. (t16_get_TCSR (m_t16 m), m)),
    (0x92, \<lambda>m. let (v, s) = get_FRCH (m_t16 m) in (v, m\<lparr>m_t16 := s\<rparr>)),
    (0x93, \<lambda>m. (get_FRCL (m_t16 m), m)),
    (0x94, \<lambda>m. (get_OCRH (m_t16 m), m)),
    (0x95, \<lambda>m. (get_OCRL (m_t16 m), m)),
    (0x96, \<lambda>m. (get_TCR (m_t16 m), m)),
    (0x97, \<lambda>m. (get_TOCR (m_t16 m), m)),
    (0x98, \<lambda>m. (get_ICRAH (m_t16 m), m)),
    (0x99, \<lambda>m. (get_ICRAL (m_t16 m), m))]"

definition t16_port_set :: "(machine \<Rightarrow> machine option) \<Rightarrow> (u8 \<times> (u8 \<Rightarrow> machine \<Rightarrow> machine option)) list" where
  "t16_port_set wait = [
    (0x90, \<lambda>v m. Some (on_t16 (set_TIER v) m)),
    (0x91, \<lambda>v m. Some (on_t16 (t16_set_TCSR v) m)),
    (0x92, \<lambda>v m. Some (m\<lparr>m_t16 := set_FRCH v (m_t16 m)\<rparr>)),
    (0x93, \<lambda>v m. Some (m\<lparr>m_t16 := set_FRCL v (m_t16 m)\<rparr>)),
    (0x94, \<lambda>v m. Some (m\<lparr>m_t16 := set_OCRH v (m_t16 m)\<rparr>)),
    (0x95, \<lambda>v m. Some (m\<lparr>m_t16 := set_OCRL v (m_t16 m)\<rparr>)),
    (0x96, \<lambda>v m. map_option (\<lambda>m1. m1\<lparr>m_t16 := set_TCR v (m_t16 m1)\<rparr>) (wait m)),
    (0x97, \<lambda>v m. Some (m\<lparr>m_t16 := set_TOCR v (m_t16 m)\<rparr>))]"

definition t8_port_get :: "(u8 \<times> (machine \<Rightarrow> u8 \<times> machine)) list" where
  "t8_port_get = [
    (0xc3, \<lambda>m. (get_STCR (m_t8 m), m)),
    (0xc8, \<lambda>m. (get_TCR0 (m_t8 m), m)),
    (0xc9, \<lambda>m. let (v, b, s) = get_TCSR0 (m_bus m) (m_t8 m) in (v, m\<lparr>m_bus := b, m_t8 := s\<rparr>)),
    (0xca, \<lambda>m. (get_TCORA0 (m_t8 m), m)),
    (0xcb, \<lambda>m. (get_TCORB0 (m_t8 m), m)),
    (0xcc, \<lambda>m. (get_TCNT0 (m_t8 m), m)),
    (0xd0, \<lambda>m. (get_TCR1 (m_t8 m), m)),
    (0xd1, \<lambda>m. let (v, b, s) = get_TCSR1 (m_bus m) (m_t8 m) in (v, m\<lparr>m_bus := b, m_t8 := s\<rparr>)),
    (0xd2, \<lambda>m. (get_TCORA1 (m_t8 m), m)),
    (0xd3, \<lambda>m. (get_TCORB1 (m_t8 m), m)),
    (0xd4, \<lambda>m. (get_TCNT1 (m_t8 m), m))]"

definition t8_port_set :: "(u8 \<times> (u8 \<Rightarrow> machine \<Rightarrow> machine option)) list" where
  "t8_port_set = [
    (0xc3, \<lambda>v m. Some (on_t8 (set_STCR v) m)),
    (0xc8, \<lambda>v m. Some (on_t8 (set_TCR0 v) m)),
    (0xc9, \<lambda>v m. Some (on_t8 (set_TCSR0 v) m)),
    (0xca, \<lambda>v m. Some (on_t8 (set_TCORA0 v) m)),
    (0xcb, \<lambda>v m. Some (on_t8 (set_TCORB0 v) m)),
    (0xcc, \<lambda>v m. Some (on_t8 (set_TCNT0 v) m)),
    (0xd0, \<lambda>v m. Some (on_t8 (set_TCR1 v) m)),
    (0xd1, \<lambda>v m. Some (on_t8 (set_TCSR1 v) m)),
    (0xd2, \<lambda>v m. Some (on_t8 (set_TCORA1 v) m)),
    (0xd3, \<lambda>v m. Some (on_t8 (set_TCORB1 v) m)),
    (0xd4, \<lambda>v m. Some (on_t8 (set_TCNT1 v) m))]"

definition btn_port_get :: "(u8 \<times> (machine \<Rightarrow> u8 \<times> machine)) list" where
  "btn_port_get = [
    (0xb7, \<lambda>m. (get_port4 (m_btn m), m)),
    (0xbe, \<lambda>m. (get_port7 (m_btn m), m)),
    (0xc6, \<lambda>m. (get_iscr (m_btn m), m)),
    (0xc7, \<lambda>m. (get_ier (m_btn m), m))]"

definition btn_port_set :: "(u8 \<times> (u8 \<Rightarrow> machine \<Rightarrow> machine option)) list" where
  "btn_port_set = [
    (0xc6, \<lambda>v m. Some (on_btn (set_iscr v) m)),
    (0xc7, \<lambda>v m. Some (on_btn (set_ier v) m))]"

definition lcd_port_set :: "(machine \<Rightarrow> machine option) \<Rightarrow> (u8 \<times> (u8 \<Rightarrow> machine \<Rightarrow> machine option)) list" where
  "lcd_port_set wait = [
    (0xbb, on_port6 wait)]"

definition ws_port_get :: "(u8 \<times> (machine \<Rightarrow> u8 \<times> machine)) list" where
  "ws_port_get = [
    (0xc2, \<lambda>m. (get_WCSR (m_ws m), m))]"

definition ws_port_set :: "(u8 \<times> (u8 \<Rightarrow> machine \<Rightarrow> machine option)) list" where
  "ws_port_set = [
    (0xc2, \<lambda>v m. Some (m\<lparr>m_ws := set_WCSR v (m_ws m)\<rparr>))]"

definition ad_port_get :: "(u8 \<times> (machine \<Rightarrow> u8 \<times> machine)) list" where
  "ad_port_get = [
    (0xe0, \<lambda>m. let (v, s) = get_addr_h 0 (m_ad m) in (v, m\<lparr>m_ad := s\<rparr>)),
    (0xe1, \<lambda>m. (get_addr_l (m_ad m), m)),
    (0xe2, \<lambda>m. let (v, s) = get_addr_h 1 (m_ad m) in (v, m\<lparr>m_ad := s\<rparr>)),
    (0xe3, \<lambda>m. (get_addr_l (m_ad m), m)),
    (0xe4, \<lambda>m. let (v, s) = get_addr_h 2 (m_ad m) in (v, m\<lparr>m_ad := s\<rparr>)),
    (0xe5, \<lambda>m. (get_addr_l (m_ad m), m)),
    (0xe6, \<lambda>m. let (v, s) = get_addr_h 3 (m_ad m) in (v, m\<lparr>m_ad := s\<rparr>)),
    (0xe7, \<lambda>m. (get_addr_l (m_ad m), m)),
    (0xe8, \<lambda>m. let (v, s) = get_adcsr (m_ad m) in (v, m\<lparr>m_ad := s\<rparr>)),
    (0xe9, \<lambda>m. (get_adcr (m_ad m), m))]"

definition ad_port_set :: "(u8 \<times> (u8 \<Rightarrow> machine \<Rightarrow> machine option)) list" where
  "ad_port_set = [
    (0xe8, \<lambda>v m. Some (on_ad (set_adcsr v) m)),
    (0xe9, \<lambda>v m. Some (on_ad (set_adcr v) m))]"

definition wdog_port_get :: "(u8 \<times> (machine \<Rightarrow> u8 \<times> machine)) list" where
  "wdog_port_get = [
    (0xa8, \<lambda>m. let (v, s) = wd_get_TCSR (m_wdog m) in (v, m\<lparr>m_wdog := s\<rparr>)),
    (0xa9, \<lambda>m. (wd_get_TCNT (m_wdog m), m))]"

definition wdog_port_set :: "(u8 \<times> (u8 \<Rightarrow> machine \<Rightarrow> machine option)) list" where
  "wdog_port_set = [
    (0xa8, \<lambda>v m. Some (m\<lparr>m_wdog := set_pw v (m_wdog m)\<rparr>)),
    (0xa9, \<lambda>v m. Some (on_wdog (set_val v) m))]"

definition port_get :: "(u8 \<times> (machine \<Rightarrow> u8 \<times> machine)) list" where
  "port_get = ser_port_get @ periph_port_get @ t16_port_get @ t8_port_get @ btn_port_get @ ws_port_get @ ad_port_get @ wdog_port_get"

definition port_set :: "(machine \<Rightarrow> machine option) \<Rightarrow> (u8 \<times> (u8 \<Rightarrow> machine \<Rightarrow> machine option)) list" where
  "port_set wait = ser_port_set @ periph_port_set @ t16_port_set wait @ t8_port_set @ btn_port_set @ lcd_port_set wait @ ws_port_set @ ad_port_set @ wdog_port_set"

lemmas port_defs = port_get_def port_set_def ser_port_get_def periph_port_get_def t16_port_get_def t8_port_get_def btn_port_get_def ws_port_get_def ad_port_get_def wdog_port_get_def ser_port_set_def periph_port_set_def t16_port_set_def t8_port_set_def btn_port_set_def lcd_port_set_def ws_port_set_def ad_port_set_def wdog_port_set_def

section \<open>Access to the memory\<close>

definition set_trap :: "int \<Rightarrow> machine \<Rightarrow> machine" where
  "set_trap n m = m\<lparr>m_cpu := (m_cpu m)\<lparr>db_trap := n\<rparr>\<rparr>"

definition poke :: "u16 \<Rightarrow> u8 \<Rightarrow> machine \<Rightarrow> machine" where
  "poke a v m = m\<lparr>m_mem := (m_mem m)(a := v)\<rparr>"

definition port_read :: "u16 \<Rightarrow> machine \<Rightarrow> machine" where
  "port_read addr m =
    (case map_of port_get (ucast addr) of
       None \<Rightarrow> m
     | Some gb \<Rightarrow> let (v, m1) = gb m in poke addr v m1)"

definition port_write :: "(machine \<Rightarrow> machine option) \<Rightarrow> u16 \<Rightarrow> u8 \<Rightarrow> machine \<Rightarrow> machine option" where
  "port_write wait addr val m =
    (case map_of (port_set wait) (ucast addr) of None \<Rightarrow> Some m | Some sb \<Rightarrow> sb val m)"

definition get_byte_div :: "u16 \<Rightarrow> machine \<Rightarrow> u8 \<times> machine" where
  "get_byte_div addr m =
    (if 0xff88 < addr then let m1 = port_read addr m in (m_mem m1 addr, m1)
     else (0, set_trap 10 m))"

definition get_word_div :: "u16 \<Rightarrow> machine \<Rightarrow> (u16 \<times> machine) option" where
  "get_word_div addr m =
    (let m1 = (if bit addr 0 then set_trap 10 m
               else if 0xff88 < addr then port_read (addr + 1) (port_read addr m)
               else set_trap 10 m)
     in map_option (\<lambda>w. (w, m1)) (mem_word (m_mem m1) addr))"

definition GET_BYTE :: "u16 \<Rightarrow> machine \<Rightarrow> u8 \<times> machine" where
  "GET_BYTE addr m = (if m_type m addr AND MEMTYPE_DIV = 0 then (m_mem m addr, m) else get_byte_div addr m)"

definition GET_WORD :: "u16 \<Rightarrow> machine \<Rightarrow> (u16 \<times> machine) option" where
  "GET_WORD addr m =
    (if \<not> bit addr 0 \<and> m_type m addr AND MEMTYPE_DIV = 0 then map_option (\<lambda>w. (w, m)) (mem_word (m_mem m) addr)
     else get_word_div addr m)"

definition SET_BYTE :: "(machine \<Rightarrow> machine option) \<Rightarrow> u16 \<Rightarrow> u8 \<Rightarrow> machine \<Rightarrow> machine option" where
  "SET_BYTE wait addr val m =
     map_option (poke addr val)
       (if m_type m addr AND MEMTYPE_MOTOR \<noteq> 0 then Some (m\<lparr>m_motor := set_motor val (m_bus m) (m_motor m)\<rparr>)
        else if m_type m addr AND MEMTYPE_DIV \<noteq> 0 then
          (if 0xff88 < addr then port_write wait addr val m else Some (set_trap 10 m))
        else Some m)"

definition SET_WORD :: "(machine \<Rightarrow> machine option) \<Rightarrow> u16 \<Rightarrow> u16 \<Rightarrow> machine \<Rightarrow> machine option" where
  "SET_WORD wait addr val m =
    (if addr = 0xffff then None
     else
       let m1 = poke (addr + 1) (ucast val) (poke addr (ucast (drop_bit 8 val)) m)
       in if m_type m addr AND MEMTYPE_MOTOR \<noteq> 0 then
            Some (m1\<lparr>m_motor := set_motor (ucast val) (m_bus m1) (m_motor m1)\<rparr>)
          else if m_type m addr AND MEMTYPE_DIV \<noteq> 0 then
            (if 0xff88 < addr then
               Option.bind (port_write wait addr (ucast (drop_bit 8 val)) m1) (port_write wait (addr + 1) (ucast val))
             else Some (set_trap 10 m1))
          else Some m1)"

definition add_cycles :: "u64 \<Rightarrow> machine \<Rightarrow> machine" where
  "add_cycles n m = m\<lparr>m_bus := (m_bus m)\<lparr>cycles := cycles (m_bus m) + n\<rparr>\<rparr>"

definition byte_cycles :: "u8 \<Rightarrow> u64" where
  "byte_cycles t = 2 + ucast (drop_bit 6 (NOT t AND MEMTYPE_FAST))"

definition word_cycles :: "u8 \<Rightarrow> u64" where
  "word_cycles t = 2 + ucast (drop_bit 4 (NOT t AND MEMTYPE_FAST))"

definition GET_BYTE_CYCLES :: "u16 \<Rightarrow> machine \<Rightarrow> u8 \<times> machine" where
  "GET_BYTE_CYCLES addr m = GET_BYTE addr (add_cycles (byte_cycles (m_type m addr)) m)"

definition GET_WORD_CYCLES :: "u16 \<Rightarrow> machine \<Rightarrow> (u16 \<times> machine) option" where
  "GET_WORD_CYCLES addr m = GET_WORD addr (add_cycles (word_cycles (m_type m addr)) m)"

definition SET_BYTE_CYCLES :: "(machine \<Rightarrow> machine option) \<Rightarrow> u16 \<Rightarrow> u8 \<Rightarrow> machine \<Rightarrow> machine option" where
  "SET_BYTE_CYCLES wait addr val m = SET_BYTE wait addr val (add_cycles (byte_cycles (m_type m addr)) m)"

definition SET_WORD_CYCLES :: "(machine \<Rightarrow> machine option) \<Rightarrow> u16 \<Rightarrow> u16 \<Rightarrow> machine \<Rightarrow> machine option" where
  "SET_WORD_CYCLES wait addr val m = SET_WORD wait addr val (add_cycles (word_cycles (m_type m addr)) m)"

section \<open>The memory map and the ROM\<close>

text \<open>The chip is the H8/3292 that \<^verbatim>\<open>h8300.h\<close> selects.\<close>

definition init_memtype :: mem where
  "init_memtype a =
    (if a < 0x4000 then MEMTYPE_FAST OR MEMTYPE_WRITETRAP
     else if a < 0x8000 then MEMTYPE_DIV
     else if a < 0xf000 then 0
     else if a < 0xfb80 then MEMTYPE_MOTOR
     else if a < 0xfd80 then MEMTYPE_DIV
     else if a < 0xff80 then MEMTYPE_FAST
     else if a < 0xff88 then MEMTYPE_MOTOR
     else MEMTYPE_DIV)"

definition junk_srec :: "(nat \<Rightarrow> u8) \<Rightarrow> srec_t" where
  "junk_srec g = \<lparr>srec_type = unat (g 0), srec_addr = unat (g 1), srec_count = g 2, srec_data = uninit g 512\<rparr>"

definition read_rom :: "machine \<Rightarrow> (bool \<times> machine) option" where
  "read_rom m =
    (case m_rom m of
       No_rom \<Rightarrow> Some (False, m)
     | Coff_rom file \<Rightarrow>
         if coff_init (m_junk m) file then
           Option.bind (coff_read (m_junk m) file (m_mem m)) (\<lambda>(entry, mem1).
             map_option (\<lambda>tree. (True, m\<lparr>m_mem := mem1, m_syms := tree\<rparr>)) (coff_symbols (m_junk m) file (m_syms m)))
         else Some (False, m)
     | Bin_rom file \<Rightarrow> map_option (\<lambda>mem1. (True, m\<lparr>m_mem := mem1\<rparr>)) (mem_write (m_mem m) 0 (fread file 0 0x4000))
     | Srec_rom file \<Rightarrow>
         map_option (\<lambda>(entry, mem1). (0 \<le> entry, m\<lparr>m_mem := mem1\<rparr>))
           (srec_read file (junk_srec (m_junk m)) 0 (m_mem m)))"

text \<open>\<open>mem_init\<close> stops the program when there is no ROM: the result is then \<open>Inl\<close>.\<close>

definition mem_init :: "rom \<Rightarrow> machine \<Rightarrow> (unit + machine) option" where
  "mem_init rom m =
     map_option (\<lambda>(ok, m1). if ok then Inr (m1\<lparr>m_type := init_memtype\<rparr>) else Inl ()) (read_rom (m\<lparr>m_rom := rom\<rparr>))"

section \<open>Lemmas\<close>

lemma poke_simps [simp]:
  "m_mem (poke a v m) = (m_mem m)(a := v)" "m_type (poke a v m) = m_type m" "m_bus (poke a v m) = m_bus m"
  "m_cpu (poke a v m) = m_cpu m" "m_motor (poke a v m) = m_motor m"
  by (simp_all add: poke_def)

text \<open>An address of plain memory has neither a port nor the motor behind it.\<close>

definition plain :: "machine \<Rightarrow> u16 \<Rightarrow> bool" where
  "plain m a \<longleftrightarrow> m_type m a AND (MEMTYPE_DIV OR MEMTYPE_MOTOR) = 0"

lemma plain_bits:
  assumes "plain m a"
  shows "m_type m a AND MEMTYPE_DIV = 0" "m_type m a AND MEMTYPE_MOTOR = 0"
  using assms by (simp_all add: plain_def u8_eq_iff bit_simps)

lemma SET_BYTE_plain: "plain m a \<Longrightarrow> SET_BYTE wait a v m = Some (poke a v m)"
  by (simp add: SET_BYTE_def plain_bits)

lemma SET_WORD_plain:
  "plain m a \<Longrightarrow> a \<noteq> 0xffff \<Longrightarrow> SET_WORD wait a w m = Some (poke (a + 1) (ucast w) (poke a (ucast (drop_bit 8 w)) m))"
  by (simp add: SET_WORD_def plain_bits)

lemma word_split: "push_bit 8 (ucast (ucast (drop_bit 8 w) :: u8)) OR ucast (ucast w :: u8) = (w :: u16)"
  by (rule join16)

lemma mem_word_poke: "a \<noteq> 0xffff \<Longrightarrow> mem_word (f(a := ucast (drop_bit 8 w), a + 1 := ucast w)) a = Some w"
  by (simp add: mem_word_def word_split)

lemma even_not_last: "\<not> bit (a :: u16) 0 \<Longrightarrow> a \<noteq> 0xffff"
  by auto

lemma port_get_keys: "map fst port_get = [0xd8, 0xd9, 0xda, 0xdb, 0xdc, 0xdd, 0xc4, 0x90, 0x91, 0x92, 0x93, 0x94, 0x95, 0x96, 0x97, 0x98, 0x99, 0xc3, 0xc8, 0xc9,
  0xca, 0xcb, 0xcc, 0xd0, 0xd1, 0xd2, 0xd3, 0xd4, 0xb7, 0xbe, 0xc6, 0xc7, 0xc2, 0xe0, 0xe1, 0xe2, 0xe3, 0xe4, 0xe5, 0xe6, 0xe7, 0xe8, 0xe9, 0xa8, 0xa9]"
  by (simp add: port_defs)

lemma port_set_keys: "map fst (port_set wait) = [0xd8, 0xd9, 0xda, 0xdb, 0xdc, 0xc4, 0x90, 0x91, 0x92, 0x93, 0x94, 0x95, 0x96, 0x97, 0xc3, 0xc8, 0xc9, 0xca,
  0xcb, 0xcc, 0xd0, 0xd1, 0xd2, 0xd3, 0xd4, 0xc6, 0xc7, 0xbb, 0xc2, 0xe8, 0xe9, 0xa8, 0xa9]"
  by (simp add: port_defs)

lemma plain_map:
  assumes "m_type m = init_memtype"
  shows "plain m a \<longleftrightarrow> a < 0x4000 \<or> 0x8000 \<le> a \<and> a < 0xf000 \<or> 0xfd80 \<le> a \<and> a < 0xff80"
proof -
  have w: "a < b \<longleftrightarrow> unat a < unat b" "b \<le> a \<longleftrightarrow> unat b \<le> unat a" for b
    by (simp_all add: word_less_nat_alt word_le_nat_alt)
  show ?thesis
    by (auto simp: plain_def assms init_memtype_def w)
qed

section \<open>Properties\<close>

text \<open>
  Plain memory reads back what was written, as a byte or, at an even address, as a big-endian word, and a write changes
  nothing else in the machine.
\<close>

theorem memory_read_write:
  assumes "plain m a"
  shows "SET_BYTE wait a v m = Some (m\<lparr>m_mem := (m_mem m)(a := v)\<rparr>)
    \<and> GET_BYTE a (m\<lparr>m_mem := (m_mem m)(a := v)\<rparr>) = (v, m\<lparr>m_mem := (m_mem m)(a := v)\<rparr>)
    \<and> (\<not> bit a 0 \<longrightarrow> (\<exists>m1. SET_WORD wait a w m = Some m1 \<and> GET_WORD a m1 = Some (w, m1)
         \<and> m1 = m\<lparr>m_mem := (m_mem m)(a := ucast (drop_bit 8 w), a + 1 := ucast w)\<rparr>))"
proof -
  have "m_mem m1 = (m_mem m)(a := ucast (drop_bit 8 w), a + 1 := ucast w) \<Longrightarrow> m_type m1 = m_type m \<Longrightarrow> \<not> bit a 0
      \<Longrightarrow> GET_WORD a m1 = Some (w, m1)" for m1
    using assms even_not_last [of a] by (simp add: GET_WORD_def plain_bits mem_word_poke)
  then show ?thesis
    using assms SET_WORD_plain [OF assms, of wait w] even_not_last [of a]
    by (auto simp: SET_BYTE_plain GET_BYTE_def plain_bits poke_def)
qed

definition cpu_ex :: cpu where
  "cpu_ex = \<lparr>reg = replicate 7 0 @ [0xfe] @ replicate 8 0, pc = 0x8000, ccr = 0, irq_disabled_one = False, db_trap = 0,
     db_singlestep = False\<rparr>"

definition clock_ex :: clock where
  "clock_ex = \<lparr>lastusecs = 1000000, lastcycles = 0, nextsleep = 1000000, startusecs = 1000000, syscr = 0x0b, stopped = 0, sleeping = False\<rparr>"

definition dbg_ex :: dbg where
  "dbg_ex = \<lparr>gdb_open = True, db_in_buffer = replicate 2048 (CHR 0x00), db_len = 0, db_out = [], gdb_sent = [], sigval = 0,
     remote_debug = False, db_cont = False, db_registers = replicate 52 0\<rparr>"

definition lcd_ex :: lcd where
  "lcd_ex = \<lparr>lcd_data = replicate 12 0, lcd_mode = 0, lcd_ptr = 0, lcd_subaddr = 0, i2c_state = 0, i2c_data = 0, i2c_bitnr = 0xff,
     port6 = 0x20\<rparr>"

definition machine_ex :: machine where
  "machine_ex = \<lparr>m_bus = bus_ex, m_cpu = cpu_ex, m_mem = \<lambda>_. 0, m_type = init_memtype, m_t16 = t16_ex, m_t8 = t8_ex, m_wdog = wdog_ex,
     m_ad = ad_ex, m_btn = btn_ex, m_motor = motor_ex, m_ws = \<lparr>wcsr = 8, wait_states = 0\<rparr>, m_ser = ser_ex, m_lcd = lcd_ex,
     m_frame = frame_ex, m_syms = Null, m_clock = clock_ex, m_dbg = dbg_ex, m_rom = No_rom, gui_in = [], dbg_in = [], host_now = 1000000,
     monitorport = 9000, m_files = \<lambda>_. None, m_junk = \<lambda>_. 0\<rparr>"

theorem memory_read_write_witness:
  "\<exists>m1. SET_WORD Some 0xfe00 0x1234 machine_ex = Some m1 \<and> GET_WORD 0xfe00 m1 = Some (0x1234, m1) \<and> m_mem m1 0xfe01 = 0x34"
proof -
  have "plain machine_ex 0xfe00"
    by (simp add: plain_map machine_ex_def)
  from memory_read_write [OF this, of Some 0 "0x1234"] show ?thesis
    by (auto simp: machine_ex_def)
qed

text \<open>
  The memory map and the port table fit together: every handler belongs to an address above \<open>0xff88\<close> where accesses are diverted to
  the table, no address has two handlers, every register that can be written can be read except port 6, and the
  addresses of RAM are exactly the plain ones outside the ROM.
\<close>

theorem port_table_reachable:
  shows "distinct (map fst port_get) \<and> distinct (map fst (port_set wait))
    \<and> list_all (\<lambda>k. 0x88 < k \<and> init_memtype (0xff00 OR ucast k) = MEMTYPE_DIV) (map fst port_get @ map fst (port_set wait))
    \<and> set (map fst (port_set wait)) - set (map fst port_get) = {0xbb}
    \<and> (plain (m\<lparr>m_type := init_memtype\<rparr>) a \<longleftrightarrow> a < 0x4000 \<or> 0x8000 \<le> a \<and> a < 0xf000 \<or> 0xfd80 \<le> a \<and> a < 0xff80)"
proof -
  have 1: "distinct (map fst port_get) \<and> distinct (map fst (port_set wait))"
    unfolding port_get_keys port_set_keys by code_simp
  have 2: "list_all (\<lambda>k. 0x88 < k \<and> init_memtype (0xff00 OR ucast k) = MEMTYPE_DIV) (map fst port_get @ map fst (port_set wait))"
    unfolding port_get_keys port_set_keys by code_simp
  have 3: "set (map fst (port_set wait)) - set (map fst port_get) = {0xbb}"
    unfolding port_get_keys port_set_keys by code_simp
  from 1 2 3 plain_map [of "m\<lparr>m_type := init_memtype\<rparr>" a] show ?thesis
    by simp
qed

end
