(* ===== verification/Peripherals.thy ===== *)
theory Peripherals
  imports Memory
begin

text \<open>
  The scheduler of the emulator, \<^verbatim>\<open>peripherals.c\<close>: keeping simulated and real time together, updating the peripherals, reset, interrupts,
  sleep and traps, and the state the component itself saves. The host clock and the bytes that have arrived on the two
  sockets are part of the machine; \<open>select\<close> reports input exactly when such bytes are there. The handlers of the
  registered peripherals for GUI messages, and the one of the debugger, are the argument \<open>H\<close>, as the code calls
  them through the array \<open>peripherals\<close>.
\<close>

section \<open>Time\<close>

record hooks =
  gui_hook :: "char \<Rightarrow> (machine \<Rightarrow> machine option) option"
  db_hook :: "machine \<Rightarrow> machine option"

definition CYCLES_PER_USEC :: u64 where "CYCLES_PER_USEC = 16"

abbreviation MAX_AUTONOMOUS_CYCLES :: u32 where "MAX_AUTONOMOUS_CYCLES \<equiv> 1600000"

text \<open>
  A peripheral that is registered without a \<open>read_fd\<close> is called through a null pointer: no result. An unknown letter is
  dropped.
\<close>

definition registered_ids :: string where
  "registered_ids = ''SPCT8BLAWFMO''"

definition gui_message :: "hooks \<Rightarrow> machine \<Rightarrow> machine option" where
  "gui_message H m =
    (case gui_in m of
       [] \<Rightarrow> Some m
     | ident # rest \<Rightarrow>
         let m1 = m\<lparr>gui_in := rest\<rparr>
         in case gui_hook H ident of
              Some f \<Rightarrow> f m1
            | None \<Rightarrow> if ident \<in> set registered_ids then None else Some m1)"

text \<open>The time that has passed since the last call is added in whole microseconds to both counters.\<close>

definition advance_time :: "machine \<Rightarrow> machine" where
  "advance_time m =
    (let c = m_clock m;
         usecs = (cycles (m_bus m) - lastcycles c) div CYCLES_PER_USEC
     in m\<lparr>m_clock := c\<lparr>lastusecs := lastusecs c + usecs, lastcycles := lastcycles c + usecs * CYCLES_PER_USEC\<rparr>\<rparr>)"

text \<open>
  \<open>select\<close> looks at both sockets at once, before the first handler runs. While the time is stopped it has no timeout: without input
  the call never returns, which is \<open>None\<close>.
\<close>

definition synchronize_time :: "hooks \<Rightarrow> machine \<Rightarrow> machine option" where
  "synchronize_time H m =
    (let m1 = advance_time m; c = m_clock m1
     in if stopped c \<noteq> 0 \<and> gui_in m1 = [] \<and> dbg_in m1 = [] then None
        else if nextsleep c < lastusecs c \<or> stopped c \<noteq> 0 then
          map_option (\<lambda>m2. m2\<lparr>m_clock := (m_clock m2)\<lparr>nextsleep := lastusecs (m_clock m2) + 1000\<rparr>\<rparr>)
            (Option.bind (gui_message H m1) (\<lambda>m2. if dbg_in m1 = [] then Some m2 else db_hook H m2))
        else Some m1)"

definition stop_time :: "machine \<Rightarrow> machine" where
  "stop_time m =
    (let c = m_clock m
     in if stopped c = 0
        then m\<lparr>m_clock := c\<lparr>stopped := stopped c + 1, lastusecs := lastusecs c - host_now m, startusecs := startusecs c - host_now m\<rparr>\<rparr>
        else m\<lparr>m_clock := c\<lparr>stopped := stopped c + 1\<rparr>\<rparr>)"

definition cont_time :: "machine \<Rightarrow> machine" where
  "cont_time m =
    (let c = m_clock m
     in if stopped c = 1
        then m\<lparr>m_clock := c\<lparr>stopped := stopped c - 1, lastusecs := lastusecs c + host_now m, startusecs := startusecs c + host_now m,
               nextsleep := lastusecs c + host_now m\<rparr>\<rparr>
        else m\<lparr>m_clock := c\<lparr>stopped := stopped c - 1\<rparr>\<rparr>)"

text \<open>The \<open>update_time\<close> of the registered peripherals, in the order of their registration in \<open>main\<close>.\<close>

definition update_peripherals :: "machine \<Rightarrow> machine" where
  "update_peripherals m =
     on_motor motor_update_time (on_wdog wdog_update_time (on_ad ad_update_time (on_t8 t8_update_time
       (on_t16 t16_update_time (on_ser ser_update_time m)))))"

definition wait_peripherals :: "hooks \<Rightarrow> machine \<Rightarrow> machine option" where
  "wait_peripherals H m = map_option update_peripherals (synchronize_time H m)"

section \<open>Reset\<close>

definition reset_peripherals :: "machine \<Rightarrow> machine" where
  "reset_peripherals m =
    (let b = m_bus m
     in m\<lparr>m_ser := ser_reset b (m_ser m), m_t16 := t16_reset b (m_t16 m), m_t8 := t8_reset b (m_t8 m),
          m_btn := btn_reset (m_btn m), m_ad := ad_reset (m_ad m), m_wdog := wdog_reset b\<rparr>)"

definition do_reset :: "(machine \<Rightarrow> machine option) \<Rightarrow> machine \<Rightarrow> machine option" where
  "do_reset wait m =
    (let m1 = reset_peripherals (m\<lparr>m_cpu := (m_cpu m)\<lparr>irq_disabled_one := True, ccr := 0x80\<rparr>\<rparr>)
     in Option.bind (read_rom (m1\<lparr>m_syms := symbols_removeall (m_syms m1)\<rparr>)) (\<lambda>(_, m2).
        Option.bind (wait m2) (\<lambda>m3.
        map_option (\<lambda>(w, m4). m4\<lparr>m_cpu := (m_cpu m4)\<lparr>pc := w\<rparr>\<rparr>)
          (GET_WORD_CYCLES 0 (set_trap 0 (add_cycles 1 m3))))))"

section \<open>Interrupts\<close>

definition GET_REG16 :: "nat \<Rightarrow> cpu \<Rightarrow> u16" where
  "GET_REG16 nr c = push_bit 8 (ucast (reg c ! nr)) OR ucast (reg c ! (nr + 8))"

definition SET_REG16 :: "nat \<Rightarrow> u16 \<Rightarrow> cpu \<Rightarrow> cpu" where
  "SET_REG16 nr val c = c\<lparr>reg := (reg c)[nr := ucast (drop_bit 8 val), nr + 8 := ucast val]\<rparr>"

text \<open>The smallest number that the \<open>check_irq\<close> functions report, in order of registration; some of them change their state.\<close>

definition select_irq :: "machine \<Rightarrow> nat \<times> machine" where
  "select_irq m =
    (let (ib, btn1) = btn_check_irq (m_btn m);
         (iw, b1, wd1) = wdog_check_irq (m_bus m) (m_wdog m)
     in (min (min (min (min (min (min 255 (ser_check_irq (m_ser m))) (t16_check_irq (m_t16 m))) (t8_check_irq (m_t8 m))) ib)
              (ad_check_irq (m_ad m))) iw,
         m\<lparr>m_btn := btn1, m_bus := b1, m_wdog := wd1\<rparr>))"

text \<open>The exception sequence: prefetch, push of the program counter and the condition codes, fetch of the vector.\<close>

definition enter_irq :: "(machine \<Rightarrow> machine option) \<Rightarrow> nat \<Rightarrow> machine \<Rightarrow> machine option" where
  "enter_irq wait selirq m =
    (let irqcycles = cycles (m_bus m)
     in Option.bind (GET_WORD_CYCLES (pc (m_cpu m)) m) (\<lambda>(_, m1).
        let sp = GET_REG16 7 (m_cpu m1) - 4
        in Option.bind (SET_WORD_CYCLES wait (sp + 2) (pc (m_cpu m1)) m1) (\<lambda>m2.
           let cc = ccr (m_cpu m2)
           in Option.bind (SET_WORD_CYCLES wait sp (push_bit 8 (ucast cc) OR ucast cc) m2) (\<lambda>m3.
              let c3 = SET_REG16 7 sp (m_cpu m3)
              in Option.bind (GET_WORD_CYCLES (of_nat (selirq * 2)) (m3\<lparr>m_cpu := c3\<lparr>ccr := ccr c3 OR 0x80\<rparr>\<rparr>)) (\<lambda>(v, m4).
                 map_option (\<lambda>F. m4\<lparr>m_cpu := (m_cpu m4)\<lparr>pc := v\<rparr>, m_frame := F\<rparr>)
                   (frame_begin irqcycles v (sp + 2) True (m_frame m4)))))))"

definition check_irq :: "(machine \<Rightarrow> machine option) \<Rightarrow> machine \<Rightarrow> (bool \<times> machine) option" where
  "check_irq wait m =
    (let b = m_bus m;
         m1 = m\<lparr>m_bus := b\<lparr>next_timer_cycle := add_to_cycle (CHR ''T'') (cycles b) MAX_AUTONOMOUS_CYCLES,
                           next_nmi_cycle := add_to_cycle (CHR ''I'') (cycles b) MAX_AUTONOMOUS_CYCLES\<rparr>\<rparr>
     in Option.bind (wait m1) (\<lambda>m2.
        let (selirq, m3) = select_irq m2
        in if selirq < (if ccr (m_cpu m3) AND 0x80 \<noteq> 0 then 4 else 255) then
             map_option (Pair True)
               (if selirq = 0 then do_reset wait (m3\<lparr>m_bus := (m_bus m3)\<lparr>cycles := next_nmi_cycle (m_bus m3)\<rparr>\<rparr>)
                else enter_irq wait selirq m3)
           else Some (False, m3)))"

section \<open>Traps and sleep\<close>

text \<open>The loops wait for the GUI or the debugger; not ending is \<open>None\<close>.\<close>

partial_function (option) trap_loop :: "hooks \<Rightarrow> machine \<Rightarrow> machine option" where
  "trap_loop H m = (if db_trap (m_cpu m) = 0 then Some m else Option.bind (synchronize_time H m) (trap_loop H))"

definition periph_handletrap :: "hooks \<Rightarrow> (machine \<Rightarrow> machine option) \<Rightarrow> machine \<Rightarrow> machine option" where
  "periph_handletrap H db_handletrap m =
     map_option cont_time (Option.bind (db_handletrap (stop_time m)) (trap_loop H))"

definition step_back :: "machine \<Rightarrow> machine" where
  "step_back m = m\<lparr>m_cpu := (m_cpu m)\<lparr>pc := pc (m_cpu m) - 2\<rparr>\<rparr>"

text \<open>The deadline that wakes a sleeping CPU.\<close>

definition skip_to_deadline :: "machine \<Rightarrow> machine" where
  "skip_to_deadline m = m\<lparr>m_bus := (m_bus m)\<lparr>cycles :=
     (if ccr (m_cpu m) AND 0x80 \<noteq> 0 then next_nmi_cycle (m_bus m) else next_timer_cycle (m_bus m))\<rparr>\<rparr>"

partial_function (option) sleep_loop ::
  "(machine \<Rightarrow> machine) \<Rightarrow> (machine \<Rightarrow> machine option) \<Rightarrow> machine \<Rightarrow> machine option" where
  "sleep_loop adv wait m =
    (if db_trap (m_cpu m) \<noteq> 0 then Some (step_back m)
     else Option.bind (check_irq wait (adv m)) (\<lambda>(fired, m1).
       if \<not> fired \<and> sleeping (m_clock m1) then sleep_loop adv wait m1 else Some m1))"

definition standby_cycles :: "u8 \<Rightarrow> u32" where
  "standby_cycles s =
    (let k = s AND 0x70
     in if k = 0x00 then 8192 else if k = 0x10 then 16384 else if k = 0x20 then 32768 else if k = 0x30 then 65536
        else if k = 0x40 \<or> k = 0x50 then 131072 else 0)"

definition cpu_sleep :: "(machine \<Rightarrow> machine option) \<Rightarrow> machine \<Rightarrow> machine option" where
  "cpu_sleep wait m =
    (let m1 = m\<lparr>m_clock := (m_clock m)\<lparr>sleeping := True\<rparr>\<rparr>
     in map_option
          (\<lambda>m2. let s = syscr (m_clock m2);
                    m3 = (if s AND 0x80 \<noteq> 0
                          then reset_peripherals (m2\<lparr>m_bus := (m_bus m2)\<lparr>cycles :=
                                 add_to_cycle (CHR ''C'') (cycles (m_bus m2)) (standby_cycles s)\<rparr>\<rparr>)
                          else m2)
                in m3\<lparr>m_clock := (m_clock m3)\<lparr>sleeping := False\<rparr>\<rparr>)
          (if syscr (m_clock m1) AND 0x80 = 0 then sleep_loop skip_to_deadline wait m1
           else map_option cont_time (sleep_loop id wait (stop_time m1))))"

section \<open>Saved state and commands of the GUI\<close>

record periph_save_type =
  svp_wait_states :: u32
  svp_cycles :: u64
  svp_next_timer_cycle :: u64
  svp_next_nmi_cycle :: u64
  svp_db_trap :: u32
  svp_reg :: "u8 list"
  svp_pc :: u16
  svp_ccr :: u8
  svp_syscr :: u8

definition periph_save :: "machine \<Rightarrow> periph_save_type" where
  "periph_save m =
    (let c = m_cpu m; b = m_bus m
     in \<lparr>svp_wait_states = htonl (of_nat (wait_states (m_ws m))), svp_cycles = htonl_cc (cycles b),
         svp_next_timer_cycle = htonl_cc (next_timer_cycle b), svp_next_nmi_cycle = htonl_cc (next_nmi_cycle b),
         svp_db_trap = htonl (of_int (db_trap c)), svp_reg = reg c,
         svp_pc = htons (if sleeping (m_clock m) then pc c - 2 else pc c), svp_ccr = ccr c, svp_syscr = syscr (m_clock m)\<rparr>)"

definition periph_load :: "periph_save_type \<Rightarrow> machine \<Rightarrow> machine" where
  "periph_load d m =
    (let cyc = htonl_cc (svp_cycles d)
     in m\<lparr>m_cpu := (m_cpu m)\<lparr>reg := svp_reg d, pc := htons (svp_pc d), ccr := svp_ccr d,
                             db_trap := sint (htonl (svp_db_trap d))\<rparr>,
          m_bus := (m_bus m)\<lparr>cycles := cyc, next_timer_cycle := htonl_cc (svp_next_timer_cycle d),
                             next_nmi_cycle := htonl_cc (svp_next_nmi_cycle d)\<rparr>,
          m_ws := (m_ws m)\<lparr>wait_states := unat (htonl (svp_wait_states d))\<rparr>,
          m_clock := (m_clock m)\<lparr>syscr := svp_syscr d, sleeping := False, lastcycles := cyc, lastusecs := 0\<rparr>\<rparr>)"

text \<open>Reading one byte of a command; a byte that never comes is \<open>None\<close>.\<close>

definition periph_read_fd :: "(machine \<Rightarrow> machine option) \<Rightarrow> machine \<Rightarrow> machine option" where
  "periph_read_fd wait m =
    (case gui_in m of
       [] \<Rightarrow> None
     | cmd # rest \<Rightarrow>
         let m1 = m\<lparr>gui_in := rest\<rparr>
         in if cmd = CHR ''R'' then
              map_option (\<lambda>m2. m2\<lparr>m_clock := (m_clock m2)\<lparr>sleeping := False\<rparr>\<rparr>) (do_reset wait m1)
            else if cmd = CHR ''D'' then
              Some (m1\<lparr>m_bus := gui_write (''PD'' @ print_int (monitorport m1) @ [CHR 0x0A]) (m_bus m1)\<rparr>)
            else Some m1)"


section \<open>A calm machine\<close>

text \<open>Nothing has arrived from outside, and the time is running.\<close>

definition calm :: "machine \<Rightarrow> bool" where
  "calm m \<longleftrightarrow> gui_in m = [] \<and> dbg_in m = [] \<and> stopped (m_clock m) = 0"

lemma sync_calm:
  assumes "calm m"
  shows "\<exists>c. synchronize_time H m = Some (m\<lparr>m_clock := c\<rparr>) \<and> syscr c = syscr (m_clock m)
    \<and> stopped c = stopped (m_clock m) \<and> sleeping c = sleeping (m_clock m)"
  using assms by (auto simp: calm_def synchronize_time_def advance_time_def gui_message_def Let_def)

lemma update_peripherals_keeps:
  "m_lcd (update_peripherals m) = m_lcd m" "m_mem (update_peripherals m) = m_mem m" "m_type (update_peripherals m) = m_type m"
  "m_cpu (update_peripherals m) = m_cpu m" "m_frame (update_peripherals m) = m_frame m" "m_syms (update_peripherals m) = m_syms m"
  "m_btn (update_peripherals m) = m_btn m" "m_ws (update_peripherals m) = m_ws m" "m_clock (update_peripherals m) = m_clock m"
  "gui_in (update_peripherals m) = gui_in m" "dbg_in (update_peripherals m) = dbg_in m" "m_dbg (update_peripherals m) = m_dbg m"
  by (simp_all add: update_peripherals_def on_motor_def on_wdog_def on_ad_def on_t8_def on_t16_def on_ser_def split_beta)

lemma wait_calm:
  assumes "calm m"
  shows "\<exists>m'. wait_peripherals H m = Some m' \<and> calm m' \<and> m_lcd m' = m_lcd m \<and> m_mem m' = m_mem m \<and> m_type m' = m_type m
    \<and> m_cpu m' = m_cpu m \<and> m_frame m' = m_frame m \<and> m_syms m' = m_syms m \<and> m_btn m' = m_btn m \<and> m_ws m' = m_ws m"
  using sync_calm [OF assms, of H] assms by (auto simp: wait_peripherals_def update_peripherals_keeps calm_def)

interpretation lcd_calm: quiet_wait "lcd_wait (wait_peripherals H)" "\<lambda>(b, r). calm r" for H
proof (unfold_locales, goal_cases)
  case (1 br l)
  obtain b r where br: "br = (b, r)" "calm r"
    using 1 by (cases br) auto
  then have "calm (r\<lparr>m_bus := b, m_lcd := l\<rparr>)"
    by (simp add: calm_def)
  then obtain m' where "wait_peripherals H (r\<lparr>m_bus := b, m_lcd := l\<rparr>) = Some m'" "calm m'" "m_lcd m' = l"
    using wait_calm [of "r\<lparr>m_bus := b, m_lcd := l\<rparr>" H] by auto
  then show ?case
    by (simp add: lcd_wait_def br)
qed simp

section \<open>Time\<close>

lemma word_div_mod_16: "(x :: u64) - x div 16 * 16 = x mod 16"
  by (metis minus_div_mult_eq_mod)

lemma advance_time_exact:
  "cycles (m_bus m) - lastcycles (m_clock (advance_time m)) = (cycles (m_bus m) - lastcycles (m_clock m)) mod 16"
  "(lastusecs (m_clock (advance_time m)) - lastusecs (m_clock m)) * 16
     = lastcycles (m_clock (advance_time m)) - lastcycles (m_clock m)"
proof -
  let ?x = "cycles (m_bus m) - lastcycles (m_clock m)"
  show "cycles (m_bus m) - lastcycles (m_clock (advance_time m)) = ?x mod 16"
    using word_div_mod_16 [of ?x] by (simp add: advance_time_def CYCLES_PER_USEC_def Let_def algebra_simps)
  show "(lastusecs (m_clock (advance_time m)) - lastusecs (m_clock m)) * 16
     = lastcycles (m_clock (advance_time m)) - lastcycles (m_clock m)"
    by (simp add: advance_time_def CYCLES_PER_USEC_def Let_def)
qed


section \<open>Entering an interrupt\<close>

definition mword :: "machine \<Rightarrow> u16 \<Rightarrow> u16" where
  "mword m a = push_bit 8 (ucast (m_mem m a)) OR ucast (m_mem m (a + 1))"

lemma add_cycles_simps [simp]:
  "m_type (add_cycles n m) = m_type m" "m_mem (add_cycles n m) = m_mem m" "m_cpu (add_cycles n m) = m_cpu m"
  "m_frame (add_cycles n m) = m_frame m" "cycles (m_bus (add_cycles n m)) = cycles (m_bus m) + n"
  "plain (add_cycles n m) = plain m" "plain (poke a v m) = plain m" "m_frame (poke a v m) = m_frame m"
  by (simp_all add: add_cycles_def plain_def poke_def fun_eq_iff)

lemma GET_WORD_CYCLES_plain:
  assumes "plain m a" "\<not> bit a 0"
  shows "GET_WORD_CYCLES a m = Some (mword m a, add_cycles (word_cycles (m_type m a)) m)"
  using assms even_not_last [of a] by (simp add: GET_WORD_CYCLES_def GET_WORD_def plain_bits mem_word_def mword_def)

lemma SET_WORD_CYCLES_plain:
  assumes "plain m a" "a \<noteq> 0xffff"
  shows "SET_WORD_CYCLES wait a w m = Some (poke (a + 1) (ucast w) (poke a (ucast (drop_bit 8 w)) (add_cycles (word_cycles (m_type m a)) m)))"
  using assms by (simp add: SET_WORD_CYCLES_def SET_WORD_plain)

lemma GET_SET_REG16: "length (reg c) = 16 \<Longrightarrow> k < 8 \<Longrightarrow> GET_REG16 k (SET_REG16 k w c) = w"
  by (simp add: GET_REG16_def SET_REG16_def nth_list_update word_split)

lemma even_word_next: "\<not> bit (a :: u16) 0 \<Longrightarrow> \<not> bit (a + 2) 0"
proof -
  have "bit (x + 2) 0 = bit x 0" for x :: u16
    by (simp add: bit_0)
  then show "\<not> bit a 0 \<Longrightarrow> \<not> bit (a + 2) 0" by simp
qed

text \<open>Where an interrupt can be entered: the program runs at an even address, the stack lies in RAM, the vector in plain memory.\<close>

definition irq_ready :: "nat \<Rightarrow> machine \<Rightarrow> bool" where
  "irq_ready n m \<longleftrightarrow> n < 64 \<and> (let c = m_cpu m; sp = GET_REG16 7 c - 4 in
     \<not> bit (pc c) 0 \<and> plain m (pc c) \<and> \<not> bit sp 0 \<and> plain m sp \<and> plain m (sp + 2)
     \<and> 0x8000 \<le> sp \<and> sp \<le> 0xfffa \<and> plain m (of_nat (2 * n)) \<and> length (reg c) = 16 \<and> frame_ok (m_frame m))"

lemma double_byte:
  fixes c :: u8
  shows "ucast (push_bit 8 (ucast c) OR ucast c :: u16) = c" "ucast (drop_bit 8 (push_bit 8 (ucast c) OR ucast c :: u16)) = c"
  by (rule bit_word_eqI, auto simp: bit_simps dest: bit_imp_le_length)+

lemma vector_apart:
  fixes sp k :: u16
  assumes "n < 64" "0x8000 \<le> sp" "sp \<le> 0xfffa" and k: "k = 0 \<or> k = 1 \<or> k = 2 \<or> k = 3"
  shows "of_nat (2 * n) \<noteq> sp + k" "of_nat (2 * n) + 1 \<noteq> sp + k"
proof -
  have u: "unat (of_nat (2 * n) :: u16) = 2 * n"
    using assms(1) by (simp only: unat_of_nat) (simp add: take_bit_nat_eq_self)
  then have v: "unat (of_nat (2 * n) + 1 :: u16) = 2 * n + 1"
    using assms(1) by (simp add: unat_plus_if_size word_size)
  have s: "0x8000 \<le> unat sp" "unat sp \<le> 0xfffa"
    using assms(2,3) by (simp_all add: word_le_nat_alt)
  then have "unat (sp + k) = unat sp + unat k"
    using k by (auto simp: unat_plus_if_size word_size)
  then have "2 * n + 1 < unat (sp + k)"
    using s assms(1) by linarith
  then show "of_nat (2 * n) \<noteq> sp + k" "of_nat (2 * n) + 1 \<noteq> sp + k"
    using u v by (metis less_add_one order_less_asym, metis less_irrefl)
qed

lemma enter_irq_plain:
  assumes "irq_ready n m"
  defines "sp \<equiv> GET_REG16 7 (m_cpu m) - 4"
  shows "\<exists>m'. enter_irq wait n m = Some m' \<and> pc (m_cpu m') = mword m (of_nat (2 * n))
    \<and> ccr (m_cpu m') = ccr (m_cpu m) OR 0x80 \<and> GET_REG16 7 (m_cpu m') = sp
    \<and> m_mem m' = (m_mem m)(sp := ccr (m_cpu m), sp + 1 := ccr (m_cpu m),
         sp + 2 := ucast (drop_bit 8 (pc (m_cpu m))), sp + 3 := ucast (pc (m_cpu m)))
    \<and> frame_ok (m_frame m') \<and> cycles (m_bus m') = cycles (m_bus m) + word_cycles (m_type m (pc (m_cpu m)))
         + word_cycles (m_type m (sp + 2)) + word_cycles (m_type m sp) + word_cycles (m_type m (of_nat (2 * n)))"
proof -
  let ?c = "m_cpu m" and ?v = "of_nat (2 * n) :: u16"
  let ?t = "\<lambda>a. word_cycles (m_type m a)"
  have r: "\<not> bit (pc ?c) 0" "plain m (pc ?c)" "\<not> bit sp 0" "plain m sp" "plain m (sp + 2)" "plain m ?v" "length (reg ?c) = 16"
    "frame_ok (m_frame m)" "n < 64" "0x8000 \<le> sp" "sp \<le> 0xfffa"
    using assms(1) by (simp_all add: irq_ready_def sp_def Let_def)
  have v: "\<not> bit ?v 0"
    by (simp add: bit_0)
  note far = vector_apart [OF r(9-11)]
  define m1 where "m1 = add_cycles (?t (pc ?c)) m"
  define m2 where "m2 = poke (sp + 2 + 1) (ucast (pc ?c)) (poke (sp + 2) (ucast (drop_bit 8 (pc ?c))) (add_cycles (?t (sp + 2)) m1))"
  define m3 where "m3 = poke (sp + 1) (ccr ?c) (poke sp (ccr ?c) (add_cycles (?t sp) m2))"
  define m4 where "m4 = m3\<lparr>m_cpu := (SET_REG16 7 sp ?c)\<lparr>ccr := ccr ?c OR 0x80\<rparr>\<rparr>"
  have sp2: "sp + 2 \<noteq> 0xffff" "sp \<noteq> 0xffff"
    using even_not_last [OF even_word_next [OF r(3)]] even_not_last [OF r(3)] by simp_all
  have 1: "GET_WORD_CYCLES (pc ?c) m = Some (mword m (pc ?c), m1)"
    by (simp add: GET_WORD_CYCLES_plain [OF r(2,1)] m1_def)
  have 2: "SET_WORD_CYCLES wait (sp + 2) (pc ?c) m1 = Some m2"
    using r(5) sp2(1) by (simp add: SET_WORD_CYCLES_plain m1_def m2_def)
  have 3: "SET_WORD_CYCLES wait sp (push_bit 8 (ucast (ccr ?c)) OR ucast (ccr ?c)) m2 = Some m3"
  proof -
    have "plain m2 sp" "m_type m2 = m_type m"
      using r(4) by (simp_all add: m1_def m2_def)
    then show ?thesis
      unfolding SET_WORD_CYCLES_plain [OF \<open>plain m2 sp\<close> sp2(2)] double_byte m3_def by simp
  qed
  have p4: "plain m4 ?v" and t4: "m_type m4 = m_type m" and c4: "m_cpu m1 = ?c" "m_cpu m2 = ?c" "m_cpu m3 = ?c"
    using r(6) by (simp_all add: m4_def m3_def m2_def m1_def plain_def)
  have mem: "m_mem m4 = (m_mem m)(sp := ccr ?c, sp + 1 := ccr ?c, sp + 2 := ucast (drop_bit 8 (pc ?c)), sp + 3 := ucast (pc ?c))"
    by (auto simp: m4_def m3_def m2_def m1_def fun_eq_iff add.assoc)
  then have w: "mword m4 ?v = mword m ?v"
    using far [of 0] far [of 1] far [of 2] far [of 3] by (simp add: mword_def)
  have 4: "GET_WORD_CYCLES ?v m4 = Some (mword m ?v, add_cycles (?t ?v) m4)"
    unfolding GET_WORD_CYCLES_plain [OF p4 v] w t4 ..
  have f4: "m_frame m4 = m_frame m" and b4: "cycles (m_bus m4) = cycles (m_bus m) + ?t (pc ?c) + ?t (sp + 2) + ?t sp"
    by (simp_all add: m4_def m3_def m2_def m1_def add.assoc)
  have ccr3: "ccr (SET_REG16 7 sp ?c) = ccr ?c"
    by (simp add: SET_REG16_def)
  obtain F where F: "frame_begin (cycles (m_bus m)) (mword m ?v) (sp + 2) True (m_frame m) = Some F" "frame_ok F"
    using frame_begin_ok [OF r(8)] by blast
  have "enter_irq wait n m = Some ((add_cycles (?t ?v) m4)\<lparr>m_cpu := (m_cpu m4)\<lparr>pc := mword m ?v\<rparr>, m_frame := F\<rparr>)"
    unfolding enter_irq_def Let_def 1 bind.bind_lunit prod.case c4 sp_def [symmetric] 2 3 ccr3 m4_def [symmetric]
      mult.commute [of n] 4 add_cycles_simps f4 F(1) option.map(2) ..
  moreover have "GET_REG16 7 (m_cpu m4) = sp"
    using GET_SET_REG16 [OF r(7), of 7 sp] by (simp add: m4_def GET_REG16_def)
  ultimately show ?thesis
    using mem F(2) b4 by (simp add: m4_def GET_REG16_def SET_REG16_def)
qed


section \<open>Which interrupt is taken\<close>

definition irq_numbers :: "machine \<Rightarrow> nat set" where
  "irq_numbers m = {ser_check_irq (m_ser m), t16_check_irq (m_t16 m), t8_check_irq (m_t8 m), fst (btn_check_irq (m_btn m)),
     ad_check_irq (m_ad m), fst (wdog_check_irq (m_bus m) (m_wdog m))}"

lemma filter_first: "filter P [0..<k] = i # r \<Longrightarrow> i < k"
  by (metis atLeastLessThan_iff filter_is_subset list.set_intros(1) set_upt subsetD)

lemma irq_numbers_range:
  "ser_check_irq s \<in> {28, 29, 30, 255}" "t16_check_irq t \<in> {12..<19} \<union> {255}" "t8_check_irq u \<in> {19..<25} \<union> {255}"
  "fst (btn_check_irq b) \<in> {4..<7} \<union> {255}" "ad_check_irq a \<in> {35, 255}" "fst (wdog_check_irq x w) \<in> {0, 3, 255}"
  by (auto simp: ser_check_irq_def t16_check_irq_def t8_check_irq_def btn_check_irq_def ad_check_irq_def wdog_check_irq_def
      Let_def split: list.split dest: filter_first)

lemma irq_bounds: "ser_check_irq s \<le> 255" "t16_check_irq t \<le> 255" "t8_check_irq u \<le> 255"
  "fst (btn_check_irq b) \<le> 255" "ad_check_irq a \<le> 255" "fst (wdog_check_irq x w) \<le> 255"
proof -
  show "ser_check_irq s \<le> 255" using irq_numbers_range(1) [of s] by auto
  show "t16_check_irq t \<le> 255" using irq_numbers_range(2) [of t] by auto
  show "t8_check_irq u \<le> 255" using irq_numbers_range(3) [of u] by auto
  show "fst (btn_check_irq b) \<le> 255" using irq_numbers_range(4) [of b] by auto
  show "ad_check_irq a \<le> 255" using irq_numbers_range(5) [of a] by auto
  show "fst (wdog_check_irq x w) \<le> 255" using irq_numbers_range(6) [of x w] by auto
qed

lemma irq_numbers_le: "finite (irq_numbers m)" "irq_numbers m \<noteq> {}" "n \<in> irq_numbers m \<Longrightarrow> n \<le> 255"
proof -
  show "finite (irq_numbers m)" "irq_numbers m \<noteq> {}"
    by (simp_all add: irq_numbers_def)
  show "n \<in> irq_numbers m \<Longrightarrow> n \<le> 255"
    unfolding irq_numbers_def using irq_bounds by blast
qed

lemma min_chain: "min (min (min (min (min (min k a) b) c) d) e) f = min k (Min {a, b, c, d, e, f})" for k :: nat
  by (simp add: min.assoc)

lemma select_irq_Min: "fst (select_irq m) = Min (irq_numbers m)"
proof -
  have "Min (irq_numbers m) \<le> 255"
    using irq_numbers_le Min_in by metis
  then have "min 255 (Min (irq_numbers m)) = Min (irq_numbers m)"
    by (rule min.absorb2)
  then show ?thesis
    unfolding select_irq_def irq_numbers_def by (simp only: split_beta Let_def fst_conv min_chain)
qed

lemma select_irq_keeps:
  "m_cpu (snd (select_irq m)) = m_cpu m" "m_mem (snd (select_irq m)) = m_mem m" "m_type (snd (select_irq m)) = m_type m"
  "m_frame (snd (select_irq m)) = m_frame m" "m_btn (snd (select_irq m)) = snd (btn_check_irq (m_btn m))"
  unfolding select_irq_def Let_def split_beta by simp_all

lemma irq_ready_cong:
  "m_cpu m' = m_cpu m \<Longrightarrow> m_type m' = m_type m \<Longrightarrow> m_frame m' = m_frame m \<Longrightarrow> irq_ready n m' = irq_ready n m"
  by (simp add: irq_ready_def plain_def)

definition reset_deadlines :: "machine \<Rightarrow> machine" where
  "reset_deadlines m = m\<lparr>m_bus := (m_bus m)\<lparr>next_timer_cycle := add_to_cycle (CHR ''T'') (cycles (m_bus m)) MAX_AUTONOMOUS_CYCLES,
     next_nmi_cycle := add_to_cycle (CHR ''I'') (cycles (m_bus m)) MAX_AUTONOMOUS_CYCLES\<rparr>\<rparr>"

definition irq_limit :: "machine \<Rightarrow> nat" where
  "irq_limit m = (if ccr (m_cpu m) AND 0x80 \<noteq> 0 then 4 else 255)"

lemma check_irq_calm:
  assumes "calm m"
  shows "\<exists>m2. wait_peripherals H (reset_deadlines m) = Some m2 \<and> m_btn m2 = m_btn m
    \<and> (irq_limit m \<le> Min (irq_numbers m2) \<longrightarrow> check_irq (wait_peripherals H) m = Some (False, snd (select_irq m2)))
    \<and> (\<forall>n. n = Min (irq_numbers m2) \<longrightarrow> 0 < n \<longrightarrow> n < irq_limit m \<longrightarrow> irq_ready n m \<longrightarrow>
         (\<exists>m'. check_irq (wait_peripherals H) m = Some (True, m') \<and> pc (m_cpu m') = mword m (of_nat (2 * n))
            \<and> ccr (m_cpu m') AND 0x80 \<noteq> 0
            \<and> (let sp = GET_REG16 7 (m_cpu m') in sp = GET_REG16 7 (m_cpu m) - 4
                 \<and> mword m' (sp + 2) = pc (m_cpu m) \<and> m_mem m' sp = ccr (m_cpu m))))"
proof -
  have "calm (reset_deadlines m)"
    using assms by (simp add: calm_def reset_deadlines_def)
  then obtain m2 where m2: "wait_peripherals H (reset_deadlines m) = Some m2" "m_mem m2 = m_mem m" "m_type m2 = m_type m"
    "m_cpu m2 = m_cpu m" "m_frame m2 = m_frame m" "m_btn m2 = m_btn m"
    using wait_calm [of "reset_deadlines m" H] by (auto simp: reset_deadlines_def)
  let ?m3 = "snd (select_irq m2)" and ?n = "Min (irq_numbers m2)"
  have m3: "m_cpu ?m3 = m_cpu m" "m_mem ?m3 = m_mem m" "m_type ?m3 = m_type m" "m_frame ?m3 = m_frame m"
    by (simp_all add: select_irq_keeps m2)
  have ci: "check_irq (wait_peripherals H) m =
      (if ?n < irq_limit m then map_option (Pair True)
         (if ?n = 0 then do_reset (wait_peripherals H) (?m3\<lparr>m_bus := (m_bus ?m3)\<lparr>cycles := next_nmi_cycle (m_bus ?m3)\<rparr>\<rparr>)
          else enter_irq (wait_peripherals H) ?n ?m3)
       else Some (False, ?m3))"
    unfolding check_irq_def Let_def reset_deadlines_def [symmetric] m2(1) bind.bind_lunit split_beta select_irq_Min m3
      irq_limit_def ..
  have "\<exists>m'. check_irq (wait_peripherals H) m = Some (True, m') \<and> pc (m_cpu m') = mword m (of_nat (2 * ?n))
      \<and> ccr (m_cpu m') AND 0x80 \<noteq> 0 \<and> (let sp = GET_REG16 7 (m_cpu m') in sp = GET_REG16 7 (m_cpu m) - 4
        \<and> mword m' (sp + 2) = pc (m_cpu m) \<and> m_mem m' sp = ccr (m_cpu m))"
    if n: "0 < ?n" "?n < irq_limit m" and r: "irq_ready ?n m"
  proof -
    have "irq_ready ?n ?m3"
      using r irq_ready_cong m3(1,3,4) by blast
    from enter_irq_plain [OF this, of "wait_peripherals H"] obtain m' where
      m': "enter_irq (wait_peripherals H) ?n ?m3 = Some m'" "pc (m_cpu m') = mword ?m3 (of_nat (2 * ?n))"
      "ccr (m_cpu m') = ccr (m_cpu m) OR 0x80" "GET_REG16 7 (m_cpu m') = GET_REG16 7 (m_cpu m) - 4"
      "m_mem m' = (let sp = GET_REG16 7 (m_cpu m) - 4 in (m_mem m)(sp := ccr (m_cpu m), sp + 1 := ccr (m_cpu m),
         sp + 2 := ucast (drop_bit 8 (pc (m_cpu m))), sp + 3 := ucast (pc (m_cpu m))))"
      unfolding m3 Let_def by blast
    have "(c OR 0x80) AND 0x80 \<noteq> 0" for c :: u8
      by (simp add: u8_eq_iff bit_simps)
    then show ?thesis
      using n m' by (intro exI [of _ m']) (simp add: ci Let_def mword_def m3 word_split)
  qed
  then show ?thesis
    using m2(1,6) ci by (intro exI [of _ m2]) auto
qed


lemma wait_watchdog_off:
  assumes "calm m" "wd_tcsr (m_wdog m) AND WD_TME = 0" "wait_peripherals H m = Some m'"
  shows "m_wdog m' = m_wdog m"
  using assms sync_calm [OF assms(1), of H]
  by (auto simp: wait_peripherals_def update_peripherals_def on_motor_def on_wdog_def on_ad_def on_t8_def on_t16_def on_ser_def
      wdog_update_time_def split_beta)

lemma btn_check_irq_first:
  assumes "bit (irqpending s) 0"
  shows "btn_check_irq s = (4, s\<lparr>irqpending := irqpending s AND NOT 1\<rparr>)"
proof -
  have "filter (\<lambda>i. bit (btn_irqs s) i) [0..<3] = 0 # filter (\<lambda>i. bit (btn_irqs s) i) [1..<3]"
    using assms by (simp add: upt_rec btn_irqs_def bit_or_iff)
  then show ?thesis
    by (simp add: btn_check_irq_def)
qed

section \<open>Properties\<close>


definition hooks_ex :: hooks where
  "hooks_ex = \<lparr>gui_hook = \<lambda>_. None, db_hook = \<lambda>_. None\<rparr>"

definition quiet_ex :: machine where
  "quiet_ex = machine_ex\<lparr>m_wdog := wdog_reset bus_ex, m_btn := btn_ex\<lparr>irqpending := 1\<rparr>,
     m_cpu := cpu_ex\<lparr>ccr := 0x80\<rparr>\<rparr>"


text \<open>
  A button press can be lost: when the CPU has interrupts masked and an edge of the first button line is pending, an
  interrupt check enters nothing, but the pending edge is gone afterwards, so that unmasking does not deliver it.
\<close>

theorem button_press_lost:
  assumes "calm m" and "ccr (m_cpu m) AND 0x80 \<noteq> 0" and "wd_tcsr (m_wdog m) AND (WD_OVF OR WD_TME) = 0"
    and "bit (irqpending (m_btn m)) 0"
  shows "\<exists>m'. check_irq (wait_peripherals H) m = Some (False, m') \<and> \<not> bit (irqpending (m_btn m')) 0"
proof -
  have w: "wd_tcsr (m_wdog m) AND WD_TME = 0" "wd_tcsr (m_wdog m) AND WD_OVF = 0"
    using assms(3) by (simp_all add: u8_eq_iff bit_simps)
  obtain m2 where m2: "wait_peripherals H (reset_deadlines m) = Some m2" "m_btn m2 = m_btn m"
    "irq_limit m \<le> Min (irq_numbers m2) \<longrightarrow> check_irq (wait_peripherals H) m = Some (False, snd (select_irq m2))"
    using check_irq_calm [OF assms(1), of H] by blast
  have "m_wdog m2 = m_wdog m"
    using wait_watchdog_off [of "reset_deadlines m" H m2] m2(1) w(1) assms(1)
    by (simp add: calm_def reset_deadlines_def)
  then have "fst (wdog_check_irq (m_bus m2) (m_wdog m2)) = 255"
    using w(2) by (simp add: wdog_check_irq_def)
  then have "4 \<le> n" if "n \<in> irq_numbers m2" for n
    using that irq_numbers_range(1) [of "m_ser m2"] irq_numbers_range(2) [of "m_t16 m2"] irq_numbers_range(3) [of "m_t8 m2"]
      irq_numbers_range(4) [of "m_btn m2"] irq_numbers_range(5) [of "m_ad m2"] unfolding irq_numbers_def by fastforce
  then have "irq_limit m \<le> Min (irq_numbers m2)"
    using assms(2) irq_numbers_le(1,2) by (simp add: irq_limit_def)
  moreover have "\<not> bit (irqpending (m_btn (snd (select_irq m2)))) 0"
    by (simp add: select_irq_keeps m2(2) btn_check_irq_first [OF assms(4)] bit_simps)
  ultimately show ?thesis
    using m2(3) by blast
qed

theorem button_press_lost_witness:
  "\<exists>m'. check_irq (wait_peripherals hooks_ex) quiet_ex = Some (False, m') \<and> \<not> bit (irqpending (m_btn m')) 0"
  using button_press_lost [of quiet_ex hooks_ex]
  by (simp add: calm_def quiet_ex_def machine_ex_def clock_ex_def cpu_ex_def wdog_reset_def btn_ex_def)

text \<open>
  Simulated and real time do not drift: each synchronisation moves the microsecond counter and the cycle counter on by the same
  time, and what is left over is less than one microsecond.
\<close>

theorem time_in_step:
  "(lastusecs (m_clock (advance_time m)) - lastusecs (m_clock m)) * CYCLES_PER_USEC
     = lastcycles (m_clock (advance_time m)) - lastcycles (m_clock m)
   \<and> uint (cycles (m_bus m) - lastcycles (m_clock (advance_time m))) < 16"
proof -
  have "uint (x mod 16 :: u64) < 16" for x
    by (simp add: uint_mod)
  then show ?thesis
    unfolding CYCLES_PER_USEC_def advance_time_exact by simp
qed

text \<open>
  A stopped machine does not see real time pass: however long the host clock runs between stopping and continuing, the distance
  between the simulated time and the host clock is the same as before; and stopping again while stopped changes nothing once
  undone.
\<close>

theorem stopped_time_frozen:
  "(stopped (m_clock m) = 0 \<longrightarrow> m' = cont_time ((stop_time m)\<lparr>host_now := t\<rparr>) \<longrightarrow>
      lastusecs (m_clock m') - host_now m' = lastusecs (m_clock m) - host_now m
      \<and> startusecs (m_clock m') - host_now m' = startusecs (m_clock m) - host_now m \<and> stopped (m_clock m') = 0)
   \<and> (0 < stopped (m_clock m) \<longrightarrow> m_clock (cont_time ((stop_time m)\<lparr>host_now := t\<rparr>)) = m_clock m)"
  by (auto simp: stop_time_def cont_time_def Let_def)

theorem stopped_time_frozen_witness:
  "lastusecs (m_clock (cont_time ((stop_time machine_ex)\<lparr>host_now := 7000000\<rparr>))) - 7000000
     = lastusecs (m_clock machine_ex) - host_now machine_ex"
proof -
  have "stopped (m_clock machine_ex) = 0" "host_now (cont_time ((stop_time machine_ex)\<lparr>host_now := 7000000\<rparr>)) = 7000000"
    by (simp_all add: machine_ex_def clock_ex_def stop_time_def cont_time_def)
  then show ?thesis
    using stopped_time_frozen [of machine_ex "cont_time ((stop_time machine_ex)\<lparr>host_now := 7000000\<rparr>)" 7000000] by metis
qed

text \<open>
  C20. Writing the display: a transfer on the I2C lines of port 6 that addresses the controller, sets the data pointer and sends data
  bytes puts these bytes into successive cells of the display memory and changes no other cell.
\<close>

theorem lcd_transfer_cells:
  assumes "calm m" and "v AND 0x60 = 0" and "i2c_state l = 0" "i2c_bitnr l = 0xff" "i2c_data l = 0" "lcd_subaddr l = 0"
    and "unat p div 2 + length xs \<le> 12" "unat p < 32"
  shows "\<exists>l' br'. lcd_writes (lcd_wait (wait_peripherals H)) lcd_analog (i2c_frame v (0x7c # p # xs)) (l, m_bus m, m) = Some (l', br')
      \<and> lcd_data l' = fold (\<lambda>(i, x) d. d[i := x]) (zip [unat p div 2..<12] xs) (lcd_data l)"
  using lcd_calm.lcd_transfer [where analog = lcd_analog and H = H and b = "m_bus m" and r = m and v = v and l = l and p = p and xs = xs] assms by simp

theorem lcd_transfer_cells_witness:
  "\<exists>l' br'. lcd_writes (lcd_wait (wait_peripherals hooks_ex)) lcd_analog (i2c_frame 1 [0x7c, 4, 0xab, 0xcd])
      (lcd_ex, m_bus machine_ex, machine_ex) = Some (l', br') \<and> lcd_data l' = [0, 0, 0xab, 0xcd, 0, 0, 0, 0, 0, 0, 0, 0]"
proof -
  have "calm machine_ex"
    by (simp add: calm_def machine_ex_def clock_ex_def)
  moreover have "[2..<12] = [2, 3, 4, 5, 6, 7, 8, 9, 10, 11]"
    by (simp add: upt_rec)
  moreover have "unat (4 :: u8) div 2 = 2"
    by simp
  moreover have "(1 :: u8) AND 0x60 = 0"
    by simp
  moreover have "(replicate 12 (0 :: u8))[2 := 0xab, 3 := 0xcd] = [0, 0, 0xab, 0xcd, 0, 0, 0, 0, 0, 0, 0, 0]"
    by (simp add: numeral_eq_Suc)
  ultimately show ?thesis
    using lcd_transfer_cells [of machine_ex 1 lcd_ex 4 "[0xab, 0xcd]" hooks_ex] by (simp add: lcd_ex_def)
qed

text \<open>
  The display memory has 12 cells but the data pointer has 32 values: a data byte sent to a pointer of 24 or more is stored outside
  the array.
\<close>

theorem lcd_pointer_outside:
  assumes "calm m" and "v AND 0x60 = 0" and "i2c_state l = 0" "i2c_bitnr l = 0xff" "i2c_data l = 0" "lcd_subaddr l = 0"
    and "24 \<le> unat p" "unat p < 32"
  shows "lcd_writes (lcd_wait (wait_peripherals H)) lcd_analog (i2c_frame v (0x7c # p # x # xs)) (l, m_bus m, m) = None"
  using lcd_calm.lcd_transfer_outside [where analog = lcd_analog and H = H and b = "m_bus m" and r = m and v = v and l = l and p = p and xs = xs] assms by simp

theorem lcd_pointer_outside_witness:
  "lcd_writes (lcd_wait (wait_peripherals hooks_ex)) lcd_analog (i2c_frame 1 [0x7c, 30, 0xab]) (lcd_ex, m_bus machine_ex, machine_ex) = None"
  using lcd_pointer_outside [of machine_ex 1 lcd_ex 30 hooks_ex "0xab" "[]"] by (simp add: lcd_ex_def calm_def machine_ex_def clock_ex_def)

lemma reset_bin:
  assumes "calm m" and "m_rom m = Bin_rom file" and "2 \<le> length file" and "length file \<le> 0x4000" and "plain m 0"
  shows "\<exists>m'. do_reset (wait_peripherals H) m = Some m'
    \<and> pc (m_cpu m') = push_bit 8 (ucast (file ! 0)) OR ucast (file ! 1)
    \<and> ccr (m_cpu m') = 0x80 \<and> irq_disabled_one (m_cpu m') \<and> db_trap (m_cpu m') = 0 \<and> m_syms m' = Null
    \<and> (\<forall>a. m_mem m' a = (if unat a < length file then file ! unat a else m_mem m a))
    \<and> m_type m' = m_type m"
proof -
  let ?m1 = "reset_peripherals (m\<lparr>m_cpu := (m_cpu m)\<lparr>irq_disabled_one := True, ccr := 0x80\<rparr>\<rparr>)"
  let ?mem = "\<lambda>a. if unat a < length file then file ! unat a else m_mem m a"
  let ?m2 = "?m1\<lparr>m_syms := Null, m_mem := ?mem\<rparr>"
  have r: "read_rom (?m1\<lparr>m_syms := symbols_removeall (m_syms ?m1)\<rparr>) = Some (True, ?m2)"
    using assms(2-4) by (simp add: read_rom_def reset_peripherals_def symbols_removeall_def fread_def mem_write_def Let_def cong: if_cong)
  have "calm ?m2"
    using assms(1) by (simp add: calm_def reset_peripherals_def Let_def)
  then obtain m3 where m3: "wait_peripherals H ?m2 = Some m3" "m_mem m3 = ?mem" "m_type m3 = m_type m" "m_syms m3 = Null"
    "m_cpu m3 = (m_cpu m)\<lparr>irq_disabled_one := True, ccr := 0x80\<rparr>"
    using wait_calm [of ?m2 H] by (auto simp: reset_peripherals_def Let_def)
  let ?m4 = "set_trap 0 (add_cycles 1 m3)"
  have "plain ?m4 0" "mword ?m4 0 = push_bit 8 (ucast (file ! 0)) OR ucast (file ! 1)"
    using assms(3,5) m3(2,3) by (auto simp: plain_def set_trap_def mword_def)
  then have "GET_WORD_CYCLES 0 ?m4 = Some (push_bit 8 (ucast (file ! 0)) OR ucast (file ! 1), add_cycles (word_cycles (m_type ?m4 0)) ?m4)"
    using GET_WORD_CYCLES_plain [of ?m4 0] by simp
  then show ?thesis
    using r m3 by (simp add: do_reset_def set_trap_def add_cycles_def)
qed

text \<open>
  A reset without outside input ends: it reloads the ROM, forgets the symbols, masks the interrupts, clears a pending trap and
  continues at the address in the first two bytes of the ROM; the RAM keeps its contents.
\<close>

theorem reset_starts_rom:
  assumes "calm m" and "m_rom m = Bin_rom file" and "2 \<le> length file" and "length file \<le> 0x4000" and "plain m 0"
  shows "\<exists>m'. do_reset (wait_peripherals H) m = Some m'
    \<and> pc (m_cpu m') = push_bit 8 (ucast (file ! 0)) OR ucast (file ! 1)
    \<and> ccr (m_cpu m') = 0x80 \<and> irq_disabled_one (m_cpu m') \<and> db_trap (m_cpu m') = 0 \<and> m_syms m' = Null
    \<and> (\<forall>a. m_mem m' a = (if unat a < length file then file ! unat a else m_mem m a))
    \<and> m_type m' = m_type m"
  using assms by (rule reset_bin)

theorem reset_starts_rom_witness:
  "\<exists>m'. do_reset (wait_peripherals hooks_ex) (machine_ex\<lparr>m_rom := Bin_rom [0x12, 0x34]\<rparr>) = Some m' \<and> pc (m_cpu m') = 0x1234"
proof -
  let ?m = "machine_ex\<lparr>m_rom := Bin_rom [0x12, 0x34]\<rparr>"
  have "plain ?m 0" "calm ?m"
    by (simp_all add: plain_map machine_ex_def calm_def clock_ex_def)
  then show ?thesis
    using reset_starts_rom [of ?m "[0x12, 0x34]" hooks_ex] by auto
qed

text \<open>
  Saving and loading the state of the CPU: program counter, registers, condition codes, system control register and trap come back
  as they were, with the program counter before the \<open>sleep\<close> instruction in case of a sleeping CPU; of the three 64-bit cycle
  counters only the low 32 bits survive.
\<close>

theorem periph_save_load:
  assumes "- 0x80000000 \<le> db_trap (m_cpu m)" and "db_trap (m_cpu m) < 0x80000000" and "wait_states (m_ws m) < 0x100000000"
  shows "let m1 = periph_load (periph_save m) m'
    in m_cpu m1 = (m_cpu m')\<lparr>reg := reg (m_cpu m), pc := (if sleeping (m_clock m) then pc (m_cpu m) - 2 else pc (m_cpu m)),
         ccr := ccr (m_cpu m), db_trap := db_trap (m_cpu m)\<rparr>
     \<and> syscr (m_clock m1) = syscr (m_clock m) \<and> wait_states (m_ws m1) = wait_states (m_ws m)
     \<and> cycles (m_bus m1) = take_bit 32 (cycles (m_bus m)) \<and> next_timer_cycle (m_bus m1) = take_bit 32 (next_timer_cycle (m_bus m))
     \<and> next_nmi_cycle (m_bus m1) = take_bit 32 (next_nmi_cycle (m_bus m))"
proof -
  have "sint (of_int (db_trap (m_cpu m)) :: u32) = db_trap (m_cpu m)"
    using assms(1,2) by (simp only: signed_of_int) (simp add: signed_take_bit_int_eq_self)
  moreover have "unat (of_nat (wait_states (m_ws m)) :: u32) = wait_states (m_ws m)"
    using assms(3) by (simp only: unat_of_nat) (simp add: take_bit_nat_eq_self)
  ultimately show ?thesis
    by (simp add: periph_save_def periph_load_def Let_def htonl_cc_htonl_cc)
qed

theorem periph_save_load_witness:
  "pc (m_cpu (periph_load (periph_save machine_ex) quiet_ex)) = pc (m_cpu machine_ex)"
proof -
  have "- 0x80000000 \<le> db_trap (m_cpu machine_ex)" "db_trap (m_cpu machine_ex) < 0x80000000" "wait_states (m_ws machine_ex) < 0x100000000"
    "\<not> sleeping (m_clock machine_ex)"
    by (simp_all add: machine_ex_def cpu_ex_def clock_ex_def)
  then show ?thesis
    using periph_save_load [of machine_ex quiet_ex] by (simp add: Let_def)
qed

end
