(* ===== verification/Debugger.thy ===== *)
theory Debugger
  imports Peripherals
begin

text \<open>
  The debugger interface, \<^verbatim>\<open>debugger.c\<close>: the GDB remote protocol. The socket is the queue \<open>dbg_in\<close> of what each \<open>read\<close> will return and the log
  \<open>gdb_sent\<close> of what was written; writing to it succeeds. \<open>None\<close> is an access outside a buffer or an overflow of
  \<open>int\<close>. A \<open>memcpy\<close> to a lower overlapping address copies forwards.
\<close>

section \<open>Hexadecimal numbers\<close>

abbreviation NUL :: char where "NUL \<equiv> CHR 0x00"

abbreviation SIGINT_EXCEPTION :: int where "SIGINT_EXCEPTION \<equiv> 7"

definition hexchars :: string where
  "hexchars = ''0123456789abcdef''"

definition hex :: "char \<Rightarrow> int" where
  "hex ch =
    (let k = int (of_char ch)
     in if 97 \<le> k \<and> k \<le> 102 then k - 97 + 10
        else if 48 \<le> k \<and> k \<le> 57 then k - 48
        else if 65 \<le> k \<and> k \<le> 70 then k - 65 + 10
        else -1)"

definition hex_pair :: "u8 \<Rightarrow> string" where
  "hex_pair ch = [hexchars ! unat (drop_bit 4 ch), hexchars ! unat (ch mod 16)]"

definition mem2hex :: "u8 list \<Rightarrow> string" where
  "mem2hex bs = concat (map hex_pair bs)"

fun hex_bytes :: "nat \<Rightarrow> string \<Rightarrow> u8 list" where
  "hex_bytes (Suc n) (a # b # buf) = (of_int (hex a * 16) + of_int (hex b)) # hex_bytes n buf"
| "hex_bytes _ _ = []"

text \<open>The bytes read, and the text it read them from, in which the breakpoint of GDB has been replaced.\<close>

definition hex2mem :: "string \<Rightarrow> nat \<Rightarrow> (u8 list \<times> string) option" where
  "hex2mem buf count =
    (if length buf < 2 * count then None
     else
       let buf1 = (if count = 2 \<and> take 4 buf = ''5730'' then ''5f0c'' @ drop 4 buf else buf)
       in Some (hex_bytes count buf1, buf1))"

fun hexToInt_from :: "nat \<Rightarrow> u32 \<Rightarrow> string \<Rightarrow> nat \<times> u32 \<times> string" where
  "hexToInt_from n v [] = (n, v, [])"
| "hexToInt_from n v (c # ptr) =
     (if c \<noteq> NUL \<and> 0 \<le> hex c then hexToInt_from (n + 1) (push_bit 4 v OR of_int (hex c)) ptr else (n, v, c # ptr))"

definition hexToInt :: "string \<Rightarrow> nat \<times> u32 \<times> string" where
  "hexToInt ptr = hexToInt_from 0 0 ptr"

section \<open>Replies\<close>

definition db_put :: "string \<Rightarrow> machine \<Rightarrow> machine option" where
  "db_put s m =
    (let d = m_dbg m
     in if length (db_out d) + length s \<le> 2048 then Some (m\<lparr>m_dbg := d\<lparr>db_out := db_out d @ s\<rparr>\<rparr>) else None)"

definition db_send_packet :: "machine \<Rightarrow> machine" where
  "db_send_packet m =
    (let d = m_dbg m
     in if gdb_open d then m\<lparr>m_dbg := d\<lparr>gdb_sent := gdb_sent d @ db_out d, db_out := []\<rparr>\<rparr>
        else m\<lparr>m_dbg := d\<lparr>db_out := []\<rparr>\<rparr>)"

definition char_sum :: "string \<Rightarrow> u8" where
  "char_sum s = (\<Sum>c \<leftarrow> s. of_nat (of_char c))"

definition db_checksum_packet :: "nat \<Rightarrow> machine \<Rightarrow> machine option" where
  "db_checksum_packet start m =
    (let checksum = char_sum (drop start (db_out (m_dbg m)))
     in db_put [CHR ''#'', hexchars ! unat (drop_bit 4 checksum), hexchars ! unat (checksum AND 0xf)] m)"

section \<open>Commands\<close>

text \<open>A packet is the rest of the input buffer from its first character on.\<close>

definition set_packet :: "string \<Rightarrow> machine \<Rightarrow> machine" where
  "set_packet packet m =
    (let d = m_dbg m; buf = db_in_buffer d
     in m\<lparr>m_dbg := d\<lparr>db_in_buffer := take (length buf - length packet) buf @ packet\<rparr>\<rparr>)"

definition db_sep :: "char \<Rightarrow> string \<Rightarrow> string option" where
  "db_sep c packet = (case packet of [] \<Rightarrow> None | x # rest \<Rightarrow> if x = c then Some rest else None)"

definition db_number :: "string \<Rightarrow> (u32 \<times> string) option" where
  "db_number packet = (case hexToInt packet of (n, v, rest) \<Rightarrow> if n = 0 then None else Some (v, rest))"

definition db_addr_len :: "string \<Rightarrow> (u32 \<times> u32 \<times> string) option" where
  "db_addr_len packet =
     Option.bind (db_number packet) (\<lambda>(addr, p1). Option.bind (db_sep (CHR '','') p1) (\<lambda>p2.
     map_option (\<lambda>(len, p3). (addr, len, p3)) (db_number p2)))"

definition db_in_range :: "u32 \<Rightarrow> u32 \<Rightarrow> bool option" where
  "db_in_range addr len =
    (if sint addr < 0 then Some False
     else if 0x80000000 \<le> sint addr + sint len then None
     else Some (sint addr + sint len \<le> 0xff88))"

text \<open>A negative length takes characters back from the output buffer.\<close>

definition db_read_memory :: "string \<Rightarrow> machine \<Rightarrow> machine option" where
  "db_read_memory packet m =
    (case db_addr_len packet of
       None \<Rightarrow> db_put ''E01'' m
     | Some (addr, len, _) \<Rightarrow>
         Option.bind (db_in_range addr len) (\<lambda>ok.
           if \<not> ok then db_put ''E03'' m
           else if 0 \<le> sint len then
             db_put (mem2hex (map (\<lambda>i. m_mem m (of_nat (unat addr + i))) [0..<nat (sint len)])) m
           else
             let d = m_dbg m; n = int (length (db_out d)) + 2 * sint len
             in if n < 0 then None else Some (m\<lparr>m_dbg := d\<lparr>db_out := take (nat n) (db_out d)\<rparr>\<rparr>)))"

definition mem_block :: "mem \<Rightarrow> nat \<Rightarrow> u8 list \<Rightarrow> mem" where
  "mem_block m addr bs = (\<lambda>i. if addr \<le> unat i \<and> unat i < addr + length bs then bs ! (unat i - addr) else m i)"

definition db_write_memory :: "string \<Rightarrow> machine \<Rightarrow> machine option" where
  "db_write_memory packet m =
    (case Option.bind (db_addr_len packet) (\<lambda>(addr, len, p). map_option (\<lambda>p1. (addr, len, p1)) (db_sep (CHR '':'') p)) of
       None \<Rightarrow> db_put ''E02'' m
     | Some (addr, len, p) \<Rightarrow>
         Option.bind (db_in_range addr len) (\<lambda>ok.
           if ok then
             Option.bind (hex2mem p (nat (sint len))) (\<lambda>(bs, p1).
               db_put ''OK'' (set_packet p1 (m\<lparr>m_mem := mem_block (m_mem m) (unat addr) bs\<rparr>)))
           else db_put ''E03'' m))"

definition db_all_registers :: "machine \<Rightarrow> u8 list" where
  "db_all_registers m =
    (let c = m_cpu m; cyc = cycles (m_bus m)
     in concat (map (\<lambda>i. [reg c ! i, reg c ! (i + 8), 0, 0]) [0..<8])
        @ [0, ccr c, 0, 0, ucast (drop_bit 8 (pc c)), ucast (pc c), 0, 0, ucast (drop_bit 8 cyc), ucast cyc, 0, 0]
        @ replicate 8 0)"

text \<open>After setting a register the code continues with the case \<open>m\<close>.\<close>

definition db_write_register :: "string \<Rightarrow> machine \<Rightarrow> machine option" where
  "db_write_register packet m =
    (case Option.bind (db_number packet) (\<lambda>(addr, p). map_option (Pair addr) (db_sep (CHR ''='') p)) of
       None \<Rightarrow> db_put ''E01'' m
     | Some (addr, p) \<Rightarrow>
         if 0 \<le> sint addr \<and> sint addr < 13 then
           Option.bind (hex2mem p 4) (\<lambda>(value, p1).
             let a = unat addr; c = m_cpu m;
                 c1 = (if a < 8 then c\<lparr>reg := (reg c)[a := value ! 0, a + 8 := value ! 1]\<rparr>
                       else if a = 8 then c\<lparr>ccr := value ! 1\<rparr>
                       else if a = 9 then c\<lparr>pc := push_bit 8 (ucast (value ! 0)) + ucast (value ! 1)\<rparr>
                       else c)
             in Option.bind (db_put ''OK'' (set_packet p1 (m\<lparr>m_cpu := c1\<rparr>))) (db_read_memory p1))
         else db_put ''E01'' m)"

definition bptype2mask :: "u8 list" where
  "bptype2mask = [MEMTYPE_BREAKPOINT, MEMTYPE_BREAKPOINT, MEMTYPE_WRITETRAP, MEMTYPE_READTRAP,
     MEMTYPE_BREAKPOINT OR MEMTYPE_WRITETRAP OR MEMTYPE_READTRAP, MEMTYPE_BREAKPOINT]"

definition db_breakpoint :: "(u8 \<Rightarrow> u8 \<Rightarrow> u8) \<Rightarrow> string \<Rightarrow> machine \<Rightarrow> machine option" where
  "db_breakpoint f packet m =
    (case Option.bind (db_number packet) (\<lambda>(type, p). Option.bind (db_sep (CHR '','') p) (\<lambda>p1.
            map_option (\<lambda>(addr, len, _). (type, addr, len)) (db_addr_len p1))) of
       None \<Rightarrow> db_put ''E01'' m
     | Some (type, addr, len) \<Rightarrow>
         Option.bind (db_in_range addr len) (\<lambda>ok.
           if ok \<and> 0 \<le> sint type \<and> sint type < 6 then
             db_put ''OK'' (m\<lparr>m_type := \<lambda>i. if sint addr \<le> uint i \<and> uint i < sint addr + sint len
                                             then f (m_type m i) (bptype2mask ! unat type) else m_type m i\<rparr>)
           else db_put ''E03'' m))"

definition signal_reply :: "int \<Rightarrow> string option" where
  "signal_reply s =
    (if 0 \<le> s \<and> s < 256 then Some [CHR ''S'', hexchars ! nat (s div 16), hexchars ! nat (s mod 16), NUL] else None)"

definition db_command :: "char \<Rightarrow> string \<Rightarrow> machine \<Rightarrow> machine option" where
  "db_command cmd packet m =
    (let d = m_dbg m
     in if cmd = CHR ''?'' then Option.bind (signal_reply (sigval d)) (\<lambda>s. db_put s m)
        else if cmd = CHR ''d'' then Some (m\<lparr>m_dbg := d\<lparr>remote_debug := \<not> remote_debug d\<rparr>\<rparr>)
        else if cmd = CHR ''g'' then
          db_put (mem2hex (db_all_registers m)) (m\<lparr>m_dbg := d\<lparr>db_registers := db_all_registers m\<rparr>\<rparr>)
        else if cmd = CHR ''G'' then
          Option.bind (hex2mem packet 52) (\<lambda>(bs, p1).
            db_put ''OK'' (set_packet p1 (m\<lparr>m_dbg := d\<lparr>db_registers := bs\<rparr>\<rparr>)))
        else if cmd = CHR ''P'' then db_write_register packet m
        else if cmd = CHR ''m'' then db_read_memory packet m
        else if cmd = CHR ''M'' then db_write_memory packet m
        else if cmd = CHR ''D'' then Some (m\<lparr>m_dbg := d\<lparr>db_cont := True\<rparr>\<rparr>)
        else if cmd = CHR ''Z'' then db_breakpoint (OR) packet m
        else if cmd = CHR ''z'' then db_breakpoint (\<lambda>t k. t AND NOT k) packet m
        else Some m)"

definition db_continue :: "bool \<Rightarrow> string \<Rightarrow> machine \<Rightarrow> machine" where
  "db_continue step packet m =
    (let c = (m_cpu m)\<lparr>db_singlestep := step, db_trap := 0\<rparr>
     in m\<lparr>m_cpu := (case db_number packet of None \<Rightarrow> c | Some (addr, _) \<Rightarrow> c\<lparr>pc := ucast addr\<rparr>)\<rparr>)"

definition db_handle_packet :: "string \<Rightarrow> machine \<Rightarrow> machine option" where
  "db_handle_packet packet m =
    (case packet of
       [] \<Rightarrow> None
     | cmd # rest \<Rightarrow>
         if cmd = CHR ''s'' \<or> cmd = CHR ''c'' then Some (db_send_packet (db_continue (cmd = CHR ''s'') rest m))
         else
           Option.bind (db_put ''$'' m) (\<lambda>m1.
             let start = length (db_out (m_dbg m1))
             in Option.bind (db_command cmd rest m1) (\<lambda>m2. map_option db_send_packet (db_checksum_packet start m2))))"

section \<open>The parser of the input buffer\<close>

definition shift_buffer :: "nat \<Rightarrow> machine \<Rightarrow> machine" where
  "shift_buffer i m =
    (let d = m_dbg m; n = db_len d - i; buf = db_in_buffer d
     in m\<lparr>m_dbg := d\<lparr>db_in_buffer := take n (drop i buf) @ drop n buf, db_len := n\<rparr>\<rparr>)"

definition skip_garbage :: "nat \<Rightarrow> dbg \<Rightarrow> string" where
  "skip_garbage i d = takeWhile (\<lambda>c. c \<noteq> CHR ''$'') (drop i (take (db_len d) (db_in_buffer d)))"

definition packet_body :: "dbg \<Rightarrow> string" where
  "packet_body d = takeWhile (\<lambda>c. c \<noteq> CHR ''#'') (take (db_len d - 3) (drop 1 (db_in_buffer d)))"

definition put_char :: "nat \<Rightarrow> char \<Rightarrow> machine \<Rightarrow> machine" where
  "put_char i c m = m\<lparr>m_dbg := (m_dbg m)\<lparr>db_in_buffer := (db_in_buffer (m_dbg m))[i := c]\<rparr>\<rparr>"

text \<open>The answer to the packet at the start of the buffer, which ends at \<open>k\<close>.\<close>

definition answer_packet :: "nat \<Rightarrow> machine \<Rightarrow> machine option" where
  "answer_packet k m =
    (let m1 = put_char (k + 3) NUL m;
         buf = db_in_buffer (m_dbg m1)
     in if uint (char_sum (packet_body (m_dbg m))) \<noteq> (hex (buf ! (k + 1)) * 16 OR hex (buf ! (k + 2))) then
          map_option db_send_packet (db_put ''-'' m1)
        else
          Option.bind (db_put ''+'' m1) (\<lambda>m2.
            let m3 = put_char k NUL m2; buf3 = db_in_buffer (m_dbg m3)
            in if buf3 ! 3 = CHR '':'' then
                 Option.bind (db_put [buf3 ! 1, buf3 ! 2] m3) (\<lambda>m4. db_handle_packet (drop 4 buf3) (put_char 0 (CHR ''#'') m4))
               else db_handle_packet (drop 1 buf3) m3))"

text \<open>
  One round of the loop. \<open>Inl\<close> ends it; \<open>Inr\<close> continues, with the index where the search for the next packet starts. A packet that is
  cut off after its first or second character makes the length of the last \<open>memcpy\<close> negative.
\<close>

definition db_parse_one :: "nat \<Rightarrow> machine \<Rightarrow> (machine + nat \<times> machine) option" where
  "db_parse_one i m =
    (let g = skip_garbage i (m_dbg m);
         j = i + length g;
         m1 = (if CHR 0x03 \<in> set g then set_trap SIGINT_EXCEPTION m else m)
     in if db_len (m_dbg m1) \<le> j then Some (Inl (m1\<lparr>m_dbg := (m_dbg m1)\<lparr>db_len := 0\<rparr>\<rparr>))
        else
          let m2 = shift_buffer j m1;
              k = 1 + length (packet_body (m_dbg m2))
          in if int k = int (db_len (m_dbg m2)) - 2 then Some (Inl m2)
             else Option.bind (answer_packet k m2) (\<lambda>m3.
               if db_len (m_dbg m3) < k + 3 then None else Some (Inr (k + 3, shift_buffer (k + 3) m3))))"

lemma db_put_len: "db_put s m = Some m' \<Longrightarrow> db_len (m_dbg m') = db_len (m_dbg m)"
  by (auto simp: db_put_def Let_def split: if_splits)

lemma db_len_simps [simp]:
  "db_len (m_dbg (db_send_packet m)) = db_len (m_dbg m)" "db_len (m_dbg (set_packet p m)) = db_len (m_dbg m)"
  "db_len (m_dbg (put_char i c m)) = db_len (m_dbg m)" "db_len (m_dbg (db_continue b p m)) = db_len (m_dbg m)"
  "db_len (m_dbg (shift_buffer i m)) = db_len (m_dbg m) - i" "m_dbg (set_trap n m) = m_dbg m"
  by (simp_all add: db_send_packet_def set_packet_def put_char_def db_continue_def shift_buffer_def set_trap_def Let_def split: option.split)

lemma db_read_memory_len: "db_read_memory p m = Some m' \<Longrightarrow> db_len (m_dbg m') = db_len (m_dbg m)"
  by (auto simp: db_read_memory_def Let_def bind_eq_Some_conv split: option.splits if_splits dest!: db_put_len)

lemma db_write_memory_len: "db_write_memory p m = Some m' \<Longrightarrow> db_len (m_dbg m') = db_len (m_dbg m)"
  by (auto simp: db_write_memory_def Let_def bind_eq_Some_conv split: option.splits if_splits dest!: db_put_len)

lemma db_write_register_len: "db_write_register p m = Some m' \<Longrightarrow> db_len (m_dbg m') = db_len (m_dbg m)"
  by (auto simp: db_write_register_def Let_def bind_eq_Some_conv split: option.splits if_splits dest!: db_put_len db_read_memory_len)

lemma db_breakpoint_len: "db_breakpoint f p m = Some m' \<Longrightarrow> db_len (m_dbg m') = db_len (m_dbg m)"
  by (auto simp: db_breakpoint_def Let_def bind_eq_Some_conv split: option.splits if_splits dest!: db_put_len)

lemma db_command_len: "db_command c p m = Some m' \<Longrightarrow> db_len (m_dbg m') = db_len (m_dbg m)"
  by (auto simp: db_command_def Let_def bind_eq_Some_conv split: if_splits
      dest!: db_put_len db_read_memory_len db_write_memory_len db_write_register_len db_breakpoint_len)

lemma db_handle_packet_len: "db_handle_packet p m = Some m' \<Longrightarrow> db_len (m_dbg m') = db_len (m_dbg m)"
  by (auto simp: db_handle_packet_def db_checksum_packet_def Let_def bind_eq_Some_conv split: list.splits if_splits
      dest!: db_put_len db_command_len)

lemma answer_packet_len: "answer_packet k m = Some m' \<Longrightarrow> db_len (m_dbg m') = db_len (m_dbg m)"
  by (auto simp: answer_packet_def Let_def bind_eq_Some_conv split: if_splits dest!: db_put_len db_handle_packet_len)

lemma db_parse_one_less:
  assumes "db_parse_one i m = Some (Inr (i', m'))"
  shows "db_len (m_dbg m') < db_len (m_dbg m)"
  using assms by (auto simp: db_parse_one_def Let_def bind_eq_Some_conv split: if_splits dest!: answer_packet_len)

function db_parse_loop :: "nat \<Rightarrow> machine \<Rightarrow> machine option" where
  "db_parse_loop i m =
    (if i < db_len (m_dbg m) then
       case db_parse_one i m of
         None \<Rightarrow> None
       | Some (Inl m1) \<Rightarrow> Some m1
       | Some (Inr (i1, m1)) \<Rightarrow> db_parse_loop i1 m1
     else Some m)"
  by pat_completeness auto
termination by (relation "measure (\<lambda>(i, m). db_len (m_dbg m))") (auto dest: db_parse_one_less)

declare db_parse_loop.simps [simp del]

definition db_parse_packet :: "machine \<Rightarrow> machine option" where
  "db_parse_packet m = db_parse_loop 0 (put_char (db_len (m_dbg m)) NUL m)"

section \<open>Events\<close>

text \<open>Printing the state looks up the names of the functions on the stack, which reorders the symbols.\<close>

definition dump_state :: "machine \<Rightarrow> machine option" where
  "dump_state m =
    (let c = m_cpu m; sp = GET_REG16 7 c
     in if 0xfffc < pc c then None
        else map_option (\<lambda>(_, tree). m\<lparr>m_syms := tree\<rparr>) (frame_dump_stack (m_mem m) (pc c) sp sp (m_frame m) (m_syms m)))"

definition db_handletrap :: "machine \<Rightarrow> machine option" where
  "db_handletrap m =
    (let m1 = m\<lparr>m_dbg := (m_dbg m)\<lparr>sigval := db_trap (m_cpu m)\<rparr>\<rparr>
     in if gdb_open (m_dbg m1) then
          Option.bind (db_put ''$'' m1) (\<lambda>m2.
            let start = length (db_out (m_dbg m2))
            in Option.bind (signal_reply (sigval (m_dbg m2))) (\<lambda>s.
               Option.bind (db_put s m2) (\<lambda>m3. map_option db_send_packet (db_checksum_packet start m3))))
        else dump_state m1)"

text \<open>
  \<open>read\<close> returns at most as much as fits into the buffer; nothing to return means that the connection is closed, and a full
  buffer looks the same. Without anything to read the call does not return.
\<close>

definition db_handlefd :: "machine \<Rightarrow> machine option" where
  "db_handlefd m =
    (let m1 = m\<lparr>m_dbg := (m_dbg m)\<lparr>gdb_open := True\<rparr>\<rparr>; d = m_dbg m1; n = 2047 - db_len d
     in case dbg_in m1 of
          [] \<Rightarrow> None
        | chunk # chunks \<Rightarrow>
            let data = take n chunk;
                m2 = m1\<lparr>dbg_in := (if drop n chunk = [] then chunks else drop n chunk # chunks)\<rparr>
            in if data = [] then
                 Some (m2\<lparr>m_dbg := d\<lparr>gdb_open := False\<rparr>, m_cpu := (m_cpu m2)\<lparr>db_trap := 0\<rparr>\<rparr>)
               else
                 db_parse_packet (m2\<lparr>m_dbg := d\<lparr>db_in_buffer := take (db_len d) (db_in_buffer d) @ data
                                                  @ drop (db_len d + length data) (db_in_buffer d),
                                                db_len := db_len d + length data\<rparr>\<rparr>))"

section \<open>Hexadecimal round trips\<close>

lemma hex_hexchars: "n < 16 \<Longrightarrow> hex (hexchars ! n) = int n" "n < 16 \<Longrightarrow> hexchars ! n \<noteq> NUL"
proof -
  have "list_all (\<lambda>n. hex (hexchars ! n) = int n \<and> hexchars ! n \<noteq> NUL) [0..<16]"
    by (simp add: upt_rec hexchars_def hex_def numeral_eq_Suc)
  then show "n < 16 \<Longrightarrow> hex (hexchars ! n) = int n" "n < 16 \<Longrightarrow> hexchars ! n \<noteq> NUL"
    by (simp_all add: list_all_iff)
qed

lemma nibbles:
  fixes b :: u8
  shows "unat (drop_bit 4 b) < 16" "unat (b mod 16) < 16" "unat (drop_bit 4 b) * 16 + unat (b mod 16) = unat b"
proof -
  have u: "unat (drop_bit 4 b) = unat b div 16" "unat (b mod 16) = unat b mod 16"
    by (simp_all add: drop_bit_eq_div unat_div unat_mod)
  show "unat (drop_bit 4 b) < 16" "unat (b mod 16) < 16" "unat (drop_bit 4 b) * 16 + unat (b mod 16) = unat b"
    using unsigned_less [of b, where 'a = nat] by (simp_all add: u)
qed

lemma hex_bytes_pair:
  "hex_bytes (Suc n) (hex_pair b @ r) = b # hex_bytes n r"
proof -
  have "of_int (int (unat (drop_bit 4 b)) * 16) + of_int (int (unat (b mod 16))) = (of_nat (unat (drop_bit 4 b) * 16 + unat (b mod 16)) :: u8)"
    by simp
  also have "\<dots> = b"
    by (simp only: nibbles(3)) simp
  finally show ?thesis
    by (simp add: hex_pair_def hex_hexchars nibbles)
qed

lemma hex_bytes_mem2hex: "hex_bytes (length bs) (mem2hex bs @ r) = bs"
  by (induction bs) (simp_all add: mem2hex_def hex_bytes_pair)

lemma mem2hex_length [simp]: "length (mem2hex bs) = 2 * length bs"
  by (induction bs) (simp_all add: mem2hex_def hex_pair_def)

fun put_hex :: "nat \<Rightarrow> string" where
  "put_hex n = (if n < 16 then [hexchars ! n] else put_hex (n div 16) @ [hexchars ! (n mod 16)])"

declare put_hex.simps [simp del]

definition hex_step :: "char \<Rightarrow> u32 \<Rightarrow> u32" where
  "hex_step c v = push_bit 4 v OR of_int (hex c)"

lemma hexToInt_from_digits:
  "\<forall>c \<in> set s. c \<noteq> NUL \<and> 0 \<le> hex c \<Longrightarrow> hexToInt_from n v (s @ r) = hexToInt_from (n + length s) (fold hex_step s v) r"
  by (induction s arbitrary: n v) (simp_all add: hex_step_def)

lemma hex_step_digit: "d < 16 \<Longrightarrow> hex_step (hexchars ! d) (of_nat k) = of_nat (16 * k + d)"
proof -
  assume d: "d < 16"
  have m: "of_nat d = take_bit 4 (of_nat d :: u32)"
    using d by (simp add: take_bit_of_nat take_bit_nat_eq_self)
  have "push_bit 4 (of_nat k :: u32) AND of_nat d = 0"
    by (subst m) (rule bit_word_eqI, auto simp: bit_simps)
  then have "push_bit 4 (of_nat k :: u32) OR of_nat d = push_bit 4 (of_nat k) + of_nat d"
    by (simp add: disjunctive_add_eq_or)
  then show "hex_step (hexchars ! d) (of_nat k) = of_nat (16 * k + d)"
    by (simp add: hex_step_def hex_hexchars(1) [OF d] push_bit_eq_mult)
qed

lemma put_hex_digits: "\<forall>c \<in> set (put_hex n). c \<noteq> NUL \<and> 0 \<le> hex c"
  by (induction n rule: put_hex.induct) (subst put_hex.simps, auto simp: hex_hexchars)

lemma put_hex_value: "fold hex_step (put_hex n) 0 = of_nat n"
proof (induction n rule: put_hex.induct)
  case (1 n)
  show ?case
  proof (cases "n < 16")
    case True
    then show ?thesis
      using hex_step_digit [OF True, of 0] by (simp add: put_hex.simps)
  next
    case False
    then show ?thesis
      using 1 hex_step_digit [of "n mod 16" "n div 16"] by (subst put_hex.simps) simp
  qed
qed

lemma put_hex_nonempty: "put_hex n \<noteq> []"
  by (subst put_hex.simps) simp

lemma db_number_put_hex: "hex c < 0 \<Longrightarrow> db_number (put_hex n @ c # r) = Some (of_nat n, c # r)"
  by (simp add: db_number_def hexToInt_def hexToInt_from_digits [OF put_hex_digits] put_hex_value put_hex_nonempty)

section \<open>Receiving a packet\<close>

definition frame_packet :: "string \<Rightarrow> string" where
  "frame_packet s = CHR ''$'' # s @ CHR ''#'' # hex_pair (char_sum s)"

lemma frame_packet_length [simp]: "length (frame_packet s) = length s + 4"
  by (simp add: frame_packet_def hex_pair_def)

text \<open>A packet without a sequence number, with nothing in it that ends it early.\<close>

definition plain_packet :: "string \<Rightarrow> bool" where
  "plain_packet s \<longleftrightarrow> CHR ''#'' \<notin> set s \<and> (2 < length s \<longrightarrow> s ! 2 \<noteq> CHR '':'')"

lemma nibbles_or: "d < 16 \<Longrightarrow> int a * 16 OR int d = int (a * 16 + d)"
proof -
  assume "d < 16"
  then have t: "int d = take_bit 4 (int d)"
    by (simp add: take_bit_int_eq_self)
  have "push_bit 4 (int a) AND int d = 0"
    by (subst t) (rule bit_eqI, auto simp: bit_simps)
  then have "push_bit 4 (int a) OR int d = push_bit 4 (int a) + int d"
    by (simp add: disjunctive_add_eq_or)
  then show ?thesis
    by (simp add: push_bit_eq_mult)
qed

lemma hex_pair_checks: "hex (hex_pair b ! 0) * 16 OR hex (hex_pair b ! 1) = uint b"
proof -
  have "hex (hex_pair b ! 0) = int (unat (drop_bit 4 b))" "hex (hex_pair b ! 1) = int (unat (b mod 16))"
    by (simp_all only: hex_pair_def nth_Cons_0 nth_Cons_Suc One_nat_def hex_hexchars(1) [OF nibbles(1)] hex_hexchars(1) [OF nibbles(2)])
  then show ?thesis
    by (simp only: nibbles_or [OF nibbles(2)] nibbles(3)) simp
qed

definition held_packet :: "string \<Rightarrow> string \<Rightarrow> string" where
  "held_packet s t = s @ NUL # hex_pair (char_sum s) @ NUL # t"

lemma packet_body_until:
  assumes "db_in_buffer d = CHR ''$'' # s @ CHR ''#'' # t" and "length s + 4 \<le> db_len d" and "CHR ''#'' \<notin> set s"
  shows "packet_body d = s"
proof -
  define k where "k = db_len d - 4 - length s"
  then have k: "db_len d - 3 = Suc (length s + k)"
    using assms(2) by linarith
  show ?thesis
    using assms(1,3) by (simp add: packet_body_def k takeWhile_tail) (auto simp: takeWhile_tail intro!: takeWhile_append2)
qed

lemma held_packet_colon:
  assumes "plain_packet s"
  shows "(c # held_packet s t) ! 3 \<noteq> CHR '':''"
proof -
  have h: "hexchars ! n \<noteq> CHR '':''" if "n < 16" for n
    using hex_hexchars(1) [OF that] by (auto simp: hex_def)
  obtain h0 h1 where p: "hex_pair (char_sum s) = [h0, h1]" "h0 \<noteq> CHR '':''" "h1 \<noteq> CHR '':''"
    unfolding hex_pair_def using h [OF nibbles(1)] h [OF nibbles(2)] by blast
  consider "s = []" | x where "s = [x]" | x y where "s = [x, y]" | "2 < length s"
    by (cases s; cases "tl s"; cases "tl (tl s)") auto
  then show ?thesis
    using assms p(2,3) unfolding held_packet_def p(1) by cases (auto simp: numeral_eq_Suc nth_append plain_packet_def)
qed

lemma answer_packet_plain:
  assumes "db_in_buffer (m_dbg m) = frame_packet s @ c # t" and "length s + 4 \<le> db_len (m_dbg m)" and "plain_packet s"
    and "db_out (m_dbg m) = []"
  shows "answer_packet (length s + 1) m = db_handle_packet (held_packet s t)
    (m\<lparr>m_dbg := (m_dbg m)\<lparr>db_out := ''+'', db_in_buffer := CHR ''$'' # held_packet s t\<rparr>\<rparr>)"
proof -
  have body: "packet_body (m_dbg m) = s"
    using assms packet_body_until [of "m_dbg m" s] by (simp add: plain_packet_def frame_packet_def)
  define k where "k = length s + 1"
  let ?b = "frame_packet s @ NUL # t"
  have "(frame_packet s @ c # t)[k + 3 := NUL] = ?b"
    by (simp add: list_update_append k_def)
  moreover have "?b ! (k + 1) = hex_pair (char_sum s) ! 0" "?b ! (k + 2) = hex_pair (char_sum s) ! 1"
    by (simp_all add: frame_packet_def nth_append hex_pair_def k_def)
  moreover have "?b[k := NUL] = CHR ''$'' # held_packet s t"
    by (simp add: frame_packet_def held_packet_def list_update_append k_def)
  moreover note held_packet_colon [OF assms(3), of "CHR ''$''" t] hex_pair_checks [of "char_sum s"]
  ultimately show ?thesis
    unfolding k_def [symmetric] using assms(1,4) by (simp add: answer_packet_def body put_char_def db_put_def Let_def)
qed

lemma shift_buffer_0 [simp]: "shift_buffer 0 m = m"
  by (simp add: shift_buffer_def Let_def)

lemma db_parse_one_plain:
  assumes "db_in_buffer (m_dbg m) = frame_packet s @ c # t" and "length s + 4 \<le> db_len (m_dbg m)" and "plain_packet s"
    and "db_out (m_dbg m) = []"
  shows "db_parse_one 0 m = map_option (\<lambda>m3. Inr (length s + 4, shift_buffer (length s + 4) m3)) (db_handle_packet (held_packet s t)
    (m\<lparr>m_dbg := (m_dbg m)\<lparr>db_out := ''+'', db_in_buffer := CHR ''$'' # held_packet s t\<rparr>\<rparr>))" (is "_ = map_option _ ?h")
proof -
  have g: "skip_garbage 0 (m_dbg m) = []"
    using assms(1,2) by (cases "db_len (m_dbg m)") (simp_all add: skip_garbage_def frame_packet_def)
  have "db_len (m_dbg m3) = db_len (m_dbg m)" if "?h = Some m3" for m3
    using db_handle_packet_len [OF that] by simp
  then show ?thesis
    using assms g packet_body_until [of "m_dbg m" s] answer_packet_plain [OF assms]
    by (cases ?h) (auto simp: db_parse_one_def Let_def plain_packet_def frame_packet_def add.commute)
qed

definition db_idle :: "machine \<Rightarrow> bool" where
  "db_idle m \<longleftrightarrow> db_len (m_dbg m) = 0 \<and> db_out (m_dbg m) = [] \<and> length (db_in_buffer (m_dbg m)) = 2048"

text \<open>Data that arrives at an idle interface is put at the start of the buffer.\<close>

lemma db_handlefd_arrive:
  assumes "dbg_in m = data # cs" and "data \<noteq> []" and "length data \<le> 2046" and "db_idle m"
  shows "\<exists>t. length (data @ NUL # t) = 2048 \<and> db_handlefd m = db_parse_loop 0
    (m\<lparr>dbg_in := cs, m_dbg := (m_dbg m)\<lparr>gdb_open := True, db_len := length data, db_in_buffer := data @ NUL # t\<rparr>\<rparr>)"
proof -
  let ?b = "db_in_buffer (m_dbg m)"
  let ?t = "drop (Suc (length data)) ?b"
  have "drop (length data) ?b = ?b ! length data # ?t"
    using assms(3,4) by (simp add: db_idle_def Cons_nth_drop_Suc)
  then show ?thesis
    using assms by (intro exI [of _ ?t]) (simp add: db_idle_def db_handlefd_def db_parse_packet_def put_char_def Let_def list_update_append)
qed

text \<open>A packet that arrives alone is answered, and the buffer is empty again.\<close>

lemma db_handlefd_plain:
  assumes "dbg_in m = frame_packet s # cs" and "plain_packet s" and "length s \<le> 2042" and "db_idle m"
  shows "\<exists>t. length (held_packet s t) = 2047
    \<and> db_handlefd m = map_option (shift_buffer (length s + 4)) (db_handle_packet (held_packet s t)
        (m\<lparr>dbg_in := cs, m_dbg := (m_dbg m)\<lparr>gdb_open := True, db_len := length s + 4, db_out := ''+'',
             db_in_buffer := CHR ''$'' # held_packet s t\<rparr>\<rparr>))"
proof -
  define n where "n = length s + 4"
  have n: "length (frame_packet s) = n" "frame_packet s \<noteq> []" "n \<le> 2046"
    using assms(3) by (simp_all add: n_def) (simp add: frame_packet_def)
  obtain t where t: "length (frame_packet s @ NUL # t) = 2048" "db_handlefd m = db_parse_loop 0
      (m\<lparr>dbg_in := cs, m_dbg := (m_dbg m)\<lparr>gdb_open := True, db_len := n, db_in_buffer := frame_packet s @ NUL # t\<rparr>\<rparr>)"
    using db_handlefd_arrive [OF assms(1) _ _ assms(4)] unfolding n(1) using n(2,3) by blast
  let ?m1 = "m\<lparr>dbg_in := cs, m_dbg := (m_dbg m)\<lparr>gdb_open := True, db_len := n, db_in_buffer := frame_packet s @ NUL # t\<rparr>\<rparr>"
  have "db_parse_loop 0 ?m1 = map_option (shift_buffer n) (db_handle_packet (held_packet s t)
        (m\<lparr>dbg_in := cs, m_dbg := (m_dbg m)\<lparr>gdb_open := True, db_len := n, db_out := ''+'', db_in_buffer := CHR ''$'' # held_packet s t\<rparr>\<rparr>))"
    (is "_ = map_option _ ?h")
  proof -
    have p: "db_parse_one 0 ?m1 = map_option (\<lambda>m3. Inr (n, shift_buffer n m3)) ?h"
      using db_parse_one_plain [of ?m1 s NUL t] assms(2,4) by (simp add: n_def db_idle_def)
    have e: "db_parse_loop n (shift_buffer n m3) = Some (shift_buffer n m3)" if "?h = Some m3" for m3
      using db_handle_packet_len [OF that] by (subst db_parse_loop.simps) simp
    have "0 < n"
      by (simp add: n_def)
    then show ?thesis
      using e by (subst db_parse_loop.simps, cases ?h) (auto simp: p)
  qed
  moreover have "length (held_packet s t) = 2047"
    using t(1) by (simp add: held_packet_def hex_pair_def)
  ultimately show ?thesis
    unfolding n_def [symmetric] t(2) by (intro exI [of _ t] conjI) simp_all
qed

section \<open>Requests and replies\<close>

lemma and_15: "(x :: u8) AND 0xf = x mod 16"
  using take_bit_eq_mask [of 4 x] by (simp add: take_bit_eq_mod mask_eq_decr_exp)

lemma db_handle_reply:
  assumes "cmd \<noteq> CHR ''s''" "cmd \<noteq> CHR ''c''" and "db_out (m_dbg m) = ''+''"
    and "db_command cmd rest (m\<lparr>m_dbg := (m_dbg m)\<lparr>db_out := ''+$''\<rparr>\<rparr>) = db_put s m2"
    and "db_out (m_dbg m2) = ''+$''" and "gdb_open (m_dbg m2)" and "length s \<le> 2043"
  shows "db_handle_packet (cmd # rest) m =
    Some (m2\<lparr>m_dbg := (m_dbg m2)\<lparr>gdb_sent := gdb_sent (m_dbg m2) @ ''+'' @ frame_packet s, db_out := []\<rparr>\<rparr>)"
  using assms by (simp add: db_handle_packet_def db_put_def db_checksum_packet_def db_send_packet_def Let_def frame_packet_def hex_pair_def and_15)

lemma put_hex_length: "n < 16 ^ k \<Longrightarrow> 0 < k \<Longrightarrow> length (put_hex n) \<le> k"
proof (induction k arbitrary: n)
  case (Suc k)
  show ?case
  proof (cases "n < 16")
    case False
    then have "n div 16 < 16 ^ k" "0 < k"
      using Suc.prems(1) by (auto simp: div_less_iff_less_mult mult.commute intro: Nat.gr0I)
    then show ?thesis
      using False Suc.IH [of "n div 16"] by (subst put_hex.simps) simp
  qed (simp add: put_hex.simps)
qed simp

definition write_request :: "nat \<Rightarrow> u8 list \<Rightarrow> string" where
  "write_request a bs = CHR ''M'' # put_hex a @ CHR '','' # put_hex (length bs) @ CHR '':'' # mem2hex bs"

definition read_request :: "nat \<Rightarrow> nat \<Rightarrow> string" where
  "read_request a n = CHR ''m'' # put_hex a @ CHR '','' # put_hex n"

lemma no_separators: "\<forall>c \<in> set (put_hex n). c \<noteq> CHR ''#'' \<and> c \<noteq> CHR '':''" "\<forall>c \<in> set (mem2hex bs). c \<noteq> CHR ''#''"
proof -
  have h: "c \<noteq> CHR ''#'' \<and> c \<noteq> CHR '':''" if "0 \<le> hex c" for c
    using that by (auto simp: hex_def)
  then show "\<forall>c \<in> set (put_hex n). c \<noteq> CHR ''#'' \<and> c \<noteq> CHR '':''"
    using put_hex_digits by blast
  show "\<forall>c \<in> set (mem2hex bs). c \<noteq> CHR ''#''"
    using h by (auto simp: mem2hex_def hex_pair_def hex_hexchars nibbles)
qed

lemma second_digit: "(x # put_hex n @ CHR '','' # r) ! 2 \<noteq> CHR '':''"
proof (cases "put_hex n")
  case (Cons c cs)
  then show ?thesis
    using no_separators(1) [of n] by (cases cs) auto
qed (simp add: put_hex_nonempty)

lemma requests_plain: "plain_packet (write_request a bs)" "plain_packet (read_request a n)"
  using no_separators second_digit by (auto simp: plain_packet_def write_request_def read_request_def)

lemma db_addr_len_request:
  "hex c < 0 \<Longrightarrow> db_addr_len (put_hex a @ CHR '','' # put_hex n @ c # r) = Some (of_nat a, of_nat n, c # r)"
proof -
  assume c: "hex c < 0"
  have "hex (CHR '','') < 0" by (simp add: hex_def)
  then show ?thesis
    by (simp add: db_addr_len_def db_number_put_hex c db_sep_def)
qed

lemma of_nat_u32:
  "a < 0x80000000 \<Longrightarrow> sint (of_nat a :: u32) = int a" "a < 0x80000000 \<Longrightarrow> unat (of_nat a :: u32) = a"
proof -
  show "unat (of_nat a :: u32) = a" if "a < 0x80000000"
    using that by (simp only: unat_of_nat) (simp add: take_bit_nat_eq_self)
  show "sint (of_nat a :: u32) = int a" if "a < 0x80000000"
    using that by (simp only: signed_of_nat) (simp add: signed_take_bit_int_eq_self)
qed

lemma db_in_range_ok: "a + n \<le> 0xff88 \<Longrightarrow> db_in_range (of_nat a) (of_nat n) = Some True"
  by (simp add: db_in_range_def of_nat_u32)

lemma NUL_not_hex: "hex NUL < 0" "hex (CHR '':'') < 0"
  by (simp_all add: hex_def)

lemma request_lengths: "a + n \<le> 0xff88 \<Longrightarrow> length (put_hex a) \<le> 4 \<and> length (put_hex n) \<le> 4"
  using put_hex_length [of a 4] put_hex_length [of n 4] by simp

lemma set_packet_same: "db_in_buffer (m_dbg m) = pre @ p \<Longrightarrow> set_packet p m = m"
  by (simp add: set_packet_def Let_def)

text \<open>
  The course of a request: if the command, whatever the state \<open>d\<close> of the debugger in which it runs, puts out the reply \<open>out\<close> and leaves the
  machine \<open>f d\<close>, then the reply is sent with its frame and the interface is idle again.
\<close>

lemma db_request:
  assumes "dbg_in m = frame_packet (cmd # args) # cs" and "plain_packet (cmd # args)" and "length args \<le> 2041" and "db_idle m"
    and "cmd \<noteq> CHR ''s''" "cmd \<noteq> CHR ''c''" and "length out \<le> 2043"
    and cmd: "\<And>d r. db_in_buffer d = CHR ''$'' # cmd # args @ NUL # r \<Longrightarrow>
      db_command cmd (args @ NUL # r) (m\<lparr>dbg_in := cs, m_dbg := d\<rparr>) = db_put out (f d)
      \<and> db_out (m_dbg (f d)) = db_out d \<and> gdb_open (m_dbg (f d)) = gdb_open d \<and> gdb_sent (m_dbg (f d)) = gdb_sent d
      \<and> db_len (m_dbg (f d)) = db_len d \<and> length (db_in_buffer (m_dbg (f d))) = length (db_in_buffer d)"
  shows "\<exists>m' d. db_handlefd m = Some m' \<and> m' = (f d)\<lparr>m_dbg := m_dbg m'\<rparr> \<and> db_idle m'
    \<and> gdb_sent (m_dbg m') = gdb_sent (m_dbg m) @ ''+'' @ frame_packet out"
proof -
  let ?s = "cmd # args"
  obtain t where t: "length (held_packet ?s t) = 2047" "db_handlefd m = map_option (shift_buffer (length ?s + 4)) (db_handle_packet (held_packet ?s t)
        (m\<lparr>dbg_in := cs, m_dbg := (m_dbg m)\<lparr>gdb_open := True, db_len := length ?s + 4, db_out := ''+'',
             db_in_buffer := CHR ''$'' # held_packet ?s t\<rparr>\<rparr>))"
    using db_handlefd_plain [OF assms(1,2)] assms(3,4) by auto
  define d where "d = (m_dbg m)\<lparr>gdb_open := True, db_len := length ?s + 4, db_in_buffer := CHR ''$'' # held_packet ?s t, db_out := ''+$''\<rparr>"
  obtain r where r: "held_packet ?s t = cmd # args @ NUL # r"
    by (simp add: held_packet_def)
  note c = cmd [of d r]
  have "db_handle_packet (held_packet ?s t) (m\<lparr>dbg_in := cs, m_dbg := d\<lparr>db_out := ''+''\<rparr>\<rparr>) =
      Some ((f d)\<lparr>m_dbg := (m_dbg (f d))\<lparr>gdb_sent := gdb_sent (m_dbg (f d)) @ ''+'' @ frame_packet out, db_out := []\<rparr>\<rparr>)"
    unfolding r using assms(5-7) c by (intro db_handle_reply) (simp_all add: d_def r)
  moreover have "d\<lparr>db_out := ''+''\<rparr> = (m_dbg m)\<lparr>gdb_open := True, db_len := length ?s + 4, db_out := ''+'', db_in_buffer := CHR ''$'' # held_packet ?s t\<rparr>"
    by (simp add: d_def)
  ultimately have "db_handlefd m = Some (shift_buffer (length ?s + 4)
      ((f d)\<lparr>m_dbg := (m_dbg (f d))\<lparr>gdb_sent := gdb_sent (m_dbg (f d)) @ ''+'' @ frame_packet out, db_out := []\<rparr>\<rparr>))"
    unfolding t(2) by simp
  moreover have "gdb_sent (m_dbg (f d)) = gdb_sent (m_dbg m)" "db_len (m_dbg (f d)) = length ?s + 4" "length (db_in_buffer (m_dbg (f d))) = 2048"
    using c t(1) by (simp_all add: d_def r)
  ultimately show ?thesis
    by (auto simp: db_idle_def shift_buffer_def Let_def intro!: exI [of _ d])
qed

text \<open>Reading memory: the reply holds the bytes, and nothing else of the machine changes.\<close>

lemma db_command_read:
  assumes "a + n \<le> 0xff88"
  shows "db_command (CHR ''m'') (put_hex a @ CHR '','' # put_hex n @ NUL # r) m
    = db_put (mem2hex (map (\<lambda>i. m_mem m (of_nat (a + i))) [0..<n])) m"
  using assms by (simp add: db_command_def db_read_memory_def db_addr_len_request [OF NUL_not_hex(1)] db_in_range_ok of_nat_u32)

lemma db_read_packet:
  assumes "dbg_in m = frame_packet (read_request a n) # cs" and "db_idle m" and "a + n \<le> 0xff88" and "n \<le> 1000"
  shows "\<exists>m'. db_handlefd m = Some m' \<and> m' = m\<lparr>dbg_in := cs, m_dbg := m_dbg m'\<rparr> \<and> db_idle m'
    \<and> gdb_sent (m_dbg m') = gdb_sent (m_dbg m) @ ''+'' @ frame_packet (mem2hex (map (\<lambda>i. m_mem m (of_nat (a + i))) [0..<n]))"
proof -
  let ?bs = "map (\<lambda>i. m_mem m (of_nat (a + i))) [0..<n]"
  have "db_command (CHR ''m'') (put_hex a @ CHR '','' # put_hex n @ NUL # r) (m\<lparr>dbg_in := cs, m_dbg := d\<rparr>)
      = db_put (mem2hex ?bs) (m\<lparr>dbg_in := cs, m_dbg := d\<rparr>)" for d r
    using db_command_read [OF assms(3)] by simp
  then show ?thesis
    using db_request [where f = "\<lambda>d. m\<lparr>dbg_in := cs, m_dbg := d\<rparr>" and out = "mem2hex ?bs", OF assms(1) [unfolded read_request_def]
        requests_plain(2) [unfolded read_request_def] _ assms(2)] request_lengths [OF assms(3)] assms(4) by auto
qed

text \<open>Writing memory: the bytes are stored and acknowledged.\<close>

lemma hex2mem_request:
  assumes "length bs \<noteq> 2 \<or> bs \<noteq> [0x57, 0x30]"
  shows "hex2mem (mem2hex bs @ r) (length bs) = Some (bs, mem2hex bs @ r)"
proof -
  have n: "\<not> (length bs = 2 \<and> take 4 (mem2hex bs @ r) = ''5730'')"
  proof
    assume a: "length bs = 2 \<and> take 4 (mem2hex bs @ r) = ''5730''"
    then have "mem2hex bs = take 4 (mem2hex bs @ r)" by simp
    with a have "mem2hex bs = ''5730''" by argo
    then have "hex_bytes 2 ''5730'' = bs"
      using hex_bytes_mem2hex [of bs "[]"] a by simp
    then show False
      using assms a by (auto simp: hex_def numeral_2_eq_2)
  qed
  show ?thesis
    unfolding hex2mem_def if_not_P [OF n] by (simp add: hex_bytes_mem2hex)
qed

lemma db_write_packet:
  assumes "dbg_in m = frame_packet (write_request a bs) # cs" and "db_idle m" and "a + length bs \<le> 0xff88" and "length bs \<le> 1000"
    and "length bs \<noteq> 2 \<or> bs \<noteq> [0x57, 0x30]"
  shows "\<exists>m'. db_handlefd m = Some m' \<and> m' = m\<lparr>dbg_in := cs, m_mem := mem_block (m_mem m) a bs, m_dbg := m_dbg m'\<rparr> \<and> db_idle m'
    \<and> gdb_sent (m_dbg m') = gdb_sent (m_dbg m) @ ''+'' @ frame_packet ''OK''"
proof -
  let ?a = "put_hex a @ CHR '','' # put_hex (length bs) @ CHR '':'' # mem2hex bs"
  let ?f = "\<lambda>d. m\<lparr>dbg_in := cs, m_dbg := d, m_mem := mem_block (m_mem m) a bs\<rparr>"
  have "db_command (CHR ''M'') (?a @ NUL # r) (m\<lparr>dbg_in := cs, m_dbg := d\<rparr>) = db_put ''OK'' (?f d)"
    if "db_in_buffer d = CHR ''$'' # CHR ''M'' # ?a @ NUL # r" for d r
  proof -
    have "set_packet (mem2hex bs @ NUL # r) (?f d) = ?f d"
      using that by (intro set_packet_same [where pre = "CHR ''$'' # CHR ''M'' # put_hex a @ CHR '','' # put_hex (length bs) @ [CHR '':'']"]) simp
    then show ?thesis
      using assms(3,4) by (simp add: db_command_def db_write_memory_def db_addr_len_request [OF NUL_not_hex(2)] db_in_range_ok of_nat_u32
          db_sep_def hex2mem_request [OF assms(5)])
  qed
  then show ?thesis
    using db_request [where f = ?f and out = "''OK''", OF assms(1) [unfolded write_request_def]
        requests_plain(1) [unfolded write_request_def] _ assms(2)] request_lengths [OF assms(3)] assms(4) by auto
qed

lemma mem_block_at: "a + length bs \<le> 0x10000 \<Longrightarrow> i < length bs \<Longrightarrow> mem_block m a bs (of_nat (a + i)) = bs ! i"
proof -
  assume "a + length bs \<le> 0x10000" "i < length bs"
  then have "unat (of_nat (a + i) :: u16) = a + i"
    by (simp only: unat_of_nat) (simp add: take_bit_nat_eq_self)
  then show ?thesis
    using \<open>i < length bs\<close> by (simp add: mem_block_def del: of_nat_add)
qed

text \<open>Setting a register.\<close>

definition register_request :: "nat \<Rightarrow> u8 list \<Rightarrow> string" where
  "register_request k bs = CHR ''P'' # put_hex k @ CHR ''='' # mem2hex bs"

lemma register_request_plain: "plain_packet (register_request k bs)"
proof -
  have "(CHR ''P'' # put_hex k @ CHR ''='' # r) ! 2 \<noteq> CHR '':''" for r
  proof (cases "put_hex k")
    case (Cons c cs)
    then show ?thesis
      using no_separators(1) [of k] by (cases cs) auto
  qed (simp add: put_hex_nonempty)
  then show ?thesis
    using no_separators(1) [of k] no_separators(2) [of bs] by (auto simp: plain_packet_def register_request_def)
qed

lemma mem2hex_digits: "\<forall>c \<in> set (mem2hex bs). c \<noteq> NUL \<and> 0 \<le> hex c"
  by (auto simp: mem2hex_def hex_pair_def hex_hexchars nibbles)

lemma db_addr_len_no_comma: "db_addr_len (mem2hex bs @ NUL # r) = None"
proof -
  have "db_number (mem2hex bs @ NUL # r) = None \<or> (\<exists>v. db_number (mem2hex bs @ NUL # r) = Some (v, NUL # r))"
    by (auto simp: db_number_def hexToInt_def hexToInt_from_digits [OF mem2hex_digits])
  then show ?thesis
    by (auto simp: db_addr_len_def db_sep_def)
qed

section \<open>Properties\<close>



text \<open>
  A damaged packet changes nothing: when the two digits after a packet are not its checksum, the debugger gets a \<open>-\<close>, and the
  machine is as before.
\<close>

theorem db_bad_checksum:
  assumes "dbg_in m = (CHR ''$'' # s @ [CHR ''#'', x, y]) # cs" and "CHR ''#'' \<notin> set s" and "length s \<le> 2042" and "db_idle m"
    and "hex x * 16 OR hex y \<noteq> uint (char_sum s)"
  shows "\<exists>m'. db_handlefd m = Some m' \<and> m' = m\<lparr>dbg_in := cs, m_dbg := m_dbg m'\<rparr> \<and> db_idle m'
    \<and> gdb_sent (m_dbg m') = gdb_sent (m_dbg m) @ ''-''"
proof -
  let ?data = "CHR ''$'' # s @ [CHR ''#'', x, y]"
  define n where "n = length s + 4"
  have n: "length ?data = n" "n \<le> 2046"
    using assms(3) by (simp_all add: n_def)
  obtain t where t: "length (?data @ NUL # t) = 2048" "db_handlefd m = db_parse_loop 0
      (m\<lparr>dbg_in := cs, m_dbg := (m_dbg m)\<lparr>gdb_open := True, db_len := n, db_in_buffer := ?data @ NUL # t\<rparr>\<rparr>)"
    using db_handlefd_arrive [OF assms(1) _ _ assms(4)] unfolding n(1) using n(2) by blast
  let ?m1 = "m\<lparr>dbg_in := cs, m_dbg := (m_dbg m)\<lparr>gdb_open := True, db_len := n, db_in_buffer := ?data @ NUL # t\<rparr>\<rparr>"
  let ?m2 = "?m1\<lparr>m_dbg := (m_dbg ?m1)\<lparr>gdb_sent := gdb_sent (m_dbg m) @ ''-''\<rparr>\<rparr>"
  define k where "k = length s + 1"
  have g: "skip_garbage 0 (m_dbg ?m1) = []" and b: "packet_body (m_dbg ?m1) = s"
    using assms(2) packet_body_until [of "m_dbg ?m1" s] by (simp_all add: skip_garbage_def n_def numeral_eq_Suc)
  have "(?data @ NUL # t)[k + 3 := NUL] = ?data @ NUL # t" "(?data @ NUL # t) ! (k + 1) = x" "(?data @ NUL # t) ! (k + 2) = y"
    by (simp_all add: k_def nth_append list_update_append)
  then have a: "answer_packet k ?m1 = Some ?m2"
    using assms(4,5) b by (simp add: answer_packet_def db_put_def db_send_packet_def put_char_def db_idle_def Let_def)
  have "db_parse_one 0 ?m1 = Some (Inr (n, shift_buffer n ?m2))"
    using a g b by (simp add: db_parse_one_def Let_def k_def n_def add.commute)
  then have "db_parse_loop 0 ?m1 = Some (shift_buffer n ?m2)"
    by (subst db_parse_loop.simps) (simp add: n_def db_parse_loop.simps)
  then show ?thesis
    using t assms(4) by (simp add: db_idle_def shift_buffer_def Let_def)
qed

text \<open>
  Setting a register works but is answered wrongly: the register has its new value, yet the reply to the debugger is \<open>OKE01\<close>, because the
  command goes on into the one that reads memory.
\<close>

theorem db_register_reply:
  assumes "dbg_in m = frame_packet (register_request k [x, y, v, w]) # cs" and "db_idle m" and "k < 8"
  shows "\<exists>m'. db_handlefd m = Some m'
    \<and> m' = m\<lparr>dbg_in := cs, m_cpu := (m_cpu m)\<lparr>reg := (reg (m_cpu m))[k := x, k + 8 := y]\<rparr>, m_dbg := m_dbg m'\<rparr>
    \<and> gdb_sent (m_dbg m') = gdb_sent (m_dbg m) @ ''+'' @ frame_packet ''OKE01''"
proof -
  let ?bs = "[x, y, v, w]"
  let ?a = "put_hex k @ CHR ''='' # mem2hex ?bs"
  let ?f = "\<lambda>d. m\<lparr>dbg_in := cs, m_dbg := d, m_cpu := (m_cpu m)\<lparr>reg := (reg (m_cpu m))[k := x, k + 8 := y]\<rparr>\<rparr>"
  have "db_command (CHR ''P'') (?a @ NUL # r) (m\<lparr>dbg_in := cs, m_dbg := d\<rparr>) = db_put ''OKE01'' (?f d)"
    if "db_in_buffer d = CHR ''$'' # CHR ''P'' # ?a @ NUL # r" for d r
  proof -
    have e: "hex (CHR ''='') < 0"
      by (simp add: hex_def)
    have "set_packet (mem2hex ?bs @ NUL # r) (?f d) = ?f d"
      using that by (intro set_packet_same [where pre = "CHR ''$'' # CHR ''P'' # put_hex k @ [CHR ''='']"]) simp
    moreover have "length ?bs = 4"
      by simp
    then have "hex2mem (mem2hex ?bs @ NUL # r) 4 = Some (?bs, mem2hex ?bs @ NUL # r)"
      using hex2mem_request [of ?bs "NUL # r"] unfolding \<open>length ?bs = 4\<close> by simp
    ultimately show ?thesis
      using assms(3) db_addr_len_no_comma [of ?bs r] db_number_put_hex [OF e, of k "mem2hex ?bs @ NUL # r"]
      by (simp add: db_command_def db_write_register_def db_sep_def of_nat_u32 db_put_def db_read_memory_def Let_def)
  qed
  then show ?thesis
    using db_request [where f = ?f and out = "''OKE01''", OF assms(1) [unfolded register_request_def]
        register_request_plain [unfolded register_request_def] _ assms(2)] put_hex_length [of k 1] assms(3) by auto
qed

text \<open>
  A packet cut off after its first character has no defined outcome: the parser takes the rest of the buffer for it and then moves a
  negative number of bytes.
\<close>

theorem db_cut_packet:
  assumes "dbg_in m = ''$'' # cs" and "db_idle m"
  shows "db_handlefd m = None"
proof -
  obtain t where t: "length (''$'' @ NUL # t) = 2048" "db_handlefd m = db_parse_loop 0
      (m\<lparr>dbg_in := cs, m_dbg := (m_dbg m)\<lparr>gdb_open := True, db_len := 1, db_in_buffer := ''$'' @ NUL # t\<rparr>\<rparr>)"
    using db_handlefd_arrive [OF assms(1) _ _ assms(2)] by auto
  let ?m1 = "m\<lparr>dbg_in := cs, m_dbg := (m_dbg m)\<lparr>gdb_open := True, db_len := 1, db_in_buffer := ''$'' @ NUL # t\<rparr>\<rparr>"
  have "db_parse_one 0 ?m1 = None"
    using answer_packet_len [of 1 ?m1] by (cases "answer_packet 1 ?m1") (auto simp: db_parse_one_def Let_def skip_garbage_def packet_body_def)
  then show ?thesis
    unfolding t(2) by (subst db_parse_loop.simps) simp
qed

theorem db_cut_packet_witness: "db_handlefd (machine_ex\<lparr>dbg_in := [''$'', ''g#67'']\<rparr>) = None"
  using db_cut_packet [of "machine_ex\<lparr>dbg_in := [''$'', ''g#67'']\<rparr>" "[''g#67'']"] by (simp add: db_idle_def machine_ex_def dbg_ex_def)

theorem db_register_reply_witness:
  "\<exists>m'. db_handlefd (machine_ex\<lparr>dbg_in := [frame_packet (register_request 3 [0x12, 0x34, 0, 0])]\<rparr>) = Some m'
    \<and> gdb_sent (m_dbg m') = ''+'' @ frame_packet ''OKE01''"
  using db_register_reply [of "machine_ex\<lparr>dbg_in := [frame_packet (register_request 3 [0x12, 0x34, 0, 0])]\<rparr>" 3 "0x12" "0x34" 0 0 "[]"]
  by (auto simp: db_idle_def machine_ex_def dbg_ex_def)

theorem db_bad_checksum_witness:
  "\<exists>m'. db_handlefd (machine_ex\<lparr>dbg_in := [''$g#00'']\<rparr>) = Some m' \<and> gdb_sent (m_dbg m') = ''-''"
  using db_bad_checksum [of "machine_ex\<lparr>dbg_in := [''$g#00'']\<rparr>" "''g''" "CHR ''0''" "CHR ''0''" "[]"]
  by (auto simp: db_idle_def machine_ex_def dbg_ex_def hex_def char_sum_def)

text \<open>
  Of two requests that arrive together the second can be lost: when it is not longer than the first, only the first one is
  answered, and of the second the buffer keeps everything but the character that marks its start.
\<close>

theorem db_second_request_lost:
  assumes "dbg_in m = (frame_packet (read_request a n) @ frame_packet s) # cs" and "db_idle m" and "a + n \<le> 0xff88" and "n \<le> 1000"
    and "length s \<le> length (read_request a n)"
  shows "\<exists>m'. db_handlefd m = Some m' \<and> m' = m\<lparr>dbg_in := cs, m_dbg := m_dbg m'\<rparr>
    \<and> gdb_sent (m_dbg m') = gdb_sent (m_dbg m) @ ''+'' @ frame_packet (mem2hex (map (\<lambda>i. m_mem m (of_nat (a + i))) [0..<n]))
    \<and> take (db_len (m_dbg m')) (db_in_buffer (m_dbg m')) = NUL # tl (frame_packet s)"
proof -
  let ?s = "read_request a n" and ?bs = "map (\<lambda>i. m_mem m (of_nat (a + i))) [0..<n]"
  let ?data = "frame_packet ?s @ frame_packet s"
  define k where "k = length ?s + 4"
  define l where "l = length s + 4"
  have l: "length ?data = k + l" "k + l \<le> 2046" "?data \<noteq> []" "l \<le> k" "0 < k"
    using request_lengths [OF assms(3)] assms(5) by (simp_all add: k_def l_def read_request_def frame_packet_def hex_pair_def)
  obtain t where t: "length (?data @ NUL # t) = 2048" "db_handlefd m = db_parse_loop 0
      (m\<lparr>dbg_in := cs, m_dbg := (m_dbg m)\<lparr>gdb_open := True, db_len := k + l, db_in_buffer := ?data @ NUL # t\<rparr>\<rparr>)"
    using db_handlefd_arrive [OF assms(1) _ _ assms(2)] unfolding l(1) using l(2,3) by blast
  let ?m1 = "m\<lparr>dbg_in := cs, m_dbg := (m_dbg m)\<lparr>gdb_open := True, db_len := k + l, db_in_buffer := ?data @ NUL # t\<rparr>\<rparr>"
  let ?t = "tl (frame_packet s) @ NUL # t"
  have f: "?data @ NUL # t = frame_packet ?s @ CHR ''$'' # ?t"
    by (simp add: frame_packet_def [of s])
  let ?d = "(m_dbg m)\<lparr>gdb_open := True, db_len := k + l, db_out := ''+'', db_in_buffer := CHR ''$'' # held_packet ?s ?t\<rparr>"
  let ?m3 = "m\<lparr>dbg_in := cs, m_dbg := ?d\<lparr>gdb_sent := gdb_sent (m_dbg m) @ ''+'' @ frame_packet (mem2hex ?bs), db_out := []\<rparr>\<rparr>"
  have "db_handle_packet (held_packet ?s ?t) (m\<lparr>dbg_in := cs, m_dbg := ?d\<rparr>) = Some ?m3"
    using db_handle_reply [of "CHR ''m''" "m\<lparr>dbg_in := cs, m_dbg := ?d\<rparr>" "put_hex a @ CHR '','' # put_hex n @ NUL # hex_pair (char_sum ?s) @ NUL # ?t"
        "mem2hex ?bs" "m\<lparr>dbg_in := cs, m_dbg := ?d\<lparr>db_out := ''+$''\<rparr>\<rparr>"] assms(4) db_command_read [OF assms(3)]
    by (simp add: held_packet_def read_request_def)
  then have "db_parse_one 0 ?m1 = Some (Inr (k, shift_buffer k ?m3))"
    using db_parse_one_plain [of ?m1 ?s "CHR ''$''" ?t] requests_plain(2) assms(2) l f by (simp add: k_def db_idle_def l_def)
  then have r: "db_parse_loop 0 ?m1 = Some (shift_buffer k ?m3)"
    using l(4,5) by (subst db_parse_loop.simps) (simp add: db_parse_loop.simps)
  have "drop k (CHR ''$'' # held_packet ?s ?t) = NUL # ?t"
  proof -
    obtain h0 h1 where "hex_pair (char_sum ?s) = [h0, h1]"
      by (simp add: hex_pair_def)
    then show ?thesis
      by (simp add: k_def held_packet_def numeral_eq_Suc)
  qed
  moreover have "take l (NUL # tl (frame_packet s) @ u) = NUL # tl (frame_packet s)" for u
    by (simp add: l_def numeral_eq_Suc)
  ultimately show ?thesis
    unfolding t(2) r by (simp add: shift_buffer_def Let_def)
qed

theorem db_second_request_lost_witness:
  "\<exists>m'. db_handlefd (machine_ex\<lparr>dbg_in := [frame_packet (read_request 0x1000 4) @ frame_packet ''g'']\<rparr>) = Some m'
    \<and> gdb_sent (m_dbg m') = ''+'' @ frame_packet (mem2hex [0, 0, 0, 0])"
proof -
  have "[0..<4] = [0, 1, 2, 3]"
    by (simp add: upt_rec)
  then show ?thesis
    using db_second_request_lost [of "machine_ex\<lparr>dbg_in := [frame_packet (read_request 0x1000 4) @ frame_packet ''g'']\<rparr>" "0x1000" 4 "''g''" "[]"]
    by (auto simp: db_idle_def machine_ex_def dbg_ex_def read_request_def)
qed

end
