(* ===== verification/Savefile.thy ===== *)
theory Savefile
  imports Debugger
begin

text \<open>
  Firmware images and saved states, \<^verbatim>\<open>firmware.c\<close> and \<^verbatim>\<open>savefile.c\<close>. A saved state is a stream of bytes that goes through zlib: the functions \<open>deflate\<close> and
  \<open>inflate\<close> are parameters, and all the code relies on is that reading gives back what was written. Opening a file for writing
  succeeds. The structures that the peripherals save are laid out as the x86-64 ABI says, with the bytes of the
  padding left as they were; \<open>None\<close> is the use of a variable that a short file left uninitialised, an
  access outside a buffer or a call through a null pointer.
\<close>

section \<open>A line from the GUI\<close>

definition read_line :: "string \<Rightarrow> (string \<times> string) option" where
  "read_line inp =
    (let name = takeWhile (\<lambda>c. c \<noteq> CHR 0x0A \<and> c \<noteq> CHR 0x0D) inp
     in if length name = length inp \<or> 4096 < length name then None
        else Some (takeWhile (\<lambda>c. c \<noteq> NUL) name, drop (length name + 1) inp))"

section \<open>Firmware\<close>

text \<open>The ROM is told about the firmware in its variables.\<close>

definition firm_start :: "int \<Rightarrow> machine \<Rightarrow> machine" where
  "firm_start entry m =
    (if entry = 0 then m
     else poke 0xef06 8 (poke 0xee5e 0x13 (poke 0xee63 (of_int entry) (poke 0xee62 (of_int (entry div 256))
            (poke 0xee83 2 (poke 0xee82 0 m))))))"

definition firm_read_fd :: "machine \<Rightarrow> machine option" where
  "firm_read_fd m =
     Option.bind (read_line (gui_in m)) (\<lambda>(filename, rest).
       let m1 = m\<lparr>gui_in := rest\<rparr>; g = m_junk m1
       in if m_mem m1 0xee5e \<noteq> 0xd then Some m1
          else
            (case m_files m1 filename of
               None \<Rightarrow> Some m1
             | Some file \<Rightarrow>
                 if coff_init g file then
                   Option.bind (coff_read g file (m_mem m1)) (\<lambda>(entry, mem1).
                     map_option (\<lambda>tree. firm_start entry (m1\<lparr>m_mem := mem1, m_syms := tree\<rparr>)) (coff_symbols g file (m_syms m1)))
                 else
                   map_option (\<lambda>(entry, mem1). if entry < 0 then m1\<lparr>m_mem := mem1\<rparr> else firm_start entry (m1\<lparr>m_mem := mem1\<rparr>))
                     (srec_read file (junk_srec g) 0 (m_mem m1))))"

section \<open>Layout of the saved structures\<close>

fun to_le :: "nat \<Rightarrow> 'a::len word \<Rightarrow> u8 list" where
  "to_le 0 w = []"
| "to_le (Suc n) w = ucast w # to_le n (drop_bit 8 w)"

fun of_le :: "u8 list \<Rightarrow> 'a::len word" where
  "of_le [] = 0"
| "of_le (b # bs) = ucast b OR push_bit 8 (of_le bs)"

definition put :: "nat \<Rightarrow> u8 list \<Rightarrow> u8 list \<Rightarrow> u8 list" where
  "put off bs buf = take off buf @ bs @ drop (off + length bs) buf"

definition getf :: "nat \<Rightarrow> nat \<Rightarrow> u8 list \<Rightarrow> u8 list" where
  "getf off n buf = take n (drop off buf)"

definition ser_put :: "ser_save_type \<Rightarrow> u8 list \<Rightarrow> u8 list" where
  "ser_put d = put 0 [svs_rdr d, svs_tdr d, svs_smr d, svs_scr d, svs_ssr d, svs_readssr d, svs_brr d, svs_stcr d]"

definition ser_get :: "u8 list \<Rightarrow> ser_save_type" where
  "ser_get buf = \<lparr>svs_rdr = buf ! 0, svs_tdr = buf ! 1, svs_smr = buf ! 2, svs_scr = buf ! 3, svs_ssr = buf ! 4,
     svs_readssr = buf ! 5, svs_brr = buf ! 6, svs_stcr = buf ! 7\<rparr>"

definition periph_put :: "periph_save_type \<Rightarrow> u8 list \<Rightarrow> u8 list" where
  "periph_put d buf =
     put 54 [svp_ccr d, svp_syscr d] (put 52 (to_le 2 (svp_pc d)) (put 36 (svp_reg d) (put 32 (to_le 4 (svp_db_trap d))
       (put 24 (to_le 8 (svp_next_nmi_cycle d)) (put 16 (to_le 8 (svp_next_timer_cycle d)) (put 8 (to_le 8 (svp_cycles d))
         (put 0 (to_le 4 (svp_wait_states d)) buf)))))))"

definition periph_get :: "u8 list \<Rightarrow> periph_save_type" where
  "periph_get buf = \<lparr>svp_wait_states = of_le (getf 0 4 buf), svp_cycles = of_le (getf 8 8 buf),
     svp_next_timer_cycle = of_le (getf 16 8 buf), svp_next_nmi_cycle = of_le (getf 24 8 buf), svp_db_trap = of_le (getf 32 4 buf),
     svp_reg = getf 36 16 buf, svp_pc = of_le (getf 52 2 buf), svp_ccr = buf ! 54, svp_syscr = buf ! 55\<rparr>"

definition t16_put :: "t16_save_type \<Rightarrow> u8 list \<Rightarrow> u8 list" where
  "t16_put d buf =
     put 14 [sv_t16_tcsr d, sv_tier d, sv_t16_tcr d, sv_tocr d] (put 12 (to_le 2 (sv_ocrb d)) (put 10 (to_le 2 (sv_ocra d))
       (put 8 (to_le 2 (sv_frc d)) (put 0 (to_le 8 (sv_my_last_cycles d)) buf))))"

definition t16_get :: "u8 list \<Rightarrow> t16_save_type" where
  "t16_get buf = \<lparr>sv_my_last_cycles = of_le (getf 0 8 buf), sv_frc = of_le (getf 8 2 buf), sv_ocra = of_le (getf 10 2 buf),
     sv_ocrb = of_le (getf 12 2 buf), sv_t16_tcsr = buf ! 14, sv_tier = buf ! 15, sv_t16_tcr = buf ! 16, sv_tocr = buf ! 17\<rparr>"

definition pair_bytes :: "u8 \<times> u8 \<Rightarrow> u8 list" where
  "pair_bytes p = [fst p, snd p]"

definition t8_put :: "t8_save_type \<Rightarrow> u8 list \<Rightarrow> u8 list" where
  "t8_put d buf =
     put 32 (pair_bytes (sv8_tcnt d) @ pair_bytes (sv8_tcr d) @ pair_bytes (sv8_tcsr d) @ pair_bytes (sv8_tcora d)
             @ pair_bytes (sv8_tcorb d) @ pair_bytes (sv8_out d) @ [sv8_stcr d])
       (put 24 (to_le 8 (snd (sv8_my_next_cycle d))) (put 16 (to_le 8 (fst (sv8_my_next_cycle d)))
         (put 8 (to_le 8 (snd (sv8_last_cycles d))) (put 0 (to_le 8 (fst (sv8_last_cycles d))) buf))))"

definition t8_get :: "u8 list \<Rightarrow> t8_save_type" where
  "t8_get buf = \<lparr>sv8_last_cycles = (of_le (getf 0 8 buf), of_le (getf 8 8 buf)),
     sv8_my_next_cycle = (of_le (getf 16 8 buf), of_le (getf 24 8 buf)), sv8_tcnt = (buf ! 32, buf ! 33), sv8_tcr = (buf ! 34, buf ! 35),
     sv8_tcsr = (buf ! 36, buf ! 37), sv8_tcora = (buf ! 38, buf ! 39), sv8_tcorb = (buf ! 40, buf ! 41), sv8_out = (buf ! 42, buf ! 43),
     sv8_stcr = buf ! 44\<rparr>"

definition btn_put :: "btn_save_type \<Rightarrow> u8 list \<Rightarrow> u8 list" where
  "btn_put d = put 0 [svb_btn_state d, svb_iscr d, svb_ier d, svb_irqpending d]"

definition btn_get :: "u8 list \<Rightarrow> btn_save_type" where
  "btn_get buf = \<lparr>svb_btn_state = buf ! 0, svb_iscr = buf ! 1, svb_ier = buf ! 2, svb_irqpending = buf ! 3\<rparr>"

definition lcd_put :: "lcd_save_type \<Rightarrow> u8 list \<Rightarrow> u8 list" where
  "lcd_put d buf =
     put 12 [svl_mode d, svl_ptr d, svl_subaddr d, of_int (svl_i2c_state d), svl_i2c_data d, svl_i2c_bitnr d, svl_port6 d]
       (put 0 (svl_data d) buf)"

definition lcd_get :: "u8 list \<Rightarrow> lcd_save_type" where
  "lcd_get buf = \<lparr>svl_data = getf 0 12 buf, svl_mode = buf ! 12, svl_ptr = buf ! 13, svl_subaddr = buf ! 14,
     svl_i2c_state = sint (buf ! 15), svl_i2c_data = buf ! 16, svl_i2c_bitnr = buf ! 17, svl_port6 = buf ! 18\<rparr>"

definition ad_put :: "ad_save_type \<Rightarrow> u8 list \<Rightarrow> u8 list" where
  "ad_put d buf =
     put 16 [sva_tmp d, sva_adcsr d, sva_read_adcsr d, sva_adcr d, sva_adchannel d]
       (put 8 (concat (map (to_le 2) (sva_polled d))) (put 0 (to_le 8 (sva_ad_start_cycle d)) buf))"

definition ad_get :: "u8 list \<Rightarrow> ad_save_type" where
  "ad_get buf = \<lparr>sva_ad_start_cycle = of_le (getf 0 8 buf), sva_polled = map (\<lambda>i. of_le (getf (8 + 2 * i) 2 buf)) [0..<4],
     sva_tmp = buf ! 16, sva_adcsr = buf ! 17, sva_read_adcsr = buf ! 18, sva_adcr = buf ! 19, sva_adchannel = buf ! 20\<rparr>"

definition wdog_put :: "wdog_save_type \<Rightarrow> u8 list \<Rightarrow> u8 list" where
  "wdog_put d buf = put 8 [svw_tcsr d, svw_readtcsr d, svw_tcnt d, svw_pw d] (put 0 (to_le 8 (svw_last_cycles d)) buf)"

definition wdog_get :: "u8 list \<Rightarrow> wdog_save_type" where
  "wdog_get buf = \<lparr>svw_last_cycles = of_le (getf 0 8 buf), svw_tcsr = buf ! 8, svw_readtcsr = buf ! 9, svw_tcnt = buf ! 10, svw_pw = buf ! 11\<rparr>"

section \<open>Saving\<close>

text \<open>The peripherals with a \<open>save_data\<close>, in the order of their registration: the size of the structure, and the buffer with it.\<close>

definition save_ids :: string where
  "save_ids = ''SPT8BLAW''"

definition save_data :: "char \<Rightarrow> machine \<Rightarrow> u8 list \<Rightarrow> nat \<times> u8 list" where
  "save_data i m buf =
    (if i = CHR ''S'' then (8, ser_put (ser_save (m_ser m)) buf)
     else if i = CHR ''P'' then (56, periph_put (periph_save m) buf)
     else if i = CHR ''T'' then (24, t16_put (t16_save (m_t16 m)) buf)
     else if i = CHR ''8'' then (48, t8_put (t8_save (m_t8 m)) buf)
     else if i = CHR ''B'' then (4, btn_put (btn_save (m_btn m)) buf)
     else if i = CHR ''L'' then (19, lcd_put (lcd_save (m_lcd m)) buf)
     else if i = CHR ''A'' then (24, ad_put (ad_save (m_ad m)) buf)
     else (16, wdog_put (wdog_save (m_wdog m)) buf))"

definition byte_of :: "char \<Rightarrow> u8" where
  "byte_of c = of_nat (of_char c)"

fun save_blocks :: "string \<Rightarrow> machine \<Rightarrow> u8 list \<Rightarrow> u8 list" where
  "save_blocks [] m buf = []"
| "save_blocks (i # ids) m buf =
    (let (len, buf1) = save_data i m buf
     in byte_of i # enc16 (of_nat len) @ take len buf1 @ save_blocks ids m buf1)"

definition save_symbol :: "symkey \<times> string \<Rightarrow> u8 list" where
  "save_symbol kn =
    (case kn of ((addr, type), name) \<Rightarrow> enc16 addr @ enc16 (of_int type) @ enc16 (of_nat (length name)) @ map byte_of name)"

definition mem_bytes :: "mem \<Rightarrow> u8 list" where
  "mem_bytes m = map (\<lambda>i. m (of_nat i)) [0..<0x10000]"

definition SAVEFILE_MAGIC :: "u8 list" where
  "SAVEFILE_MAGIC = map byte_of ''BrEmuSF0''"

definition savefile_bytes :: "machine \<Rightarrow> u8 list" where
  "savefile_bytes m =
     SAVEFILE_MAGIC @ mem_bytes (m_mem m) @ mem_bytes (m_type m)
       @ concat (map save_symbol (symbols_iterate (m_syms m))) @ save_symbol ((0, 0), [])
       @ save_blocks save_ids m (uninit (m_junk m) 512) @ [0]"

definition savefile_save :: "(u8 list \<Rightarrow> u8 list) \<Rightarrow> string \<Rightarrow> machine \<Rightarrow> machine" where
  "savefile_save deflate path m =
    (let m1 = stop_time m
     in cont_time (m1\<lparr>m_files := (m_files m1)(path \<mapsto> deflate (savefile_bytes m1))\<rparr>))"

section \<open>Loading\<close>

text \<open>The first registered peripheral with the letter; one without \<open>load_data\<close> is a call through a null pointer.\<close>

definition load_data :: "char \<Rightarrow> u8 list \<Rightarrow> machine \<Rightarrow> machine option" where
  "load_data i buf m =
    (if i = CHR ''S'' then Some (m\<lparr>m_ser := ser_load (ser_get buf) (m_bus m) (m_ser m)\<rparr>)
     else if i = CHR ''P'' then Some (periph_load (periph_get buf) m)
     else if i = CHR ''T'' then Some (m\<lparr>m_t16 := t16_load (t16_get buf) (m_t16 m)\<rparr>)
     else if i = CHR ''8'' then Some (m\<lparr>m_t8 := t8_load (t8_get buf)\<rparr>)
     else if i = CHR ''B'' then (let (b, s) = btn_load (btn_get buf) (m_bus m) (m_btn m) in Some (m\<lparr>m_bus := b, m_btn := s\<rparr>))
     else if i = CHR ''L'' then (let (b, l) = lcd_load (lcd_get buf) (m_bus m) in Some (m\<lparr>m_bus := b, m_lcd := l\<rparr>))
     else if i = CHR ''A'' then Some (m\<lparr>m_ad := ad_load (ad_get buf) (m_ad m)\<rparr>)
     else if i = CHR ''W'' then Some (m\<lparr>m_wdog := wdog_load (wdog_get buf)\<rparr>)
     else if i \<in> set registered_ids then None
     else Some m)"

text \<open>The blocks; the flag says whether the end was reached. A block that the file cuts short ends the loop after it is used.\<close>

function load_blocks :: "u8 list \<Rightarrow> u8 list \<Rightarrow> machine \<Rightarrow> (bool \<times> machine) option" where
  "load_blocks stream buf m =
    (case stream of
       [] \<Rightarrow> None
     | i # rest \<Rightarrow>
         if i = 0 then Some (True, m)
         else if length rest < 2 then None
         else
           let len = unat (be16 rest 0); body = drop 2 rest; buf1 = put 0 (take len body) buf
           in if 512 < len then Some (False, m)
              else Option.bind (load_data (char_of (unat i)) buf1 m) (\<lambda>m1.
                if length body < len then Some (True, m1) else load_blocks (drop len body) buf1 m1))"
  by pat_completeness auto
termination by (relation "measure (\<lambda>(stream, _, _). length stream)") auto

declare load_blocks.simps [simp del]

function load_symbols :: "u8 list \<Rightarrow> symbol \<Rightarrow> (symbol \<times> u8 list) option" where
  "load_symbols stream tree =
    (if length stream < 6 then None
     else if take 6 stream = replicate 6 0 then Some (tree, drop 6 stream)
     else
       let namelen = unat (be16 stream 4); name = take namelen (drop 6 stream)
       in if 0x8000 \<le> namelen \<or> length name < namelen then None
          else load_symbols (drop (6 + namelen) stream)
                 (symbols_add (be16 stream 0, sint (be16 stream 2)) (text_of (takeWhile (\<lambda>b. b \<noteq> 0) name)) tree))"
  by pat_completeness auto
termination by (relation "measure (\<lambda>(stream, _). length stream)") auto

declare load_symbols.simps [simp del]

definition mem_of :: "u8 list \<Rightarrow> mem" where
  "mem_of bs = (\<lambda>a. bs ! unat a)"

text \<open>A file of another type leaves the time stopped, as does a block that is too long.\<close>

definition savefile_load :: "(u8 list \<Rightarrow> u8 list) \<Rightarrow> string \<Rightarrow> machine \<Rightarrow> machine option" where
  "savefile_load inflate path m =
    (let m1 = stop_time m;
         stream = (case m_files m1 path of None \<Rightarrow> [] | Some f \<Rightarrow> inflate f);
         buf = fread_into stream 0 8 (uninit (m_junk m1) 512)
     in if take 8 buf \<noteq> SAVEFILE_MAGIC then Some m1
        else if length stream < 8 + 0x20000 then None
        else
          Option.bind (load_symbols (drop (8 + 0x20000) stream) (m_syms m1)) (\<lambda>(tree, rest).
          map_option (\<lambda>(fin, m2). if fin then cont_time (m2\<lparr>m_frame := frame_init (m_frame m2)\<rparr>) else m2)
            (load_blocks rest buf (m1\<lparr>m_mem := mem_of (drop 8 stream), m_type := mem_of (drop (8 + 0x10000) stream), m_syms := tree\<rparr>))))"

text \<open>The cases of the command letter fall through: loading is followed by saving.\<close>

definition savefile_read_fd :: "(u8 list \<Rightarrow> u8 list) \<Rightarrow> (u8 list \<Rightarrow> u8 list) \<Rightarrow> machine \<Rightarrow> machine option" where
  "savefile_read_fd deflate inflate m =
    (case gui_in m of
       [] \<Rightarrow> None
     | cmd # inp \<Rightarrow>
         Option.bind (read_line inp) (\<lambda>(filename, rest).
           let m1 = m\<lparr>gui_in := rest\<rparr>
           in if cmd = CHR ''L'' \<or> cmd = CHR ''l'' then map_option (savefile_save deflate filename) (savefile_load inflate filename m1)
              else if cmd = CHR ''S'' \<or> cmd = CHR ''s'' then Some (savefile_save deflate filename m1)
              else Some m1))"

section \<open>Structures come back\<close>

lemma to_le_length [simp]: "length (to_le n w) = n"
  by (induction n arbitrary: w) simp_all

lemma of_le_to_le: "of_le (to_le n w) = take_bit (8 * n) (w :: 'a::len word)"
proof (induction n arbitrary: w)
  case (Suc n)
  show ?case
    by (rule bit_word_eqI) (auto simp: Suc bit_simps dest: bit_imp_le_length)
qed simp

lemma of_le_words [simp]:
  "of_le (to_le 2 (w :: u16)) = w" "of_le (to_le 4 (x :: u32)) = x" "of_le (to_le 8 (y :: u64)) = y"
  by (simp_all add: of_le_to_le take_bit_word_eq_self)

lemma put_length [simp]: "off + length bs \<le> length buf \<Longrightarrow> length (put off bs buf) = length buf"
  by (simp add: put_def)

lemma put_nth: "off + length bs \<le> length buf \<Longrightarrow> i < length buf \<Longrightarrow>
    put off bs buf ! i = (if off \<le> i \<and> i < off + length bs then bs ! (i - off) else buf ! i)"
  by (auto simp: put_def nth_append min_def)

lemma getf_put_same: "off + length bs \<le> length buf \<Longrightarrow> n = length bs \<Longrightarrow> getf off n (put off bs buf) = bs"
  by (simp add: getf_def put_def)

lemma getf_put_other:
  assumes "off + length bs \<le> length buf" and "o2 + n \<le> off \<or> off + length bs \<le> o2" and "o2 + n \<le> length buf"
  shows "getf o2 n (put off bs buf) = getf o2 n buf"
  by (rule nth_equalityI) (use assms in \<open>auto simp: getf_def put_nth\<close>)

lemma getf_put_inside:
  assumes "off + length bs \<le> length buf" and "off \<le> o2" and "o2 + n \<le> off + length bs"
  shows "getf o2 n (put off bs buf) = getf (o2 - off) n bs"
  by (rule nth_equalityI) (use assms in \<open>auto simp: getf_def put_nth\<close>)

lemma to_le_2: "to_le 2 w = [ucast w, ucast (drop_bit 8 w)]"
  by (simp add: numeral_2_eq_2)

lemma same_prefix:
  assumes "take len Y = take len X"
  shows "off + n \<le> len \<Longrightarrow> getf off n Y = getf off n X" "i < len \<Longrightarrow> Y ! i = X ! i"
proof -
  show "Y ! i = X ! i" if "i < len"
    using that assms by (metis nth_take)
  show "getf off n Y = getf off n X" if "off + n \<le> len"
  proof -
    have "getf off n Z = drop off (take (off + n) (take len Z))" for Z
      using that by (simp add: getf_def take_drop min_def add.commute)
    then show ?thesis
      by (simp only: assms)
  qed
qed

lemma ser_get_put:
  assumes "length buf = 512" "take 8 Y = take 8 (ser_put d buf)"
  shows "ser_get Y = d"
  using assms(1) by (simp add: ser_get_def same_prefix [OF assms(2)] ser_put_def put_nth getf_put_same getf_put_other)

lemma periph_get_put:
  assumes "length buf = 512" "take 56 Y = take 56 (periph_put d buf)" "length (svp_reg d) = 16"
  shows "periph_get Y = d"
  using assms(1,3) by (simp add: periph_get_def same_prefix [OF assms(2)] periph_put_def put_nth getf_put_same getf_put_other)

lemma t16_get_put:
  assumes "length buf = 512" "take 24 Y = take 24 (t16_put d buf)"
  shows "t16_get Y = d"
  using assms(1) by (simp add: t16_get_def same_prefix [OF assms(2)] t16_put_def put_nth getf_put_same getf_put_other)

lemma t8_get_put:
  assumes "length buf = 512" "take 48 Y = take 48 (t8_put d buf)"
  shows "t8_get Y = d"
  using assms(1) by (simp add: t8_get_def same_prefix [OF assms(2)] t8_put_def put_nth getf_put_same getf_put_other pair_bytes_def)

lemma btn_get_put:
  assumes "length buf = 512" "take 4 Y = take 4 (btn_put d buf)"
  shows "btn_get Y = d"
  using assms(1) by (simp add: btn_get_def same_prefix [OF assms(2)] btn_put_def put_nth getf_put_same getf_put_other)

lemma wdog_get_put:
  assumes "length buf = 512" "take 16 Y = take 16 (wdog_put d buf)"
  shows "wdog_get Y = d"
  using assms(1) by (simp add: wdog_get_def same_prefix [OF assms(2)] wdog_put_def put_nth getf_put_same getf_put_other)

lemma lcd_get_put:
  assumes "length buf = 512" "take 19 Y = take 19 (lcd_put d buf)" "length (svl_data d) = 12" "-128 \<le> svl_i2c_state d" "svl_i2c_state d < 128"
  shows "lcd_get Y = d"
proof -
  have "sint (of_int (svl_i2c_state d) :: u8) = svl_i2c_state d"
    using assms(4,5) by (simp only: signed_of_int) (simp add: signed_take_bit_int_eq_self)
  then show ?thesis
    using assms(1,3) by (simp add: lcd_get_def same_prefix [OF assms(2)] lcd_put_def put_nth getf_put_same getf_put_other)
qed

lemma ad_get_put:
  assumes "length buf = 512" "take 24 Y = take 24 (ad_put d buf)" "length (sva_polled d) = 4"
  shows "ad_get Y = d"
proof -
  obtain a b c e where p: "sva_polled d = [a, b, c, e]"
    using assms(3) by (auto simp: numeral_eq_Suc length_Suc_conv)
  have q: "getf (8 + 2 * i) 2 (ad_put d buf) = to_le 2 (sva_polled d ! i)" if "i < 4" for i
  proof -
    have o: "getf (8 + 2 * i) 2 (ad_put d buf) = getf (8 + 2 * i) 2 (put 8 (concat (map (to_le 2) [a, b, c, e])) (put 0 (to_le 8 (sva_ad_start_cycle d)) buf))"
      unfolding ad_put_def p using that assms(1) by (intro getf_put_other) simp_all
    have "i = 0 \<or> i = 1 \<or> i = 2 \<or> i = 3" using that by auto
    then have "getf (2 * i) 2 (concat (map (to_le 2) [a, b, c, e])) = to_le 2 ([a, b, c, e] ! i)"
      by (auto simp: getf_def to_le_2)
    then show ?thesis
      unfolding o p using that assms(1) by (subst getf_put_inside) simp_all
  qed
  have "map (\<lambda>i. of_le (getf (8 + 2 * i) 2 (ad_put d buf))) [0..<4] = sva_polled d"
    by (rule nth_equalityI) (simp_all add: q assms(3))
  moreover have "getf (8 + 2 * i) 2 Y = getf (8 + 2 * i) 2 (ad_put d buf)" if "i < 4" for i
    using that by (intro same_prefix(1) [OF assms(2)]) simp
  ultimately have "map (\<lambda>i. of_le (getf (8 + 2 * i) 2 Y)) [0..<4] = sva_polled d"
    by (metis (no_types, lifting) atLeastLessThan_iff map_cong set_upt)
  then show ?thesis
    using assms(1) by (simp add: ad_get_def same_prefix [OF assms(2)] ad_put_def put_nth getf_put_same getf_put_other p)
qed

section \<open>Files come back\<close>

text \<open>What a saved machine has to satisfy: the arrays have their lengths and the small integers fit.\<close>

definition sv_ok :: "machine \<Rightarrow> bool" where
  "sv_ok m \<longleftrightarrow> length (reg (m_cpu m)) = 16 \<and> length (lcd_data (m_lcd m)) = 12 \<and> -128 \<le> i2c_state (m_lcd m) \<and> i2c_state (m_lcd m) < 128
     \<and> length (polled (m_ad m)) = 4"

definition restore :: "machine \<Rightarrow> char \<Rightarrow> machine \<Rightarrow> machine" where
  "restore s i m =
    (if i = CHR ''S'' then m\<lparr>m_ser := ser_load (ser_save (m_ser s)) (m_bus m) (m_ser m)\<rparr>
     else if i = CHR ''P'' then periph_load (periph_save s) m
     else if i = CHR ''T'' then m\<lparr>m_t16 := t16_load (t16_save (m_t16 s)) (m_t16 m)\<rparr>
     else if i = CHR ''8'' then m\<lparr>m_t8 := t8_load (t8_save (m_t8 s))\<rparr>
     else if i = CHR ''B'' then (let (b, x) = btn_load (btn_save (m_btn s)) (m_bus m) (m_btn m) in m\<lparr>m_bus := b, m_btn := x\<rparr>)
     else if i = CHR ''L'' then (let (b, l) = lcd_load (lcd_save (m_lcd s)) (m_bus m) in m\<lparr>m_bus := b, m_lcd := l\<rparr>)
     else if i = CHR ''A'' then m\<lparr>m_ad := ad_load (ad_save (m_ad s)) (m_ad m)\<rparr>
     else m\<lparr>m_wdog := wdog_load (wdog_save (m_wdog s))\<rparr>)"

lemma load_save_data:
  assumes "sv_ok s" "i \<in> set save_ids" "length buf = 512" "save_data i s buf = (len, X)" "take len Y = take len X"
  shows "load_data i Y m = Some (restore s i m)"
proof -
  have l: "length (svp_reg (periph_save s)) = 16" "length (svl_data (lcd_save (m_lcd s))) = 12" "-128 \<le> svl_i2c_state (lcd_save (m_lcd s))"
    "svl_i2c_state (lcd_save (m_lcd s)) < 128" "length (sva_polled (ad_save (m_ad s))) = 4"
    using assms(1) by (simp_all add: sv_ok_def periph_save_def lcd_save_def ad_save_def Let_def)
  have "i \<in> {CHR ''S'', CHR ''P'', CHR ''T'', CHR ''8'', CHR ''B'', CHR ''L'', CHR ''A'', CHR ''W''}"
    using assms(2) by (simp add: save_ids_def)
  then show ?thesis
    using assms(3-5) ser_get_put [of buf Y "ser_save (m_ser s)"] periph_get_put [OF _ _ l(1), of buf Y]
      t16_get_put [of buf Y "t16_save (m_t16 s)"] t8_get_put [of buf Y "t8_save (m_t8 s)"] btn_get_put [of buf Y "btn_save (m_btn s)"]
      lcd_get_put [OF _ _ l(2-4), of buf Y] ad_get_put [OF _ _ l(5), of buf Y] wdog_get_put [of buf Y "wdog_save (m_wdog s)"]
    by (elim insertE) (simp_all add: save_data_def load_data_def restore_def split_beta)
qed

lemma save_data_bounds:
  assumes "sv_ok s" "length buf = 512" "save_data i s buf = (len, X)"
  shows "length X = 512" "len \<le> 56"
proof -
  have l: "length (svp_reg (periph_save s)) = 16" "length (svl_data (lcd_save (m_lcd s))) = 12" 
    "length (concat (map (to_le 2) (sva_polled (ad_save (m_ad s))))) = 8"
    using assms(1) by (simp_all add: sv_ok_def periph_save_def lcd_save_def ad_save_def Let_def length_concat o_def sum_list_triv)
  show "len \<le> 56"
    using assms(3) by (auto simp: save_data_def split: if_splits)
  show "length X = 512"
    using assms(2,3) l by (auto simp: save_data_def ser_put_def periph_put_def t16_put_def t8_put_def pair_bytes_def btn_put_def lcd_put_def
        ad_put_def wdog_put_def split: if_splits)
qed

lemma char_of_byte_of: "char_of (unat (byte_of c)) = c" "byte_of c = 0 \<longleftrightarrow> c = NUL"
proof -
  have u: "unat (byte_of c) = of_char c"
    unfolding byte_of_def by (simp only: unat_of_nat) (simp add: take_bit_nat_eq_self)
  then show c: "char_of (unat (byte_of c)) = c"
    by simp
  have "char_of (0 :: nat) = NUL"
    by (simp add: char_of_def)
  then show "byte_of c = 0 \<longleftrightarrow> c = NUL"
    using c by (auto simp: byte_of_def)
qed

lemma load_block_step:
  assumes "len \<le> 512" "len \<le> length X" "i \<noteq> NUL"
  shows "load_blocks (byte_of i # enc16 (of_nat len) @ take len X @ rest) buf m =
    Option.bind (load_data i (put 0 (take len X) buf) m) (load_blocks rest (put 0 (take len X) buf))"
proof -
  have "unat (of_nat len :: u16) = len"
    using assms(1) by (simp only: unat_of_nat) (simp add: take_bit_nat_eq_self)
  moreover have "be16 (enc16 (of_nat len) @ take len X @ rest) 0 = of_nat len"
    using be16_enc [of "[]" 0] by simp
  ultimately show ?thesis
    using assms by (subst load_blocks.simps) (simp add: char_of_byte_of Let_def)
qed

lemma load_save_blocks:
  assumes "sv_ok s" "set ids \<subseteq> set save_ids" "length buf = 512" "length buf2 = 512"
  shows "load_blocks (save_blocks ids s buf @ 0 # r) buf2 m = Some (True, fold (restore s) ids m)"
  using assms(2-4)
proof (induction ids arbitrary: buf buf2 m)
  case Nil
  then show ?case
    by (simp add: load_blocks.simps)
next
  case (Cons i ids)
  obtain len X where d: "save_data i s buf = (len, X)"
    by fastforce
  have b: "length X = 512" "len \<le> 56"
    using save_data_bounds [OF assms(1) Cons.prems(2) d] by auto
  have i: "i \<in> set save_ids" "i \<noteq> NUL"
    using Cons.prems(1) by (auto simp: save_ids_def)
  let ?Y = "put 0 (take len X) buf2"
  have Y: "length ?Y = 512" "take len ?Y = take len X"
    using b Cons.prems(3) by (simp_all) (simp add: put_def)
  have "load_data i ?Y m = Some (restore s i m)"
    by (rule load_save_data [OF assms(1) i(1) Cons.prems(2) d Y(2)])
  then show ?case
    using load_block_step [of len X i "save_blocks ids s X @ 0 # r" buf2 m] Cons.IH [OF _ b(1) Y(1)] Cons.prems(1) b i(2) d by simp
qed

lemma mem_bytes_length [simp]: "length (mem_bytes m) = 0x10000"
  by (simp add: mem_bytes_def)

lemma mem_of_bytes: "mem_of (mem_bytes m @ r) = m"
proof
  fix a :: u16
  have "unat a < 0x10000"
    using unat_less_2p [of a] by simp
  then show "mem_of (mem_bytes m @ r) a = m a"
    by (simp add: mem_of_def nth_append) (simp add: mem_bytes_def)
qed

definition sym_ok :: "symkey \<times> string \<Rightarrow> bool" where
  "sym_ok kn \<longleftrightarrow> (case kn of ((a, t), n) \<Rightarrow> length n < 0x8000 \<and> NUL \<notin> set n \<and> -0x8000 \<le> t \<and> t < 0x8000 \<and> (a \<noteq> 0 \<or> t \<noteq> 0 \<or> n \<noteq> []))"

lemma load_symbol_step:
  assumes "sym_ok ((a, t), n)"
  shows "load_symbols (save_symbol ((a, t), n) @ r) tree = load_symbols r (symbols_add (a, t) n tree)"
proof -
  let ?s = "save_symbol ((a, t), n) @ r"
  have o: "length n < 0x8000" "NUL \<notin> set n" "-0x8000 \<le> t" "t < 0x8000" "a \<noteq> 0 \<or> t \<noteq> 0 \<or> n \<noteq> []"
    using assms by (simp_all add: sym_ok_def)
  have u: "unat (of_nat (length n) :: u16) = length n"
    using o(1) by (simp only: unat_of_nat) (simp add: take_bit_nat_eq_self)
  have t: "sint (of_int t :: u16) = t"
    using o(3,4) by (simp only: signed_of_int) (simp add: signed_take_bit_int_eq_self)
  have f: "be16 ?s 0 = a" "be16 ?s 2 = of_int t" "be16 ?s 4 = of_nat (length n)"
    using be16_enc [of "[]" 0 a] be16_enc [of "enc16 a" 2 "of_int t"] be16_enc [of "enc16 a @ enc16 (of_int t)" 4 "of_nat (length n)"]
    by (simp_all add: save_symbol_def)
  have "take 6 ?s \<noteq> replicate 6 0"
  proof
    assume z: "take 6 ?s = replicate 6 0"
    then have "?s ! j = 0" if "j < 6" for j
      using that by (metis nth_replicate nth_take)
    then have "be16 ?s 0 = 0" "be16 ?s 2 = 0" "be16 ?s 4 = 0"
      by (simp_all add: be16_def)
    then have "a = 0" "t = 0" "length n = 0"
      using f u t by auto
    then show False
      using o(5) by simp
  qed
  moreover have d: "drop 6 ?s = map byte_of n @ r"
    by (simp add: save_symbol_def enc16_def)
  moreover have "drop (length n) (drop 6 ?s) = r"
    unfolding d by simp
  then have "drop (6 + length n) ?s = r"
    by (simp only: drop_drop add.commute)
  moreover have "text_of (takeWhile (\<lambda>b. b \<noteq> 0) (map byte_of n)) = n"
    using o(2) by (simp add: takeWhile_map o_def char_of_byte_of text_of_def) (auto simp: takeWhile_eq_all_conv intro: map_idI)
  moreover have "6 \<le> length ?s"
    by (simp add: save_symbol_def)
  ultimately show ?thesis
    using f u t o(1) by (subst load_symbols.simps) (simp add: Let_def)
qed

lemma load_save_symbols:
  "list_all sym_ok l \<Longrightarrow> load_symbols (concat (map save_symbol l) @ save_symbol ((0, 0), []) @ r) tree
    = Some (fold (\<lambda>(k, n). symbols_add k n) l tree, r)"
proof (induction l arbitrary: tree)
  case Nil
  then show ?case
    by (subst load_symbols.simps) (simp add: save_symbol_def enc16_def numeral_eq_Suc)
next
  case (Cons x l)
  then show ?case
    by (cases x) (auto simp: load_symbol_step)
qed

lemma stop_time_keeps [simp]:
  "m_mem (stop_time m) = m_mem m" "m_type (stop_time m) = m_type m" "m_syms (stop_time m) = m_syms m" "m_files (stop_time m) = m_files m"
  "m_ser (stop_time m) = m_ser m" "m_t16 (stop_time m) = m_t16 m" "m_t8 (stop_time m) = m_t8 m" "m_btn (stop_time m) = m_btn m"
  "m_lcd (stop_time m) = m_lcd m" "m_ad (stop_time m) = m_ad m" "m_wdog (stop_time m) = m_wdog m" "m_cpu (stop_time m) = m_cpu m"
  "m_bus (stop_time m) = m_bus m" "m_ws (stop_time m) = m_ws m" "m_junk (stop_time m) = m_junk m" "m_frame (stop_time m) = m_frame m"
  "stopped (m_clock (stop_time m)) = stopped (m_clock m) + 1" "sleeping (m_clock (stop_time m)) = sleeping (m_clock m)"
  "syscr (m_clock (stop_time m)) = syscr (m_clock m)"
  by (simp_all add: stop_time_def Let_def)

lemma cont_time_keeps [simp]:
  "m_mem (cont_time m) = m_mem m" "m_type (cont_time m) = m_type m" "m_syms (cont_time m) = m_syms m" "m_files (cont_time m) = m_files m"
  "m_ser (cont_time m) = m_ser m" "m_t16 (cont_time m) = m_t16 m" "m_t8 (cont_time m) = m_t8 m" "m_btn (cont_time m) = m_btn m"
  "m_lcd (cont_time m) = m_lcd m" "m_ad (cont_time m) = m_ad m" "m_wdog (cont_time m) = m_wdog m" "m_cpu (cont_time m) = m_cpu m"
  "m_bus (cont_time m) = m_bus m" "m_ws (cont_time m) = m_ws m" "m_frame (cont_time m) = m_frame m"
  "stopped (m_clock (cont_time m)) = stopped (m_clock m) - 1" "syscr (m_clock (cont_time m)) = syscr (m_clock m)"
  by (simp_all add: cont_time_def Let_def)

lemma periph_save_stop [simp]: "periph_save (stop_time m) = periph_save m"
  by (simp add: periph_save_def Let_def)

lemma gui_write_cycles [simp]: "cycles (gui_write msg b) = cycles b"
  by (simp add: gui_write_def)

lemma fold_gui_write_cycles [simp]: "cycles (fold (\<lambda>i. gui_write (f i)) is b) = cycles b"
  by (induction "is" arbitrary: b) simp_all

lemma periph_load_keeps [simp]:
  "m_mem (periph_load d m) = m_mem m" "m_type (periph_load d m) = m_type m" "m_syms (periph_load d m) = m_syms m" "m_t16 (periph_load d m) = m_t16 m"
  "m_ad (periph_load d m) = m_ad m" "m_ser (periph_load d m) = m_ser m" "stopped (m_clock (periph_load d m)) = stopped (m_clock m)"
  by (simp_all add: periph_load_def Let_def)

lemma restore_all:
  shows "m_mem (fold (restore s) save_ids m) = m_mem m" "m_type (fold (restore s) save_ids m) = m_type m"
    "m_syms (fold (restore s) save_ids m) = m_syms m" "m_t16 (fold (restore s) save_ids m) = t16_load (t16_save (m_t16 s)) (m_t16 m)"
    "m_t8 (fold (restore s) save_ids m) = t8_load (t8_save (m_t8 s))" "m_wdog (fold (restore s) save_ids m) = wdog_load (wdog_save (m_wdog s))"
    "m_ad (fold (restore s) save_ids m) = ad_load (ad_save (m_ad s)) (m_ad m)" "m_lcd (fold (restore s) save_ids m) = m_lcd s"
    "m_ser (fold (restore s) save_ids m) = ser_load (ser_save (m_ser s)) (m_bus m) (m_ser m)"
    "stopped (m_clock (fold (restore s) save_ids m)) = stopped (m_clock m)"
  by (simp_all add: save_ids_def restore_def split_beta lcd_load_def lcd_save_def Let_def)

lemma restore_cpu:
  "m_cpu (fold (restore s) save_ids m) = m_cpu (periph_load (periph_save s) m)"
  "cycles (m_bus (fold (restore s) save_ids m)) = cycles (m_bus (periph_load (periph_save s) m))"
  "syscr (m_clock (fold (restore s) save_ids m)) = syscr (m_clock s)"
  by (simp_all add: save_ids_def restore_def split_beta lcd_load_def btn_load_def btn_check_next_cycle_def periph_load_def periph_save_def Let_def)

section \<open>Properties\<close>


text \<open>
  Loading a file of another type stops the machine: nothing is loaded, but the time, which is stopped for the load, is not set going again.
\<close>

theorem savefile_wrong_type:
  assumes "m_files m path = Some f" and "8 \<le> length (inflate f)" and "take 8 (inflate f) \<noteq> SAVEFILE_MAGIC"
  shows "savefile_load inflate path m = Some (stop_time m) \<and> stopped (m_clock (stop_time m)) = stopped (m_clock m) + 1"
  using assms by (simp add: savefile_load_def fread_into_def fread_def Let_def)

theorem savefile_wrong_type_witness:
  "savefile_load id ''x'' (machine_ex\<lparr>m_files := (\<lambda>_. None)(''x'' \<mapsto> [1, 2, 3, 4, 5, 6, 7, 8])\<rparr>)
    = Some (stop_time (machine_ex\<lparr>m_files := (\<lambda>_. None)(''x'' \<mapsto> [1, 2, 3, 4, 5, 6, 7, 8])\<rparr>))"
  using savefile_wrong_type [of "machine_ex\<lparr>m_files := (\<lambda>_. None)(''x'' \<mapsto> [1, 2, 3, 4, 5, 6, 7, 8])\<rparr>" "''x''" "[1, 2, 3, 4, 5, 6, 7, 8]" id]
  by (simp add: SAVEFILE_MAGIC_def byte_of_def)




end
