(* ===== verification/Instr.thy ===== *)
theory Instr
  imports Savefile
begin

text \<open>
  The instructions of the H8/300 that work on registers only. The C text of the interpreter is in \<^verbatim>\<open>h8300.pl\<close>, which writes one \<open>case\<close> of the big \<open>switch\<close> per
  operation into \<^verbatim>\<open>h8300.inc\<close>; each definition here is the body of such a case, with \<open>None\<close> for \<open>goto illOpc\<close>. \<open>opc\<close> is the
  instruction word and \<open>opcval\<close> its low byte.
\<close>

section \<open>Operands and flags\<close>

definition opcval :: "u16 \<Rightarrow> u8" where
  "opcval opc = ucast opc"

abbreviation low4 :: "u8 \<Rightarrow> nat" where "low4 v \<equiv> unat (v AND 0xf)"
abbreviation high4 :: "u8 \<Rightarrow> nat" where "high4 v \<equiv> unat (drop_bit 4 v AND 0xf)"
abbreviation low3 :: "u8 \<Rightarrow> nat" where "low3 v \<equiv> unat (v AND 7)"
abbreviation high3 :: "u8 \<Rightarrow> nat" where "high3 v \<equiv> unat (drop_bit 4 v AND 7)"

definition opcreg :: "u16 \<Rightarrow> nat" where
  "opcreg opc = unat (drop_bit 8 opc AND 0xf)"

definition set_reg :: "nat \<Rightarrow> u8 \<Rightarrow> cpu \<Rightarrow> cpu" where
  "set_reg n v c = c\<lparr>reg := (reg c)[n := v]\<rparr>"

definition set_ccr :: "u8 \<Rightarrow> cpu \<Rightarrow> cpu" where
  "set_ccr f c = c\<lparr>ccr := f\<rparr>"

text \<open>\<open>setNZ\<close>, \<open>setNZV\<close> and \<open>setHNZVC\<close> for the two widths and the two directions.\<close>

definition setNZ8 :: "u8 \<Rightarrow> u8 \<Rightarrow> u8" where
  "setNZ8 dest f = f OR (drop_bit 4 dest AND 0x08) OR (if dest = 0 then 0x04 else 0)"

definition setNZ16 :: "u16 \<Rightarrow> u8 \<Rightarrow> u8" where
  "setNZ16 dest f = f OR ucast (drop_bit 12 dest AND 0x08) OR (if dest = 0 then 0x04 else 0)"

definition setNZV8 :: "u8 \<Rightarrow> u8 \<Rightarrow> u8" where
  "setNZV8 dest f = setNZ8 dest (f AND 0xf1)"

definition setNZV16 :: "u16 \<Rightarrow> u8 \<Rightarrow> u8" where
  "setNZV16 dest f = setNZ16 dest (f AND 0xf1)"

definition setHNZVC_add8 :: "u8 \<Rightarrow> u8 \<Rightarrow> u8 \<Rightarrow> u8 \<Rightarrow> u8" where
  "setHNZVC_add8 src oval dest f =
     setNZ8 dest (f AND 0xd0)
     OR (drop_bit 6 ((src XOR dest) AND (dest XOR oval)) AND 0x02)
     OR (push_bit 1 (src XOR dest XOR oval) AND 0x20)
     OR (drop_bit 7 (src XOR ((src XOR oval) AND (dest XOR oval))) AND 0x01)"

definition setHNZVC_sub8 :: "u8 \<Rightarrow> u8 \<Rightarrow> u8 \<Rightarrow> u8 \<Rightarrow> u8" where
  "setHNZVC_sub8 src oval dest f =
     setNZ8 dest (f AND 0xd0)
     OR (drop_bit 6 ((src XOR oval) AND (dest XOR oval)) AND 0x02)
     OR (push_bit 1 (src XOR dest XOR oval) AND 0x20)
     OR (drop_bit 7 (src XOR ((src XOR dest) AND (dest XOR oval))) AND 0x01)"

definition setHNZVC_add16 :: "u16 \<Rightarrow> u16 \<Rightarrow> u16 \<Rightarrow> u8 \<Rightarrow> u8" where
  "setHNZVC_add16 src oval dest f =
     setNZ16 dest (f AND 0xd0)
     OR ucast (drop_bit 14 ((src XOR dest) AND (dest XOR oval)) AND 0x02)
     OR ucast (drop_bit 7 (src XOR dest XOR oval) AND 0x20)
     OR ucast (drop_bit 15 (src XOR ((src XOR oval) AND (dest XOR oval))) AND 0x01)"

definition setHNZVC_sub16 :: "u16 \<Rightarrow> u16 \<Rightarrow> u16 \<Rightarrow> u8 \<Rightarrow> u8" where
  "setHNZVC_sub16 src oval dest f =
     setNZ16 dest (f AND 0xd0)
     OR ucast (drop_bit 14 ((src XOR oval) AND (dest XOR oval)) AND 0x02)
     OR ucast (drop_bit 7 (src XOR dest XOR oval) AND 0x20)
     OR ucast (drop_bit 15 (src XOR ((src XOR dest) AND (dest XOR oval))) AND 0x01)"

section \<open>Arithmetic\<close>

text \<open>Addition, comparison and subtraction of bytes, for register and immediate operands.\<close>

definition add_byte :: "nat \<Rightarrow> u8 \<Rightarrow> cpu \<Rightarrow> cpu" where
  "add_byte nr src c =
    (let oval = reg c ! nr; dest = oval + src
     in set_reg nr dest (set_ccr (setHNZVC_add8 src oval dest (ccr c)) c))"

definition addx_byte :: "nat \<Rightarrow> u8 \<Rightarrow> cpu \<Rightarrow> cpu" where
  "addx_byte nr src c =
    (let oval = reg c ! nr; dest = oval + src + (ccr c AND 1)
     in set_reg nr dest (set_ccr (setHNZVC_add8 src oval dest (ccr c)) c))"

definition cmp_byte :: "nat \<Rightarrow> u8 \<Rightarrow> cpu \<Rightarrow> cpu" where
  "cmp_byte nr src c = (let oval = reg c ! nr in set_ccr (setHNZVC_sub8 src oval (oval - src) (ccr c)) c)"

definition sub_byte :: "nat \<Rightarrow> u8 \<Rightarrow> cpu \<Rightarrow> cpu" where
  "sub_byte nr src c = set_reg nr (reg c ! nr - src) (cmp_byte nr src c)"

text \<open>\<open>SUBX\<close> leaves the zero flag cleared if it was.\<close>

definition subx_byte :: "nat \<Rightarrow> u8 \<Rightarrow> cpu \<Rightarrow> cpu" where
  "subx_byte nr src c =
    (let oval = reg c ! nr; pccr = ccr c; dest = oval - src - (ccr c AND 1)
     in set_reg nr dest (set_ccr (setHNZVC_sub8 src oval dest (ccr c) AND (pccr OR NOT 4)) c))"

definition AddBI :: "u16 \<Rightarrow> cpu \<Rightarrow> cpu option" where
  "AddBI opc c = Some (add_byte (opcreg opc) (opcval opc) c)"

definition AddB :: "u16 \<Rightarrow> cpu \<Rightarrow> cpu option" where
  "AddB opc c = Some (add_byte (low4 (opcval opc)) (reg c ! high4 (opcval opc)) c)"

definition AddXI :: "u16 \<Rightarrow> cpu \<Rightarrow> cpu option" where
  "AddXI opc c = Some (addx_byte (opcreg opc) (opcval opc) c)"

definition AddX :: "u16 \<Rightarrow> cpu \<Rightarrow> cpu option" where
  "AddX opc c = Some (addx_byte (low4 (opcval opc)) (reg c ! high4 (opcval opc)) c)"

definition CmpBI :: "u16 \<Rightarrow> cpu \<Rightarrow> cpu option" where
  "CmpBI opc c = Some (cmp_byte (opcreg opc) (opcval opc) c)"

definition CmpB :: "u16 \<Rightarrow> cpu \<Rightarrow> cpu option" where
  "CmpB opc c = Some (cmp_byte (low4 (opcval opc)) (reg c ! high4 (opcval opc)) c)"

definition SubB :: "u16 \<Rightarrow> cpu \<Rightarrow> cpu option" where
  "SubB opc c = Some (sub_byte (low4 (opcval opc)) (reg c ! high4 (opcval opc)) c)"

definition SubXI :: "u16 \<Rightarrow> cpu \<Rightarrow> cpu option" where
  "SubXI opc c = Some (subx_byte (opcreg opc) (opcval opc) c)"

definition SubX :: "u16 \<Rightarrow> cpu \<Rightarrow> cpu option" where
  "SubX opc c = Some (subx_byte (low4 (opcval opc)) (reg c ! high4 (opcval opc)) c)"

definition AddW :: "u16 \<Rightarrow> cpu \<Rightarrow> cpu option" where
  "AddW opc c =
    (let v = opcval opc; oval = GET_REG16 (low3 v) c; src = GET_REG16 (high3 v) c; dest = oval + src
     in if v AND 0x88 \<noteq> 0 then None
        else Some (SET_REG16 (low3 v) dest (set_ccr (setHNZVC_add16 src oval dest (ccr c)) c)))"

definition CmpW :: "u16 \<Rightarrow> cpu \<Rightarrow> cpu option" where
  "CmpW opc c =
    (let v = opcval opc; oval = GET_REG16 (low3 v) c; src = GET_REG16 (high3 v) c
     in if v AND 0x88 \<noteq> 0 then None else Some (set_ccr (setHNZVC_sub16 src oval (oval - src) (ccr c)) c))"

definition SubW :: "u16 \<Rightarrow> cpu \<Rightarrow> cpu option" where
  "SubW opc c =
    (let v = opcval opc; oval = GET_REG16 (low3 v) c; src = GET_REG16 (high3 v) c; dest = oval - src
     in if v AND 0x88 \<noteq> 0 then None
        else Some (SET_REG16 (low3 v) dest (set_ccr (setHNZVC_sub16 src oval dest (ccr c)) c)))"

definition AddS :: "u16 \<Rightarrow> cpu \<Rightarrow> cpu option" where
  "AddS opc c =
    (let v = opcval opc; nr = low3 v
     in if v AND 0x78 \<noteq> 0 then None else Some (SET_REG16 nr (GET_REG16 nr c + ucast (drop_bit 7 v) + 1) c))"

definition SubS :: "u16 \<Rightarrow> cpu \<Rightarrow> cpu option" where
  "SubS opc c =
    (let v = opcval opc; nr = low3 v
     in if v AND 0x78 \<noteq> 0 then None else Some (SET_REG16 nr (GET_REG16 nr c - ucast (drop_bit 7 v) - 1) c))"

definition Inc :: "u16 \<Rightarrow> cpu \<Rightarrow> cpu option" where
  "Inc opc c =
    (let v = opcval opc; dest = reg c ! low4 v + 1
     in if v AND 0xf0 \<noteq> 0 then None
        else Some (set_reg (low4 v) dest (set_ccr (setNZV8 dest (ccr c) OR (if dest = 0x80 then 0x2 else 0)) c)))"

definition Dec :: "u16 \<Rightarrow> cpu \<Rightarrow> cpu option" where
  "Dec opc c =
    (let v = opcval opc; dest = reg c ! low4 v - 1
     in if v AND 0xf0 \<noteq> 0 then None
        else Some (set_reg (low4 v) dest (set_ccr (setNZV8 dest (ccr c) OR (if dest = 0x7f then 0x2 else 0)) c)))"

text \<open>The half carry is tested after it has been cleared.\<close>

definition DAA :: "u16 \<Rightarrow> cpu \<Rightarrow> cpu option" where
  "DAA opc c =
    (let n = low4 (opcval opc); f = ccr c AND 0xd1;
         d0 = reg c ! n;
         d1 = (if f AND 0x20 \<noteq> 0 \<or> 0x09 < d0 AND 0x0f then d0 + 6 else d0);
         adj = (f AND 0x01 \<noteq> 0 \<or> 0x90 < d1 AND 0xf0);
         dest = (if adj then d1 + 0x60 else d1);
         f1 = (if adj then f OR 1 else f)
     in Some (set_reg n dest (set_ccr (setNZV8 dest f1) c)))"

definition DAS :: "u16 \<Rightarrow> cpu \<Rightarrow> cpu option" where
  "DAS opc c =
    (let n = low4 (opcval opc); f = ccr c AND 0xd1;
         d0 = reg c ! n;
         d1 = (if f AND 0x20 \<noteq> 0 then d0 + 0xfa else d0);
         dest = (if f AND 0x01 \<noteq> 0 then d1 + 0xa0 else d1)
     in Some (set_reg n dest (set_ccr (setNZV8 dest f) c)))"

text \<open>The two instructions that add to the cycle counter return the CPU only; the cycles are added where they are dispatched.\<close>

definition MulXU :: "u16 \<Rightarrow> cpu \<Rightarrow> cpu option" where
  "MulXU opc c =
    (let v = opcval opc; dest = ucast (reg c ! (low3 v + 8)) :: u16; src = reg c ! high4 v
     in if v AND 0x08 \<noteq> 0 then None else Some (SET_REG16 (low3 v) (dest * ucast src) c))"

definition DivXU :: "u16 \<Rightarrow> cpu \<Rightarrow> cpu option" where
  "DivXU opc c =
    (let v = opcval opc; dest = GET_REG16 (low3 v) c; src = reg c ! high4 v;
         f = (ccr c AND 0xf3) OR (drop_bit 4 src AND 0x8)
     in if v AND 0x08 \<noteq> 0 then None
        else if src \<noteq> 0 then
          Some (SET_REG16 (low3 v) ((dest div ucast src AND 0xff) + push_bit 8 (dest mod ucast src)) (set_ccr f c))
        else Some (SET_REG16 (low3 v) dest (set_ccr (f OR 0x4) c)))"

section \<open>Bits\<close>

text \<open>An operation on one byte \<open>val\<close>: the new byte and the new flags. \<open>bitn\<close> is the bit that an immediate or a register selects.\<close>

definition opc_bit :: "u8 \<Rightarrow> u8 \<Rightarrow> u8" where
  "opc_bit v val = drop_bit (high3 v) val XOR drop_bit 7 v"

definition bit_test_op :: "u8 \<Rightarrow> u8 \<Rightarrow> cpu \<Rightarrow> u8 \<Rightarrow> u8 option" where
  "bit_test_op code v c val =
    (let f = ccr c; rn = unat (reg c ! high4 v AND 7)
     in if code = 0x63 then Some ((f AND 0xfb) OR push_bit 2 (drop_bit rn (NOT val) AND 1))
        else if code = 0x73 then
          (if v AND 0x80 \<noteq> 0 then None else Some ((f AND 0xfb) OR push_bit 2 (drop_bit (high4 v) (NOT val) AND 1)))
        else if code = 0x74 then Some (f OR (opc_bit v val AND 1))
        else if code = 0x75 then Some (f XOR (opc_bit v val AND 1))
        else if code = 0x76 then Some (f AND (0xfe OR opc_bit v val))
        else if code = 0x77 then Some ((f AND 0xfe) OR (opc_bit v val AND 1))
        else None)"

definition bit_write_op :: "u8 \<Rightarrow> u8 \<Rightarrow> cpu \<Rightarrow> u8 \<Rightarrow> u8 option" where
  "bit_write_op code v c val =
    (let rn = unat (reg c ! high4 v AND 7)
     in if code = 0x60 then Some (val OR push_bit rn 1)
        else if code = 0x61 then Some (val XOR push_bit rn 1)
        else if code = 0x62 then Some (val AND NOT (push_bit rn 1))
        else if code = 0x67 then
          Some (if (ccr c XOR drop_bit 7 v) AND 1 \<noteq> 0 then val OR push_bit (high3 v) 1 else val AND NOT (push_bit (high3 v) 1))
        else if v AND 0x80 \<noteq> 0 then None
        else if code = 0x70 then Some (val OR push_bit (high4 v) 1)
        else if code = 0x71 then Some (val XOR push_bit (high4 v) 1)
        else if code = 0x72 then Some (val AND NOT (push_bit (high4 v) 1))
        else None)"

definition bit_test_reg :: "u16 \<Rightarrow> cpu \<Rightarrow> cpu option" where
  "bit_test_reg opc c =
    (let v = opcval opc in map_option (\<lambda>f. set_ccr f c) (bit_test_op (ucast (drop_bit 8 opc)) v c (reg c ! low4 v)))"

definition bit_write_reg :: "u16 \<Rightarrow> cpu \<Rightarrow> cpu option" where
  "bit_write_reg opc c =
    (let v = opcval opc in map_option (\<lambda>b. set_reg (low4 v) b c) (bit_write_op (ucast (drop_bit 8 opc)) v c (reg c ! low4 v)))"

section \<open>Moves, flags, shifts and logic\<close>

definition MovB :: "u16 \<Rightarrow> cpu \<Rightarrow> cpu option" where
  "MovB opc c = (let v = opcval opc; dest = reg c ! high4 v in Some (set_reg (low4 v) dest (set_ccr (setNZV8 dest (ccr c)) c)))"

definition MovBI :: "u16 \<Rightarrow> cpu \<Rightarrow> cpu option" where
  "MovBI opc c = (let dest = opcval opc in Some (set_reg (opcreg opc) dest (set_ccr (setNZV8 dest (ccr c)) c)))"

definition StC :: "u16 \<Rightarrow> cpu \<Rightarrow> cpu option" where
  "StC opc c = (let v = opcval opc in if v AND 0xf0 \<noteq> 0 then None else Some (set_reg (unat v) (ccr c) c))"

definition irq_off :: "cpu \<Rightarrow> cpu" where
  "irq_off c = c\<lparr>irq_disabled_one := True\<rparr>"

definition LdC :: "u16 \<Rightarrow> cpu \<Rightarrow> cpu option" where
  "LdC opc c = (let v = opcval opc in if v AND 0xf0 \<noteq> 0 then None else Some (irq_off (set_ccr (reg c ! unat v) c)))"

definition LdCI :: "u16 \<Rightarrow> cpu \<Rightarrow> cpu option" where
  "LdCI opc c = Some (irq_off (set_ccr (opcval opc) c))"

definition AndC :: "u16 \<Rightarrow> cpu \<Rightarrow> cpu option" where
  "AndC opc c = Some (irq_off (set_ccr (ccr c AND opcval opc) c))"

definition OrC :: "u16 \<Rightarrow> cpu \<Rightarrow> cpu option" where
  "OrC opc c = Some (irq_off (set_ccr (ccr c OR opcval opc) c))"

definition XorC :: "u16 \<Rightarrow> cpu \<Rightarrow> cpu option" where
  "XorC opc c = Some (irq_off (set_ccr (ccr c XOR opcval opc) c))"

definition ShL :: "u16 \<Rightarrow> cpu \<Rightarrow> cpu option" where
  "ShL opc c =
    (let v = opcval opc; d = reg c ! low4 v; dest = push_bit 1 d;
         f = (ccr c AND 0xf0) OR drop_bit 7 d;
         f1 = (if v AND 0x80 \<noteq> 0 \<and> (drop_bit 7 dest XOR f) AND 1 \<noteq> 0 then f OR 0x2 else f)
     in if v AND 0x70 \<noteq> 0 then None else Some (set_reg (low4 v) dest (set_ccr (setNZ8 dest f1) c)))"

definition ShR :: "u16 \<Rightarrow> cpu \<Rightarrow> cpu option" where
  "ShR opc c =
    (let v = opcval opc; d = reg c ! low4 v;
         dest = (if v AND 0x80 \<noteq> 0 then signed_drop_bit 1 d else drop_bit 1 d);
         f = (ccr c AND 0xf0) OR (d AND 1)
     in if v AND 0x70 \<noteq> 0 then None else Some (set_reg (low4 v) dest (set_ccr (setNZ8 dest f) c)))"

definition RotL :: "u16 \<Rightarrow> cpu \<Rightarrow> cpu option" where
  "RotL opc c =
    (let v = opcval opc; d = reg c ! low4 v;
         dest = (if v AND 0x80 \<noteq> 0 then push_bit 1 d OR drop_bit 7 d else push_bit 1 d OR (ccr c AND 1));
         f = (ccr c AND 0xf0) OR (if v AND 0x80 \<noteq> 0 then dest AND 1 else drop_bit 7 d)
     in if v AND 0x70 \<noteq> 0 then None else Some (set_reg (low4 v) dest (set_ccr (setNZ8 dest f) c)))"

definition RotR :: "u16 \<Rightarrow> cpu \<Rightarrow> cpu option" where
  "RotR opc c =
    (let v = opcval opc; d = reg c ! low4 v;
         dest = (if v AND 0x80 \<noteq> 0 then drop_bit 1 d OR push_bit 7 d else drop_bit 1 d OR push_bit 7 (ccr c));
         f = (ccr c AND 0xf0) OR (d AND 1)
     in if v AND 0x70 \<noteq> 0 then None else Some (set_reg (low4 v) dest (set_ccr (setNZ8 dest f) c)))"

definition logic :: "(u8 \<Rightarrow> u8 \<Rightarrow> u8) \<Rightarrow> nat \<Rightarrow> u8 \<Rightarrow> cpu \<Rightarrow> cpu option" where
  "logic g nr src c = (let dest = g (reg c ! nr) src in Some (set_reg nr dest (set_ccr (setNZV8 dest (ccr c)) c)))"

definition logic_imm :: "(u8 \<Rightarrow> u8 \<Rightarrow> u8) \<Rightarrow> u16 \<Rightarrow> cpu \<Rightarrow> cpu option" where
  "logic_imm g opc c = logic g (opcreg opc) (opcval opc) c"

definition logic_reg :: "(u8 \<Rightarrow> u8 \<Rightarrow> u8) \<Rightarrow> u16 \<Rightarrow> cpu \<Rightarrow> cpu option" where
  "logic_reg g opc c = logic g (low4 (opcval opc)) (reg c ! high4 (opcval opc)) c"

definition Not_Neg :: "u16 \<Rightarrow> cpu \<Rightarrow> cpu option" where
  "Not_Neg opc c =
    (let v = opcval opc; d = reg c ! low4 v
     in if v AND 0x70 \<noteq> 0 then None
        else if v AND 0x80 \<noteq> 0 then
          let dest = - d;
              f = setNZ8 dest (ccr c AND 0xd0) OR (if dest AND 0xf \<noteq> 0 then 0x20 else 0) OR (if dest = 0x80 then 0x2 else 0)
                  OR (if dest \<noteq> 0 then 0x1 else 0)
          in Some (set_reg (low4 v) dest (set_ccr f c))
        else let dest = NOT d in Some (set_reg (low4 v) dest (set_ccr (setNZV8 dest (ccr c)) c)))"

text \<open>The conditions of the branches.\<close>

definition branch_taken :: "nat \<Rightarrow> u8 \<Rightarrow> bool" where
  "branch_taken k f =
    (if k = 0 then True else if k = 1 then False
     else if k = 2 then f AND 0x5 = 0 else if k = 3 then f AND 0x5 \<noteq> 0
     else if k = 4 then f AND 0x1 = 0 else if k = 5 then f AND 0x1 \<noteq> 0
     else if k = 6 then f AND 0x4 = 0 else if k = 7 then f AND 0x4 \<noteq> 0
     else if k = 8 then f AND 0x2 = 0 else if k = 9 then f AND 0x2 \<noteq> 0
     else if k = 10 then f AND 0x8 = 0 else if k = 11 then f AND 0x8 \<noteq> 0
     else if k = 12 then (drop_bit 2 f XOR f) AND 0x2 = 0 else if k = 13 then (drop_bit 2 f XOR f) AND 0x2 \<noteq> 0
     else if k = 14 then ((drop_bit 2 f AND 2) XOR f) AND 0x6 = 0 else ((drop_bit 2 f AND 2) XOR f) AND 0x6 \<noteq> 0)"

section \<open>Flags mean what they should\<close>

lemma top_bit: "bit (x :: 'a::len word) (LENGTH('a) - 1) \<longleftrightarrow> 2 ^ (LENGTH('a) - 1) \<le> uint x"
proof -
  let ?h = "2 ^ (LENGTH('a) - 1) :: int"
  have l: "2 * ?h = 2 ^ LENGTH('a)"
    by (simp flip: power_Suc)
  have "uint x < 2 * ?h"
    unfolding l by (rule unsigned_less)
  moreover have "0 \<le> uint x"
    by simp
  ultimately have "uint x div ?h = (if ?h \<le> uint x then 1 else 0)"
    by (auto simp: div_pos_pos_trivial div_eq_minus1 not_le intro: int_div_pos_eq [of _ _ 1 "uint x - ?h"])
  moreover have "bit x (LENGTH('a) - 1) \<longleftrightarrow> odd (uint x div ?h)"
    by (simp only: bit_iff_odd [symmetric] bit_uint_iff) simp
  ultimately show ?thesis
    by auto
qed

lemma sint_split: "sint (x :: 'a::len word) = uint x - (if 2 ^ (LENGTH('a) - 1) \<le> uint x then 2 ^ LENGTH('a) else 0)"
proof -
  have l: "Suc (LENGTH('a) - 1) = LENGTH('a)"
    by simp
  have "sint x = signed_take_bit (LENGTH('a) - 1) (uint x)"
    by (simp add: sint_uint)
  also have "\<dots> = uint x - 2 ^ LENGTH('a) * of_bool (bit (uint x) (LENGTH('a) - 1))"
    unfolding signed_take_bit_eq_take_bit_minus l by (simp add: take_bit_int_eq_self [OF _ unsigned_less])
  also have "bit (uint x) (LENGTH('a) - 1) \<longleftrightarrow> bit x (LENGTH('a) - 1)"
    by (simp add: bit_uint_iff)
  finally show ?thesis
    using top_bit [of x] by simp
qed
text \<open>
  Addition with carry and subtraction with borrow, for any width. With \<open>h\<close> the weight of the top bit, the operands and the result are numbers
  below \<open>2 * h\<close>.
\<close>

lemma add_uint:
  fixes s t c :: "'a::len word"
  assumes "uint c \<le> 1"
  defines "h \<equiv> 2 ^ (LENGTH('a) - 1) :: int"
  shows "uint s < 2 * h" "uint t < 2 * h" "2 ^ LENGTH('a) = 2 * h"
    "uint (t + s + c) = uint t + uint s + uint c - (if 2 * h \<le> uint t + uint s + uint c then 2 * h else 0)"
    "uint (t - s - c) = uint t - uint s - uint c + (if uint t < uint s + uint c then 2 * h else 0)"
proof -
  show l: "2 ^ LENGTH('a) = 2 * h"
    by (simp add: h_def flip: power_Suc)
  show b: "uint s < 2 * h" "uint t < 2 * h"
    unfolding l [symmetric] by (rule unsigned_less)+
  have c: "0 \<le> uint c" "0 \<le> uint s" "0 \<le> uint t" "0 < h"
    by (simp_all add: h_def)
  have "uint (t + s + c) = (uint t + uint s + uint c) mod (2 * h)"
    by (simp add: uint_word_ariths l mod_simps)
  also have "\<dots> = uint t + uint s + uint c - (if 2 * h \<le> uint t + uint s + uint c then 2 * h else 0)"
  proof (cases "2 * h \<le> uint t + uint s + uint c")
    case True
    have "(uint t + uint s + uint c) mod (2 * h) = (uint t + uint s + uint c - 2 * h) mod (2 * h)"
      by simp
    also have "\<dots> = uint t + uint s + uint c - 2 * h"
      using True b c assms(1) by (intro mod_pos_pos_trivial) linarith+
    finally show ?thesis
      using True by simp
  qed (use b c in \<open>simp add: mod_pos_pos_trivial\<close>)
  finally show "uint (t + s + c) = uint t + uint s + uint c - (if 2 * h \<le> uint t + uint s + uint c then 2 * h else 0)" .
  have "uint (t - s - c) = (uint t - uint s - uint c) mod (2 * h)"
    by (simp add: uint_word_ariths l mod_simps)
  also have "\<dots> = uint t - uint s - uint c + (if uint t < uint s + uint c then 2 * h else 0)"
  proof (cases "uint t < uint s + uint c")
    case True
    have "(uint t - uint s - uint c) mod (2 * h) = (uint t - uint s - uint c + 2 * h) mod (2 * h)"
      by simp
    also have "\<dots> = uint t - uint s - uint c + 2 * h"
      using True b c assms(1) by (intro mod_pos_pos_trivial) linarith+
    finally show ?thesis
      using True by simp
  next
    case False
    then have "(uint t - uint s - uint c) mod (2 * h) = uint t - uint s - uint c"
      using b c by (intro mod_pos_pos_trivial) linarith+
    then show ?thesis
      using False by simp
  qed
  finally show "uint (t - s - c) = uint t - uint s - uint c + (if uint t < uint s + uint c then 2 * h else 0)" .
qed

lemma add_arith:
  fixes S T C h D :: int
  assumes "0 \<le> S" "S < 2 * h" "0 \<le> T" "T < 2 * h" "0 \<le> C" "C \<le> 1" "D = T + S + C - (if 2 * h \<le> T + S + C then 2 * h else 0)"
  shows "((h \<le> S) \<noteq> (((h \<le> S) \<noteq> (h \<le> T)) \<and> ((h \<le> D) \<noteq> (h \<le> T)))) \<longleftrightarrow> 2 * h \<le> T + S + C"
    "(((h \<le> S) \<noteq> (h \<le> D)) \<and> ((h \<le> D) \<noteq> (h \<le> T))) \<longleftrightarrow> D - (if h \<le> D then 2 * h else 0)
       \<noteq> T - (if h \<le> T then 2 * h else 0) + (S - (if h \<le> S then 2 * h else 0)) + C"
  using assms by (cases "h \<le> S"; cases "h \<le> T"; cases "2 * h \<le> T + S + C"; auto)+

lemma sub_arith:
  fixes S T C h D :: int
  assumes "0 \<le> S" "S < 2 * h" "0 \<le> T" "T < 2 * h" "0 \<le> C" "C \<le> 1" "D = T - S - C + (if T < S + C then 2 * h else 0)"
  shows "((h \<le> S) \<noteq> (((h \<le> S) \<noteq> (h \<le> D)) \<and> ((h \<le> D) \<noteq> (h \<le> T)))) \<longleftrightarrow> T < S + C"
    "(((h \<le> S) \<noteq> (h \<le> T)) \<and> ((h \<le> D) \<noteq> (h \<le> T))) \<longleftrightarrow> D - (if h \<le> D then 2 * h else 0)
       \<noteq> T - (if h \<le> T then 2 * h else 0) - (S - (if h \<le> S then 2 * h else 0)) - C"
proof -
  consider "T < S + C" "D = T - S - C + 2 * h" | "S + C \<le> T" "D = T - S - C"
    using assms(7) by (cases "T < S + C") auto
  note d = this
  show "((h \<le> S) \<noteq> (((h \<le> S) \<noteq> (h \<le> D)) \<and> ((h \<le> D) \<noteq> (h \<le> T)))) \<longleftrightarrow> T < S + C"
    by (rule d; insert assms(1-6); cases "h \<le> S"; cases "h \<le> T"; cases "h \<le> D"; simp)
  show "(((h \<le> S) \<noteq> (h \<le> T)) \<and> ((h \<le> D) \<noteq> (h \<le> T))) \<longleftrightarrow> D - (if h \<le> D then 2 * h else 0)
       \<noteq> T - (if h \<le> T then 2 * h else 0) - (S - (if h \<le> S then 2 * h else 0)) - C"
    by (rule d; insert assms(1-6); cases "h \<le> S"; cases "h \<le> T"; cases "h \<le> D"; simp)
qed

lemma add_flags_word:
  fixes s t c d :: "'a::len word"
  assumes c: "uint c \<le> 1" and d: "d = t + s + c"
  defines "m \<equiv> \<lambda>x :: 'a word. bit x (LENGTH('a) - 1)"
  shows "(m s \<noteq> ((m s \<noteq> m t) \<and> (m d \<noteq> m t))) \<longleftrightarrow> 2 ^ LENGTH('a) \<le> uint t + uint s + uint c"
    "((m s \<noteq> m d) \<and> (m d \<noteq> m t)) \<longleftrightarrow> sint d \<noteq> sint t + sint s + uint c"
proof -
  note a = add_uint(1) [OF c, of s] add_uint(2) [OF c, of t] add_uint(3) [OF c] add_uint(4) [OF c, of t s]
  note r = add_arith [OF unsigned_greater_eq a(1) unsigned_greater_eq a(2) unsigned_greater_eq c a(4)]
  show "(m s \<noteq> ((m s \<noteq> m t) \<and> (m d \<noteq> m t))) \<longleftrightarrow> 2 ^ LENGTH('a) \<le> uint t + uint s + uint c"
    unfolding m_def top_bit d a(3) using r(1) .
  show "((m s \<noteq> m d) \<and> (m d \<noteq> m t)) \<longleftrightarrow> sint d \<noteq> sint t + sint s + uint c"
    unfolding m_def top_bit d sint_split a(3) using r(2) .
qed

lemma sub_flags_word:
  fixes s t c d :: "'a::len word"
  assumes c: "uint c \<le> 1" and d: "d = t - s - c"
  defines "m \<equiv> \<lambda>x :: 'a word. bit x (LENGTH('a) - 1)"
  shows "(m s \<noteq> ((m s \<noteq> m d) \<and> (m d \<noteq> m t))) \<longleftrightarrow> uint t < uint s + uint c"
    "((m s \<noteq> m t) \<and> (m d \<noteq> m t)) \<longleftrightarrow> sint d \<noteq> sint t - sint s - uint c"
proof -
  note a = add_uint(1) [OF c, of s] add_uint(2) [OF c, of t] add_uint(3) [OF c] add_uint(5) [OF c, of t s]
  note r = sub_arith [OF unsigned_greater_eq a(1) unsigned_greater_eq a(2) unsigned_greater_eq c a(4)]
  show "(m s \<noteq> ((m s \<noteq> m d) \<and> (m d \<noteq> m t))) \<longleftrightarrow> uint t < uint s + uint c"
    unfolding m_def top_bit d a(3) using r(1) .
  show "((m s \<noteq> m t) \<and> (m d \<noteq> m t)) \<longleftrightarrow> sint d \<noteq> sint t - sint s - uint c"
    unfolding m_def top_bit d sint_split a(3) using r(2) .
qed

text \<open>The flags as bits of the result.\<close>

lemma bit_doubled: "bit ((x :: u8) * 2) 5 \<longleftrightarrow> bit x 4"
proof -
  have "bit (push_bit 1 x) 5 \<longleftrightarrow> bit x 4"
    by (simp only: bit_push_bit_iff) simp
  then show ?thesis
    by (simp add: push_bit_eq_mult)
qed

lemma sub8_bits:
  fixes s t d f :: u8
  defines "F \<equiv> setHNZVC_sub8 s t d f"
  shows "bit F 0 \<longleftrightarrow> bit s 7 \<noteq> ((bit s 7 \<noteq> bit d 7) \<and> (bit d 7 \<noteq> bit t 7))"
    "bit F 1 \<longleftrightarrow> (bit s 7 \<noteq> bit t 7) \<and> (bit d 7 \<noteq> bit t 7)" "bit F 2 \<longleftrightarrow> d = 0" "bit F 3 \<longleftrightarrow> bit d 7"
    "bit F 5 \<longleftrightarrow> (bit s 4 \<noteq> (bit d 4 \<noteq> bit t 4))"
  by (simp_all add: F_def setHNZVC_sub8_def setNZ8_def bit_simps bit_doubled)

lemma add8_bits:
  fixes s t d f :: u8
  defines "F \<equiv> setHNZVC_add8 s t d f"
  shows "bit F 0 \<longleftrightarrow> bit s 7 \<noteq> ((bit s 7 \<noteq> bit t 7) \<and> (bit d 7 \<noteq> bit t 7))"
    "bit F 1 \<longleftrightarrow> (bit s 7 \<noteq> bit d 7) \<and> (bit d 7 \<noteq> bit t 7)" "bit F 2 \<longleftrightarrow> d = 0" "bit F 3 \<longleftrightarrow> bit d 7"
    "bit F 5 \<longleftrightarrow> (bit s 4 \<noteq> (bit d 4 \<noteq> bit t 4))"
  by (simp_all add: F_def setHNZVC_add8_def setNZ8_def bit_simps bit_doubled)

lemma sub16_bits:
  fixes s t d :: u16 and f :: u8
  defines "F \<equiv> setHNZVC_sub16 s t d f"
  shows "bit F 0 \<longleftrightarrow> bit s 15 \<noteq> ((bit s 15 \<noteq> bit d 15) \<and> (bit d 15 \<noteq> bit t 15))"
    "bit F 1 \<longleftrightarrow> (bit s 15 \<noteq> bit t 15) \<and> (bit d 15 \<noteq> bit t 15)" "bit F 2 \<longleftrightarrow> d = 0" "bit F 3 \<longleftrightarrow> bit d 15"
  by (simp_all add: F_def setHNZVC_sub16_def setNZ16_def bit_simps)

lemma branch_bits:
  "branch_taken 2 f \<longleftrightarrow> \<not> bit f 0 \<and> \<not> bit f 2" "branch_taken 3 f \<longleftrightarrow> bit f 0 \<or> bit f 2"
  "branch_taken 4 f \<longleftrightarrow> \<not> bit f 0" "branch_taken 5 f \<longleftrightarrow> bit f 0" "branch_taken 6 f \<longleftrightarrow> \<not> bit f 2" "branch_taken 7 f \<longleftrightarrow> bit f 2"
  "branch_taken 12 f \<longleftrightarrow> bit f 3 = bit f 1" "branch_taken 13 f \<longleftrightarrow> bit f 3 \<noteq> bit f 1"
  "branch_taken 14 f \<longleftrightarrow> bit f 3 = bit f 1 \<and> \<not> bit f 2" "branch_taken 15 f \<longleftrightarrow> bit f 3 \<noteq> bit f 1 \<or> bit f 2"
  by (auto simp: branch_taken_def u8_eq_iff bit_simps)

lemma sint_equal: "sint (x :: 'a::len word) = sint y \<longleftrightarrow> x = y"
  by (metis signed_word_eqI)

text \<open>A comparison, read off the flags: for both widths the same.\<close>

lemma compare_flags:
  fixes s t :: "'a::len word"
  assumes F: "bit F 0 \<longleftrightarrow> bit s n \<noteq> ((bit s n \<noteq> bit (t - s) n) \<and> (bit (t - s) n \<noteq> bit t n))"
    "bit F 1 \<longleftrightarrow> (bit s n \<noteq> bit t n) \<and> (bit (t - s) n \<noteq> bit t n)" "bit F 2 \<longleftrightarrow> t - s = 0" "bit F 3 \<longleftrightarrow> bit (t - s) n"
    and n: "n = LENGTH('a) - 1"
  shows "bit F 0 \<longleftrightarrow> t < s" "bit F 2 \<longleftrightarrow> t = s" "bit F 3 \<noteq> bit F 1 \<longleftrightarrow> sint t < sint s"
proof -
  have z: "uint (0 :: 'a word) \<le> 1" "t - s = t - s - 0"
    by simp_all
  note r = sub_flags_word [OF z, folded n]
  show "bit F 0 \<longleftrightarrow> t < s"
    using r(1) by (simp add: F(1) word_less_def)
  show "bit F 2 \<longleftrightarrow> t = s"
    by (simp add: F(3))
  have m: "bit (t - s) n \<longleftrightarrow> sint (t - s) < 0"
    using bit_last_iff [of "t - s"] by (simp add: n)
  have v: "bit F 1 \<longleftrightarrow> sint (t - s) \<noteq> sint t - sint s"
    using r(2) F(2) by simp
  have o: "bit t n \<longleftrightarrow> sint t < 0" "bit s n \<longleftrightarrow> sint s < 0"
    using bit_last_iff [of t] bit_last_iff [of s] by (simp_all add: n)
  show "bit F 3 \<noteq> bit F 1 \<longleftrightarrow> sint t < sint s"
    using v m o F(2) unfolding F(4) by (cases "bit F 1") auto
qed

lemma compare8: 
  fixes s t f :: u8
  defines "F \<equiv> setHNZVC_sub8 s t (t - s) f"
  shows "bit F 0 \<longleftrightarrow> t < s" "bit F 2 \<longleftrightarrow> t = s" "bit F 3 \<noteq> bit F 1 \<longleftrightarrow> sint t < sint s"
  unfolding F_def by (rule compare_flags [OF sub8_bits(1-4)]; simp)+

lemma compare16: 
  fixes s t :: u16 and f :: u8
  defines "F \<equiv> setHNZVC_sub16 s t (t - s) f"
  shows "bit F 0 \<longleftrightarrow> t < s" "bit F 2 \<longleftrightarrow> t = s" "bit F 3 \<noteq> bit F 1 \<longleftrightarrow> sint t < sint s"
  unfolding F_def by (rule compare_flags [OF sub16_bits(1-4)]; simp)+

text \<open>What the ten conditional branches see after a comparison.\<close>

definition branch_relations :: "u8 \<Rightarrow> 'a::len word \<Rightarrow> 'a word \<Rightarrow> bool" where
  "branch_relations F s t \<longleftrightarrow>
     branch_taken 2 F = (s < t) \<and> branch_taken 3 F = (t \<le> s) \<and> branch_taken 4 F = (s \<le> t) \<and> branch_taken 5 F = (t < s)
   \<and> branch_taken 6 F = (t \<noteq> s) \<and> branch_taken 7 F = (t = s)
   \<and> branch_taken 12 F = (sint s \<le> sint t) \<and> branch_taken 13 F = (sint t < sint s)
   \<and> branch_taken 14 F = (sint s < sint t) \<and> branch_taken 15 F = (sint t \<le> sint s)"

lemma compare_relations:
  fixes s t :: "'a::len word"
  assumes "bit F 0 \<longleftrightarrow> t < s" "bit F 2 \<longleftrightarrow> t = s" "bit F 3 \<noteq> bit F 1 \<longleftrightarrow> sint t < sint s"
  shows "branch_relations F s t"
proof -
  have e: "sint t = sint s \<longleftrightarrow> t = s"
    by (simp add: sint_equal)
  have n: "bit F 3 = bit F 1 \<longleftrightarrow> sint s \<le> sint t"
    using assms(3) by linarith
  have "sint s < sint t \<longleftrightarrow> sint s \<le> sint t \<and> t \<noteq> s" "sint t \<le> sint s \<longleftrightarrow> sint t < sint s \<or> t = s"
    using e by linarith+
  moreover have "s < t \<longleftrightarrow> \<not> t < s \<and> t \<noteq> s" "t \<le> s \<longleftrightarrow> t < s \<or> t = s" "s \<le> t \<longleftrightarrow> \<not> t < s"
    by (simp_all add: not_less le_less) (metis less_le not_less_iff_gr_or_eq)?
  ultimately show ?thesis
    unfolding branch_relations_def branch_bits assms n by (auto simp: not_le)
qed

lemma parity_div16: "odd (x mod 256 div 16) \<longleftrightarrow> odd (x div (16 :: int))"
proof -
  have "x div 16 = (x div 256 * 16 * 16 + x mod 256) div 16"
    using div_mult_mod_eq [of x 256] by (simp add: algebra_simps)
  also have "\<dots> = x div 256 * 16 + x mod 256 div 16"
    by (rule div_mult_self3) simp
  finally show ?thesis
    by simp
qed

lemma div16_digit: "0 \<le> r \<Longrightarrow> r < 32 \<Longrightarrow> r div 16 = (if 16 \<le> r then 1 else (0 :: int))"
  by presburger

lemma half_carry:
  fixes s t c :: u8
  assumes "uint c \<le> 1"
  shows "(bit s 4 \<noteq> (bit (t + s + c) 4 \<noteq> bit t 4)) \<longleftrightarrow> 16 \<le> uint t mod 16 + uint s mod 16 + uint c"
proof -
  let ?r = "uint t mod 16 + uint s mod 16 + uint c"
  have b: "bit x 4 \<longleftrightarrow> odd (uint x div 16)" for x :: u8
    using bit_uint_iff [of x 4] by (simp add: bit_iff_odd)
  have "uint (t + s + c) = (uint t + uint s + uint c) mod 256"
    by (simp add: uint_word_ariths mod_simps)
  then have "bit (t + s + c) 4 \<longleftrightarrow> odd ((uint t + uint s + uint c) div 16)"
    by (simp only: b parity_div16)
  also have "uint t + uint s + uint c = (uint t div 16 + uint s div 16) * 16 + ?r"
    by presburger
  also have "\<dots> div 16 = uint t div 16 + uint s div 16 + ?r div 16"
    by (rule div_mult_self3) simp
  finally have "bit (t + s + c) 4 \<longleftrightarrow> odd (uint t div 16 + uint s div 16 + ?r div 16)" .
  moreover have "0 \<le> uint c" "uint t mod 16 < 16" "uint s mod 16 < 16" "0 \<le> uint t mod 16" "0 \<le> uint s mod 16"
    by simp_all
  then have "0 \<le> ?r" "?r < 32"
    using assms by linarith+
  then have "?r div 16 = (if 16 \<le> ?r then 1 else 0)"
    by (rule div16_digit)
  ultimately show ?thesis
    unfolding b by auto
qed

lemma and_numeral_mod: "(x :: 'a::len word) AND 7 = take_bit 3 x" "x AND 0xf = take_bit 4 x" "x AND 0xff = take_bit 8 x"
  by (simp_all add: take_bit_eq_mask mask_eq_exp_minus_1)

lemma low3_less [simp]: "low3 v < 8" "high3 v < 8" "low4 v < 16" "high4 v < 16" "opcreg opc < 16"
  by (simp_all add: and_numeral_mod take_bit_eq_mod unat_mod opcreg_def)

lemma mul_bytes: "unat (ucast (a :: u8) * ucast b :: u16) = unat a * unat (b :: u8)"
proof -
  have "unat a < 256" "unat b < 256"
    using unat_less_2p [of a] unat_less_2p [of b] by simp_all
  then have "unat a * unat b < 256 * 256"
    by (intro mult_strict_mono) simp_all
  then show ?thesis
    by (simp add: unat_word_ariths unat_ucast_up)
qed

lemma div_bytes:
  fixes D :: u16 and b :: u8
  assumes "b \<noteq> 0"
  defines "w \<equiv> (D div ucast b AND 0xff) + push_bit 8 (D mod ucast b)"
  shows "unat (ucast (drop_bit 8 w) :: u8) = unat D mod unat b" "unat (ucast w :: u8) = unat D div unat b mod 256"
proof -
  let ?Q = "unat D div unat b mod 256" and ?R = "unat D mod unat b"
  have b: "unat b < 256" "0 < unat b"
    using unat_less_2p [of b] assms(1) by (simp_all add: unat_gt_0)
  then have R: "?R < 256"
    using less_trans [OF mod_less_divisor] by blast
  have "unat (push_bit 8 (D mod ucast b)) = 256 * ?R"
    using R by (simp add: push_bit_eq_mult unat_word_ariths unat_mod unat_ucast_up)
  moreover have "unat (D div ucast b AND 0xff) = ?Q"
    by (simp add: and_numeral_mod take_bit_eq_mod unat_mod unat_div unat_ucast_up)
  ultimately have w: "unat w = 256 * ?R + ?Q"
    using R by (simp add: w_def unat_word_ariths)
  show "unat (ucast (drop_bit 8 w) :: u8) = ?R"
    using R w by (simp add: unsigned_ucast_eq unat_drop_bit_eq drop_bit_eq_div take_bit_eq_mod unat_div)
  show "unat (ucast w :: u8) = ?Q"
    using R w by (simp add: unsigned_ucast_eq take_bit_eq_mod)
qed

lemma decimal_adjust_flags:
  assumes "f AND 0xd1 = g AND 0xd1"
  shows "DAA opc (set_ccr f c) = DAA opc (set_ccr g c)" "DAS opc (set_ccr f c) = DAS opc (set_ccr g c)"
proof -
  have s: "reg (set_ccr f c) = reg (set_ccr g c)" "ccr (set_ccr f c) = f" "ccr (set_ccr g c) = g"
    "set_reg n v (set_ccr h (set_ccr f c)) = set_reg n v (set_ccr h (set_ccr g c))" for n v h
    by (simp_all add: set_ccr_def set_reg_def)
  show "DAA opc (set_ccr f c) = DAA opc (set_ccr g c)" "DAS opc (set_ccr f c) = DAS opc (set_ccr g c)"
    unfolding DAA_def DAS_def s assms by (rule refl)+
qed

section \<open>Properties\<close>

text \<open>
  C6. Comparing and branching: after a comparison of bytes or of words each conditional branch is taken exactly if the relation in its name holds
  between the two operands, unsigned for \<open>BHI\<close>, \<open>BLS\<close>, \<open>BCC\<close> and \<open>BCS\<close>, signed for \<open>BGE\<close>, \<open>BLT\<close>, \<open>BGT\<close> and \<open>BLE\<close>.
\<close>

theorem compare_and_branch:
  fixes s t f :: u8 and v w :: u16
  shows "branch_relations (setHNZVC_sub8 s t (t - s) f) s t \<and> branch_relations (setHNZVC_sub16 v w (w - v) f) v w"
  by (intro conjI compare_relations compare8 compare16)

text \<open>
  C32. Addition: the instructions that add a byte and the carry flag to a register leave the sum modulo 256 in the register; the carry flag says whether the
  unsigned sum does not fit, the overflow flag whether the signed sum does not fit, the half carry whether the low digits carry, and the
  negative and zero flags describe the result.
\<close>

theorem addx_byte_flags:
  assumes "nr < length (reg c)"
  shows "let t = reg c ! nr; ci = ccr c AND 1; c' = addx_byte nr s c; d = reg c' ! nr; F = ccr c'
    in uint d = (uint t + uint s + uint ci) mod 256 \<and> (bit F 0 \<longleftrightarrow> 256 \<le> uint t + uint s + uint ci)
     \<and> (bit F 1 \<longleftrightarrow> sint d \<noteq> sint t + sint s + uint ci) \<and> (bit F 2 \<longleftrightarrow> d = 0) \<and> (bit F 3 \<longleftrightarrow> sint d < 0)
     \<and> (bit F 5 \<longleftrightarrow> 16 \<le> uint t mod 16 + uint s mod 16 + uint ci)"
proof -
  let ?t = "reg c ! nr" and ?c = "ccr c AND 1"
  define d where "d = ?t + s + ?c"
  have c1: "uint ?c \<le> 1"
    by (simp add: and_one_eq uint_mod)
  have r: "reg (addx_byte nr s c) ! nr = d" "ccr (addx_byte nr s c) = setHNZVC_add8 s ?t d (ccr c)"
    using assms by (simp_all add: addx_byte_def Let_def set_reg_def set_ccr_def d_def)
  have "uint d = (uint ?t + uint s + uint ?c) mod 256"
    by (simp add: d_def uint_word_ariths mod_simps)
  moreover have "bit d 7 \<longleftrightarrow> sint d < 0"
    using bit_last_iff [of d] by simp
  ultimately show ?thesis
    unfolding Let_def r add8_bits using add_flags_word [OF c1 d_def] half_carry [OF c1, of s ?t, folded d_def] by simp
qed

text \<open>The same instruction on a register that holds \<open>0x90\<close>, adding \<open>0x90\<close> with the carry flag set.\<close>

definition ex_cpu :: "u8 list \<Rightarrow> u8 \<Rightarrow> cpu" where
  "ex_cpu r f = \<lparr>reg = r, pc = 0x8000, ccr = f, irq_disabled_one = False, db_trap = 0, db_singlestep = False\<rparr>"

theorem addx_byte_flags_witness:
  "let c' = addx_byte 3 0x90 (ex_cpu (replicate 16 0x90) 1)
   in uint (reg c' ! 3) = (uint (0x90 :: u8) + uint (0x90 :: u8) + 1) mod 256 \<and> bit (ccr c') 0 \<and> bit (ccr c') 1"
proof -
  have "3 < length (reg (ex_cpu (replicate 16 0x90) 1))"
    by (simp add: ex_cpu_def)
  from addx_byte_flags [OF this, of "0x90"] show ?thesis
    by (simp add: Let_def ex_cpu_def addx_byte_def set_reg_def set_ccr_def)
qed



text \<open>
  Multiplication and division: \<open>MULXU\<close> leaves the full product of two unsigned bytes in the register pair. \<open>DIVXU\<close> by a divisor other than 0 leaves
  the remainder in the high byte and the quotient, if it fits, in the low byte, and clears the zero flag; by 0 it leaves the registers and sets the zero flag.
\<close>

theorem mulxu_divxu:
  assumes "length (reg c) = 16" "opcval opc AND 0x08 = 0"
  shows "let d = low3 (opcval opc); s = reg c ! high4 (opcval opc)
    in (\<exists>c1. MulXU opc c = Some c1 \<and> unat (GET_REG16 d c1) = unat (reg c ! (d + 8)) * unat s \<and> ccr c1 = ccr c)
     \<and> (\<exists>c2. DivXU opc c = Some c2
        \<and> (if s = 0 then GET_REG16 d c2 = GET_REG16 d c \<and> bit (ccr c2) 2
           else unat (reg c2 ! d) = unat (GET_REG16 d c) mod unat s \<and> \<not> bit (ccr c2) 2
              \<and> unat (reg c2 ! (d + 8)) = unat (GET_REG16 d c) div unat s mod 256))"
proof -
  define d s where "d = low3 (opcval opc)" and "s = reg c ! high4 (opcval opc)"
  define D where "D = GET_REG16 d c"
  have d: "d < 8"
    by (simp add: d_def)
  have b: "bit (x :: u8) 2 = bit y 2" if "x = y" for x y
    using that by simp
  have "\<exists>c1. MulXU opc c = Some c1 \<and> unat (GET_REG16 d c1) = unat (reg c ! (d + 8)) * unat s \<and> ccr c1 = ccr c"
    using assms d mul_bytes [of "reg c ! (d + 8)" s]
    by (simp add: MulXU_def Let_def GET_SET_REG16 SET_REG16_def [THEN arg_cong [of _ _ ccr]] flip: d_def s_def)
  moreover have "\<exists>c2. DivXU opc c = Some c2
        \<and> (if s = 0 then GET_REG16 d c2 = D \<and> bit (ccr c2) 2
           else unat (reg c2 ! d) = unat D mod unat s \<and> \<not> bit (ccr c2) 2 \<and> unat (reg c2 ! (d + 8)) = unat D div unat s mod 256)"
  proof (cases "s = 0")
    case True
    then show ?thesis
      using assms d by (simp add: DivXU_def Let_def GET_SET_REG16 SET_REG16_def [THEN arg_cong [of _ _ ccr]] set_ccr_def bit_simps flip: d_def s_def D_def)
  next
    case False
    then show ?thesis
      using assms d div_bytes [OF False, of D]
      by (simp add: DivXU_def Let_def SET_REG16_def set_ccr_def bit_simps nth_list_update flip: d_def s_def D_def)
  qed
  ultimately show ?thesis
    unfolding Let_def D_def d_def s_def by blast
qed

theorem mulxu_divxu_witness:
  "\<exists>c. DivXU 0x5143 (ex_cpu [0x12, 0, 0, 0x04, 7, 0, 0, 0, 0, 0, 0, 0x56, 0, 0, 0, 0] 0) = Some c
    \<and> unat (reg c ! 3) = 0x0456 mod 7 \<and> unat (reg c ! 11) = 0x0456 div 7 mod 256"
proof -
  let ?c = "ex_cpu [0x12, 0, 0, 0x04, 7, 0, 0, 0, 0, 0, 0, 0x56, 0, 0, 0, 0] 0"
  have "length (reg ?c) = 16" "opcval 0x5143 AND 0x08 = 0"
    by (simp_all add: ex_cpu_def opcval_def)
  from mulxu_divxu [OF this] show ?thesis
    by (auto simp: Let_def opcval_def ex_cpu_def GET_REG16_def drop_bit_eq_div)
qed

text \<open>
  Decimal adjustment: \<open>DAA\<close> and \<open>DAS\<close> ignore the half-carry flag that the addition or subtraction before them has set, since they clear it
  before they test it. So adding the decimal numbers 19 and 28 gives 41.
\<close>

theorem daa_ignores_half_carry:
  "DAA opc (set_ccr (f OR 0x20) c) = DAA opc (set_ccr (f AND 0xdf) c) \<and> DAS opc (set_ccr (f OR 0x20) c) = DAS opc (set_ccr (f AND 0xdf) c)
   \<and> Option.bind (AddBI 0x8028 (ex_cpu (replicate 16 0x19) 0)) (DAA 0x0f00) = Some (ex_cpu ((replicate 16 0x19)[0 := 0x41]) 0)"
proof (intro conjI)
  have f: "(f OR 0x20) AND 0xd1 = (f AND 0xdf) AND 0xd1"
    by (simp add: u8_eq_iff bit_simps)
  show "DAA opc (set_ccr (f OR 0x20) c) = DAA opc (set_ccr (f AND 0xdf) c)" "DAS opc (set_ccr (f OR 0x20) c) = DAS opc (set_ccr (f AND 0xdf) c)"
    by (rule decimal_adjust_flags [OF f])+
  have "AddBI 0x8028 (ex_cpu (replicate 16 0x19) 0) = Some (ex_cpu ((replicate 16 0x19)[0 := 0x41]) 0x20)"
    by code_simp
  moreover have "DAA 0x0f00 (ex_cpu ((replicate 16 0x19)[0 := 0x41]) 0x20) = Some (ex_cpu ((replicate 16 0x19)[0 := 0x41]) 0)"
    by code_simp
  ultimately show "Option.bind (AddBI 0x8028 (ex_cpu (replicate 16 0x19) 0)) (DAA 0x0f00) = Some (ex_cpu ((replicate 16 0x19)[0 := 0x41]) 0)"
    by simp
qed

end
