(* ===== verification/Printf.thy ===== *)
theory Printf
  imports Savefile
begin

text \<open>
  The \<open>printf\<close> of programs that run in the emulator, \<^verbatim>\<open>printf.c\<close>: at a call of the empty function that brickOS programs use for
  debugging output, the format string and the arguments are taken from the emulated memory and stack. \<open>None\<close> is an access outside the
  memory and an overflow of an \<open>int\<close>. The two calls of \<open>GET_WORD\<close> in one expression run from left to right.
\<close>

section \<open>Formatting\<close>

text \<open>The buffer of 4096 bytes, as the part that is written, and \<open>currlen\<close>, which counts what does not fit too.\<close>

type_synonym outbuf = "string \<times> nat"

abbreviation maxlen :: nat where "maxlen \<equiv> 4096"

definition dopr_outch :: "char \<Rightarrow> outbuf \<Rightarrow> outbuf" where
  "dopr_outch c = (\<lambda>(buffer, currlen). (if currlen < maxlen then buffer @ [c] else buffer, currlen + 1))"

definition outs :: "string \<Rightarrow> outbuf \<Rightarrow> outbuf" where
  "outs s b = fold dopr_outch s b"

datatype fmt_flag = DP_F_MINUS | DP_F_PLUS | DP_F_SPACE | DP_F_NUM | DP_F_ZERO | DP_F_UP | DP_F_UNSIGNED

text \<open>The loops of \<open>fmtstr\<close> stop at \<open>max\<close> characters altogether.\<close>

definition fmtstr :: "string \<Rightarrow> fmt_flag set \<Rightarrow> int \<Rightarrow> int \<Rightarrow> outbuf \<Rightarrow> outbuf" where
  "fmtstr value flags mi ma b =
    (let padlen = nat (mi - int (length value));
         room = nat ma;
         before = (if DP_F_MINUS \<in> flags then 0 else min padlen room);
         txt = take (room - before) value;
         after = (if DP_F_MINUS \<in> flags then min padlen (room - before - length txt) else 0)
     in outs (replicate after (CHR '' '')) (outs txt (outs (replicate before (CHR '' '')) b)))"

text \<open>The digits, least significant first; there is room for 20.\<close>

definition digit_char :: "bool \<Rightarrow> nat \<Rightarrow> char" where
  "digit_char caps d = (if caps then ''0123456789ABCDEF'' else ''0123456789abcdef'') ! d"

fun convert_digits :: "bool \<Rightarrow> nat \<Rightarrow> nat \<Rightarrow> nat \<Rightarrow> string" where
  "convert_digits caps base 0 uvalue = []"
| "convert_digits caps base (Suc room) uvalue =
    digit_char caps (uvalue mod base) # (if uvalue div base \<noteq> 0 then convert_digits caps base room (uvalue div base) else [])"

abbreviation int_ok :: "int \<Rightarrow> bool" where "int_ok k \<equiv> - (2 ^ 31) \<le> k \<and> k < 2 ^ 31"

definition fmtint :: "int \<Rightarrow> nat \<Rightarrow> int \<Rightarrow> int \<Rightarrow> fmt_flag set \<Rightarrow> outbuf \<Rightarrow> outbuf option" where
  "fmtint value base mi ma0 flags b =
    (let ma = (if ma0 < 0 then 0 else ma0);
         sg = DP_F_UNSIGNED \<notin> flags;
         signvalue = (if sg \<and> value < 0 then ''-''
                      else if sg \<and> DP_F_PLUS \<in> flags then ''+''
                      else if sg \<and> DP_F_SPACE \<in> flags then '' '' else []);
         uvalue = unat (of_int (if sg \<and> value < 0 then - value else value) :: u64);
         digits = convert_digits (DP_F_UP \<in> flags) base 20 uvalue;
         conv = (if length digits = 20 then take 19 digits else digits);
         place = int (length conv);
         zpad0 = max 0 (ma - place);
         diff = mi - max ma place - int (length signvalue);
         spad0 = max 0 diff;
         zpadlen = (if DP_F_ZERO \<in> flags then max zpad0 spad0 else zpad0);
         spadlen = (if DP_F_ZERO \<in> flags then 0 else spad0);
         left = DP_F_MINUS \<in> flags
     in if \<not> int_ok diff then None
        else Some (outs (replicate (if left then nat spadlen else 0) (CHR '' ''))
                    (outs (rev conv)
                    (outs (replicate (nat zpadlen) (CHR ''0''))
                    (outs signvalue
                    (outs (replicate (if left then 0 else nat spadlen) (CHR '' '')) b))))))"

section \<open>The format string\<close>

datatype dp_state = DP_S_DEFAULT | DP_S_FLAGS | DP_S_MIN | DP_S_DOT | DP_S_MAX | DP_S_MOD | DP_S_CONV | DP_S_DONE

record dopr =
  dp_ch :: char
  dp_format :: nat
  dp_fp :: u16
  dp_state_of :: dp_state
  dp_flags :: "fmt_flag set"
  dp_long :: bool
  dp_min :: int
  dp_max :: int
  dp_buf :: outbuf

definition mem_char :: "mem \<Rightarrow> nat \<Rightarrow> char option" where
  "mem_char m a = (if a < 0x10000 then Some (char_of (unat (m (of_nat a)))) else None)"

text \<open>\<open>ch = *format++\<close>, and a change of state without it.\<close>

definition next_ch :: "dopr \<Rightarrow> machine \<Rightarrow> (dopr \<times> machine) option" where
  "next_ch d m = map_option (\<lambda>c. (d\<lparr>dp_ch := c, dp_format := dp_format d + 1\<rparr>, m)) (mem_char (m_mem m) (dp_format d))"

definition goto_state :: "dp_state \<Rightarrow> dopr \<Rightarrow> machine \<Rightarrow> (dopr \<times> machine) option" where
  "goto_state s d m = Some (d\<lparr>dp_state_of := s\<rparr>, m)"

text \<open>An argument of one word, signed or not, and one of two words.\<close>

definition arg_word :: "dopr \<Rightarrow> machine \<Rightarrow> (u16 \<times> machine) option" where
  "arg_word d m = GET_WORD (dp_fp d) m"

definition arg_number :: "bool \<Rightarrow> dopr \<Rightarrow> machine \<Rightarrow> (int \<times> dopr \<times> machine) option" where
  "arg_number sg d m =
    (if dp_long d then
       Option.bind (GET_WORD (dp_fp d) m) (\<lambda>(hi, m1). map_option (\<lambda>(lo, m2).
         ((if sg then sint hi else uint hi) * 65536 + uint lo, d\<lparr>dp_fp := dp_fp d + 4\<rparr>, m2)) (GET_WORD (dp_fp d + 2) m1))
     else map_option (\<lambda>(w, m1). (if sg then sint w else uint w, d\<lparr>dp_fp := dp_fp d + 2\<rparr>, m1)) (GET_WORD (dp_fp d) m))"

definition put_number :: "bool \<Rightarrow> nat \<Rightarrow> fmt_flag set \<Rightarrow> dopr \<Rightarrow> machine \<Rightarrow> (dopr \<times> machine) option" where
  "put_number sg base extra d m =
     Option.bind (arg_number sg (d\<lparr>dp_flags := dp_flags d \<union> extra\<rparr>) m) (\<lambda>(value, d1, m1).
       map_option (\<lambda>b. (d1\<lparr>dp_buf := b\<rparr>, m1)) (fmtint value base (dp_min d1) (dp_max d1) (dp_flags d1) (dp_buf d1)))"

text \<open>The string at an address of the memory, up to its terminating zero; the null pointer has a text of its own.\<close>

definition mem_string :: "mem \<Rightarrow> u16 \<Rightarrow> string option" where
  "mem_string m a =
    (let s = map (\<lambda>k. char_of (unat (m (of_nat k)))) [unat a..<0x10000]
     in if a = 0 then Some ''(NULL)'' else if NUL \<in> set s then Some (takeWhile (\<lambda>c. c \<noteq> NUL) s) else None)"

text \<open>Neither \<open>%s\<close> nor \<open>%p\<close> steps to the next argument.\<close>

definition put_string :: "dopr \<Rightarrow> machine \<Rightarrow> (dopr \<times> machine) option" where
  "put_string d m =
     Option.bind (arg_word d m) (\<lambda>(a, m1). map_option (\<lambda>s.
       let ma = (if dp_max d = -1 then int (length s) else dp_max d);
           ma1 = (if 0 < dp_min d \<and> 0 \<le> ma \<and> ma < dp_min d then dp_min d else ma)
       in (d\<lparr>dp_max := ma1, dp_buf := fmtstr s (dp_flags d) (dp_min d) ma1 (dp_buf d)\<rparr>, m1)) (mem_string (m_mem m1) a))"

definition put_pointer :: "dopr \<Rightarrow> machine \<Rightarrow> (dopr \<times> machine) option" where
  "put_pointer d m =
     Option.bind (arg_word d m) (\<lambda>(w, m1).
       map_option (\<lambda>b. (d\<lparr>dp_buf := b\<rparr>, m1)) (fmtint (uint w) 16 (dp_min d) (dp_max d) (dp_flags d) (dp_buf d)))"

definition convert :: "dopr \<Rightarrow> machine \<Rightarrow> (dopr \<times> machine) option" where
  "convert d m =
    (let ch = dp_ch d
     in if ch = CHR ''d'' \<or> ch = CHR ''i'' then put_number True 10 {} d m
        else if ch = CHR ''o'' then put_number False 8 {DP_F_UNSIGNED} d m
        else if ch = CHR ''u'' then put_number False 10 {DP_F_UNSIGNED} d m
        else if ch = CHR ''X'' then put_number False 16 {DP_F_UP, DP_F_UNSIGNED} d m
        else if ch = CHR ''x'' then put_number False 16 {DP_F_UNSIGNED} d m
        else if ch = CHR ''c'' then
          map_option (\<lambda>(w, m1). (d\<lparr>dp_fp := dp_fp d + 2, dp_buf := dopr_outch (char_of (unat (ucast w :: u8))) (dp_buf d)\<rparr>, m1)) (arg_word d m)
        else if ch = CHR ''s'' then put_string d m
        else if ch = CHR ''p'' then put_pointer d m
        else if ch = CHR ''%'' then Some (d\<lparr>dp_buf := dopr_outch ch (dp_buf d)\<rparr>, m)
        else Some (d, m))"

definition is_digit :: "char \<Rightarrow> bool" where
  "is_digit c \<longleftrightarrow> 48 \<le> (of_char c :: nat) \<and> (of_char c :: nat) \<le> 57"

definition add_digit :: "int \<Rightarrow> char \<Rightarrow> int option" where
  "add_digit n c = (let k = 10 * n + (int (of_char c) - 48) in if int_ok k then Some k else None)"

text \<open>A star as precision sets the field width.\<close>

definition star_width :: "dp_state \<Rightarrow> dopr \<Rightarrow> machine \<Rightarrow> (dopr \<times> machine) option" where
  "star_width s d m =
     Option.bind (arg_word d m) (\<lambda>(w, m1). next_ch (d\<lparr>dp_min := sint w, dp_fp := dp_fp d + 2, dp_state_of := s\<rparr>) m1)"

definition flag_of :: "char \<Rightarrow> fmt_flag option" where
  "flag_of c =
    (if c = CHR ''-'' then Some DP_F_MINUS else if c = CHR ''+'' then Some DP_F_PLUS else if c = CHR '' '' then Some DP_F_SPACE
     else if c = CHR ''#'' then Some DP_F_NUM else if c = CHR ''0'' then Some DP_F_ZERO else None)"

text \<open>One turn of the loop, for a character other than the terminating zero.\<close>

definition dopr_step :: "dopr \<Rightarrow> machine \<Rightarrow> (dopr \<times> machine) option" where
  "dopr_step d m =
    (let ch = dp_ch d
     in case dp_state_of d of
       DP_S_DEFAULT \<Rightarrow>
         if ch = CHR ''%'' then next_ch (d\<lparr>dp_state_of := DP_S_FLAGS\<rparr>) m
         else next_ch (d\<lparr>dp_buf := dopr_outch ch (dp_buf d)\<rparr>) m
     | DP_S_FLAGS \<Rightarrow>
         (case flag_of ch of
            Some f \<Rightarrow> next_ch (d\<lparr>dp_flags := insert f (dp_flags d)\<rparr>) m
          | None \<Rightarrow> goto_state DP_S_MIN d m)
     | DP_S_MIN \<Rightarrow>
         if is_digit ch then Option.bind (add_digit (dp_min d) ch) (\<lambda>k. next_ch (d\<lparr>dp_min := k\<rparr>) m)
         else if ch = CHR ''*'' then star_width DP_S_DOT d m
         else goto_state DP_S_DOT d m
     | DP_S_DOT \<Rightarrow>
         if ch = CHR ''.'' then next_ch (d\<lparr>dp_state_of := DP_S_MAX\<rparr>) m else goto_state DP_S_MOD d m
     | DP_S_MAX \<Rightarrow>
         if is_digit ch then Option.bind (add_digit (max 0 (dp_max d)) ch) (\<lambda>k. next_ch (d\<lparr>dp_max := k\<rparr>) m)
         else if ch = CHR ''*'' then star_width DP_S_MOD d m
         else goto_state DP_S_MOD d m
     | DP_S_MOD \<Rightarrow>
         if ch = CHR ''h'' then next_ch (d\<lparr>dp_long := False, dp_state_of := DP_S_CONV\<rparr>) m
         else if ch = CHR ''l'' then next_ch (d\<lparr>dp_long := True, dp_state_of := DP_S_CONV\<rparr>) m
         else goto_state DP_S_CONV d m
     | DP_S_CONV \<Rightarrow>
         Option.bind (convert d m) (\<lambda>(d1, m1).
           next_ch (d1\<lparr>dp_state_of := DP_S_DEFAULT, dp_flags := {}, dp_long := False, dp_min := 0, dp_max := -1\<rparr>) m1)
     | DP_S_DONE \<Rightarrow> Some (d, m))"

text \<open>Every turn consumes a character of the memory or moves on within a conversion, so the loop ends.\<close>

fun dp_rank :: "dp_state \<Rightarrow> nat" where
  "dp_rank DP_S_DEFAULT = 7" | "dp_rank DP_S_FLAGS = 6" | "dp_rank DP_S_MIN = 5" | "dp_rank DP_S_DOT = 4"
| "dp_rank DP_S_MAX = 3" | "dp_rank DP_S_MOD = 2" | "dp_rank DP_S_CONV = 1" | "dp_rank DP_S_DONE = 0"

definition dp_measure :: "dopr \<Rightarrow> nat" where
  "dp_measure d = 8 * (0x10000 - dp_format d) + dp_rank (dp_state_of d)"

lemma next_ch_format: "next_ch d m = Some (d1, m1) \<Longrightarrow> dp_format d < 0x10000 \<and> dp_format d1 = dp_format d + 1 \<and> dp_state_of d1 = dp_state_of d
    \<and> dp_buf d1 = dp_buf d \<and> m1 = m"
  by (auto simp: next_ch_def mem_char_def split: if_splits)

lemma dp_rank_le: "dp_rank s \<le> 7"
  by (cases s) simp_all

lemma convert_format: "convert d m = Some (d1, m1) \<Longrightarrow> dp_format d1 = dp_format d"
  by (auto simp: convert_def put_number_def arg_number_def put_string_def put_pointer_def Let_def bind_eq_Some_conv split: if_splits)

lemma dopr_step_less:
  assumes "dopr_step d m = Some (d1, m1)" "dp_state_of d \<noteq> DP_S_DONE"
  shows "dp_measure d1 < dp_measure d"
proof -
  have step: "dp_measure d1 < dp_measure d" if "dp_format d < 0x10000" "dp_format d1 = dp_format d + 1"
    using that dp_rank_le [of "dp_state_of d1"] assms(2) by (cases "dp_state_of d") (simp_all add: dp_measure_def)
  consider "dp_format d < 0x10000" "dp_format d1 = dp_format d + 1" | "dp_format d1 = dp_format d" "dp_rank (dp_state_of d1) < dp_rank (dp_state_of d)"
    using assms
    by (auto simp: dopr_step_def Let_def goto_state_def star_width_def bind_eq_Some_conv dest!: next_ch_format convert_format
        split: dp_state.splits if_splits option.splits)
  then show ?thesis
    by cases (use step in \<open>simp_all add: dp_measure_def\<close>)
qed

function dopr_loop :: "dopr \<Rightarrow> machine \<Rightarrow> (dopr \<times> machine) option" where
  "dopr_loop d m =
    (if dp_ch d = NUL \<or> dp_state_of d = DP_S_DONE then Some (d, m)
     else case dopr_step d m of None \<Rightarrow> None | Some (d1, m1) \<Rightarrow> dopr_loop d1 m1)"
  by pat_completeness auto
termination
  by (relation "measure (\<lambda>(d, m). dp_measure d)") (auto dest: dopr_step_less)

declare dopr_loop.simps [simp del]

text \<open>The text ends at the first zero: one that was written, or the one that is added at the end.\<close>

definition printed :: "outbuf \<Rightarrow> string" where
  "printed b = takeWhile (\<lambda>c. c \<noteq> NUL) (take (maxlen - 1) (fst b))"

definition dopr_start :: "u16 \<Rightarrow> u16 \<Rightarrow> dopr" where
  "dopr_start fp fmt = \<lparr>dp_ch = NUL, dp_format = unat fmt, dp_fp = fp, dp_state_of = DP_S_DEFAULT, dp_flags = {}, dp_long = False,
     dp_min = 0, dp_max = -1, dp_buf = ([], 0)\<rparr>"

definition debug_printf :: "machine \<Rightarrow> (string \<times> machine) option" where
  "debug_printf m =
    (let fp = GET_REG16 7 (m_cpu m) + 2
     in Option.bind (GET_WORD fp m) (\<lambda>(fmt, m1).
        Option.bind (next_ch (dopr_start (fp + 2) fmt) m1) (\<lambda>(d, m2).
        map_option (\<lambda>(d1, m3). (''Program said: `'' @ printed (dp_buf d1) @ [CHR 0x27, CHR 0x0A], m3)) (dopr_loop d m2))))"

section \<open>Lemmas\<close>

lemma outs_append: "outs (s @ t) b = outs t (outs s b)" and outs_Nil [simp]: "outs [] b = b" and outs_Cons: "outs (c # s) b = outs s (dopr_outch c b)"
  by (simp_all add: outs_def)

text \<open>The buffer holds what was written, as far as it fits.\<close>

definition outbuf_ok :: "outbuf \<Rightarrow> bool" where
  "outbuf_ok b \<longleftrightarrow> length (fst b) = min (snd b) maxlen"

lemma outs_ok: "outbuf_ok b \<Longrightarrow> outbuf_ok (outs s b)"
  by (induction s arbitrary: b) (auto simp: outs_Cons outbuf_ok_def dopr_outch_def split_beta)

lemma outch_ok: "outbuf_ok b \<Longrightarrow> outbuf_ok (dopr_outch c b)"
  using outs_ok [of b "[c]"] by (simp add: outs_Cons)

lemma fst_outs: "outbuf_ok b \<Longrightarrow> fst (outs s b) = take maxlen (fst b @ s)"
proof (induction s arbitrary: b)
  case (Cons c s)
  then show ?case
    using outch_ok [OF Cons.prems, of c] by (auto simp: outs_Cons dopr_outch_def split_beta outbuf_ok_def min_def take_Cons' split: if_splits)
qed (simp add: outbuf_ok_def)

lemma outs_start: "fst (outs s ([], 0)) = take maxlen s"
  using fst_outs [of "([], 0)" s] by (simp add: outbuf_ok_def)

lemma guard_Some: "(if c then None else Some x) = Some y \<longleftrightarrow> \<not> c \<and> y = x"
  by auto

lemma fmtint_ok: "fmtint v base mi ma fl b = Some b1 \<Longrightarrow> outbuf_ok b \<Longrightarrow> outbuf_ok b1"
  unfolding fmtint_def Let_def guard_Some by (simp only: outs_ok)

lemma put_number_ok: "put_number sg base ex d m = Some (d1, m1) \<Longrightarrow> outbuf_ok (dp_buf d) \<Longrightarrow> outbuf_ok (dp_buf d1)"
  by (auto simp: put_number_def arg_number_def bind_eq_Some_conv intro: fmtint_ok split: if_splits)

lemma put_string_ok: "put_string d m = Some (d1, m1) \<Longrightarrow> outbuf_ok (dp_buf d) \<Longrightarrow> outbuf_ok (dp_buf d1)"
  by (auto simp: put_string_def Let_def bind_eq_Some_conv fmtstr_def outs_ok)

lemma put_pointer_ok: "put_pointer d m = Some (d1, m1) \<Longrightarrow> outbuf_ok (dp_buf d) \<Longrightarrow> outbuf_ok (dp_buf d1)"
  by (auto simp: put_pointer_def bind_eq_Some_conv intro: fmtint_ok)

lemma convert_ok: "convert d m = Some (d1, m1) \<Longrightarrow> outbuf_ok (dp_buf d) \<Longrightarrow> outbuf_ok (dp_buf d1)"
  by (auto simp: convert_def Let_def outch_ok intro: put_number_ok put_string_ok put_pointer_ok split: if_splits)

lemma dopr_step_ok: "dopr_step d m = Some (d1, m1) \<Longrightarrow> outbuf_ok (dp_buf d) \<Longrightarrow> outbuf_ok (dp_buf d1)"
  by (auto simp: dopr_step_def Let_def goto_state_def star_width_def bind_eq_Some_conv outch_ok dest!: next_ch_format dest: convert_ok
      split: dp_state.splits if_splits option.splits)

text \<open>The digits of a decimal number.\<close>

lemma digit_char_dec: "d < 10 \<Longrightarrow> digit_char False d = char_of (48 + d)"
proof -
  assume "d < 10"
  then have "d = 0 \<or> d = 1 \<or> d = 2 \<or> d = 3 \<or> d = 4 \<or> d = 5 \<or> d = 6 \<or> d = 7 \<or> d = 8 \<or> d = 9"
    by arith
  then show ?thesis
    by (elim disjE) (simp_all add: digit_char_def char_of_def bit_0)
qed

lemma convert_decimal: "u < 10 ^ room \<Longrightarrow> 0 < room \<Longrightarrow> rev (convert_digits False 10 room u) = print_dec u"
proof (induction room arbitrary: u)
  case (Suc room)
  show ?case
  proof (cases "u < 10")
    case True
    then show ?thesis
      by (subst print_dec.simps) (simp add: digit_char_dec)
  next
    case False
    then have "0 < room" "u div 10 < 10 ^ room"
      using Suc.prems by (cases room; simp)+
    then show ?thesis
      using Suc.IH [of "u div 10"] False by (subst print_dec.simps) (simp add: digit_char_dec div_eq_0_iff)
  qed
qed simp


text \<open>A field of the given width: the reference for the conversion \<open>%d\<close>.\<close>

definition int_field :: "fmt_flag set \<Rightarrow> nat \<Rightarrow> int \<Rightarrow> string" where
  "int_field flags w v =
    (let s = print_int v; pad = w - length s
     in if DP_F_ZERO \<in> flags then (if v < 0 then ''-'' else []) @ replicate pad (CHR ''0'') @ print_dec (nat \<bar>v\<bar>)
        else if DP_F_MINUS \<in> flags then s @ replicate pad (CHR '' '')
        else replicate pad (CHR '' '') @ s)"

lemma unat_u64_of_int: "0 \<le> k \<Longrightarrow> k < 2 ^ 64 \<Longrightarrow> unat (of_int k :: u64) = nat k"
  by (simp add: unsigned_of_int take_bit_int_eq_self nat_take_bit_eq)

lemma convert_length: "length (convert_digits caps base room u) \<le> room"
  by (induction room arbitrary: u) auto

lemma print_dec_length: "u < 10 ^ k \<Longrightarrow> 0 < k \<Longrightarrow> length (print_dec u) \<le> k"
  by (metis convert_decimal convert_length length_rev)

lemma print_dec_pos: "0 < length (print_dec u)"
  by (subst print_dec.simps) simp

lemma fmtint_field:
  assumes "-(2 ^ 31) \<le> v" "v < 2 ^ 31" "w < 2 ^ 31" "DP_F_UNSIGNED \<notin> fl" "DP_F_PLUS \<notin> fl" "DP_F_SPACE \<notin> fl" "DP_F_UP \<notin> fl"
  shows "fmtint v 10 (int w) (-1) fl b = Some (outs (int_field fl w v) b)"
proof -
  define u where "u = nat \<bar>v\<bar>"
  have u: "unat (of_int (if v < 0 then - v else v) :: u64) = u" "u < 10 ^ 19" "u < 10 ^ 20" "u < 10 ^ 10"
    using assms(1,2) by (auto simp: u_def unat_u64_of_int)
  define ds where "ds = convert_digits False 10 20 u"
  have r: "rev ds = print_dec u"
    unfolding ds_def using u by (intro convert_decimal) simp_all
  then have l: "length ds = length (print_dec u)"
    by (metis length_rev)
  have le: "length ds \<le> 10" "0 < length ds"
    unfolding l using print_dec_length [of u 10] print_dec_pos u by simp_all
  define sv where "sv = (if v < 0 then ''-'' else [])"
  have p: "print_int v = sv @ print_dec u"
    by (simp add: print_int_def sv_def u_def)
  have f: "fmtint v 10 (int w) (-1) fl b =
    (let diff = int w - int (length ds) - int (length sv); pad = nat (max 0 diff)
     in Some (outs (replicate (if DP_F_ZERO \<in> fl \<or> DP_F_MINUS \<notin> fl then 0 else pad) (CHR '' ''))
         (outs (rev ds) (outs (replicate (if DP_F_ZERO \<in> fl then pad else 0) (CHR ''0'')) (outs sv
         (outs (replicate (if DP_F_ZERO \<in> fl \<or> DP_F_MINUS \<in> fl then 0 else pad) (CHR '' '')) b))))))"
  proof -
    have d: "(if length ds = 20 then take 19 ds else ds) = ds" "max (0 :: int) (0 - int (length ds)) = 0" "max 0 (int (length ds)) = int (length ds)"
      using le by auto
    have k: "\<not> int_ok (int w - int (length ds) - int (length sv)) \<longleftrightarrow> False"
      using le assms(3) by (auto simp: sv_def)
    have m: "max 0 (max 0 x) = max 0 x" for x :: int
      by simp
    have fl: "(DP_F_UNSIGNED \<notin> fl) = True" "(DP_F_PLUS \<in> fl) = False" "(DP_F_SPACE \<in> fl) = False" "(DP_F_UP \<in> fl) = False" "((-1 :: int) < 0) = True"
      using assms by simp_all
    show ?thesis
      unfolding fmtint_def Let_def
      by (simp only: fl simp_thms if_True if_False u(1) ds_def [symmetric] sv_def [symmetric] d k m) simp
  qed
  have "nat (max 0 (int w - int (length ds) - int (length sv))) = w - length (print_int v)"
    by (simp add: p l)
  then show ?thesis
    unfolding f Let_def int_field_def r by (simp add: p outs_append u_def [symmetric] sv_def [symmetric])
qed


section \<open>Running over a format string\<close>

lemma GET_WORD_plain: "plain m a \<Longrightarrow> \<not> bit a 0 \<Longrightarrow> GET_WORD a m = Some (mword m a, m)"
  using even_not_last [of a] by (simp add: GET_WORD_def plain_bits mem_word_def mword_def)

definition text_at :: "mem \<Rightarrow> nat \<Rightarrow> string \<Rightarrow> bool" where
  "text_at m n s \<longleftrightarrow> (\<forall>i < length s. mem_char m (n + i) = Some (s ! i))"

lemma text_at_Cons: "text_at m n (c # s) \<longleftrightarrow> mem_char m n = Some c \<and> text_at m (n + 1) s"
  by (auto simp: text_at_def nth_Cons' less_Suc_eq_0_disj)

lemma text_at_append: "text_at m n (s @ t) \<longleftrightarrow> text_at m n s \<and> text_at m (n + length s) t"
  by (induction s arbitrary: n) (auto simp: text_at_Cons, simp_all add: text_at_def)

definition literal :: "string \<Rightarrow> bool" where
  "literal s \<longleftrightarrow> CHR ''%'' \<notin> set s \<and> NUL \<notin> set s"

text \<open>The parser in its default state, before the character \<open>c\<close>.\<close>

definition at_char :: "char \<Rightarrow> nat \<Rightarrow> u16 \<Rightarrow> outbuf \<Rightarrow> dopr" where
  "at_char c n fp b = \<lparr>dp_ch = c, dp_format = n, dp_fp = fp, dp_state_of = DP_S_DEFAULT, dp_flags = {}, dp_long = False,
     dp_min = 0, dp_max = -1, dp_buf = b\<rparr>"

lemma dopr_literal:
  assumes "literal (c # s)" "text_at (m_mem m) n (s @ [x])"
  shows "dopr_loop (at_char c n fp b) m = dopr_loop (at_char x (n + length s + 1) fp (outs (c # s) b)) m"
  using assms
proof (induction s arbitrary: c n b)
  case (Cons c1 s)
  have "dopr_loop (at_char c n fp b) m = dopr_loop (at_char c1 (n + 1) fp (dopr_outch c b)) m"
    using Cons.prems by (subst dopr_loop.simps) (auto simp: at_char_def dopr_step_def next_ch_def text_at_Cons literal_def)
  then show ?case
    using Cons.IH [of c1 "n + 1" "dopr_outch c b"] Cons.prems by (simp add: text_at_Cons literal_def outs_Cons)
qed (subst dopr_loop.simps, auto simp: at_char_def dopr_step_def next_ch_def text_at_Cons literal_def outs_Cons)

lemma dopr_decimal:
  assumes "text_at (m_mem m) n [CHR ''d'', x]" "plain m fp" "\<not> bit fp 0"
  shows "dopr_loop (at_char (CHR ''%'') n fp b) m = dopr_loop (at_char x (n + 2) (fp + 2) (outs (print_int (sint (mword m fp))) b)) m"
proof -
  have g: "GET_WORD fp m = Some (mword m fp, m)"
    using assms by (intro GET_WORD_plain)
  have "-(2 ^ 15) \<le> sint (mword m fp)" "sint (mword m fp) < 2 ^ 15"
    using sint_greater_eq [of "mword m fp"] sint_less [of "mword m fp"] by simp_all
  then have f: "fmtint (sint (mword m fp)) 10 0 (-1) {} b = Some (outs (print_int (sint (mword m fp))) b)"
    using fmtint_field [of "sint (mword m fp)" 0 "{}" b] by (simp add: int_field_def)
  note d = dopr_step_def next_ch_def goto_state_def flag_of_def is_digit_def convert_def put_number_def arg_number_def
  show ?thesis
    using assms(1) g f
    by (subst dopr_loop.simps, simp add: at_char_def d text_at_Cons)
      (subst dopr_loop.simps, simp add: d, subst dopr_loop.simps, simp add: d, subst dopr_loop.simps, simp add: d,
       subst dopr_loop.simps, simp add: d, subst dopr_loop.simps, simp add: d)
qed


lemma run_literal:
  assumes "literal s" "text_at (m_mem m) n (s @ [x])"
  shows "\<exists>d. next_ch (at_char c n fp b) m = Some (d, m) \<and> dopr_loop d m = dopr_loop (at_char x (n + length s + 1) fp (outs s b)) m"
proof (cases s)
  case Nil
  then show ?thesis
    using assms by (simp add: next_ch_def text_at_Cons at_char_def)
next
  case (Cons c1 t)
  then have "next_ch (at_char c n fp b) m = Some (at_char c1 (n + 1) fp b, m)"
    using assms by (simp add: next_ch_def text_at_Cons at_char_def)
  then show ?thesis
    using dopr_literal [of c1 t m "n + 1" x fp b] assms Cons by (simp add: text_at_Cons)
qed

lemma dopr_end: "dopr_loop (at_char NUL n fp b) m = Some (at_char NUL n fp b, m)"
  by (subst dopr_loop.simps) (simp add: at_char_def)

lemma dopr_rest:
  assumes "literal s" "text_at (m_mem m) n (tl (s @ [NUL]))"
  shows "\<exists>k. dopr_loop (at_char (hd (s @ [NUL])) n fp b) m = Some (at_char NUL k fp (outs s b), m)"
  using assms by (cases s) (auto simp: dopr_literal dopr_end)

lemma print_int_literal: "NUL \<notin> set (print_int v)"
proof -
  have "char_of k \<noteq> NUL" if "48 \<le> k" "k < 58" for k :: nat
  proof
    assume "char_of k = NUL"
    then have "k mod 256 = of_char NUL"
      using of_char_of [of k] by simp
    then show False
      using that by simp
  qed
  note c = this
  have "NUL \<notin> set (print_dec n)" for n
  proof (induction n rule: print_dec.induct)
    case (1 n)
    have "char_of (48 + n mod 10) \<noteq> NUL" "n < 10 \<Longrightarrow> char_of (48 + n) \<noteq> NUL"
      by (rule c; simp)+
    then show ?case
      using 1 by (subst print_dec.simps) (simp, metis)
  qed
  then show ?thesis
    by (auto simp: print_int_def)
qed

lemma printed_plain: "NUL \<notin> set s \<Longrightarrow> printed (outs s ([], 0)) = take (maxlen - 1) s"
  by (auto simp: printed_def outs_start min_def intro!: takeWhile_eq_all_conv [THEN iffD2] dest: in_set_takeD)

lemma format_parts:
  assumes "text_at m n (pre @ ''%d'' @ post @ [NUL])"
  shows "text_at m n (pre @ [CHR ''%''])" "text_at m (n + length pre + 1) [CHR ''d'', hd (post @ [NUL])]"
    "text_at m (n + length pre + 1 + 2) (tl (post @ [NUL]))"
proof -
  obtain x xs where x: "post @ [NUL] = x # xs"
    by (cases post) auto
  have a: "text_at m n pre \<and> text_at m (n + length pre) (CHR ''%'' # CHR ''d'' # x # xs)"
    using assms by (simp only: text_at_append x append.simps)
  then show "text_at m n (pre @ [CHR ''%''])" "text_at m (n + length pre + 1) [CHR ''d'', hd (post @ [NUL])]"
    "text_at m (n + length pre + 1 + 2) (tl (post @ [NUL]))"
    unfolding x by (simp_all add: text_at_append text_at_Cons) (simp_all add: text_at_def add.assoc)
qed

section \<open>Properties\<close>

text \<open>
  C35. Debugging output of a program: for a format string with one \<open>%d\<close> between two literal texts, both pointer and argument on the stack as a
  caller leaves them, the emulator prints the text with the argument as a signed decimal number, cut to 4095 characters, and
  the machine is unchanged.
\<close>

theorem debug_printf_decimal:
  fixes m :: machine
  defines "sp \<equiv> GET_REG16 7 (m_cpu m)"
  assumes "plain m (sp + 2)" "plain m (sp + 4)" "\<not> bit sp 0" "literal pre" "literal post"
    and "text_at (m_mem m) (unat (mword m (sp + 2))) (pre @ ''%d'' @ post @ [NUL])"
  shows "debug_printf m = Some (''Program said: `'' @ take 4095 (pre @ print_int (sint (mword m (sp + 4))) @ post) @ [CHR 0x27, CHR 0x0A], m)"
proof -
  let ?n = "unat (mword m (sp + 2))" and ?v = "sint (mword m (sp + 4))"
  have e: "\<not> bit (sp + 2) 0" "\<not> bit (sp + 4) 0"
    using even_word_next [of sp] even_word_next [of "sp + 2"] assms(4) by (simp_all add: add.assoc)
  have g: "GET_WORD (sp + 2) m = Some (mword m (sp + 2), m)"
    using assms(2) e(1) by (rule GET_WORD_plain)
  have t: "text_at (m_mem m) ?n (pre @ [CHR ''%''])" "text_at (m_mem m) (?n + length pre + 1) [CHR ''d'', hd (post @ [NUL])]"
    "text_at (m_mem m) (?n + length pre + 1 + 2) (tl (post @ [NUL]))"
    by (rule format_parts [OF assms(7)])+
  obtain d where d: "next_ch (at_char NUL ?n (sp + 4) ([], 0)) m = Some (d, m)"
    "dopr_loop d m = dopr_loop (at_char (CHR ''%'') (?n + length pre + 1) (sp + 4) (outs pre ([], 0))) m"
    using run_literal [OF assms(5) t(1)] by blast
  obtain k where "dopr_loop d m = Some (at_char NUL k (sp + 4 + 2) (outs post (outs (print_int ?v) (outs pre ([], 0)))), m)"
    using dopr_rest [OF assms(6) t(3), of "sp + 4 + 2" "outs (print_int ?v) (outs pre ([], 0))"] d(2) dopr_decimal [OF t(2) assms(3) e(2), of "outs pre ([], 0)"]
    by (auto simp: add.assoc)
  then have r: "dopr_loop d m = Some (at_char NUL k (sp + 4 + 2) (outs (pre @ print_int ?v @ post) ([], 0)), m)"
    by (simp add: outs_append)
  have "NUL \<notin> set (pre @ print_int ?v @ post)"
    using assms(5,6) print_int_literal by (auto simp: literal_def)
  note p = printed_plain [OF this]
  have s: "dopr_start (sp + 2 + 2) (mword m (sp + 2)) = at_char NUL ?n (sp + 4) ([], 0)"
    by (simp add: dopr_start_def at_char_def add.assoc)
  have b: "dp_buf (at_char NUL k f x) = x" for f x
    by (simp add: at_char_def)
  show ?thesis
    unfolding debug_printf_def Let_def sp_def [symmetric] g bind.simps prod.case s d(1) r option.map b p by simp
qed


definition printf_ex :: machine where
  "printf_ex = machine_ex\<lparr>m_mem := (\<lambda>_. 0)(0xfe02 := 0x90, 0xfe04 := 0xff, 0xfe05 := 0xf9,
     0x9000 := 0x78, 0x9001 := 0x3d, 0x9002 := 0x25, 0x9003 := 0x64)\<rparr>"

theorem debug_printf_decimal_witness:
  "debug_printf printf_ex = Some (''Program said: `x=-7'' @ [CHR 0x27, CHR 0x0A], printf_ex)"
proof -
  have sp: "GET_REG16 7 (m_cpu printf_ex) = 0xfe00"
    by (simp add: GET_REG16_def printf_ex_def machine_ex_def cpu_ex_def nth_append)
  have w: "mword printf_ex 0xfe02 = 0x9000" "mword printf_ex 0xfe04 = 0xfff9"
    by (simp_all add: mword_def printf_ex_def)
  have p: "plain printf_ex 0xfe02" "plain printf_ex 0xfe04"
    by (simp_all add: plain_map printf_ex_def machine_ex_def)
  have "char_of (120 :: nat) = CHR ''x''" "char_of (61 :: nat) = CHR ''=''" "char_of (37 :: nat) = CHR ''%''" "char_of (100 :: nat) = CHR ''d''"
    "char_of (0 :: nat) = NUL"
    by code_simp+
  then have "text_at (m_mem printf_ex) 0x9000 (''x='' @ ''%d'' @ [] @ [NUL])"
    by (simp add: text_at_Cons mem_char_def printf_ex_def) (simp add: text_at_def)
  moreover have "print_int (sint (0xfff9 :: u16)) = ''-7''"
    by code_simp
  ultimately show ?thesis
    using debug_printf_decimal [of printf_ex "''x=''" "[]"] by (simp add: sp w p literal_def)
qed


text \<open>
  A string argument is not consumed: after \<open>%s\<close> and \<open>%p\<close> the next conversion gets the same argument again. So \<open>%s%d\<close> with the
  arguments \<open>s\<close> and 5 prints the address of \<open>s\<close> as a number.
\<close>

theorem printf_string_not_consumed:
  assumes "dp_ch d = CHR ''s'' \<or> dp_ch d = CHR ''p''" "convert d m = Some (d1, m1)"
  shows "dp_fp d1 = dp_fp d"
  using assms by (auto simp: convert_def put_string_def put_pointer_def Let_def bind_eq_Some_conv)


theorem printf_string_not_consumed_witness:
  "\<exists>d1. convert (at_char (CHR ''s'') 0x9000 0xfe06 ([], 0)) printf_ex = Some (d1, printf_ex) \<and> fst (dp_buf d1) = ''(NULL)'' \<and> dp_fp d1 = 0xfe06"
proof -
  have "plain printf_ex 0xfe06"
    by (simp add: plain_map printf_ex_def machine_ex_def)
  then have "GET_WORD 0xfe06 printf_ex = Some (0, printf_ex)"
    by (subst GET_WORD_plain) (simp_all add: mword_def printf_ex_def)
  then obtain d1 where d: "convert (at_char (CHR ''s'') 0x9000 0xfe06 ([], 0)) printf_ex = Some (d1, printf_ex)" "fst (dp_buf d1) = ''(NULL)''"
    by (simp add: convert_def put_string_def arg_word_def at_char_def mem_string_def fmtstr_def Let_def outs_start)
  then show ?thesis
    using printf_string_not_consumed [OF _ d(1)] by (simp add: at_char_def)
qed


end
