(* ===== verification/Cpu.thy ===== *)
theory Cpu
  imports Instr Printf
begin

text \<open>
  The interpreter, \<^verbatim>\<open>h8300.c\<close> with the instructions of \<^verbatim>\<open>h8300.pl\<close> that use the memory, in the configuration without the assembler version
  of the loop. An operation goes on with a value, jumps to the label \<open>trap\<close> or to the label \<open>fault\<close>, or has no result: an access outside an array, or a call that
  does not return. \<open>wait\<close> is \<open>wait_peripherals\<close>.
\<close>

section \<open>Jumps\<close>

datatype 'a outcome = Go 'a machine | Trap machine | Fault machine

type_synonym 'a op = "machine \<Rightarrow> 'a outcome option"

definition seq :: "'a op \<Rightarrow> ('a \<Rightarrow> 'b op) \<Rightarrow> 'b op" where
  "seq f g m =
    (case f m of
       None \<Rightarrow> None
     | Some (Go a m1) \<Rightarrow> g a m1
     | Some (Trap m1) \<Rightarrow> Some (Trap m1)
     | Some (Fault m1) \<Rightarrow> Some (Fault m1))"

definition value_of :: "(machine \<Rightarrow> 'a) \<Rightarrow> 'a op" where
  "value_of f m = Some (Go (f m) m)"

definition change :: "(machine \<Rightarrow> machine) \<Rightarrow> unit op" where
  "change f m = Some (Go () (f m))"

definition attempt :: "(machine \<Rightarrow> ('a \<times> machine) option) \<Rightarrow> 'a op" where
  "attempt f m = map_option (\<lambda>(a, m1). Go a m1) (f m)"

definition run :: "(machine \<Rightarrow> machine option) \<Rightarrow> unit op" where
  "run f m = map_option (Go ()) (f m)"

definition on_cpu :: "(cpu \<Rightarrow> cpu) \<Rightarrow> machine \<Rightarrow> machine" where
  "on_cpu f m = m\<lparr>m_cpu := f (m_cpu m)\<rparr>"

abbreviation TRAP_EXCEPTION :: int where "TRAP_EXCEPTION \<equiv> 5"
abbreviation ILLOPC_EXCEPTION :: int where "ILLOPC_EXCEPTION \<equiv> 4"

definition illOpc :: "'a op" where
  "illOpc m = Some (Fault (set_trap ILLOPC_EXCEPTION m))"

definition guard :: "bool \<Rightarrow> unit op" where
  "guard ok = (if ok then value_of (\<lambda>_. ()) else illOpc)"

section \<open>Access to the memory with breakpoints\<close>

definition word_type :: "machine \<Rightarrow> u16 \<Rightarrow> u8" where
  "word_type m a = m_type m a OR m_type m (a + 1)"

definition READ_BYTE :: "u16 \<Rightarrow> u8 op" where
  "READ_BYTE addr m =
    (let (v, m1) = GET_BYTE_CYCLES addr m
     in Some (if m_type m1 addr AND MEMTYPE_READTRAP \<noteq> 0 then Trap m1 else Go v m1))"

definition READ_WORD :: "u16 \<Rightarrow> u16 op" where
  "READ_WORD addr m =
     Option.bind (GET_WORD_CYCLES addr m) (\<lambda>(v, m1).
       if addr = 0xffff then None
       else Some (if word_type m1 addr AND MEMTYPE_READTRAP \<noteq> 0 then Trap m1 else Go v m1))"

definition WRITE_BYTE :: "(machine \<Rightarrow> machine option) \<Rightarrow> u16 \<Rightarrow> u8 \<Rightarrow> unit op" where
  "WRITE_BYTE wait addr val m =
    (if m_type m addr AND MEMTYPE_WRITETRAP \<noteq> 0 then Some (Trap m) else run (SET_BYTE_CYCLES wait addr val) m)"

definition WRITE_WORD :: "(machine \<Rightarrow> machine option) \<Rightarrow> u16 \<Rightarrow> u16 \<Rightarrow> unit op" where
  "WRITE_WORD wait addr val m =
    (if addr = 0xffff then None
     else if word_type m addr AND MEMTYPE_WRITETRAP \<noteq> 0 then Some (Trap m) else run (SET_WORD_CYCLES wait addr val) m)"

definition pc_op :: "u16 op" where
  "pc_op = value_of (\<lambda>m. pc (m_cpu m))"

definition set_pc :: "u16 \<Rightarrow> unit op" where
  "set_pc a = change (on_cpu (\<lambda>c. c\<lparr>pc := a\<rparr>))"

definition reg8 :: "nat \<Rightarrow> u8 op" where
  "reg8 n = value_of (\<lambda>m. reg (m_cpu m) ! n)"

definition reg16 :: "nat \<Rightarrow> u16 op" where
  "reg16 n = value_of (\<lambda>m. GET_REG16 n (m_cpu m))"

definition set_reg16 :: "nat \<Rightarrow> u16 \<Rightarrow> unit op" where
  "set_reg16 n v = change (on_cpu (SET_REG16 n v))"

definition set_reg8 :: "nat \<Rightarrow> u8 \<Rightarrow> unit op" where
  "set_reg8 n v = change (on_cpu (set_reg n v))"

text \<open>A word of the program: an operand, and the prefetch whose value is dropped.\<close>

definition GET_PC_WORD :: "u16 op" where
  "GET_PC_WORD = seq pc_op (\<lambda>a. attempt (GET_WORD_CYCLES a))"

definition operand :: "u16 op" where
  "operand = seq GET_PC_WORD (\<lambda>w. seq pc_op (\<lambda>a. seq (set_pc (a + 2)) (\<lambda>_. value_of (\<lambda>_. w))))"

definition GET_OPCODE :: "u16 op" where
  "GET_OPCODE m =
    (if pc (m_cpu m) = 0xffff then None
     else if word_type m (pc (m_cpu m)) AND MEMTYPE_BREAKPOINT \<noteq> 0 then Some (Trap m) else operand m)"

definition check_pc :: "unit op" where
  "check_pc m =
    (let a = pc (m_cpu m)
     in Some (if bit a 0 \<or> m_type m a AND MEMTYPE_DIV \<noteq> 0 then Fault (set_trap 10 m) else Go () m))"

definition frame_op :: "(machine \<Rightarrow> frame_st option) \<Rightarrow> unit op" where
  "frame_op f = run (\<lambda>m. map_option (\<lambda>F. m\<lparr>m_frame := F\<rparr>) (f m))"

abbreviation cyc :: "u64 \<Rightarrow> unit op" where "cyc n \<equiv> change (add_cycles n)"

abbreviation abs8 :: "u16 \<Rightarrow> u16" where "abs8 opc \<equiv> scast (opcval opc)"

section \<open>Jumps and calls\<close>

text \<open>\<open>Bcc\<close>: the branches of the opcodes \<open>0x40\<close> to \<open>0x4f\<close>; \<open>BRN\<close> does not look at the program counter.\<close>

definition branch :: "nat \<Rightarrow> u16 \<Rightarrow> unit op" where
  "branch k opc =
     seq GET_PC_WORD (\<lambda>_.
     seq (change (on_cpu (\<lambda>c. if branch_taken k (ccr c) then c\<lparr>pc := pc c + abs8 opc\<rparr> else c))) (\<lambda>_.
     if k = 1 then value_of (\<lambda>_. ()) else check_pc))"

definition call_sub :: "(machine \<Rightarrow> machine option) \<Rightarrow> u16 op \<Rightarrow> unit op" where
  "call_sub wait target =
     seq (reg16 7) (\<lambda>r7. let sp = r7 - 2 in
     seq pc_op (\<lambda>ret.
     seq (WRITE_WORD wait sp ret) (\<lambda>_.
     seq target (\<lambda>t.
     seq (set_pc t) (\<lambda>_.
     seq check_pc (\<lambda>_.
     seq (frame_op (\<lambda>m. frame_begin (cycles (m_bus m)) (pc (m_cpu m)) sp False (m_frame m))) (\<lambda>_.
     set_reg16 7 sp)))))))"

text \<open>In \<open>pc = READ_WORD(...)\<close> the program counter is set before the jump to \<open>trap\<close>, which restores it.\<close>

definition BSr :: "(machine \<Rightarrow> machine option) \<Rightarrow> u16 \<Rightarrow> unit op" where
  "BSr wait opc = seq GET_PC_WORD (\<lambda>_. call_sub wait (value_of (\<lambda>m. pc (m_cpu m) + abs8 opc)))"

definition JmpRI :: "u16 \<Rightarrow> unit op" where
  "JmpRI opc =
     seq (guard (opcval opc AND 0x8f = 0)) (\<lambda>_. seq GET_PC_WORD (\<lambda>_. seq (reg16 (high4 (opcval opc))) (\<lambda>a. seq (set_pc a) (\<lambda>_. check_pc))))"

definition JmpA16 :: "u16 \<Rightarrow> unit op" where
  "JmpA16 opc =
     seq (guard (opcval opc = 0)) (\<lambda>_. seq (cyc 2) (\<lambda>_. seq GET_PC_WORD (\<lambda>a. seq (set_pc a) (\<lambda>_. check_pc))))"

definition JmpAA8 :: "u16 \<Rightarrow> unit op" where
  "JmpAA8 opc =
     seq GET_PC_WORD (\<lambda>_. seq (cyc 2) (\<lambda>_. seq (READ_WORD (abs8 opc)) (\<lambda>a. seq (set_pc a) (\<lambda>_. check_pc))))"

definition JsrRI :: "(machine \<Rightarrow> machine option) \<Rightarrow> u16 \<Rightarrow> unit op" where
  "JsrRI wait opc = seq (guard (opcval opc AND 0x8f = 0)) (\<lambda>_. seq GET_PC_WORD (\<lambda>_. call_sub wait (reg16 (high4 (opcval opc)))))"

definition JsrA16 :: "(machine \<Rightarrow> machine option) \<Rightarrow> u16 \<Rightarrow> unit op" where
  "JsrA16 wait opc =
     seq (guard (opcval opc = 0)) (\<lambda>_. seq operand (\<lambda>a. seq (cyc 2) (\<lambda>_. call_sub wait (value_of (\<lambda>_. a)))))"

definition JsrAA8 :: "(machine \<Rightarrow> machine option) \<Rightarrow> u16 \<Rightarrow> unit op" where
  "JsrAA8 wait opc = seq GET_PC_WORD (\<lambda>_. call_sub wait (READ_WORD (abs8 opc)))"

definition RtS :: "u16 \<Rightarrow> unit op" where
  "RtS opc =
     seq GET_PC_WORD (\<lambda>_.
     seq (cyc 2) (\<lambda>_.
     seq (reg16 7) (\<lambda>fp.
     seq (frame_op (\<lambda>m. frame_end (cycles (m_bus m)) (m_mem m) fp False (m_frame m))) (\<lambda>_.
     seq (READ_WORD fp) (\<lambda>a.
     seq (set_pc a) (\<lambda>_.
     seq check_pc (\<lambda>_.
     set_reg16 7 (fp + 2))))))))"

text \<open>\<open>fp + 2\<close> is an \<open>int\<close>: at the end of the memory the breakpoint flags are read outside their array.\<close>

definition RtE :: "u16 \<Rightarrow> unit op" where
  "RtE opc =
     seq GET_PC_WORD (\<lambda>_.
     seq (cyc 2) (\<lambda>_.
     seq (reg16 7) (\<lambda>fp.
     seq (frame_op (\<lambda>m. frame_end (cycles (m_bus m)) (m_mem m) (fp + 2) True (m_frame m))) (\<lambda>_.
     seq (READ_WORD fp) (\<lambda>ccrword.
     seq (change (on_cpu (set_ccr (ucast (drop_bit 8 ccrword))))) (\<lambda>_.
     seq (if 0xfffd < fp then (\<lambda>_. None) else READ_WORD (fp + 2)) (\<lambda>a.
     seq (set_pc a) (\<lambda>_.
     seq check_pc (\<lambda>_.
     set_reg16 7 (fp + 4))))))))))"

section \<open>Moves between registers and memory\<close>

definition flags8 :: "u8 \<Rightarrow> unit op" where
  "flags8 dest = change (on_cpu (\<lambda>c. set_ccr (setNZV8 dest (ccr c)) c))"

definition flags16 :: "u16 \<Rightarrow> unit op" where
  "flags16 dest = change (on_cpu (\<lambda>c. set_ccr (setNZV16 dest (ccr c)) c))"

text \<open>A store or a load of a byte, by the top bit of \<open>opcval\<close>, at an address that is already known.\<close>

definition move_byte :: "(machine \<Rightarrow> machine option) \<Rightarrow> u8 \<Rightarrow> u16 \<Rightarrow> unit op" where
  "move_byte wait v addr =
    (if v AND 0x80 \<noteq> 0 then seq (reg8 (low4 v)) (\<lambda>dest. seq (WRITE_BYTE wait addr dest) (\<lambda>_. flags8 dest))
     else seq (READ_BYTE addr) (\<lambda>dest. seq (set_reg8 (low4 v) dest) (\<lambda>_. flags8 dest)))"

definition MovBRI :: "(machine \<Rightarrow> machine option) \<Rightarrow> u16 \<Rightarrow> unit op" where
  "MovBRI wait opc = (let v = opcval opc in seq (reg16 (high3 v)) (move_byte wait v))"

definition MovBRID :: "(machine \<Rightarrow> machine option) \<Rightarrow> u16 \<Rightarrow> unit op" where
  "MovBRID wait opc =
    (let v = opcval opc in seq GET_PC_WORD (\<lambda>d. seq (reg16 (high3 v)) (\<lambda>a.
       seq pc_op (\<lambda>p. seq (set_pc (p + 2)) (\<lambda>_. move_byte wait v (d + a))))))"

definition MovBRIP :: "(machine \<Rightarrow> machine option) \<Rightarrow> u16 \<Rightarrow> unit op" where
  "MovBRIP wait opc =
    (let v = opcval opc
     in seq (cyc 2) (\<lambda>_. seq (reg16 (high3 v)) (\<lambda>a.
        if v AND 0x80 \<noteq> 0 then
          seq (reg8 (low4 v)) (\<lambda>dest. seq (WRITE_BYTE wait (a - 1) dest) (\<lambda>_. seq (set_reg16 (high3 v) (a - 1)) (\<lambda>_. flags8 dest)))
        else
          seq (READ_BYTE a) (\<lambda>dest. seq (set_reg16 (high3 v) (a + 1)) (\<lambda>_. seq (set_reg8 (low4 v) dest) (\<lambda>_. flags8 dest))))))"

definition MovBFA8 :: "u16 \<Rightarrow> unit op" where
  "MovBFA8 opc = seq (READ_BYTE (abs8 opc)) (\<lambda>dest. seq (flags8 dest) (\<lambda>_. set_reg8 (opcreg opc) dest))"

definition MovBTA8 :: "(machine \<Rightarrow> machine option) \<Rightarrow> u16 \<Rightarrow> unit op" where
  "MovBTA8 wait opc = seq (reg8 (opcreg opc)) (\<lambda>dest. seq (flags8 dest) (\<lambda>_. WRITE_BYTE wait (abs8 opc) dest))"

definition MovBA16 :: "(machine \<Rightarrow> machine option) \<Rightarrow> u16 \<Rightarrow> unit op" where
  "MovBA16 wait opc = (let v = opcval opc in seq (guard (v AND 0x70 = 0)) (\<lambda>_. seq operand (move_byte wait v)))"

text \<open>A new stack pointer is reported to the profiler.\<close>

definition new_sp :: "nat \<Rightarrow> u16 \<Rightarrow> unit op" where
  "new_sp n dest =
    (if n = 7 then
       change (\<lambda>m. m\<lparr>m_frame := frame_switch (cycles (m_bus m)) (pc (m_cpu m)) (GET_REG16 7 (m_cpu m)) dest (m_frame m)\<rparr>)
     else value_of (\<lambda>_. ()))"

definition load_reg16 :: "nat \<Rightarrow> u16 \<Rightarrow> unit op" where
  "load_reg16 n dest = seq (new_sp n dest) (\<lambda>_. set_reg16 n dest)"

definition MovW :: "u16 \<Rightarrow> unit op" where
  "MovW opc =
    (let v = opcval opc
     in seq (guard (v AND 0x88 = 0)) (\<lambda>_. seq (reg16 (high3 v)) (\<lambda>dest. seq (flags16 dest) (\<lambda>_. load_reg16 (low3 v) dest))))"

definition MovWI :: "u16 \<Rightarrow> unit op" where
  "MovWI opc =
    (let v = opcval opc
     in seq (guard (v AND 0xf8 = 0)) (\<lambda>_. seq operand (\<lambda>dest. seq (flags16 dest) (\<lambda>_. load_reg16 (low3 v) dest))))"

definition move_word :: "(machine \<Rightarrow> machine option) \<Rightarrow> u8 \<Rightarrow> u16 \<Rightarrow> unit op" where
  "move_word wait v addr =
    (if v AND 0x80 \<noteq> 0 then seq (reg16 (low3 v)) (\<lambda>dest. seq (WRITE_WORD wait addr dest) (\<lambda>_. flags16 dest))
     else seq (READ_WORD addr) (\<lambda>dest. seq (load_reg16 (low3 v) dest) (\<lambda>_. flags16 dest)))"

definition MovWRI :: "(machine \<Rightarrow> machine option) \<Rightarrow> u16 \<Rightarrow> unit op" where
  "MovWRI wait opc = (let v = opcval opc in seq (guard (v AND 0x08 = 0)) (\<lambda>_. seq (reg16 (high3 v)) (move_word wait v)))"

definition MovWRID :: "(machine \<Rightarrow> machine option) \<Rightarrow> u16 \<Rightarrow> unit op" where
  "MovWRID wait opc =
    (let v = opcval opc
     in seq (guard (v AND 0x08 = 0)) (\<lambda>_. seq GET_PC_WORD (\<lambda>d. seq (reg16 (high3 v)) (\<lambda>a.
        seq pc_op (\<lambda>p. seq (set_pc (p + 2)) (\<lambda>_. move_word wait v (d + a)))))))"

definition MovWRIP :: "(machine \<Rightarrow> machine option) \<Rightarrow> u16 \<Rightarrow> unit op" where
  "MovWRIP wait opc =
    (let v = opcval opc
     in seq (guard (v AND 0x08 = 0)) (\<lambda>_. seq (cyc 2) (\<lambda>_. seq (reg16 (high3 v)) (\<lambda>a.
        if v AND 0x80 \<noteq> 0 then
          seq (reg16 (low3 v)) (\<lambda>dest. seq (WRITE_WORD wait (a - 2) dest) (\<lambda>_. seq (set_reg16 (high3 v) (a - 2)) (\<lambda>_. flags16 dest)))
        else
          seq (READ_WORD a) (\<lambda>dest. seq (set_reg16 (high3 v) (a + 2)) (\<lambda>_. seq (load_reg16 (low3 v) dest) (\<lambda>_. flags16 dest)))))))"

definition MovWA16 :: "(machine \<Rightarrow> machine option) \<Rightarrow> u16 \<Rightarrow> unit op" where
  "MovWA16 wait opc = (let v = opcval opc in seq (guard (v AND 0x78 = 0)) (\<lambda>_. seq operand (move_word wait v)))"

section \<open>Bits in memory\<close>

text \<open>The second word of the instruction has the operation; \<open>writes\<close> says which of the two tables it is looked up in.\<close>

definition bit_memory :: "(machine \<Rightarrow> machine option) \<Rightarrow> bool \<Rightarrow> bool \<Rightarrow> u16 \<Rightarrow> unit op" where
  "bit_memory wait writes strict addr =
     seq (READ_BYTE addr) (\<lambda>val. seq GET_OPCODE (\<lambda>opc. seq (guard (\<not> strict \<or> opcval opc AND 0x0f = 0)) (\<lambda>_ m.
       let code = ucast (drop_bit 8 opc); v = opcval opc; c = m_cpu m
       in if writes then
            (case bit_write_op code v c val of None \<Rightarrow> illOpc m | Some b \<Rightarrow> WRITE_BYTE wait addr b m)
          else
            (case bit_test_op code v c val of None \<Rightarrow> illOpc m | Some f \<Rightarrow> change (on_cpu (set_ccr f)) m))))"

definition BitAbs :: "(machine \<Rightarrow> machine option) \<Rightarrow> bool \<Rightarrow> u16 \<Rightarrow> unit op" where
  "BitAbs wait writes opc = bit_memory wait writes False (abs8 opc)"

definition BitInd :: "(machine \<Rightarrow> machine option) \<Rightarrow> bool \<Rightarrow> u16 \<Rightarrow> unit op" where
  "BitInd wait writes opc =
     seq (guard (opcval opc AND 0x8f = 0)) (\<lambda>_. seq (reg16 (high4 (opcval opc))) (bit_memory wait writes True))"

section \<open>The other instructions\<close>

definition Nop :: "u16 \<Rightarrow> unit op" where
  "Nop opc =
    (if opcval opc = 0 then
       seq pc_op (\<lambda>a. seq (attempt (GET_WORD a)) (\<lambda>w.
         if w = 0x5470 then seq (attempt debug_printf) (\<lambda>_. value_of (\<lambda>_. ())) else value_of (\<lambda>_. ())))
     else value_of (\<lambda>_. ()))"

definition Sleep :: "(machine \<Rightarrow> machine option) \<Rightarrow> u16 \<Rightarrow> unit op" where
  "Sleep wait opc = run (cpu_sleep wait)"

definition Trap_instr :: "u16 \<Rightarrow> unit op" where
  "Trap_instr opc = change (set_trap TRAP_EXCEPTION)"

definition EepMov :: "u16 \<Rightarrow> unit op" where
  "EepMov opc =
     seq (change step_back) (\<lambda>_. seq pc_op (\<lambda>a. seq (attempt (GET_WORD a)) (\<lambda>_. change (set_trap ILLOPC_EXCEPTION))))"

text \<open>An instruction on registers, and the two that take six more cycles.\<close>

definition on_regs :: "(u16 \<Rightarrow> cpu \<Rightarrow> cpu option) \<Rightarrow> u16 \<Rightarrow> unit op" where
  "on_regs f opc m = (case f opc (m_cpu m) of None \<Rightarrow> illOpc m | Some c \<Rightarrow> Some (Go () (m\<lparr>m_cpu := c\<rparr>)))"

definition slow_regs :: "(u16 \<Rightarrow> cpu \<Rightarrow> cpu option) \<Rightarrow> u16 \<Rightarrow> unit op" where
  "slow_regs f opc = seq (on_regs f opc) (\<lambda>_. cyc 6)"

text \<open>The table at the end of \<^verbatim>\<open>h8300.pl\<close>: opcodes with a nibble of data, and single opcodes.\<close>

definition opcode_rows :: "(machine \<Rightarrow> machine option) \<Rightarrow> (u8 \<times> (u16 \<Rightarrow> unit op)) list" where
  "opcode_rows wait = [
    (2, MovBFA8), (3, MovBTA8 wait), (8, on_regs AddBI), (9, on_regs AddXI), (0xa, on_regs CmpBI), (0xb, on_regs SubXI),
    (0xc, on_regs (logic_imm (OR))), (0xd, on_regs (logic_imm (XOR))), (0xe, on_regs (logic_imm (AND))), (0xf, on_regs MovBI)]"

definition opcode_table :: "(machine \<Rightarrow> machine option) \<Rightarrow> (u8 \<times> (u16 \<Rightarrow> unit op)) list" where
  "opcode_table wait = [
    (0x00, Nop), (0x01, Sleep wait), (0x02, on_regs StC), (0x03, on_regs LdC), (0x04, on_regs OrC), (0x05, on_regs XorC),
    (0x06, on_regs AndC), (0x07, on_regs LdCI), (0x08, on_regs AddB), (0x09, on_regs AddW), (0x0a, on_regs Inc), (0x0b, on_regs AddS),
    (0x0c, on_regs MovB), (0x0d, MovW), (0x0e, on_regs AddX), (0x0f, on_regs DAA),
    (0x10, on_regs ShL), (0x11, on_regs ShR), (0x12, on_regs RotL), (0x13, on_regs RotR),
    (0x14, on_regs (logic_reg (OR))), (0x15, on_regs (logic_reg (XOR))), (0x16, on_regs (logic_reg (AND))), (0x17, on_regs Not_Neg),
    (0x18, on_regs SubB), (0x19, on_regs SubW), (0x1a, on_regs Dec), (0x1b, on_regs SubS), (0x1c, on_regs CmpB), (0x1d, on_regs CmpW),
    (0x1e, on_regs SubX), (0x1f, on_regs DAS),
    (0x40, branch 0), (0x41, branch 1), (0x42, branch 2), (0x43, branch 3), (0x44, branch 4), (0x45, branch 5), (0x46, branch 6),
    (0x47, branch 7), (0x48, branch 8), (0x49, branch 9), (0x4a, branch 10), (0x4b, branch 11), (0x4c, branch 12), (0x4d, branch 13),
    (0x4e, branch 14), (0x4f, branch 15),
    (0x50, slow_regs MulXU), (0x51, slow_regs DivXU), (0x54, RtS), (0x55, BSr wait), (0x56, RtE), (0x57, Trap_instr),
    (0x59, JmpRI), (0x5a, JmpA16), (0x5b, JmpAA8), (0x5d, JsrRI wait), (0x5e, JsrA16 wait), (0x5f, JsrAA8 wait),
    (0x60, on_regs bit_write_reg), (0x61, on_regs bit_write_reg), (0x62, on_regs bit_write_reg), (0x63, on_regs bit_test_reg),
    (0x67, on_regs bit_write_reg), (0x68, MovBRI wait), (0x69, MovWRI wait), (0x6a, MovBA16 wait), (0x6b, MovWA16 wait),
    (0x6c, MovBRIP wait), (0x6d, MovWRIP wait), (0x6e, MovBRID wait), (0x6f, MovWRID wait),
    (0x70, on_regs bit_write_reg), (0x71, on_regs bit_write_reg), (0x72, on_regs bit_write_reg), (0x73, on_regs bit_test_reg),
    (0x74, on_regs bit_test_reg), (0x75, on_regs bit_test_reg), (0x76, on_regs bit_test_reg), (0x77, on_regs bit_test_reg),
    (0x79, MovWI), (0x7b, EepMov), (0x7c, BitInd wait False), (0x7d, BitInd wait True), (0x7e, BitAbs wait False), (0x7f, BitAbs wait True)]"

definition exec :: "(machine \<Rightarrow> machine option) \<Rightarrow> u16 \<Rightarrow> unit op" where
  "exec wait opc =
    (let code = ucast (drop_bit 8 opc) :: u8
     in case map_of (opcode_rows wait) (drop_bit 4 code) of
          Some f \<Rightarrow> f opc
        | None \<Rightarrow> (case map_of (opcode_table wait) code of Some f \<Rightarrow> f opc | None \<Rightarrow> illOpc))"


section \<open>The loop\<close>

text \<open>The machine with the locals of \<open>run_cpu\<close> and its statics for single steps, and the label where the loop goes on.\<close>

record run_st =
  r_machine :: machine
  oldpc :: u16
  db_singlestep_pc :: u16
  db_singlestep_memtype :: u8

datatype label = Top | To_trap | To_fault

definition set_singlestep :: "bool \<Rightarrow> machine \<Rightarrow> machine" where
  "set_singlestep b = on_cpu (\<lambda>c. c\<lparr>db_singlestep := b\<rparr>)"

definition set_memtype :: "u16 \<Rightarrow> u8 \<Rightarrow> machine \<Rightarrow> machine" where
  "set_memtype a t m = m\<lparr>m_type := (m_type m)(a := t)\<rparr>"

definition back_to :: "u16 \<Rightarrow> machine \<Rightarrow> machine" where
  "back_to a = on_cpu (\<lambda>c. c\<lparr>pc := a\<rparr>)"

text \<open>The first part of the loop, up to \<open>periph_handletrap\<close>: the new state and whether the call is reached.\<close>

definition trap_entry :: "label \<Rightarrow> run_st \<Rightarrow> bool \<times> run_st" where
  "trap_entry l s =
    (case l of
       Top \<Rightarrow>
         let m = r_machine s; m1 = (if bit (pc (m_cpu m)) 0 then set_trap 10 m else m)
         in if db_singlestep (m_cpu m1) then (True, s\<lparr>r_machine := set_trap TRAP_EXCEPTION m1, oldpc := pc (m_cpu m1)\<rparr>)
            else (db_trap (m_cpu m1) \<noteq> 0, s\<lparr>r_machine := m1\<rparr>)
     | To_trap \<Rightarrow>
         let m = r_machine s;
             s1 = (if db_singlestep_pc s = oldpc s
                   then s\<lparr>r_machine := set_memtype (oldpc s) (db_singlestep_memtype s) (set_singlestep True m), db_singlestep_pc := 0xffff\<rparr>
                   else s)
         in (True, s1\<lparr>r_machine := back_to (oldpc s1) (set_trap TRAP_EXCEPTION (r_machine s1))\<rparr>)
     | To_fault \<Rightarrow> (True, s\<lparr>r_machine := back_to (oldpc s) (r_machine s)\<rparr>))"

text \<open>
  An interrupt or another event is due. While single-stepping an interrupt handler is stepped over: a breakpoint is set where it will
  return to.
\<close>

definition run_irq :: "(machine \<Rightarrow> machine option) \<Rightarrow> run_st \<Rightarrow> run_st option" where
  "run_irq wait s =
    (let m = r_machine s
     in if \<not> db_singlestep (m_cpu m) then map_option (\<lambda>(_, m1). s\<lparr>r_machine := m1\<rparr>) (check_irq wait m)
        else
          let a = pc (m_cpu m)
          in map_option (\<lambda>(_, m1).
               if a \<noteq> pc (m_cpu m1) then
                 s\<lparr>r_machine := set_singlestep False (set_memtype a (m_type m1 a OR MEMTYPE_BREAKPOINT) m1),
                   db_singlestep_pc := a, db_singlestep_memtype := m_type m1 a\<rparr>
               else s\<lparr>r_machine := m1, db_singlestep_pc := a\<rparr>) (check_irq wait m))"

definition count_opcode :: "u16 \<Rightarrow> machine \<Rightarrow> machine" where
  "count_opcode opc m =
    (let F = m_frame m; k = ucast (drop_bit 8 opc)
     in m\<lparr>m_frame := F\<lparr>frame_opcstat := (frame_opcstat F)(k := frame_opcstat F k + 1)\<rparr>\<rparr>)"

definition fetch_exec :: "(machine \<Rightarrow> machine option) \<Rightarrow> unit op" where
  "fetch_exec wait = seq GET_OPCODE (\<lambda>opc. seq (change (count_opcode opc)) (\<lambda>_. exec wait opc))"

definition run_exec :: "(machine \<Rightarrow> machine option) \<Rightarrow> run_st \<Rightarrow> (label \<times> run_st) option" where
  "run_exec wait s =
    (let m = r_machine s
     in Option.bind (if m_type m (pc (m_cpu m)) AND 0x03 \<noteq> 0 then dump_state m else Some m) (\<lambda>m1.
        let s1 = s\<lparr>oldpc := pc (m_cpu m1)\<rparr>
        in map_option (\<lambda>r. case r of
               Go _ m2 \<Rightarrow> (Top, s1\<lparr>r_machine := m2\<rparr>)
             | Trap m2 \<Rightarrow> (To_trap, s1\<lparr>r_machine := m2\<rparr>)
             | Fault m2 \<Rightarrow> (To_fault, s1\<lparr>r_machine := m2\<rparr>)) (fetch_exec wait m1)))"

definition event_due :: "machine \<Rightarrow> bool" where
  "event_due m \<longleftrightarrow> (if ccr (m_cpu m) AND 0x80 \<noteq> 0 then next_nmi_cycle (m_bus m) else next_timer_cycle (m_bus m)) \<le> cycles (m_bus m)"

definition run_rest :: "(machine \<Rightarrow> machine option) \<Rightarrow> run_st \<Rightarrow> (label \<times> run_st) option" where
  "run_rest wait s =
    (let m = r_machine s
     in if irq_disabled_one (m_cpu m) then run_exec wait (s\<lparr>r_machine := on_cpu (\<lambda>c. c\<lparr>irq_disabled_one := False\<rparr>) m\<rparr>)
        else if event_due m then map_option (Pair Top) (run_irq wait s)
        else run_exec wait s)"

text \<open>One turn of the loop, from a label to the next. \<open>H\<close> are the handlers of the sockets.\<close>

definition run_step :: "hooks \<Rightarrow> label \<times> run_st \<Rightarrow> (label \<times> run_st) option" where
  "run_step H = (\<lambda>(l, s).
    let wait = wait_peripherals H; (trapped, s1) = trap_entry l s
    in Option.bind (if trapped then map_option (\<lambda>m. s1\<lparr>r_machine := m\<rparr>) (periph_handletrap H db_handletrap (r_machine s1)) else Some s1)
         (run_rest wait))"

definition run_start :: "hooks \<Rightarrow> machine \<Rightarrow> (label \<times> run_st) option" where
  "run_start H m =
     map_option (\<lambda>m1. (Top, \<lparr>r_machine = m1, oldpc = pc (m_cpu m), db_singlestep_pc = 0xffff, db_singlestep_memtype = 0\<rparr>))
       (do_reset (wait_peripherals H) m)"

text \<open>The states that \<open>run_cpu\<close> goes through.\<close>

inductive run_cpu :: "hooks \<Rightarrow> machine \<Rightarrow> label \<times> run_st \<Rightarrow> bool" for H m where
  start: "run_start H m = Some s \<Longrightarrow> run_cpu H m s"
| step: "run_cpu H m s \<Longrightarrow> run_step H s = Some s1 \<Longrightarrow> run_cpu H m s1"


inductive_cases run_cpu_cases: "run_cpu H m s"

section \<open>Symbolic execution\<close>

named_theorems exec_simps

lemma seq_Go: "f m = Some (Go a m1) \<Longrightarrow> seq f g m = g a m1"
  by (simp add: seq_def)

lemma seq_simps [exec_simps]:
  "seq (value_of f) g m = g (f m) m" "seq (change h) k m = k () (h m)" "value_of f m = Some (Go (f m) m)" "change h m = Some (Go () (h m))"
  by (simp_all add: seq_def value_of_def change_def)

lemma on_cpu_simps [simp]:
  "m_cpu (on_cpu f m) = f (m_cpu m)" "m_mem (on_cpu f m) = m_mem m" "m_type (on_cpu f m) = m_type m" "m_bus (on_cpu f m) = m_bus m"
  "m_frame (on_cpu f m) = m_frame m" "mword (on_cpu f m) a = mword m a" "mword (add_cycles n m) a = mword m a" "plain (on_cpu f m) = plain m"
  "word_type (on_cpu f m) = word_type m" "word_type (add_cycles n m) = word_type m"
  by (simp_all add: on_cpu_def mword_def plain_def word_type_def fun_eq_iff)

text \<open>An even address of plain memory without breakpoints, for the program and for data.\<close>

definition open_word :: "machine \<Rightarrow> u16 \<Rightarrow> bool" where
  "open_word m a \<longleftrightarrow> \<not> bit a 0 \<and> plain m a \<and> word_type m a AND (MEMTYPE_READTRAP OR MEMTYPE_WRITETRAP) = 0"

lemma open_wordD:
  assumes "open_word m a"
  shows "\<not> bit a 0" "plain m a" "a \<noteq> 0xffff" "word_type m a AND MEMTYPE_READTRAP = 0" "word_type m a AND MEMTYPE_WRITETRAP = 0"
  using assms even_not_last [of a] by (simp_all add: open_word_def u8_eq_iff bit_simps)

lemma READ_WORD_open: "open_word m a \<Longrightarrow> READ_WORD a m = Some (Go (mword m a) (add_cycles (word_cycles (m_type m a)) m))"
  using open_wordD [of m a] by (simp add: READ_WORD_def GET_WORD_CYCLES_plain)

lemma WRITE_WORD_open:
  "open_word m a \<Longrightarrow> WRITE_WORD wait a w m =
     Some (Go () (poke (a + 1) (ucast w) (poke a (ucast (drop_bit 8 w)) (add_cycles (word_cycles (m_type m a)) m))))"
  using open_wordD [of m a] by (simp add: WRITE_WORD_def run_def SET_WORD_CYCLES_plain)

lemma GET_PC_WORD_plain:
  "plain m (pc (m_cpu m)) \<Longrightarrow> \<not> bit (pc (m_cpu m)) 0 \<Longrightarrow>
     GET_PC_WORD m = Some (Go (mword m (pc (m_cpu m))) (add_cycles (word_cycles (m_type m (pc (m_cpu m)))) m))"
  by (simp add: GET_PC_WORD_def pc_op_def exec_simps attempt_def GET_WORD_CYCLES_plain)

lemma check_pc_ok: "\<not> bit (pc (m_cpu m)) 0 \<Longrightarrow> m_type m (pc (m_cpu m)) AND MEMTYPE_DIV = 0 \<Longrightarrow> check_pc m = Some (Go () m)"
  by (simp add: check_pc_def Let_def)

lemma frame_op_Some: "f m = Some F \<Longrightarrow> frame_op f m = Some (Go () (m\<lparr>m_frame := F\<rparr>))"
  by (simp add: frame_op_def run_def)


section \<open>Calls and interrupts return\<close>

lemmas reg_ops = reg16_def set_reg16_def set_pc_def pc_op_def

text \<open>Where a subroutine can be called: the stack has room for the return address, and the target is a place for code.\<close>

definition code_addr :: "machine \<Rightarrow> u16 \<Rightarrow> bool" where
  "code_addr m a \<longleftrightarrow> \<not> bit a 0 \<and> plain m a"

lemma code_addrD: "code_addr m a \<Longrightarrow> \<not> bit a 0" "code_addr m a \<Longrightarrow> plain m a" "code_addr m a \<Longrightarrow> m_type m a AND MEMTYPE_DIV = 0"
  by (simp_all add: code_addr_def plain_bits)

lemma call_open:
  assumes "open_word m (GET_REG16 7 (m_cpu m) - 2)" "code_addr m t" "frame_ok (m_frame m)" "length (reg (m_cpu m)) = 16"
  defines "sp \<equiv> GET_REG16 7 (m_cpu m) - 2"
  shows "\<exists>m1. call_sub wait (value_of (\<lambda>_. t)) m = Some (Go () m1) \<and> pc (m_cpu m1) = t \<and> GET_REG16 7 (m_cpu m1) = sp
    \<and> m_mem m1 = (m_mem m)(sp := ucast (drop_bit 8 (pc (m_cpu m))), sp + 1 := ucast (pc (m_cpu m))) \<and> m_type m1 = m_type m \<and> frame_ok (m_frame m1)
    \<and> length (reg (m_cpu m1)) = 16"
proof -
  let ?c = "m_cpu m"
  define m1 where "m1 = poke (sp + 1) (ucast (pc ?c)) (poke sp (ucast (drop_bit 8 (pc ?c))) (add_cycles (word_cycles (m_type m sp)) m))"
  define m2 where "m2 = on_cpu (\<lambda>c. c\<lparr>pc := t\<rparr>) m1"
  have w: "seq (WRITE_WORD wait sp (pc ?c)) g m = g () m1" for g :: "unit \<Rightarrow> unit op"
    using WRITE_WORD_open assms(1) by (intro seq_Go) (simp add: sp_def m1_def)
  have c: "seq check_pc g m2 = g () m2" for g :: "unit \<Rightarrow> unit op"
    using code_addrD [OF assms(2)] by (intro seq_Go check_pc_ok) (simp_all add: m2_def m1_def)
  obtain F where F: "frame_begin (cycles (m_bus m2)) (pc (m_cpu m2)) sp False (m_frame m2) = Some F" "frame_ok F"
    using frame_begin_ok assms(3) by (fastforce simp: m2_def m1_def)
  have f: "seq (frame_op (\<lambda>m. frame_begin (cycles (m_bus m)) (pc (m_cpu m)) sp False (m_frame m))) g m2 = g () (m2\<lparr>m_frame := F\<rparr>)"
    for g :: "unit \<Rightarrow> unit op"
    by (intro seq_Go frame_op_Some F(1))
  let ?m = "on_cpu (SET_REG16 7 sp) (m2\<lparr>m_frame := F\<rparr>)"
  have "call_sub wait (value_of (\<lambda>_. t)) m = Some (Go () ?m)"
    unfolding call_sub_def reg_ops exec_simps Let_def sp_def [symmetric] w m2_def [symmetric] c f ..
  then show ?thesis
    using F(2) GET_SET_REG16 [of "m_cpu m2" 7 sp] assms(4)
    by (intro exI [of _ ?m]) (simp add: m2_def m1_def SET_REG16_def fun_eq_iff)
qed


lemma rts_open:
  assumes "code_addr m (pc (m_cpu m))" "open_word m (GET_REG16 7 (m_cpu m))" "code_addr m (mword m (GET_REG16 7 (m_cpu m)))"
    "frame_ok (m_frame m)" "length (reg (m_cpu m)) = 16"
  defines "fp \<equiv> GET_REG16 7 (m_cpu m)"
  shows "\<exists>m1. RtS opc m = Some (Go () m1) \<and> pc (m_cpu m1) = mword m fp \<and> GET_REG16 7 (m_cpu m1) = fp + 2 \<and> ccr (m_cpu m1) = ccr (m_cpu m)
    \<and> m_mem m1 = m_mem m \<and> m_type m1 = m_type m \<and> frame_ok (m_frame m1)"
proof -
  note o = open_wordD [OF assms(2), folded fp_def]
  define m1 where "m1 = add_cycles 2 (add_cycles (word_cycles (m_type m (pc (m_cpu m)))) m)"
  have p: "seq GET_PC_WORD g m = g (mword m (pc (m_cpu m))) (add_cycles (word_cycles (m_type m (pc (m_cpu m)))) m)" for g :: "u16 \<Rightarrow> unit op"
    using code_addrD [OF assms(1)] by (intro seq_Go GET_PC_WORD_plain)
  obtain F where F: "frame_end (cycles (m_bus m1)) (m_mem m1) fp False (m_frame m1) = Some F" "frame_ok F"
    using frame_end_ok assms(4) o(3) by (fastforce simp: m1_def)
  define m2 where "m2 = m1\<lparr>m_frame := F\<rparr>"
  have f: "seq (frame_op (\<lambda>m. frame_end (cycles (m_bus m)) (m_mem m) fp False (m_frame m))) g m1 = g () m2" for g :: "unit \<Rightarrow> unit op"
    unfolding m2_def by (intro seq_Go frame_op_Some F(1))
  define m3 where "m3 = add_cycles (word_cycles (m_type m fp)) m2"
  have s2: "mword m2 fp = mword m fp" "m_type m2 = m_type m" "m_cpu m1 = m_cpu m" "m_cpu m2 = m_cpu m"
    by (simp_all add: m2_def m1_def mword_def)
  have "open_word m2 fp"
    using assms(2) by (simp add: open_word_def m2_def m1_def plain_def word_type_def fp_def)
  then have r: "seq (READ_WORD fp) g m2 = g (mword m fp) m3" for g :: "u16 \<Rightarrow> unit op"
    using READ_WORD_open [of m2 fp] by (intro seq_Go) (simp add: s2 m3_def)
  define m4 where "m4 = on_cpu (\<lambda>c. c\<lparr>pc := mword m fp\<rparr>) m3"
  have c: "seq check_pc g m4 = g () m4" for g :: "unit \<Rightarrow> unit op"
    using code_addrD [OF assms(3)] by (intro seq_Go check_pc_ok) (simp_all add: m4_def m3_def s2 fp_def)
  let ?m = "on_cpu (SET_REG16 7 (fp + 2)) m4"
  have "RtS opc m = Some (Go () ?m)"
    unfolding RtS_def p reg_ops exec_simps m1_def [symmetric] s2(3) fp_def [symmetric] f r m4_def [symmetric] c ..
  then show ?thesis
    using F(2) GET_SET_REG16 [of "m_cpu m4" 7 "fp + 2"] assms(5)
    by (intro exI [of _ ?m]) (simp add: m4_def m3_def m2_def m1_def SET_REG16_def)
qed

lemma rte_open:
  assumes "code_addr m (pc (m_cpu m))" "open_word m (GET_REG16 7 (m_cpu m))" "open_word m (GET_REG16 7 (m_cpu m) + 2)"
    "code_addr m (mword m (GET_REG16 7 (m_cpu m) + 2))" "GET_REG16 7 (m_cpu m) \<le> 0xfffc" "frame_ok (m_frame m)" "length (reg (m_cpu m)) = 16"
  defines "fp \<equiv> GET_REG16 7 (m_cpu m)"
  shows "\<exists>m1. RtE opc m = Some (Go () m1) \<and> pc (m_cpu m1) = mword m (fp + 2) \<and> GET_REG16 7 (m_cpu m1) = fp + 4 \<and> ccr (m_cpu m1) = m_mem m fp
    \<and> m_mem m1 = m_mem m \<and> m_type m1 = m_type m \<and> frame_ok (m_frame m1)"
proof -
  note o = open_wordD [OF assms(3), folded fp_def]
  define m1 where "m1 = add_cycles 2 (add_cycles (word_cycles (m_type m (pc (m_cpu m)))) m)"
  have p: "seq GET_PC_WORD g m = g (mword m (pc (m_cpu m))) (add_cycles (word_cycles (m_type m (pc (m_cpu m)))) m)" for g :: "u16 \<Rightarrow> unit op"
    using code_addrD [OF assms(1)] by (intro seq_Go GET_PC_WORD_plain)
  obtain F where F: "frame_end (cycles (m_bus m1)) (m_mem m1) (fp + 2) True (m_frame m1) = Some F" "frame_ok F"
    using frame_end_ok assms(6) o(3) by (fastforce simp: m1_def)
  define m2 where "m2 = m1\<lparr>m_frame := F\<rparr>"
  have f: "seq (frame_op (\<lambda>m. frame_end (cycles (m_bus m)) (m_mem m) (fp + 2) True (m_frame m))) g m1 = g () m2" for g :: "unit \<Rightarrow> unit op"
    unfolding m2_def by (intro seq_Go frame_op_Some F(1))
  define m3 where "m3 = on_cpu (set_ccr (ucast (drop_bit 8 (mword m fp)))) (add_cycles (word_cycles (m_type m fp)) m2)"
  have s2: "mword m2 a = mword m a" "m_type m2 = m_type m" "m_cpu m1 = m_cpu m" "m_cpu m2 = m_cpu m" for a
    by (simp_all add: m2_def m1_def mword_def)
  have "open_word m2 fp"
    using assms(2) by (simp add: open_word_def m2_def m1_def plain_def word_type_def fp_def)
  then have r: "seq (READ_WORD fp) g m2 = g (mword m fp) (add_cycles (word_cycles (m_type m fp)) m2)" for g :: "u16 \<Rightarrow> unit op"
    using READ_WORD_open [of m2 fp] by (intro seq_Go) (simp add: s2)
  define m4 where "m4 = add_cycles (word_cycles (m_type m (fp + 2))) m3"
  have "open_word m3 (fp + 2)"
    using assms(3) by (simp add: open_word_def m3_def m2_def m1_def plain_def word_type_def fp_def)
  then have r2: "seq (if 0xfffd < fp then (\<lambda>_. None) else READ_WORD (fp + 2)) g m3 = g (mword m (fp + 2)) m4" for g :: "u16 \<Rightarrow> unit op"
    using READ_WORD_open [of m3 "fp + 2"] assms(5) by (intro seq_Go) (auto simp: s2 m4_def m3_def fp_def not_less word_le_nat_alt)
  define m5 where "m5 = on_cpu (\<lambda>c. c\<lparr>pc := mword m (fp + 2)\<rparr>) m4"
  have c: "seq check_pc g m5 = g () m5" for g :: "unit \<Rightarrow> unit op"
    using code_addrD [OF assms(4)] by (intro seq_Go check_pc_ok) (simp_all add: m5_def m4_def m3_def s2 fp_def)
  let ?m = "on_cpu (SET_REG16 7 (fp + 4)) m5"
  have "RtE opc m = Some (Go () ?m)"
    unfolding RtE_def p reg_ops exec_simps m1_def [symmetric] s2(3) fp_def [symmetric] f r m3_def [symmetric] r2 m5_def [symmetric] c ..
  moreover have "ucast (drop_bit 8 (mword m fp)) = m_mem m fp"
    unfolding mword_def by (rule word_halves)
  ultimately show ?thesis
    using F(2) GET_SET_REG16 [of "m_cpu m5" 7 "fp + 4"] assms(7)
    by (intro exI [of _ ?m]) (simp add: m5_def m4_def m3_def m2_def m1_def SET_REG16_def set_ccr_def)
qed


text \<open>
  The machine \<open>m2\<close> at the end of a subroutine or handler that was entered in the machine \<open>m1\<close>: whatever it did, the stack pointer and the \<open>k\<close>
  bytes there are the same again, and the memory map is still the one of \<open>m\<close>.
\<close>

definition balanced :: "nat \<Rightarrow> machine \<Rightarrow> machine \<Rightarrow> machine \<Rightarrow> bool" where
  "balanced k m m1 m2 \<longleftrightarrow>
     (let sp = GET_REG16 7 (m_cpu m1)
      in GET_REG16 7 (m_cpu m2) = sp \<and> list_all (\<lambda>i. m_mem m2 (sp + of_nat i) = m_mem m1 (sp + of_nat i)) [0..<k])
   \<and> m_type m2 = m_type m \<and> frame_ok (m_frame m2) \<and> length (reg (m_cpu m2)) = 16 \<and> code_addr m2 (pc (m_cpu m2))"

lemma same_map:
  assumes "m_type m2 = m_type m"
  shows "code_addr m2 a = code_addr m a" "open_word m2 a = open_word m a" "plain m2 a = plain m a"
  using assms by (simp_all add: code_addr_def open_word_def plain_def word_type_def)

lemma balanced_word:
  assumes "balanced k m m1 m2" "j + 1 < k"
  defines "sp \<equiv> GET_REG16 7 (m_cpu m1)"
  shows "mword m2 (sp + of_nat j) = mword m1 (sp + of_nat j)" "m_mem m2 (sp + of_nat j) = m_mem m1 (sp + of_nat j)"
proof -
  have b: "m_mem m2 (sp + of_nat i) = m_mem m1 (sp + of_nat i)" if "i < k" for i
    using assms(1) that by (simp add: balanced_def list_all_iff sp_def Let_def)
  have n: "sp + of_nat j + 1 = sp + of_nat (j + 1)"
    by (simp add: add.assoc)
  show "m_mem m2 (sp + of_nat j) = m_mem m1 (sp + of_nat j)"
    using assms(2) by (intro b) simp
  moreover have "m_mem m2 (sp + of_nat j + 1) = m_mem m1 (sp + of_nat j + 1)"
    unfolding n using assms(2) by (intro b) simp
  ultimately show "mword m2 (sp + of_nat j) = mword m1 (sp + of_nat j)"
    by (simp only: mword_def)
qed

lemma JsrA16_open:
  assumes "code_addr m (pc (m_cpu m))" "code_addr m (mword m (pc (m_cpu m)))" "open_word m (GET_REG16 7 (m_cpu m) - 2)"
    "frame_ok (m_frame m)" "length (reg (m_cpu m)) = 16"
  defines "sp \<equiv> GET_REG16 7 (m_cpu m) - 2" and "ret \<equiv> pc (m_cpu m) + 2"
  shows "\<exists>m1. JsrA16 wait 0x5e00 m = Some (Go () m1) \<and> pc (m_cpu m1) = mword m (pc (m_cpu m)) \<and> GET_REG16 7 (m_cpu m1) = sp
    \<and> m_mem m1 = (m_mem m)(sp := ucast (drop_bit 8 ret), sp + 1 := ucast ret) \<and> m_type m1 = m_type m \<and> frame_ok (m_frame m1)
    \<and> length (reg (m_cpu m1)) = 16"
proof -
  let ?t = "mword m (pc (m_cpu m))"
  define m1 where "m1 = on_cpu (\<lambda>c. c\<lparr>pc := ret\<rparr>) (add_cycles (word_cycles (m_type m (pc (m_cpu m)))) m)"
  have p: "seq GET_PC_WORD g m = g ?t (add_cycles (word_cycles (m_type m (pc (m_cpu m)))) m)" for g :: "u16 \<Rightarrow> u16 op"
    using code_addrD [OF assms(1)] by (intro seq_Go GET_PC_WORD_plain)
  have o: "seq operand g m = g ?t m1" for g :: "u16 \<Rightarrow> unit op"
    unfolding operand_def by (intro seq_Go) (simp add: p reg_ops exec_simps m1_def ret_def)
  define m2 where "m2 = add_cycles 2 m1"
  have j: "JsrA16 wait 0x5e00 m = call_sub wait (value_of (\<lambda>_. ?t)) m2"
    by (simp add: JsrA16_def opcval_def guard_def exec_simps o m2_def)
  have s: "m_type m2 = m_type m" "m_mem m2 = m_mem m" "m_frame m2 = m_frame m" "pc (m_cpu m2) = ret" "reg (m_cpu m2) = reg (m_cpu m)"
    by (simp_all add: m2_def m1_def)
  have r: "GET_REG16 7 (m_cpu m2) - 2 = sp"
    by (simp add: GET_REG16_def s sp_def)
  have "open_word m2 (GET_REG16 7 (m_cpu m2) - 2)" "code_addr m2 ?t" "frame_ok (m_frame m2)" "length (reg (m_cpu m2)) = 16"
    unfolding r using assms(2-5) same_map [OF s(1)] s by (simp_all add: sp_def)
  from call_open [OF this, of wait] show ?thesis
    unfolding j r s .
qed

section \<open>Properties\<close>

text \<open>
  C7. A subroutine returns: \<open>JSR\<close> to an address goes there with the return address on the stack, and when \<open>RTS\<close> is executed with the stack
  as it was at the entry, execution goes on after the \<open>JSR\<close> with the stack pointer of the caller; \<open>RTS\<close> writes no memory.
\<close>

theorem call_return:
  assumes "code_addr m (pc (m_cpu m))" "code_addr m (pc (m_cpu m) + 2)" "code_addr m (mword m (pc (m_cpu m)))"
    "open_word m (GET_REG16 7 (m_cpu m) - 2)" "frame_ok (m_frame m)" "length (reg (m_cpu m)) = 16"
  shows "\<exists>m1. JsrA16 wait 0x5e00 m = Some (Go () m1) \<and> pc (m_cpu m1) = mword m (pc (m_cpu m))
    \<and> (\<forall>m2. balanced 2 m m1 m2 \<longrightarrow>
        (\<exists>m3. RtS 0x5470 m2 = Some (Go () m3) \<and> pc (m_cpu m3) = pc (m_cpu m) + 2
          \<and> GET_REG16 7 (m_cpu m3) = GET_REG16 7 (m_cpu m) \<and> m_mem m3 = m_mem m2))"
proof -
  define sp where "sp = GET_REG16 7 (m_cpu m) - 2"
  obtain m1 where m1: "JsrA16 wait 0x5e00 m = Some (Go () m1)" "pc (m_cpu m1) = mword m (pc (m_cpu m))" "GET_REG16 7 (m_cpu m1) = sp"
    "m_mem m1 = (m_mem m)(sp := ucast (drop_bit 8 (pc (m_cpu m) + 2)), sp + 1 := ucast (pc (m_cpu m) + 2))"
    using JsrA16_open [OF assms(1,3-6), of wait] unfolding sp_def by blast
  have w: "mword m1 sp = pc (m_cpu m) + 2"
    unfolding mword_def m1(4) by (simp add: word_split)
  have "\<exists>m3. RtS 0x5470 m2 = Some (Go () m3) \<and> pc (m_cpu m3) = pc (m_cpu m) + 2 \<and> GET_REG16 7 (m_cpu m3) = sp + 2 \<and> m_mem m3 = m_mem m2"
    if b: "balanced 2 m m1 m2" for m2
  proof -
    have b2: "GET_REG16 7 (m_cpu m2) = sp" "m_type m2 = m_type m" "frame_ok (m_frame m2)" "length (reg (m_cpu m2)) = 16" "code_addr m2 (pc (m_cpu m2))"
      using b by (simp_all add: balanced_def Let_def m1(3))
    have "mword m2 sp = pc (m_cpu m) + 2"
      using balanced_word(1) [OF b, of 0] w by (simp add: m1(3))
    then show ?thesis
      using rts_open [of m2 "0x5470"] b2 assms(2,4) same_map [OF b2(2)] by (auto simp: sp_def)
  qed
  moreover have "sp + 2 = GET_REG16 7 (m_cpu m)"
    by (simp add: sp_def)
  ultimately show ?thesis
    using m1(1,2) by auto
qed

lemma machine_ex_facts:
  "m_type machine_ex = init_memtype" "m_cpu machine_ex = cpu_ex" "m_mem machine_ex = (\<lambda>_. 0)" "m_frame machine_ex = frame_ex"
  "GET_REG16 7 cpu_ex = 0xfe00" "pc cpu_ex = 0x8000" "length (reg cpu_ex) = 16" "ccr cpu_ex = 0"
  by (simp_all add: machine_ex_def cpu_ex_def GET_REG16_def nth_append)

lemma machine_ex_addrs:
  "code_addr machine_ex 0x8000" "code_addr machine_ex 0x8002" "code_addr machine_ex 0" "open_word machine_ex 0xfdfe" "open_word machine_ex 0xfdfc"
  "mword machine_ex a = 0"
  by (simp_all add: code_addr_def open_word_def plain_map machine_ex_facts word_type_def init_memtype_def mword_def)

theorem call_return_witness:
  "\<exists>m1 m3. JsrA16 Some 0x5e00 machine_ex = Some (Go () m1) \<and> pc (m_cpu m1) = 0 \<and> RtS 0x5470 m1 = Some (Go () m3) \<and> pc (m_cpu m3) = 0x8002
    \<and> GET_REG16 7 (m_cpu m3) = 0xfe00"
proof -
  have a: "code_addr machine_ex (pc (m_cpu machine_ex))" "code_addr machine_ex (pc (m_cpu machine_ex) + 2)"
    "code_addr machine_ex (mword machine_ex (pc (m_cpu machine_ex)))" "open_word machine_ex (GET_REG16 7 (m_cpu machine_ex) - 2)"
    "frame_ok (m_frame machine_ex)" "length (reg (m_cpu machine_ex)) = 16"
    by (simp_all add: machine_ex_facts machine_ex_addrs frame_ex_ok)
  obtain m1 where m1: "JsrA16 Some 0x5e00 machine_ex = Some (Go () m1)" "pc (m_cpu m1) = 0" "m_type m1 = m_type machine_ex" "frame_ok (m_frame m1)"
    "length (reg (m_cpu m1)) = 16"
    using JsrA16_open [OF a(1,3-6), of Some] by (auto simp: machine_ex_addrs)
  then have "balanced 2 machine_ex m1 m1"
    using machine_ex_addrs(3) same_map [OF m1(3)] by (simp add: balanced_def Let_def list_all_iff)
  then show ?thesis
    using call_return [OF a, of Some] m1(1,2) by (auto simp: machine_ex_facts)
qed

text \<open>
  C2. Interrupts are transparent: when a handler ends with \<open>RTE\<close> and the stack as it was at its entry, the program counter, the condition codes
  and the stack pointer are those of the interrupted program.
\<close>

theorem interrupt_return:
  assumes "irq_ready n m" "open_word m (GET_REG16 7 (m_cpu m) - 4)" "open_word m (GET_REG16 7 (m_cpu m) - 2)"
  shows "\<exists>m1. enter_irq wait n m = Some m1
    \<and> (\<forall>m2. balanced 4 m m1 m2 \<longrightarrow>
        (\<exists>m3. RtE 0x5670 m2 = Some (Go () m3) \<and> pc (m_cpu m3) = pc (m_cpu m) \<and> ccr (m_cpu m3) = ccr (m_cpu m)
          \<and> GET_REG16 7 (m_cpu m3) = GET_REG16 7 (m_cpu m) \<and> m_mem m3 = m_mem m2))"
proof -
  define sp where "sp = GET_REG16 7 (m_cpu m) - 4"
  obtain m1 where m1: "enter_irq wait n m = Some m1" "GET_REG16 7 (m_cpu m1) = sp"
    "m_mem m1 = (m_mem m)(sp := ccr (m_cpu m), sp + 1 := ccr (m_cpu m), sp + 2 := ucast (drop_bit 8 (pc (m_cpu m))), sp + 3 := ucast (pc (m_cpu m)))"
    using enter_irq_plain [OF assms(1), of wait] unfolding sp_def by blast
  have w: "mword m1 (sp + 2) = pc (m_cpu m)" "m_mem m1 sp = ccr (m_cpu m)"
    unfolding mword_def m1(3) by (simp_all add: word_split add.assoc)
  have "\<exists>m3. RtE 0x5670 m2 = Some (Go () m3) \<and> pc (m_cpu m3) = pc (m_cpu m) \<and> ccr (m_cpu m3) = ccr (m_cpu m)
      \<and> GET_REG16 7 (m_cpu m3) = sp + 4 \<and> m_mem m3 = m_mem m2" if b: "balanced 4 m m1 m2" for m2
  proof -
    have b2: "GET_REG16 7 (m_cpu m2) = sp" "m_type m2 = m_type m" "frame_ok (m_frame m2)" "length (reg (m_cpu m2)) = 16" "code_addr m2 (pc (m_cpu m2))"
      using b by (simp_all add: balanced_def Let_def m1(2))
    have "mword m2 (sp + 2) = pc (m_cpu m)" "m_mem m2 sp = ccr (m_cpu m)"
      using balanced_word(1) [OF b, of 2] balanced_word(2) [OF b, of 0] w by (simp_all add: m1(2))
    moreover have "code_addr m (pc (m_cpu m))" "sp \<le> 0xfffa"
      using assms(1) by (simp_all add: irq_ready_def code_addr_def Let_def sp_def)
    moreover have "sp \<le> 0xfffc"
      using \<open>sp \<le> 0xfffa\<close> by (rule order_trans) simp
    moreover have "open_word m (sp + 2)" "open_word m sp"
      using assms(2,3) by (simp_all add: sp_def)
    ultimately show ?thesis
      using rte_open [of m2 "0x5670"] b2 same_map [OF b2(2)] by auto
  qed
  moreover have "sp + 4 = GET_REG16 7 (m_cpu m)"
    by (simp add: sp_def)
  ultimately show ?thesis
    using m1(1) by auto
qed


theorem interrupt_return_witness:
  "\<exists>m1. enter_irq Some 6 machine_ex = Some m1
    \<and> (\<exists>m3. RtE 0x5670 (machine_ex\<lparr>m_mem := m_mem m1, m_cpu := SET_REG16 7 0xfdfc cpu_ex\<rparr>) = Some (Go () m3)
        \<and> pc (m_cpu m3) = 0x8000 \<and> GET_REG16 7 (m_cpu m3) = 0xfe00)"
proof -
  have i: "irq_ready 6 machine_ex"
    using machine_ex_addrs by (simp add: irq_ready_def Let_def machine_ex_facts frame_ex_ok code_addr_def open_word_def plain_map)
  then obtain m1 where m1: "enter_irq Some 6 machine_ex = Some m1" "GET_REG16 7 (m_cpu m1) = 0xfdfc"
    using enter_irq_plain [OF i, of Some] by (auto simp: machine_ex_facts)
  let ?m2 = "machine_ex\<lparr>m_mem := m_mem m1, m_cpu := SET_REG16 7 0xfdfc cpu_ex\<rparr>"
  have "balanced 4 machine_ex m1 ?m2"
    using m1(2) GET_SET_REG16 [of cpu_ex 7 "0xfdfc"] machine_ex_addrs(1) same_map [of ?m2 machine_ex]
    by (simp add: balanced_def Let_def list_all_iff machine_ex_facts frame_ex_ok SET_REG16_def)
  moreover have "open_word machine_ex (GET_REG16 7 (m_cpu machine_ex) - 4)" "open_word machine_ex (GET_REG16 7 (m_cpu machine_ex) - 2)"
    by (simp_all add: machine_ex_facts machine_ex_addrs)
  ultimately show ?thesis
    using interrupt_return [OF i, of Some] m1(1) by (auto simp: machine_ex_facts)
qed

end
