(* ===== verification/CpuSafety.thy ===== *)
theory CpuSafety
  imports Cpu
begin

text \<open>
  What the instructions of \<^verbatim>\<open>h8300.pl\<close> leave alone, and what the loop does when one of them cannot complete. The locale \<open>stable_memory\<close> is the contract of the
  primitive operations; the lemmas in it go through the whole instruction set once, and are used for two relations below.
\<close>

section \<open>What instructions leave alone\<close>

text \<open>Where an operation may go from a machine, and what holds when it jumps to \<open>fault\<close>.\<close>

fun state_of :: "'a outcome \<Rightarrow> machine" where
  "state_of (Go a m) = m" | "state_of (Trap m) = m" | "state_of (Fault m) = m"

definition obeys :: "(machine \<Rightarrow> machine \<Rightarrow> bool) \<Rightarrow> (machine \<Rightarrow> bool) \<Rightarrow> 'a op \<Rightarrow> bool" where
  "obeys R Q f \<longleftrightarrow> (\<forall>m r. f m = Some r \<longrightarrow> R m (state_of r) \<and> (\<forall>m1. r = Fault m1 \<longrightarrow> Q m1))"

locale stable =
  fixes R :: "machine \<Rightarrow> machine \<Rightarrow> bool" and Q :: "machine \<Rightarrow> bool"
  assumes R_refl: "R m m" and R_trans: "R a b \<Longrightarrow> R b c \<Longrightarrow> R a c"
    and R_cpu: "length (reg (f (m_cpu m))) = length (reg (m_cpu m)) \<Longrightarrow> R m (on_cpu f m)"
    and R_cycles: "R m (add_cycles n m)" and R_frame: "R m (m\<lparr>m_frame := F\<rparr>)"
    and Q_trap: "k \<noteq> 0 \<Longrightarrow> Q (set_trap k m)"
begin

lemma obeys_seq:
  assumes "obeys R Q f" "\<And>a. obeys R Q (g a)"
  shows "obeys R Q (seq f g)"
proof (unfold obeys_def, intro allI impI)
  fix m r assume s: "seq f g m = Some r"
  show "R m (state_of r) \<and> (\<forall>m1. r = Fault m1 \<longrightarrow> Q m1)"
  proof (cases "f m")
    case (Some x)
    show ?thesis
    proof (cases x)
      case (Go a m1)
      then have "R m m1" "R m1 (state_of r) \<and> (\<forall>m1. r = Fault m1 \<longrightarrow> Q m1)"
        using s assms Some by (fastforce simp: seq_def obeys_def)+
      then show ?thesis
        using R_trans by blast
    next
      case (Trap m1)
      then show ?thesis
        using s assms(1) Some by (fastforce simp: seq_def obeys_def)
    next
      case (Fault m1)
      then show ?thesis
        using s assms(1) Some by (fastforce simp: seq_def obeys_def)
    qed
  qed (use s in \<open>simp add: seq_def\<close>)
qed

lemma obeys_basic:
  "obeys R Q (value_of h)" "obeys R Q (illOpc :: 'b op)" "obeys R Q (guard ok)"
  "(\<And>m. R m (k m)) \<Longrightarrow> obeys R Q (change k)"
  "(\<And>m a m1. p m = Some (a, m1) \<Longrightarrow> R m m1) \<Longrightarrow> obeys R Q (attempt p)"
  "(\<And>m m1. q m = Some m1 \<Longrightarrow> R m m1) \<Longrightarrow> obeys R Q (run q)"
  using R_refl Q_trap R_cpu [where f = "\<lambda>c. c\<lparr>db_trap := ILLOPC_EXCEPTION\<rparr>"]
  by (auto simp: obeys_def value_of_def illOpc_def guard_def change_def attempt_def run_def set_trap_def on_cpu_def)

lemma obeys_cpu:
  "(\<And>c. length (reg (f c)) = length (reg c)) \<Longrightarrow> obeys R Q (change (on_cpu f))"
  by (rule obeys_basic(4)) (rule R_cpu)

lemma obeys_regs:
  "obeys R Q (set_pc a)" "obeys R Q pc_op" "obeys R Q (reg8 n)" "obeys R Q (reg16 n)" "obeys R Q (set_reg16 n v)"
  "obeys R Q (set_reg8 n u)" "obeys R Q (flags8 u)" "obeys R Q (flags16 v)" "obeys R Q (cyc k)"
  "obeys R Q (frame_op h)" "obeys R Q (new_sp n v)"
  unfolding set_pc_def pc_op_def reg8_def reg16_def set_reg16_def set_reg8_def flags8_def flags16_def frame_op_def new_sp_def
  by (auto intro!: obeys_basic obeys_cpu R_cycles simp: SET_REG16_def set_reg_def set_ccr_def R_frame)

lemma obeys_check_pc: "obeys R Q check_pc"
  using R_refl R_cpu [where f = "\<lambda>c. c\<lparr>db_trap := 10\<rparr>"] Q_trap
  by (auto simp: obeys_def check_pc_def Let_def set_trap_def on_cpu_def)

end

text \<open>Instructions on registers keep their number.\<close>

definition regs_kept :: "(u16 \<Rightarrow> cpu \<Rightarrow> cpu option) \<Rightarrow> bool" where
  "regs_kept f \<longleftrightarrow> (\<forall>opc c c1. f opc c = Some c1 \<longrightarrow> length (reg c1) = length (reg c))"

lemma regs_kept_basic:
  "regs_kept StC" "regs_kept LdC" "regs_kept OrC" "regs_kept XorC" "regs_kept AndC" "regs_kept LdCI" "regs_kept AddB" "regs_kept AddW"
  "regs_kept Inc" "regs_kept AddS" "regs_kept MovB" "regs_kept AddX" "regs_kept DAA" "regs_kept ShL" "regs_kept ShR" "regs_kept RotL" "regs_kept RotR"
  "regs_kept Not_Neg" "regs_kept SubB" "regs_kept SubW" "regs_kept Dec" "regs_kept SubS" "regs_kept CmpB" "regs_kept CmpW" "regs_kept SubX" "regs_kept DAS"
  "regs_kept MulXU" "regs_kept DivXU" "regs_kept bit_write_reg" "regs_kept bit_test_reg" "regs_kept AddBI" "regs_kept AddXI" "regs_kept CmpBI"
  "regs_kept SubXI" "regs_kept MovBI" "regs_kept (logic_imm g)" "regs_kept (logic_reg g)"
  unfolding regs_kept_def StC_def LdC_def OrC_def XorC_def AndC_def LdCI_def AddB_def AddW_def Inc_def AddS_def MovB_def AddX_def DAA_def ShL_def
    ShR_def RotL_def RotR_def Not_Neg_def SubB_def SubW_def Dec_def SubS_def CmpB_def CmpW_def SubX_def DAS_def MulXU_def DivXU_def
    bit_write_reg_def bit_test_reg_def AddBI_def AddXI_def CmpBI_def SubXI_def MovBI_def logic_imm_def logic_reg_def logic_def irq_off_def Let_def
    add_byte_def addx_byte_def cmp_byte_def sub_byte_def subx_byte_def set_reg_def set_ccr_def SET_REG16_def guard_Some
  by (simp_all split: if_split_asm) auto

text \<open>Reading, and writing where no trap forbids it.\<close>

locale stable_memory = stable +
  fixes wait :: "machine \<Rightarrow> machine option"
  assumes R_byte: "GET_BYTE_CYCLES a m = (v, m1) \<Longrightarrow> R m m1"
    and R_word: "GET_WORD_CYCLES a m = Some (w, m1) \<Longrightarrow> R m m1"
    and R_peek: "GET_WORD a m = Some (w, m1) \<Longrightarrow> R m m1"
    and R_set_byte: "SET_BYTE_CYCLES wait a v m = Some m1 \<Longrightarrow> m_type m a AND MEMTYPE_WRITETRAP = 0 \<Longrightarrow> R m m1"
    and R_set_word: "SET_WORD_CYCLES wait a w m = Some m1 \<Longrightarrow> word_type m a AND MEMTYPE_WRITETRAP = 0 \<Longrightarrow> R m m1"
begin

text \<open>Printing a message only reads.\<close>

lemma R_convert: "convert d m = Some (d1, m1) \<Longrightarrow> R m m1"
  by (auto simp: convert_def put_number_def arg_number_def put_string_def put_pointer_def arg_word_def Let_def bind_eq_Some_conv
      dest!: R_peek intro: R_refl R_trans split: if_splits)

lemma R_dopr_step: "dopr_step d m = Some (d1, m1) \<Longrightarrow> R m m1"
  by (auto simp: dopr_step_def Let_def goto_state_def star_width_def arg_word_def bind_eq_Some_conv dest!: next_ch_format R_convert R_peek
      intro: R_refl split: dp_state.splits if_splits option.splits)

lemma R_dopr_loop: "dopr_loop d m = Some (d1, m1) \<Longrightarrow> R m m1"
proof (induction d m rule: dopr_loop.induct)
  case (1 d m)
  then show ?case
    by (subst (asm) dopr_loop.simps) (auto dest!: R_dopr_step intro: R_refl R_trans split: if_splits option.splits)
qed

lemma R_printf: "debug_printf m = Some (s, m1) \<Longrightarrow> R m m1"
  by (auto simp: debug_printf_def Let_def bind_eq_Some_conv dest!: next_ch_format R_peek R_dopr_loop intro: R_trans)

lemma obeys_access:
  "obeys R Q (READ_BYTE a)" "obeys R Q (READ_WORD a)" "obeys R Q (WRITE_BYTE wait a v)" "obeys R Q (WRITE_WORD wait a w)"
  "obeys R Q GET_PC_WORD" "obeys R Q operand" "obeys R Q GET_OPCODE"
proof -
  show "obeys R Q (READ_BYTE a)" "obeys R Q (READ_WORD a)"
    using R_byte R_word by (fastforce simp: obeys_def READ_BYTE_def READ_WORD_def bind_eq_Some_conv split: prod.splits if_splits)+
  show "obeys R Q (WRITE_BYTE wait a v)" "obeys R Q (WRITE_WORD wait a w)"
    unfolding obeys_def WRITE_BYTE_def WRITE_WORD_def run_def by (auto intro: R_refl R_set_byte R_set_word split: if_splits)
  show p: "obeys R Q GET_PC_WORD"
    unfolding GET_PC_WORD_def by (intro obeys_seq obeys_regs obeys_basic(5) R_word)
  show o: "obeys R Q operand"
    unfolding operand_def by (intro obeys_seq obeys_regs obeys_basic p)
  then show "obeys R Q GET_OPCODE"
    using R_refl by (fastforce simp: obeys_def GET_OPCODE_def split: if_splits)
qed

lemmas obeys_rules = obeys_seq obeys_regs obeys_access obeys_check_pc obeys_basic(1-3) obeys_cpu

lemma obeys_branches: "obeys R Q (branch k opc)" "obeys R Q (JmpRI opc)" "obeys R Q (JmpA16 opc)" "obeys R Q (JmpAA8 opc)"
  unfolding branch_def JmpRI_def JmpA16_def JmpAA8_def by (auto intro!: obeys_rules)

lemma obeys_call: "obeys R Q t \<Longrightarrow> obeys R Q (call_sub wait t)"
  unfolding call_sub_def Let_def by (auto intro!: obeys_rules)

lemma obeys_calls:
  "obeys R Q (BSr wait opc)" "obeys R Q (JsrRI wait opc)" "obeys R Q (JsrA16 wait opc)" "obeys R Q (JsrAA8 wait opc)" "obeys R Q (RtS opc)" "obeys R Q (RtE opc)"
proof -
  have n: "obeys R Q ((\<lambda>_. None) :: u16 op)"
    by (simp add: obeys_def)
  show "obeys R Q (BSr wait opc)" "obeys R Q (JsrRI wait opc)" "obeys R Q (JsrA16 wait opc)" "obeys R Q (JsrAA8 wait opc)"
    unfolding BSr_def JsrRI_def JsrA16_def JsrAA8_def by (auto intro!: obeys_rules obeys_call)
  show "obeys R Q (RtS opc)" "obeys R Q (RtE opc)"
    unfolding RtS_def RtE_def by (auto intro!: obeys_rules n simp: set_ccr_def)
qed

lemma obeys_moves:
  "obeys R Q (MovBRI wait opc)" "obeys R Q (MovBRID wait opc)" "obeys R Q (MovBRIP wait opc)" "obeys R Q (MovBFA8 opc)"
  "obeys R Q (MovBTA8 wait opc)" "obeys R Q (MovBA16 wait opc)" "obeys R Q (MovW opc)" "obeys R Q (MovWI opc)" "obeys R Q (MovWRI wait opc)"
  "obeys R Q (MovWRID wait opc)" "obeys R Q (MovWRIP wait opc)" "obeys R Q (MovWA16 wait opc)"
  unfolding MovBRI_def MovBRID_def MovBRIP_def MovBFA8_def MovBTA8_def MovBA16_def MovW_def MovWI_def MovWRI_def MovWRID_def MovWRIP_def
    MovWA16_def move_byte_def move_word_def load_reg16_def Let_def
  by (auto intro!: obeys_rules)

lemma obeys_bits: "obeys R Q (BitAbs wait wr opc)" "obeys R Q (BitInd wait wr opc)"
proof -
  have "obeys R Q (\<lambda>m. case bit_write_op code v (m_cpu m) val of None \<Rightarrow> illOpc m | Some b \<Rightarrow> WRITE_BYTE wait addr b m)"
    "obeys R Q (\<lambda>m. case bit_test_op code v (m_cpu m) val of None \<Rightarrow> illOpc m | Some f \<Rightarrow> change (on_cpu (set_ccr f)) m)" for code v val addr
    using obeys_basic(2) obeys_access(3) obeys_cpu [where f = "set_ccr x" for x]
    by (fastforce simp: obeys_def set_ccr_def split: option.splits)+
  then have "obeys R Q (bit_memory wait wr st a)" for st a
    unfolding bit_memory_def Let_def by (cases wr) (auto intro!: obeys_rules)
  then show "obeys R Q (BitAbs wait wr opc)" "obeys R Q (BitInd wait wr opc)"
    unfolding BitAbs_def BitInd_def by (auto intro!: obeys_rules)
qed

lemma obeys_misc: "obeys R Q (Nop opc)" "obeys R Q (Trap_instr opc)" "obeys R Q (EepMov opc)"
proof -
  have g: "obeys R Q (attempt (GET_WORD a))" "obeys R Q (attempt debug_printf)" for a
    by (rule obeys_basic(5), erule R_peek R_printf)+
  show "obeys R Q (Nop opc)"
    unfolding Nop_def by (auto intro!: obeys_rules g)
  have t: "set_trap n = on_cpu (\<lambda>c. c\<lparr>db_trap := n\<rparr>)" "step_back = on_cpu (\<lambda>c. c\<lparr>pc := pc c - 2\<rparr>)" for n
    by (simp_all add: fun_eq_iff set_trap_def on_cpu_def step_back_def)
  show "obeys R Q (Trap_instr opc)" "obeys R Q (EepMov opc)"
    unfolding Trap_instr_def EepMov_def t by (auto intro!: obeys_rules g)
qed


lemma obeys_on_regs: "regs_kept f \<Longrightarrow> obeys R Q (on_regs f opc)" "regs_kept f \<Longrightarrow> obeys R Q (slow_regs f opc)"
proof -
  assume f: "regs_kept f"
  have "R m (m\<lparr>m_cpu := c1\<rparr>)" if "f opc (m_cpu m) = Some c1" for m c1
    using R_cpu [where f = "\<lambda>_. c1" and m = m] f that by (auto simp: regs_kept_def on_cpu_def)
  then show "obeys R Q (on_regs f opc)"
    using obeys_basic(2) by (fastforce simp: obeys_def on_regs_def split: option.splits)
  then show "obeys R Q (slow_regs f opc)"
    unfolding slow_regs_def by (intro obeys_rules)
qed

lemma obeys_table:
  assumes "(code, f) \<in> set (opcode_rows wait @ opcode_table wait)" "code \<noteq> 1"
  shows "obeys R Q (f opc)"
  using assms unfolding opcode_rows_def opcode_table_def
  by (auto intro!: obeys_branches obeys_calls obeys_moves obeys_bits obeys_misc obeys_on_regs regs_kept_basic)

lemma obeys_exec:
  assumes "drop_bit 8 opc \<noteq> 1"
  shows "obeys R Q (exec wait opc)"
proof -
  have c: "ucast (drop_bit 8 opc) \<noteq> (1 :: u8)"
  proof
    assume "ucast (drop_bit 8 opc) = (1 :: u8)"
    then have "unat (ucast (drop_bit 8 opc) :: u8) = 1"
      by simp
    moreover have "unat (drop_bit 8 opc) < 256"
      using unat_less_2p [of opc] by (simp add: drop_bit_eq_div unat_div)
    ultimately have "unat (drop_bit 8 opc) = 1"
      by (simp add: unsigned_ucast_eq take_bit_nat_eq_self)
    then show False
      using assms word_unat_eq_iff [of "drop_bit 8 opc" 1] by simp
  qed
  have r: "obeys R Q (f opc)" if "map_of (opcode_rows wait) k = Some f" for f k
  proof -
    have "(k, f) \<in> set (opcode_rows wait)"
      using that by (rule map_of_SomeD)
    moreover from this have "k \<noteq> 1"
      by (auto simp: opcode_rows_def)
    ultimately show ?thesis
      by (intro obeys_table [of k f]) auto
  qed
  have t: "obeys R Q (f opc)" if "map_of (opcode_table wait) k = Some f" "k \<noteq> 1" for f k
    using map_of_SomeD [OF that(1)] that(2) by (intro obeys_table [of k f]) auto
  show ?thesis
    unfolding exec_def Let_def using c by (auto intro: r t obeys_basic(2) split: option.split)
qed

end


section \<open>Instructions cannot write the ROM\<close>

text \<open>A write-protected address of plain memory.\<close>

definition rom_addr :: "machine \<Rightarrow> u16 \<Rightarrow> bool" where
  "rom_addr m a \<longleftrightarrow> a \<le> 0xff88 \<and> plain m a \<and> m_type m a AND MEMTYPE_WRITETRAP \<noteq> 0"

definition keeps :: "machine \<Rightarrow> machine \<Rightarrow> bool" where
  "keeps m m1 \<longleftrightarrow> (calm m \<longrightarrow> calm m1 \<and> m_type m1 = m_type m \<and> length (reg (m_cpu m1)) = length (reg (m_cpu m))
     \<and> (\<forall>a. rom_addr m a \<longrightarrow> m_mem m1 a = m_mem m a))"

definition same_world :: "machine \<Rightarrow> machine \<Rightarrow> bool" where
  "same_world m m1 \<longleftrightarrow> gui_in m1 = gui_in m \<and> dbg_in m1 = dbg_in m \<and> stopped (m_clock m1) = stopped (m_clock m)
     \<and> m_type m1 = m_type m \<and> reg (m_cpu m1) = reg (m_cpu m) \<and> m_mem m1 = m_mem m"

lemma keeps_same: "same_world m m1 \<Longrightarrow> keeps m m1"
  by (auto simp: same_world_def keeps_def calm_def)

lemma keeps_trans: "keeps a b \<Longrightarrow> keeps b c \<Longrightarrow> keeps a c"
  by (auto simp: keeps_def rom_addr_def plain_def)

lemma keeps_refl: "keeps m m"
  by (simp add: keeps_def)

lemma keeps_poke: "\<not> rom_addr m a \<Longrightarrow> keeps m (poke a v m)"
  by (auto simp: keeps_def calm_def poke_def)

lemma keeps_add_cycles: "keeps m (add_cycles n m)"
  by (rule keeps_same) (simp add: same_world_def add_cycles_def)

lemma rom_add_cycles [simp]: "rom_addr (add_cycles n m) a = rom_addr m a"
  by (simp add: rom_addr_def)

lemma keeps_wait: "wait_peripherals H m = Some m1 \<Longrightarrow> keeps m m1"
  using wait_calm [of m H] by (auto simp: keeps_def)

lemma port_get_world: "(k, gb) \<in> set port_get \<Longrightarrow> gb m = (v, m1) \<Longrightarrow> same_world m m1"
  unfolding port_defs by (auto simp: same_world_def Let_def split: prod.splits)

lemma keeps_port_read:
  assumes "0xff88 < a"
  shows "keeps m (port_read a m)"
proof (cases "map_of port_get (ucast a)")
  case (Some gb)
  obtain v m1 where g: "gb m = (v, m1)"
    by (cases "gb m")
  have "keeps m m1"
    using port_get_world [OF map_of_SomeD [OF Some] g] by (rule keeps_same)
  moreover have "keeps m1 (poke a v m1)"
    using assms by (intro keeps_poke) (simp add: rom_addr_def not_le [symmetric])
  ultimately show ?thesis
    using Some g by (auto simp: port_read_def intro: keeps_trans)
qed (simp add: port_read_def keeps_refl)

text \<open>The code of the LCD keeps every relation between the rests of the machine that its two callbacks keep.\<close>

lemma set_port6_rest:
  assumes w: "\<And>l b r l1 b1 r1. wt (l, b, r) = Some (l1, b1, r1) \<Longrightarrow> S r r1" and a: "\<And>v r. S r (an v r)"
    and refl: "\<And>r. S r r" and trans: "\<And>x y z. S x y \<Longrightarrow> S y z \<Longrightarrow> S x z"
    and s: "set_port6 wt an v (l, b, r) = Some (l1, b1, r1)"
  shows "S r r1"
proof -
  have d: "S r r1" if "lcd_display wt p x (l, b, r) = Some (l1, b1, r1)" for p x l b r l1 b1 r1
    using that refl by (auto simp: lcd_display_def dest: w split: if_splits)
  have e: "S r r1" if "lcd_enable wt md (l, b, r) = Some (l1, b1, r1)" for md l b r l1 b1 r1
    using that by (auto simp: lcd_enable_def dest: w)
  have c: "S r r1" if "i2c_command wt (l, b, r) = Some (l1, b1, r1)" for l b r l1 b1 r1
    using that refl by (auto simp: i2c_command_def Let_def dest: e split: if_splits)
  have i: "S r r1" if "i2c_byte wt (l, b, r) = Some (l1, b1, r1)" for l b r l1 b1 r1
    using that refl by (auto simp: i2c_byte_def Let_def dest: c d split: if_splits)
  show ?thesis
    using s refl a trans by (auto simp: set_port6_def Let_def dest: i split: if_splits)
qed


lemma keeps_port6: "on_port6 (wait_peripherals H) v m = Some m1 \<Longrightarrow> keeps m m1"
proof -
  assume "on_port6 (wait_peripherals H) v m = Some m1"
  then obtain l b r where s: "set_port6 (lcd_wait (wait_peripherals H)) lcd_analog v (m_lcd m, m_bus m, m) = Some (l, b, r)"
    and m1: "m1 = r\<lparr>m_bus := b, m_lcd := l\<rparr>"
    by (auto simp: on_port6_def)
  have w: "keeps r r1" if "lcd_wait (wait_peripherals H) (l, b, r) = Some (l1, b1, r1)" for l b r l1 b1 r1
  proof -
    have "wait_peripherals H (r\<lparr>m_bus := b, m_lcd := l\<rparr>) = Some r1"
      using that by (auto simp: lcd_wait_def)
    moreover have "keeps r (r\<lparr>m_bus := b, m_lcd := l\<rparr>)"
      by (rule keeps_same) (simp add: same_world_def)
    ultimately show ?thesis
      using keeps_wait keeps_trans by blast
  qed
  have a: "keeps r (lcd_analog x r)" for x r
    by (rule keeps_same) (simp add: same_world_def lcd_analog_def)
  have "keeps m r"
    by (rule set_port6_rest [OF w a keeps_refl keeps_trans s])
  moreover have "keeps r m1"
    unfolding m1 by (rule keeps_same) (simp add: same_world_def)
  ultimately show ?thesis
    by (rule keeps_trans)
qed

lemma keeps_port_handler:
  assumes "(k, sb) \<in> set (port_set (wait_peripherals H))" "sb v m = Some m1"
  shows "keeps m m1"
proof -
  have c: "same_world m m1 \<or> (\<exists>m2. wait_peripherals H m = Some m2 \<and> same_world m2 m1) \<or> on_port6 (wait_peripherals H) v m = Some m1"
    using assms unfolding port_defs
    by (auto simp: same_world_def set_syscr_def on_ser_def on_t16_def on_t8_def on_btn_def on_ad_def on_wdog_def split_beta)
  then show ?thesis
    using keeps_same keeps_wait keeps_trans keeps_port6 by metis
qed

lemma keeps_port_write: "port_write (wait_peripherals H) a v m = Some m1 \<Longrightarrow> keeps m m1"
  using keeps_port_handler [of "ucast a"] map_of_SomeD keeps_refl by (fastforce simp: port_write_def split: option.splits)

lemma keeps_trap: "keeps m (set_trap n m)"
  by (rule keeps_same) (simp add: same_world_def set_trap_def)

lemma keeps_GET_BYTE: "GET_BYTE a m = (v, m1) \<Longrightarrow> keeps m m1"
  using keeps_port_read [of a m] keeps_trap [of m 10] keeps_refl [of m]
  by (auto simp: GET_BYTE_def get_byte_div_def Let_def split: if_splits)

lemma even_next: "\<not> bit (a :: u16) 0 \<Longrightarrow> 0xff88 < a \<Longrightarrow> 0xff88 < a + 1"
proof -
  assume "\<not> bit a 0" and l: "0xff88 < a"
  then have "unat a \<noteq> 0xffff"
    using even_not_last [of a] word_unat_eq_iff [of a "0xffff"] by simp
  then have "a < 0xffff"
    using unat_less_2p [of a] by (simp add: word_less_nat_alt)
  then show ?thesis
    using unat_less_Suc [of a "0xffff"] l by (simp add: word_less_nat_alt)
qed

lemma keeps_GET_WORD: "GET_WORD a m = Some (v, m1) \<Longrightarrow> keeps m m1"
  using keeps_port_read [of a m] keeps_port_read [of "a + 1" "port_read a m"] even_next [of a] keeps_trap [of m 10] keeps_refl [of m]
  by (auto simp: GET_WORD_def get_word_div_def Let_def intro: keeps_trans split: if_splits)


lemma keeps_SET_BYTE:
  assumes "SET_BYTE (wait_peripherals H) a v m = Some m1" "m_type m a AND MEMTYPE_WRITETRAP = 0"
  shows "keeps m m1"
proof (cases "calm m")
  case True
  have "keeps m (m\<lparr>m_motor := x\<rparr>)" for x
    by (rule keeps_same) (simp add: same_world_def)
  then obtain m2 where m2: "keeps m m2" "m1 = poke a v m2"
    using assms(1) keeps_port_write [of H a v m] keeps_trap [of m 10] keeps_refl [of m] by (auto simp: SET_BYTE_def split: if_splits)
  then have "\<not> rom_addr m2 a"
    using True assms(2) by (simp add: keeps_def rom_addr_def)
  then show ?thesis
    using m2 keeps_poke keeps_trans by blast
qed (simp add: keeps_def)

lemma word_type_bits:
  "word_type m a AND MEMTYPE_WRITETRAP = 0 \<Longrightarrow> m_type m a AND MEMTYPE_WRITETRAP = 0 \<and> m_type m (a + 1) AND MEMTYPE_WRITETRAP = 0"
  by (simp add: word_type_def u8_eq_iff bit_simps)

lemma keeps_SET_WORD:
  assumes "SET_WORD (wait_peripherals H) a w m = Some m1" "word_type m a AND MEMTYPE_WRITETRAP = 0"
  shows "keeps m m1"
proof -
  let ?m = "poke (a + 1) (ucast w) (poke a (ucast (drop_bit 8 w)) m)"
  have n: "\<not> rom_addr m a" "\<not> rom_addr (poke a v m) (a + 1)" for v
    using word_type_bits [OF assms(2)] by (simp_all add: rom_addr_def)
  have k: "keeps m ?m"
    using keeps_trans [OF keeps_poke [OF n(1)] keeps_poke [OF n(2)]] .
  define m2 where "m2 = ?m"
  have mo: "keeps m2 (m2\<lparr>m_motor := x\<rparr>)" for x
    by (rule keeps_same) (simp add: same_world_def)
  consider x where "m1 = m2\<lparr>m_motor := x\<rparr>" | "m1 = set_trap 10 m2" | "m1 = m2"
    | m3 where "port_write (wait_peripherals H) a (ucast (drop_bit 8 w)) m2 = Some m3" "port_write (wait_peripherals H) (a + 1) (ucast w) m3 = Some m1"
    using assms(1) unfolding SET_WORD_def Let_def m2_def [symmetric] by (auto simp: bind_eq_Some_conv split: if_splits)
  then have "keeps m2 m1"
    by cases (auto intro: mo keeps_trap keeps_refl keeps_trans [OF keeps_port_write keeps_port_write])
  then show ?thesis
    using keeps_trans [OF k] by (simp add: m2_def)
qed

interpretation rom: stable_memory keeps "\<lambda>m. db_trap (m_cpu m) \<noteq> 0" "wait_peripherals H" for H
proof
  show "keeps m m" for m
    by (rule keeps_refl)
  show "keeps a b \<Longrightarrow> keeps b c \<Longrightarrow> keeps a c" for a b c
    by (rule keeps_trans)
  show "keeps m (on_cpu f m)" if "length (reg (f (m_cpu m))) = length (reg (m_cpu m))" for f m
    using that by (simp add: keeps_def on_cpu_def calm_def)
  show "keeps m (add_cycles n m)" for n m
    by (rule keeps_add_cycles)
  show "keeps m (m\<lparr>m_frame := F\<rparr>)" for m F
    by (rule keeps_same) (simp add: same_world_def)
  show "k \<noteq> 0 \<Longrightarrow> db_trap (m_cpu (set_trap k m)) \<noteq> 0" for k m
    by (simp add: set_trap_def)
  show "GET_BYTE_CYCLES a m = (v, m1) \<Longrightarrow> keeps m m1" for a m v m1
    using keeps_GET_BYTE keeps_add_cycles keeps_trans unfolding GET_BYTE_CYCLES_def by blast
  show "GET_WORD_CYCLES a m = Some (w, m1) \<Longrightarrow> keeps m m1" for a m w m1
    using keeps_GET_WORD keeps_add_cycles keeps_trans unfolding GET_WORD_CYCLES_def by blast
  show "GET_WORD a m = Some (w, m1) \<Longrightarrow> keeps m m1" for a m w m1
    by (rule keeps_GET_WORD)
  show "keeps m m1" if "SET_BYTE_CYCLES (wait_peripherals H) a v m = Some m1" "m_type m a AND MEMTYPE_WRITETRAP = 0" for a v m m1
    using that unfolding SET_BYTE_CYCLES_def by (intro keeps_trans [OF keeps_add_cycles keeps_SET_BYTE]) simp_all
  show "keeps m m1" if "SET_WORD_CYCLES (wait_peripherals H) a w m = Some m1" "word_type m a AND MEMTYPE_WRITETRAP = 0" for a w m m1
    using that unfolding SET_WORD_CYCLES_def by (intro keeps_trans [OF keeps_add_cycles keeps_SET_WORD]) simp_all
qed


lemma count_opcode_world: "same_world m (count_opcode opc m)"
  by (simp add: same_world_def count_opcode_def Let_def)

lemma fetch_obeys:
  assumes "fetch_exec (wait_peripherals H) m = Some r" "GET_OPCODE m = Some (Go opc m1)" "drop_bit 8 opc \<noteq> 1"
  shows "keeps m (state_of r) \<and> (\<forall>m2. r = Fault m2 \<longrightarrow> db_trap (m_cpu m2) \<noteq> 0)"
proof -
  have "keeps m m1" "keeps m1 (count_opcode opc m1)"
    using rom.obeys_access(7) assms(2) count_opcode_world keeps_same by (fastforce simp: obeys_def)+
  moreover have "exec (wait_peripherals H) opc (count_opcode opc m1) = Some r"
    using assms(1,2) by (simp add: fetch_exec_def seq_def change_def)
  then have "keeps (count_opcode opc m1) (state_of r) \<and> (\<forall>m2. r = Fault m2 \<longrightarrow> db_trap (m_cpu m2) \<noteq> 0)"
    using rom.obeys_exec [OF assms(3), of H] by (simp add: obeys_def)
  ultimately show ?thesis
    using keeps_trans by blast
qed

text \<open>
  C3. The ROM is safe from the program: while nothing arrives from outside, no instruction other than \<open>SLEEP\<close>, whether it completes, runs into a breakpoint or faults,
  changes a write-protected byte of plain memory, the memory map or the number of registers, and when it faults the reason is in \<open>db_trap\<close>.
\<close>

theorem instructions_keep_rom:
  assumes "calm m" "GET_OPCODE m = Some (Go opc m1)" "drop_bit 8 opc \<noteq> 1" "fetch_exec (wait_peripherals H) m = Some r" "rom_addr m a"
  shows "m_mem (state_of r) a = m_mem m a \<and> m_type (state_of r) = m_type m \<and> length (reg (m_cpu (state_of r))) = length (reg (m_cpu m))
    \<and> (\<forall>m2. r = Fault m2 \<longrightarrow> db_trap (m_cpu m2) \<noteq> 0)"
  using fetch_obeys [OF assms(4,2,3)] assms(1,5) by (simp add: keeps_def)


text \<open>The program stores a register into the ROM: \<open>MOV.B R0L,@0x1000\<close>.\<close>

definition store_ex :: machine where
  "store_ex = machine_ex\<lparr>m_mem := (\<lambda>_. 0)(0x8000 := 0x6a, 0x8001 := 0x88, 0x8002 := 0x10)\<rparr>"

lemma store_ex_words:
  "m_type store_ex = init_memtype" "m_cpu store_ex = cpu_ex" "mword store_ex 0x8000 = 0x6a88" "mword store_ex 0x8002 = 0x1000"
  by (simp_all add: store_ex_def machine_ex_facts mword_def)

lemma GET_OPCODE_plain:
  assumes "code_addr m (pc (m_cpu m))" "word_type m (pc (m_cpu m)) AND MEMTYPE_BREAKPOINT = 0"
  shows "GET_OPCODE m = Some (Go (mword m (pc (m_cpu m)))
    (on_cpu (\<lambda>c. c\<lparr>pc := pc c + 2\<rparr>) (add_cycles (word_cycles (m_type m (pc (m_cpu m)))) m)))"
proof -
  have "seq GET_PC_WORD g m = g (mword m (pc (m_cpu m))) (add_cycles (word_cycles (m_type m (pc (m_cpu m)))) m)" for g :: "u16 \<Rightarrow> u16 op"
    using code_addrD [OF assms(1)] by (intro seq_Go GET_PC_WORD_plain)
  then show ?thesis
    using assms(2) even_not_last [OF code_addrD(1) [OF assms(1)]]
    by (simp add: GET_OPCODE_def operand_def reg_ops exec_simps on_cpu_def)
qed

theorem instructions_keep_rom_witness:
  "\<exists>m2. fetch_exec (wait_peripherals hooks_ex) store_ex = Some (Trap m2) \<and> m_mem m2 0x1000 = m_mem store_ex 0x1000"
proof -
  have c: "code_addr store_ex 0x8000" "plain store_ex 0x8002" "word_type store_ex 0x8000 AND MEMTYPE_BREAKPOINT = 0" "rom_addr store_ex 0x1000"
    by (simp_all add: code_addr_def plain_map store_ex_words word_type_def init_memtype_def rom_addr_def)
  obtain m1 where g: "GET_OPCODE store_ex = Some (Go 0x6a88 m1)" and m1: "m_type m1 = init_memtype" "pc (m_cpu m1) = 0x8002" "mword m1 0x8002 = 0x1000"
    using GET_OPCODE_plain [of store_ex] c(1,3) by (simp add: store_ex_words machine_ex_facts)
  define m3 where "m3 = count_opcode 0x6a88 m1"
  have m3: "m_type m3 = init_memtype" "pc (m_cpu m3) = 0x8002" "mword m3 0x8002 = 0x1000"
    using m1 by (simp_all add: m3_def count_opcode_def Let_def mword_def)
  have "GET_PC_WORD m3 = Some (Go 0x1000 (add_cycles (word_cycles (m_type m3 0x8002)) m3))"
    using GET_PC_WORD_plain [of m3] m3 by (simp add: plain_map)
  then have o: "operand m3 = Some (Go 0x1000 (on_cpu (\<lambda>c. c\<lparr>pc := 0x8004\<rparr>) (add_cycles (word_cycles (m_type m3 0x8002)) m3)))"
    by (simp add: operand_def seq_def reg_ops exec_simps m3 on_cpu_def)
  have "MovBA16 wt 0x6a88 m3 = Some (Trap (on_cpu (\<lambda>c. c\<lparr>pc := 0x8004\<rparr>) (add_cycles (word_cycles (m_type m3 0x8002)) m3)))" for wt
    unfolding MovBA16_def Let_def using o
    by (simp add: opcval_def guard_def exec_simps seq_def move_byte_def reg8_def WRITE_BYTE_def m3 init_memtype_def value_of_def)
  moreover have "exec wt 0x6a88 = MovBA16 wt 0x6a88" for wt
    by (simp add: exec_def opcode_rows_def opcode_table_def drop_bit_eq_div)
  ultimately obtain m2 where f: "fetch_exec (wait_peripherals hooks_ex) store_ex = Some (Trap m2)"
    using g by (simp add: fetch_exec_def seq_def change_def m3_def)
  have "calm store_ex"
    by (simp add: calm_def store_ex_def machine_ex_def clock_ex_def)
  then have "m_mem m2 0x1000 = m_mem store_ex 0x1000"
    using instructions_keep_rom [OF _ g _ f c(4)] by (simp add: drop_bit_eq_div)
  with f show ?thesis
    by blast
qed


section \<open>Faults, traps and breakpoints\<close>

interpretation loud: stable_memory "\<lambda>_ _. True" "\<lambda>m. db_trap (m_cpu m) \<noteq> 0" wait for wait
  by unfold_locales (simp_all add: set_trap_def)

lemma exec_loud: "obeys (\<lambda>_ _. True) (\<lambda>m. db_trap (m_cpu m) \<noteq> 0) (exec wait opc)"
proof (cases "drop_bit 8 opc = 1")
  case True
  then have "exec wait opc = Sleep wait opc"
    by (simp add: exec_def opcode_rows_def opcode_table_def)
  then show ?thesis
    by (simp add: Sleep_def loud.obeys_basic(6))
qed (rule loud.obeys_exec)

lemma fetch_loud: "fetch_exec wait m = Some (Fault m1) \<Longrightarrow> db_trap (m_cpu m1) \<noteq> 0"
proof -
  have "obeys (\<lambda>_ _. True) (\<lambda>m. db_trap (m_cpu m) \<noteq> 0) (fetch_exec wait)"
    unfolding fetch_exec_def by (intro loud.obeys_seq loud.obeys_access exec_loud loud.obeys_basic(4)) simp
  then show "fetch_exec wait m = Some (Fault m1) \<Longrightarrow> db_trap (m_cpu m1) \<noteq> 0"
    by (auto simp: obeys_def)
qed

lemma dump_state_same: "dump_state m = Some m1 \<Longrightarrow> m1 = m\<lparr>m_syms := m_syms m1\<rparr>"
  by (auto simp: dump_state_def Let_def split: if_splits)

lemma shown_state_same:
  "(if c then dump_state m else Some m) = Some m1 \<Longrightarrow> m_cpu m1 = m_cpu m \<and> m_mem m1 = m_mem m \<and> m_type m1 = m_type m \<and> m_bus m1 = m_bus m"
  by (cases c) (auto dest!: dump_state_same, (metis machine.select_convs machine.surjective machine.update_convs)+)

fun label_of :: "'a outcome \<Rightarrow> label" where
  "label_of (Go a m) = Top" | "label_of (Trap m) = To_trap" | "label_of (Fault m) = To_fault"

lemma run_exec_cases:
  assumes "run_exec wait s = Some (l, s1)"
  obtains m1 r where "m_cpu m1 = m_cpu (r_machine s)" "m_mem m1 = m_mem (r_machine s)" "m_type m1 = m_type (r_machine s)" "m_bus m1 = m_bus (r_machine s)"
    "fetch_exec wait m1 = Some r" "l = label_of r" "s1 = s\<lparr>oldpc := pc (m_cpu m1), r_machine := state_of r\<rparr>"
proof -
  let ?m = "r_machine s"
  obtain m1 r where m1: "(if m_type ?m (pc (m_cpu ?m)) AND 0x03 \<noteq> 0 then dump_state ?m else Some ?m) = Some m1"
    and r: "fetch_exec wait m1 = Some r" and e: "(case r of Go _ m2 \<Rightarrow> (Top, s\<lparr>oldpc := pc (m_cpu m1), r_machine := m2\<rparr>)
         | Trap m2 \<Rightarrow> (To_trap, s\<lparr>oldpc := pc (m_cpu m1), r_machine := m2\<rparr>) | Fault m2 \<Rightarrow> (To_fault, s\<lparr>oldpc := pc (m_cpu m1), r_machine := m2\<rparr>)) = (l, s1)"
    using assms by (auto simp only: run_exec_def Let_def bind_eq_Some_conv map_option_eq_Some)
  have "l = label_of r \<and> s1 = s\<lparr>oldpc := pc (m_cpu m1), r_machine := state_of r\<rparr>"
    using e by (cases r) auto
  then show thesis
    using that shown_state_same [OF m1] r by blast
qed


text \<open>
  C34. Breakpoints stop before the instruction: with a breakpoint on one of its two bytes nothing of the machine changes except that \<open>db_trap\<close> reports
  the trap, and when the breakpoint was set to step over an interrupt, single-stepping goes on and the old flags of the address are back.
\<close>

theorem breakpoint_stops:
  assumes "run_exec wait s = Some (l, s1)" "word_type (r_machine s) (pc (m_cpu (r_machine s))) AND MEMTYPE_BREAKPOINT \<noteq> 0"
  shows "l = To_trap \<and> (let m = r_machine s; s2 = snd (trap_entry l s1); m2 = r_machine s2; a = pc (m_cpu m)
    in m_mem m2 = m_mem m \<and> m_bus m2 = m_bus m \<and> db_singlestep_pc s2 = (if db_singlestep_pc s = a then 0xffff else db_singlestep_pc s)
     \<and> m_cpu m2 = (m_cpu m)\<lparr>db_trap := TRAP_EXCEPTION, db_singlestep := db_singlestep (m_cpu m) \<or> db_singlestep_pc s = a\<rparr>
     \<and> m_type m2 = (if db_singlestep_pc s = a then (m_type m)(a := db_singlestep_memtype s) else m_type m))"
proof -
  let ?m = "r_machine s"
  obtain m1 r where same: "m_cpu m1 = m_cpu ?m" "m_mem m1 = m_mem ?m" "m_type m1 = m_type ?m" "m_bus m1 = m_bus ?m"
    and r: "fetch_exec wait m1 = Some r" "l = label_of r" "s1 = s\<lparr>oldpc := pc (m_cpu m1), r_machine := state_of r\<rparr>"
    using assms(1) by (rule run_exec_cases)
  have "word_type m1 (pc (m_cpu m1)) = word_type ?m (pc (m_cpu ?m))"
    using same by (simp add: word_type_def)
  then have "r = Trap m1"
    using r(1) assms(2) by (auto simp: fetch_exec_def seq_def GET_OPCODE_def split: if_splits)
  then show ?thesis
    using r(2,3) same by (auto simp: trap_entry_def back_to_def set_trap_def Let_def set_memtype_def set_singlestep_def on_cpu_def)
qed


definition run_ex :: "machine \<Rightarrow> run_st" where
  "run_ex m = \<lparr>r_machine = m, oldpc = 0, db_singlestep_pc = 0xffff, db_singlestep_memtype = 0\<rparr>"


theorem breakpoint_stops_witness:
  "\<exists>s1. run_exec Some (run_ex (machine_ex\<lparr>m_type := init_memtype(0x8001 := MEMTYPE_BREAKPOINT)\<rparr>)) = Some (To_trap, s1)
    \<and> db_trap (m_cpu (r_machine (snd (trap_entry To_trap s1)))) = TRAP_EXCEPTION"
proof -
  let ?m = "machine_ex\<lparr>m_type := init_memtype(0x8001 := MEMTYPE_BREAKPOINT)\<rparr>"
  have w: "word_type ?m (pc (m_cpu ?m)) AND MEMTYPE_BREAKPOINT \<noteq> 0"
    by (simp add: word_type_def machine_ex_facts init_memtype_def)
  then have "fetch_exec Some ?m = Some (Trap ?m)"
    by (simp add: fetch_exec_def seq_def GET_OPCODE_def machine_ex_facts)
  then obtain s1 where r: "run_exec Some (run_ex ?m) = Some (To_trap, s1)"
    by (simp add: run_exec_def run_ex_def machine_ex_facts init_memtype_def)
  have "word_type (r_machine (run_ex ?m)) (pc (m_cpu (r_machine (run_ex ?m)))) AND MEMTYPE_BREAKPOINT \<noteq> 0"
    using w by (simp add: run_ex_def)
  from breakpoint_stops [OF r this] r show ?thesis
    by (auto simp: Let_def)
qed


text \<open>
  In every state that \<open>run_cpu\<close> reaches, whatever the handlers of the sockets do, a jump to \<open>trap\<close> or \<open>fault\<close> ends in \<open>periph_handletrap\<close> with the
  program counter where the last instruction began and a reason in \<open>db_trap\<close>, for which the emulator waits for the debugger.
\<close>

theorem run_cpu_traps:
  assumes "run_cpu H m (l, s)"
  shows "l = Top \<or> (let (trapped, s2) = trap_entry l s
    in trapped \<and> pc (m_cpu (r_machine s2)) = oldpc s \<and> db_trap (m_cpu (r_machine s2)) \<noteq> 0)"
proof -
  have "l = To_fault \<longrightarrow> db_trap (m_cpu (r_machine s)) \<noteq> 0"
    using assms
  proof (induction "(l, s)" arbitrary: l s rule: run_cpu.induct)
    case start
    then show ?case
      by (auto simp: run_start_def)
  next
    case (step s0)
    have fault: "l = To_fault \<longrightarrow> db_trap (m_cpu (r_machine s)) \<noteq> 0" if e: "run_exec w x = Some (l, s)" for w x
    proof -
      obtain m1 r where "fetch_exec w m1 = Some r" "l = label_of r" "s = x\<lparr>oldpc := pc (m_cpu m1), r_machine := state_of r\<rparr>"
        using e by (rule run_exec_cases)
      then show ?thesis
        using fetch_loud [of w m1] by (cases r) auto
    qed
    have "l = To_fault \<longrightarrow> db_trap (m_cpu (r_machine s)) \<noteq> 0" if "run_rest w x = Some (l, s)" for w x
      using that fault by (auto simp: run_rest_def Let_def split: if_splits)
    then show ?case
      using step(3) by (auto simp: run_step_def Let_def split_beta bind_eq_Some_conv)
  qed
  then show ?thesis
    by (cases l) (auto simp: trap_entry_def back_to_def set_trap_def Let_def)
qed

end
