(* ===== verification/BrickosHeap.thy ===== *)
theory BrickosHeap
  imports Savefile
begin

text \<open>
  The heap of a brickOS kernel in the emulated memory, \<open>brickos_free\<close> and \<open>brickos_malloc\<close> of \<^verbatim>\<open>brickos.c\<close>: the emulator allocates memory for a program with the
  kernel's own data structures. An offset is an \<open>int\<close> in the code and a natural number here; \<open>None\<close> is an access outside the memory, or a loop that does not
  end, as the block lists of a program that went astray may be anything.
\<close>

section \<open>Words in memory\<close>

definition peek16 :: "mem \<Rightarrow> nat \<Rightarrow> u16 option" where
  "peek16 m a = (if a + 1 < 0x10000 then Some (word_at m a) else None)"

definition poke16 :: "nat \<Rightarrow> u16 \<Rightarrow> mem \<Rightarrow> mem option" where
  "poke16 a v m = mem_write m a (enc16 v)"

section \<open>Freeing and allocating\<close>

text \<open>The loop that merges a free block at \<open>ptr\<close> with the free blocks after it, in both functions.\<close>

partial_function (option) merge_blocks :: "u16 \<Rightarrow> u16 \<Rightarrow> u16 \<Rightarrow> u16 \<Rightarrow> mem \<Rightarrow> (u16 \<times> u16 \<times> mem) option" where
  "merge_blocks mm_first_free ptr len nptr m =
     Option.bind (peek16 m (unat nptr)) (\<lambda>type.
       if type \<noteq> 0 then Some (len, nptr, m)
       else
         Option.bind (peek16 m (unat mm_first_free)) (\<lambda>first.
         Option.bind (if nptr = first then poke16 (unat mm_first_free) ptr m else Some m) (\<lambda>m1.
         Option.bind (peek16 m1 (unat nptr + 2)) (\<lambda>l2.
         Option.bind (poke16 (unat ptr + 2) (len + (2 + l2)) m1) (\<lambda>m2.
           merge_blocks mm_first_free ptr (len + (2 + l2)) (ptr + 4 + 2 * (len + (2 + l2))) m2)))))"

definition free_block :: "u16 \<Rightarrow> u16 \<Rightarrow> u16 \<Rightarrow> mem \<Rightarrow> mem option" where
  "free_block mm_first_free ptr len m =
     Option.bind (poke16 (unat ptr) 0 m) (\<lambda>m1.
     Option.bind (peek16 m1 (unat mm_first_free)) (\<lambda>first.
     Option.bind (if first < ptr then poke16 (unat mm_first_free) ptr m1 else Some m1) (\<lambda>m2.
       map_option (\<lambda>(_, _, m3). m3) (merge_blocks mm_first_free ptr len (ptr + 4 + 2 * len) m2))))"

partial_function (option) free_from :: "u16 \<Rightarrow> u16 \<Rightarrow> u16 \<Rightarrow> u16 \<Rightarrow> mem \<Rightarrow> mem option" where
  "free_from mm_start mm_first_free addr ptr m =
    (if ptr < mm_start then Some m
     else
       Option.bind (peek16 m (unat ptr + 2)) (\<lambda>len.
         if unat ptr + 4 = unat addr then free_block mm_first_free ptr len m
         else free_from mm_start mm_first_free addr (ptr + 4 + 2 * len) m))"

definition brickos_free :: "u16 \<Rightarrow> u16 \<Rightarrow> u16 \<Rightarrow> mem \<Rightarrow> mem option" where
  "brickos_free mm_start mm_first_free addr m =
    (if mm_start = 0 then Some m else free_from mm_start mm_first_free addr mm_start m)"

text \<open>The search for the next free block when the first one is taken.\<close>

partial_function (option) next_free :: "u16 \<Rightarrow> u16 \<Rightarrow> mem \<Rightarrow> u16 option" where
  "next_free mm_start nptr m =
     Option.bind (peek16 m (unat nptr)) (\<lambda>type.
       if type \<noteq> 0 \<and> mm_start \<le> nptr then
         Option.bind (peek16 m (unat nptr + 2)) (\<lambda>len. next_free mm_start (nptr + 4 + 2 * len) m)
       else Some nptr)"

definition split_block :: "u16 \<Rightarrow> u16 \<Rightarrow> u16 \<Rightarrow> u16 \<Rightarrow> mem \<Rightarrow> (u16 \<times> mem) option" where
  "split_block ptr len sz nptr m =
    (if unat sz + 8 < unat len then
       let nptr1 = ptr + 4 + 2 * sz
       in Option.bind (poke16 (unat ptr + 2) sz m) (\<lambda>m1.
          Option.bind (poke16 (unat nptr1) 0 m1) (\<lambda>m2.
          map_option (Pair nptr1) (poke16 (unat nptr1 + 2) (len - sz - 2) m2)))
     else Some (nptr, m))"

definition take_block :: "u16 \<Rightarrow> u16 \<Rightarrow> u16 \<Rightarrow> u16 \<Rightarrow> u16 \<Rightarrow> u16 \<Rightarrow> mem \<Rightarrow> (u16 \<times> mem) option" where
  "take_block mm_start mm_first_free ptr len sz nptr m =
     Option.bind (split_block ptr len sz nptr m) (\<lambda>(nptr1, m1).
     Option.bind (poke16 (unat ptr) 0xfffe m1) (\<lambda>m2.
     Option.bind (peek16 m2 (unat mm_first_free)) (\<lambda>first.
       map_option (Pair (ptr + 4))
         (if ptr = first then Option.bind (next_free mm_start nptr1 m2) (\<lambda>n. poke16 (unat mm_first_free) n m2) else Some m2))))"

partial_function (option) malloc_from :: "u16 \<Rightarrow> u16 \<Rightarrow> u16 \<Rightarrow> u16 \<Rightarrow> mem \<Rightarrow> (u16 \<times> mem) option" where
  "malloc_from mm_start mm_first_free sz ptr m =
    (if ptr < mm_start then Some (0, m)
     else
       Option.bind (peek16 m (unat ptr)) (\<lambda>type.
       Option.bind (peek16 m (unat ptr + 2)) (\<lambda>len0.
       Option.bind (if type = 0 then merge_blocks mm_first_free ptr len0 (ptr + 4 + 2 * len0) m else Some (len0, ptr + 4 + 2 * len0, m))
         (\<lambda>(len, nptr, m1).
           if type = 0 \<and> sz < len then take_block mm_start mm_first_free ptr len sz nptr m1
           else malloc_from mm_start mm_first_free sz nptr m1))))"

text \<open>The size in words.\<close>

definition half_up :: "u16 \<Rightarrow> u16" where
  "half_up sz = of_nat ((unat sz + 1) div 2)"

definition brickos_malloc :: "u16 \<Rightarrow> u16 \<Rightarrow> u16 \<Rightarrow> mem \<Rightarrow> (u16 \<times> mem) option" where
  "brickos_malloc mm_start mm_first_free sz m =
    (if mm_start = 0 then Some (0, m)
     else malloc_from mm_start mm_first_free (half_up sz) mm_start m)"

section \<open>Well-formed heaps\<close>

text \<open>
  The blocks between two addresses, each with its owner (0 for a free one) and its length in words: a header of two words is followed by the
  words of the block.
\<close>

type_synonym block = "u16 \<times> u16"

fun blocks :: "mem \<Rightarrow> nat \<Rightarrow> block list \<Rightarrow> nat \<Rightarrow> bool" where
  "blocks m p [] q \<longleftrightarrow> p = q"
| "blocks m p ((t, n) # bs) q \<longleftrightarrow> p + 4 \<le> q \<and> word_at m p = t \<and> word_at m (p + 2) = n \<and> blocks m (p + 4 + 2 * unat n) bs q"

definition extent :: "block list \<Rightarrow> nat" where
  "extent bs = (\<Sum>(t, n) \<leftarrow> bs. 4 + 2 * unat n)"

lemma extent_simps [simp]: "extent [] = 0" "extent ((t, n) # bs) = 4 + 2 * unat n + extent bs" "extent (xs @ ys) = extent xs + extent ys"
  by (simp_all add: extent_def)

lemma blocks_extent: "blocks m p bs q \<Longrightarrow> q = p + extent bs"
  by (induction m p bs q rule: blocks.induct) auto

lemma blocks_append: "blocks m p (xs @ ys) q \<longleftrightarrow> blocks m p xs (p + extent xs) \<and> blocks m (p + extent xs) ys q"
proof (induction m p xs q rule: blocks.induct)
  case (2 m p t n bs q)
  have "p + 4 \<le> q" if "blocks m (p + 4 + 2 * unat n + extent bs) ys q"
    using blocks_extent [OF that] by simp
  then show ?case
    using 2 by (auto simp: add.assoc)
qed simp

text \<open>Only the bytes of the segment matter.\<close>

definition same_on :: "nat \<Rightarrow> nat \<Rightarrow> mem \<Rightarrow> mem \<Rightarrow> bool" where
  "same_on p q m m1 \<longleftrightarrow> (\<forall>a. p \<le> a \<longrightarrow> a < q \<longrightarrow> m1 (of_nat a) = m (of_nat a))"

lemma same_on_word: "same_on p q m m1 \<Longrightarrow> p \<le> a \<Longrightarrow> a + 1 < q \<Longrightarrow> word_at m1 a = word_at m a"
proof -
  assume "same_on p q m m1" and a: "p \<le> a" "a + 1 < q"
  then have s: "m1 (of_nat k) = m (of_nat k)" if "p \<le> k" "k < q" for k
    using that by (simp add: same_on_def)
  show ?thesis
    using a by (intro word_at_cong s) linarith+
qed

lemma blocks_cong: "same_on p q m m1 \<Longrightarrow> blocks m p bs q \<Longrightarrow> blocks m1 p bs q"
proof (induction bs arbitrary: p)
  case (Cons b bs)
  obtain t n where b: "b = (t, n)"
    by (cases b)
  have "same_on (p + 4 + 2 * unat n) q m m1"
    using Cons.prems(1) by (simp add: same_on_def)
  then show ?case
    using Cons b same_on_word [OF Cons.prems(1), of p] same_on_word [OF Cons.prems(1), of "p + 2"] by auto
qed simp

text \<open>The bytes that may have changed.\<close>

definition only :: "nat set \<Rightarrow> mem \<Rightarrow> mem \<Rightarrow> bool" where
  "only S m m1 \<longleftrightarrow> (\<forall>k. k < 0x10000 \<longrightarrow> k \<notin> S \<longrightarrow> m1 (of_nat k) = m (of_nat k))"

lemma only_refl: "only S m m"
  by (simp add: only_def)

lemma only_trans: "only S m m1 \<Longrightarrow> only T m1 m2 \<Longrightarrow> only (S \<union> T) m m2"
  by (simp add: only_def)

lemma only_again: "only S m m1 \<Longrightarrow> only S m1 m2 \<Longrightarrow> only S m m2"
  by (simp add: only_def)

lemma only_mono: "only S m m1 \<Longrightarrow> S \<subseteq> T \<Longrightarrow> only T m m1"
  by (auto simp: only_def)

lemma only_same: "only S m m1 \<Longrightarrow> q \<le> 0x10000 \<Longrightarrow> S \<inter> {p..<q} = {} \<Longrightarrow> same_on p q m m1"
  unfolding only_def same_on_def by (metis atLeastLessThan_iff disjoint_iff order_less_le_trans)

lemma only_word: "only S m m1 \<Longrightarrow> a + 1 < 0x10000 \<Longrightarrow> a \<notin> S \<Longrightarrow> a + 1 \<notin> S \<Longrightarrow> word_at m1 a = word_at m a"
  by (rule word_at_cong) (auto simp: only_def simp del: of_nat_add of_nat_Suc)

lemma poke16_effect:
  assumes "a + 1 < 0x10000"
  obtains m1 where "poke16 a v m = Some m1" "word_at m1 a = v"
    "only {a, a + 1} m m1"
proof -
  have l: "length (enc16 v) = 2"
    by simp
  obtain m1 where m1: "mem_write m a (enc16 v) = Some m1"
    using assms by (simp add: mem_write_def l)
  have u: "unat (of_nat k :: u16) = k" if "k < 0x10000" for k
    using that by (simp only: unat_of_nat) (simp add: take_bit_nat_eq_self)
  have b: "m1 (of_nat k) = (if k = a then ucast (drop_bit 8 v) else if k = a + 1 then ucast v else m (of_nat k))" if "k < 0x10000" for k
    using m1 assms u [OF that] by (auto simp: mem_write_def enc16_def split: if_splits) (metis One_nat_def diff_add_inverse nth_Cons_0 nth_Cons_Suc less_Suc_eq)?
  show thesis
  proof (rule that)
    show "poke16 a v m = Some m1"
      by (simp add: poke16_def m1)
    show "word_at m1 a = v"
      using assms b [of a] b [of "a + 1"] by (simp only: word_at_def) (simp add: join16)
    show "only {a, a + 1} m m1"
      using b by (simp add: only_def)
  qed
qed


lemma poke16_if:
  assumes "a + 1 < 0x10000"
  shows "\<exists>m1. (if c then poke16 a v m else Some m) = Some m1 \<and> only {a, a + 1} m m1"
proof (cases c)
  case True
  then show ?thesis
    by (rule_tac poke16_effect [OF assms, of v m]) auto
qed (simp add: only_refl)

lemma blocks_head:
  assumes "word_at m1 p = t" "word_at m1 (p + 2) = v" "same_on (p + 4 + 2 * unat v) q m m1" "blocks m (p + 4 + 2 * unat v) bs q"
  shows "blocks m1 p ((t, v) # bs) q"
  using assms blocks_cong [OF assms(3,4)] blocks_extent [OF assms(4)] by simp

lemma blocks_headD:
  assumes "blocks m p ((t, n) # bs) q"
  shows "word_at m p = t" "word_at m (p + 2) = n" "blocks m (p + 4 + 2 * unat n) bs q" "p + 4 + 2 * unat n \<le> q"
  using assms blocks_extent [of m "p + 4 + 2 * unat n" bs q] by simp_all

lemma next_addr:
  assumes "unat ptr + 4 + 2 * unat n < 0x10000"
  shows "unat (ptr + 4 + 2 * n :: u16) = unat ptr + 4 + 2 * unat n"
  using assms by (simp add: unat_word_ariths)

lemma wrapped_addr:
  assumes "unat ptr + 4 + 2 * unat n = 0x10000"
  shows "ptr + 4 + 2 * n = (0 :: u16)"
proof -
  have "unat (ptr + 4 + 2 * n) = (unat ptr + 4 + 2 * unat n) mod 0x10000"
    by (simp add: unat_word_ariths mod_simps)
  then have "unat (ptr + 4 + 2 * n) = 0"
    using assms by simp
  then show ?thesis
    by (simp add: unat_eq_0)
qed

lemma add_lengths:
  assumes "unat n + 2 + unat k < 0x10000"
  shows "unat (n + (2 + k) :: u16) = unat n + 2 + unat k"
  using assms by (simp add: unat_word_ariths)

section \<open>Merging\<close>

fun absorb :: "u16 \<Rightarrow> block list \<Rightarrow> u16 \<times> block list" where
  "absorb n [] = (n, [])"
| "absorb n ((t, k) # bs) = (if t = 0 then absorb (n + (2 + k)) bs else (n, (t, k) # bs))"

definition owned_end :: "block list \<Rightarrow> bool" where
  "owned_end bs \<longleftrightarrow> bs \<noteq> [] \<and> fst (last bs) \<noteq> 0"

lemma owned_end_Cons: "owned_end (b # bs) \<longleftrightarrow> (if bs = [] then fst b \<noteq> 0 else owned_end bs)"
  by (simp add: owned_end_def)

lemma merge_blocks_step:
  assumes "blocks m (unat ptr) ((t, n) # (0, k) # bs) 0x10000" "unat mff + 1 < unat ptr"
  shows "\<exists>m1. merge_blocks mff ptr n (ptr + 4 + 2 * n) m = merge_blocks mff ptr (n + (2 + k)) (ptr + 4 + 2 * (n + (2 + k))) m1
    \<and> blocks m1 (unat ptr) ((t, n + (2 + k)) # bs) 0x10000 \<and> only {unat mff, unat mff + 1, unat ptr + 2, unat ptr + 3} m m1"
proof -
  let ?p = "unat ptr" and ?q = "unat ptr + 4 + 2 * unat n" and ?v = "n + (2 + k)"
  note h = blocks_headD [OF assms(1)] and h2 = blocks_headD [OF blocks_headD(3) [OF assms(1)]]
  have q: "unat (ptr + 4 + 2 * n) = ?q"
    using h2(4) by (intro next_addr) simp
  have v: "unat ?v = unat n + 2 + unat k"
    using h2(4) by (intro add_lengths) simp
  have p: "peek16 m ?q = Some 0" "peek16 m (unat mff) = Some (word_at m (unat mff))"
    using h2(1,4) assms(2) h(4) by (simp_all add: peek16_def)
  have f: "unat mff + 1 < 0x10000"
    using assms(2) h(4) by linarith
  obtain m0 where m0: "(if ptr + 4 + 2 * n = word_at m (unat mff) then poke16 (unat mff) ptr m else Some m) = Some m0"
    "only {unat mff, unat mff + 1} m m0"
    using poke16_if [OF f] by blast
  have s0: "same_on ?p 0x10000 m m0"
    using assms(2) by (intro only_same [OF m0(2)]) auto
  have l: "peek16 m0 (?q + 2) = Some k"
    using h2(2,4) same_on_word [OF s0, of "?q + 2"] by (simp add: peek16_def)
  obtain m1 where m1: "poke16 (?p + 2) ?v m0 = Some m1" "word_at m1 (?p + 2) = ?v" "only {?p + 2, ?p + 2 + 1} m0 m1"
    using h(4) by (rule_tac poke16_effect [of "?p + 2" ?v m0]) auto
  have o: "only {unat mff, unat mff + 1, ?p + 2, ?p + 3} m m1"
    by (rule only_mono [OF only_trans [OF m0(2) m1(3)]]) auto
  have "word_at m1 ?p = t"
    using only_word [OF o, of ?p] h(1,4) assms(2) by simp
  moreover have "?p + 4 + 2 * unat ?v = ?q + 4 + 2 * unat k"
    by (simp add: v)
  moreover have "same_on (?q + 4 + 2 * unat k) 0x10000 m m1"
    using assms(2) by (intro only_same [OF o]) auto
  ultimately have "blocks m1 ?p ((t, ?v) # bs) 0x10000"
    using m1(2) h2(3) by (intro blocks_head [of m1 ?p t ?v _ m]) (simp_all only:)
  moreover have "merge_blocks mff ptr n (ptr + 4 + 2 * n) m = merge_blocks mff ptr ?v (ptr + 4 + 2 * ?v) m1"
    by (subst merge_blocks.simps) (simp only: q p m0(1) l m1(1) bind.bind_lunit simp_thms if_True if_False)
  ultimately show ?thesis
    using o by blast
qed

lemma merge_blocks_stop:
  assumes "blocks m (unat ptr) ((t, n) # (s, k) # bs) 0x10000" "s \<noteq> 0"
  shows "merge_blocks mff ptr n (ptr + 4 + 2 * n) m = Some (n, ptr + 4 + 2 * n, m)"
proof -
  note h = blocks_headD [OF assms(1)] and h2 = blocks_headD [OF blocks_headD(3) [OF assms(1)]]
  have q: "unat (ptr + 4 + 2 * n) = unat ptr + 4 + 2 * unat n"
    using h2(4) by (intro next_addr) simp
  have "peek16 m (unat ptr + 4 + 2 * unat n) = Some s"
    using h2(1,4) by (simp add: peek16_def)
  then show ?thesis
    using assms(2) by (subst merge_blocks.simps) (simp only: q bind.bind_lunit simp_thms if_True)
qed

lemma merge_blocks_spec:
  assumes "blocks m (unat ptr) ((t, n) # bs) 0x10000" "unat mff + 1 < unat ptr" "owned_end bs"
  shows "\<exists>m1. merge_blocks mff ptr n (ptr + 4 + 2 * n) m = Some (fst (absorb n bs), ptr + 4 + 2 * fst (absorb n bs), m1)
    \<and> blocks m1 (unat ptr) ((t, fst (absorb n bs)) # snd (absorb n bs)) 0x10000 
    \<and> only {unat mff, unat mff + 1, unat ptr + 2, unat ptr + 3} m m1"
  using assms
proof (induction bs arbitrary: n m)
  case Nil
  then show ?case by (simp add: owned_end_def)
next
  case (Cons b bs)
  obtain s k where b: "b = (s, k)" by (cases b)
  show ?case
  proof (cases "s = 0")
    case True
    obtain m1 where m1: "merge_blocks mff ptr n (ptr + 4 + 2 * n) m = merge_blocks mff ptr (n + (2 + k)) (ptr + 4 + 2 * (n + (2 + k))) m1"
      "blocks m1 (unat ptr) ((t, n + (2 + k)) # bs) 0x10000" "only {unat mff, unat mff + 1, unat ptr + 2, unat ptr + 3} m m1"
      using merge_blocks_step [of m ptr t n k bs mff] Cons.prems True b by auto
    have "owned_end bs"
      using Cons.prems(3) b True by (simp add: owned_end_Cons split: if_splits)
    from Cons.IH [OF m1(2) Cons.prems(2) this] show ?thesis
      using m1(1) only_again [OF m1(3)] b True by (auto simp del: blocks.simps)
  next
    case False
    then show ?thesis
      using merge_blocks_stop [of m ptr t n s k bs mff] Cons.prems b only_refl by auto
  qed
qed

section \<open>First fit\<close>

text \<open>What the two functions do to the list of blocks: the first free block, with the free ones after it, that is long enough for \<open>sz\<close> words.\<close>

lemma absorb_length: "length (snd (absorb n bs)) \<le> length bs"
  by (induction n bs rule: absorb.induct) auto

definition taken :: "u16 \<Rightarrow> u16 \<Rightarrow> block list" where
  "taken n sz = (if unat sz + 8 < unat n then [(0xfffe, sz), (0, n - sz - 2)] else [(0xfffe, n)])"

function first_fit :: "u16 \<Rightarrow> nat \<Rightarrow> block list \<Rightarrow> nat \<times> block list" where
  "first_fit sz p [] = (0, [])"
| "first_fit sz p ((t, n) # bs) =
    (let n1 = (if t = 0 then fst (absorb n bs) else n); bs1 = (if t = 0 then snd (absorb n bs) else bs)
     in if t = 0 \<and> sz < n1 then
          (p + 4, taken n1 sz @ bs1)
        else (fst (first_fit sz (p + 4 + 2 * unat n1) bs1), (t, n1) # snd (first_fit sz (p + 4 + 2 * unat n1) bs1)))"
  by pat_completeness auto
termination
  by (relation "measure (\<lambda>(_, _, bs). length bs)") (auto simp: le_imp_less_Suc absorb_length)

fun free_bytes :: "nat \<Rightarrow> block list \<Rightarrow> nat set" where
  "free_bytes p [] = {}"
| "free_bytes p ((t, n) # bs) = (if t = 0 then {p..<p + 4 + 2 * unat n} else {}) \<union> free_bytes (p + 4 + 2 * unat n) bs"

lemma free_bytes_range: "k \<in> free_bytes p bs \<Longrightarrow> p \<le> k \<and> k < p + extent bs"
  by (induction p bs rule: free_bytes.induct) (fastforce split: if_splits)+

lemma absorb_area:
  assumes "p + extent ((0, n) # bs) \<le> 0x10000"
  shows "free_bytes p ((0, fst (absorb n bs)) # snd (absorb n bs)) = free_bytes p ((0, n) # bs)"
  using assms
proof (induction n bs rule: absorb.induct)
  case (2 n t k bs)
  show ?case
  proof (cases "t = 0")
    case True
    have v: "unat (n + (2 + k)) = unat n + 2 + unat k"
      using 2(2) by (intro add_lengths) simp
    have "free_bytes p ((0, fst (absorb (n + (2 + k)) bs)) # snd (absorb (n + (2 + k)) bs)) = free_bytes p ((0, n + (2 + k)) # bs)"
      using 2 True v by simp
    also have "\<dots> = free_bytes p ((0, n) # (0, k) # bs)"
    proof -
      have e: "p + 4 + 2 * unat (n + (2 + k)) = p + 4 + 2 * unat n + 4 + 2 * unat k"
        by (simp only: v) simp
      show ?thesis
        unfolding free_bytes.simps e by auto
    qed
    finally show ?thesis
      using True by simp
  qed simp
qed simp

lemma absorb_owned: "owned_end bs \<Longrightarrow> owned_end (snd (absorb n bs))"
  by (induction n bs rule: absorb.induct) (auto simp: owned_end_Cons split: if_splits)

lemma next_free_ends:
  assumes "blocks m p bs 0x10000" "unat mm_start \<le> p" "mm_start \<noteq> 0"
  shows "\<exists>k. next_free mm_start (of_nat p) m = Some k"
  using assms(1,2)
proof (induction bs arbitrary: p)
  case Nil
  then have "(of_nat p :: u16) = 0"
    by simp
  then show ?case
    using assms(3) by (subst next_free.simps) (simp add: peek16_def)
next
  case (Cons b bs)
  obtain t n where b: "b = (t, n)" by (cases b)
  note h = blocks_headD [OF Cons.prems(1) [unfolded b]]
  have p: "unat (of_nat p :: u16) = p"
    using h(4) by (simp only: unat_of_nat) (simp add: take_bit_nat_eq_self)
  have r: "peek16 m p = Some t" "peek16 m (p + 2) = Some n"
    using h by (simp_all add: peek16_def)
  have "of_nat p + 4 + 2 * n = (of_nat (p + 4 + 2 * unat n) :: u16)"
    by simp
  moreover obtain k where "next_free mm_start (of_nat (p + 4 + 2 * unat n)) m = Some k"
    using Cons.IH [OF h(3)] Cons.prems(2) by auto
  ultimately show ?case
    by (subst next_free.simps) (simp only: p r bind.bind_lunit split: if_split, blast)
qed

lemma unat_addr: "p < 0x10000 \<Longrightarrow> unat (of_nat p :: u16) = p"
  by (simp only: unat_of_nat) (simp add: take_bit_nat_eq_self)

lemma next_block: "of_nat p + 4 + 2 * n = (of_nat (p + 4 + 2 * unat n) :: u16)"
  by simp

text \<open>The block is split, or taken whole.\<close>

lemma split_block_spec:
  assumes "blocks m p ((0, n) # bs) 0x10000" "sz < n"
  shows "\<exists>m1 k. split_block (of_nat p) n sz (of_nat (p + 4 + 2 * unat n)) m = Some (of_nat k, m1) \<and> only {p..<p + 4 + 2 * unat n} m m1
    \<and> p + 4 \<le> k \<and> (\<exists>s. blocks m1 p ((s, snd (hd (taken n sz))) # tl (taken n sz) @ bs) 0x10000) 
    \<and> k = p + 4 + 2 * unat (snd (hd (taken n sz)))"
proof (cases "unat sz + 8 < unat n")
  case True
  note h = blocks_headD [OF assms(1)]
  let ?k = "p + 4 + 2 * unat sz"
  have u: "unat (of_nat p :: u16) = p" "unat (of_nat ?k :: u16) = ?k"
    using h(4) True by (simp_all only: unat_addr)
  have l: "unat (n - sz - 2) = unat n - unat sz - 2"
  proof -
    have "unat (n - sz) = unat n - unat sz"
      using True by (intro unat_sub) (simp add: word_le_nat_alt)
    moreover have "unat (n - sz - 2) = unat (n - sz) - unat (2 :: u16)"
      using True calculation by (intro unat_sub) (simp add: word_le_nat_alt)
    ultimately show ?thesis by simp
  qed
  obtain m1 where m1: "poke16 (p + 2) sz m = Some m1" "word_at m1 (p + 2) = sz" "only {p + 2, p + 2 + 1} m m1"
    using h(4) by (rule_tac poke16_effect [of "p + 2" sz m]) auto
  obtain m2 where m2: "poke16 ?k 0 m1 = Some m2" "word_at m2 ?k = 0" "only {?k, ?k + 1} m1 m2"
    using h(4) True by (rule_tac poke16_effect [of ?k 0 m1]) auto
  obtain m3 where m3: "poke16 (?k + 2) (n - sz - 2) m2 = Some m3" "word_at m3 (?k + 2) = n - sz - 2" "only {?k + 2, ?k + 2 + 1} m2 m3"
    using h(4) True by (rule_tac poke16_effect [of "?k + 2" "n - sz - 2" m2]) auto
  note o = only_trans [OF only_trans [OF m1(3) m2(3)] m3(3)]
  have "only {p..<p + 4 + 2 * unat n} m m3"
    using True by (intro only_mono [OF o]) auto
  moreover have "split_block (of_nat p) n sz (of_nat (p + 4 + 2 * unat n)) m = Some (of_nat ?k, m3)"
    unfolding split_block_def next_block Let_def using True by (simp only: u m1(1) m2(1) m3(1) bind.bind_lunit if_True option.map)
  moreover have "blocks m3 p ((word_at m3 p, sz) # (0, n - sz - 2) # bs) 0x10000"
  proof -
    have e: "?k + 4 + 2 * unat (n - sz - 2) = p + 4 + 2 * unat n"
      using True by (simp only: l)
    have "same_on (p + 4 + 2 * unat n) 0x10000 m m3"
      using True by (intro only_same [OF o]) auto
    then have "blocks m3 (?k + 4 + 2 * unat (n - sz - 2)) bs 0x10000"
      unfolding e by (rule blocks_cong [OF _ h(3)])
    moreover have "word_at m3 (p + 2) = sz" "word_at m3 ?k = 0"
      using only_word [OF only_trans [OF m2(3) m3(3)], of "p + 2"] only_word [OF m3(3), of ?k] m1(2) m2(2) h(4) True by simp_all
    ultimately show ?thesis
      using m3(2) h(4) e by (simp del: of_nat_add)
  qed
  ultimately show ?thesis
    using True by (intro exI [of _ m3] exI [of _ ?k]) (auto simp: taken_def simp del: blocks.simps)
next
  case False
  have "\<exists>s. blocks m p ((s, n) # bs) 0x10000"
    using assms(1) by blast
  then show ?thesis
    using False by (intro exI [of _ m] exI [of _ "p + 4 + 2 * unat n"]) (simp add: taken_def split_block_def only_refl del: blocks.simps)
qed

lemma first_free_update:
  assumes "blocks m2 k bs 0x10000" "unat mm_start \<le> k" "mm_start \<noteq> 0" "unat mff + 1 < 0x10000"
  shows "\<exists>m3. (if c then Option.bind (next_free mm_start (of_nat k) m2) (\<lambda>n. poke16 (unat mff) n m2) else Some m2) = Some m3
    \<and> only {unat mff, unat mff + 1} m2 m3"
proof (cases c)
  case True
  obtain n where n: "next_free mm_start (of_nat k) m2 = Some n"
    using next_free_ends [OF assms(1-3)] by blast
  obtain m3 where "poke16 (unat mff) n m2 = Some m3" "only {unat mff, unat mff + 1} m2 m3"
    using assms(4) by (rule_tac poke16_effect [of "unat mff" n m2]) auto
  with n True show ?thesis by simp
qed (simp add: only_refl)

lemma take_block_spec:
  assumes "blocks m p ((0, n) # bs) 0x10000" "sz < n" "unat mm_start \<le> p" "mm_start \<noteq> 0" "unat mff + 1 < unat mm_start"
  shows "\<exists>m1. take_block mm_start mff (of_nat p) n sz (of_nat (p + 4 + 2 * unat n)) m = Some (of_nat (p + 4), m1)
    \<and> blocks m1 p (taken n sz @ bs) 0x10000 \<and> only ({unat mff, unat mff + 1} \<union> {p..<p + 4 + 2 * unat n}) m m1"
proof -
  obtain l rest where t: "taken n sz = (0xfffe, l) # rest"
    by (cases "unat sz + 8 < unat n") (simp_all add: taken_def)
  obtain m1 k s where m1: "split_block (of_nat p) n sz (of_nat (p + 4 + 2 * unat n)) m = Some (of_nat k, m1)"
    "only {p..<p + 4 + 2 * unat n} m m1" "p + 4 \<le> k" "blocks m1 p ((s, l) # rest @ bs) 0x10000"
    "k = p + 4 + 2 * unat (l)"
    using split_block_spec [OF assms(1,2)] unfolding t list.sel snd_conv by blast
  note h = blocks_headD [OF m1(4)]
  have u: "unat (of_nat p :: u16) = p"
    using h(4) by (intro unat_addr) simp
  obtain m2 where m2: "poke16 p 0xfffe m1 = Some m2" "word_at m2 p = 0xfffe" "only {p, p + 1} m1 m2"
    using h(4) by (rule_tac poke16_effect [of p "0xfffe" m1]) auto
  have b2: "blocks m2 p (taken n sz @ bs) 0x10000"
    unfolding t append_Cons
  proof (rule blocks_head [OF m2(2)])
    show "word_at m2 (p + 2) = l"
      using only_word [OF m2(3), of "p + 2"] h(2,4) by simp
    show "same_on (p + 4 + 2 * unat (l)) 0x10000 m1 m2"
      by (rule only_same [OF m2(3)]) auto
  qed (rule h(3))
  have "blocks m2 p ((0xfffe, l) # rest @ bs) 0x10000"
    using b2 by (simp only: t append_Cons)
  then have b3: "blocks m2 k (rest @ bs) 0x10000"
    unfolding m1(5) by (rule blocks_headD(3))
  have k: "unat mm_start \<le> k"
    using assms(3) m1(3) by linarith
  have f: "unat mff + 1 < 0x10000" "peek16 m2 (unat mff) = Some (word_at m2 (unat mff))"
    using assms(3,5) h(4) by (simp_all add: peek16_def)
  obtain m3 where m3: "(if of_nat p = word_at m2 (unat mff) then Option.bind (next_free mm_start (of_nat k) m2) (\<lambda>n. poke16 (unat mff) n m2) else Some m2) = Some m3"
    "only {unat mff, unat mff + 1} m2 m3"
    using first_free_update [OF b3 k assms(4) f(1)] by blast
  have "take_block mm_start mff (of_nat p) n sz (of_nat (p + 4 + 2 * unat n)) m = Some (of_nat (p + 4), m3)"
    unfolding take_block_def by (simp only: m1(1) u m2(1) f(2) m3(1) bind.bind_lunit prod.case option.map) simp
  moreover have "same_on p 0x10000 m2 m3"
    using assms(3,5) by (intro only_same [OF m3(2)]) auto
  then have "blocks m3 p (taken n sz @ bs) 0x10000"
    by (rule blocks_cong [OF _ b2])
  moreover have "only ({unat mff, unat mff + 1} \<union> {p..<p + 4 + 2 * unat n}) m m3"
    by (rule only_mono [OF only_trans [OF m1(2) only_trans [OF m2(3) m3(2)]]]) auto
  ultimately show ?thesis
    by blast
qed

lemma malloc_from_free:
  assumes "blocks m p ((0, n) # bs) 0x10000" "unat mm_start \<le> p" "unat mff + 1 < unat mm_start" "owned_end bs"
  shows "\<exists>m1. malloc_from mm_start mff sz (of_nat p) m =
      (if sz < fst (absorb n bs) then take_block mm_start mff (of_nat p) (fst (absorb n bs)) sz (of_nat (p + 4 + 2 * unat (fst (absorb n bs)))) m1
       else malloc_from mm_start mff sz (of_nat (p + 4 + 2 * unat (fst (absorb n bs)))) m1)
    \<and> blocks m1 p ((0, fst (absorb n bs)) # snd (absorb n bs)) 0x10000
    \<and> only ({unat mff, unat mff + 1} \<union> free_bytes p ((0, n) # bs)) m m1"
proof -
  note h = blocks_headD [OF assms(1)]
  have u: "unat (of_nat p :: u16) = p"
    using h(4) by (intro unat_addr) simp
  obtain m1 where m1: "merge_blocks mff (of_nat p) n (of_nat p + 4 + 2 * n) m = Some (fst (absorb n bs), of_nat p + 4 + 2 * fst (absorb n bs), m1)"
    "blocks m1 p ((0, fst (absorb n bs)) # snd (absorb n bs)) 0x10000" "only {unat mff, unat mff + 1, p + 2, p + 3} m m1"
    using merge_blocks_spec [of m "of_nat p" 0 n bs mff] assms u by auto
  have "\<not> of_nat p < mm_start"
    using assms(2) u by (simp only: word_less_nat_alt)
  moreover have "peek16 m p = Some 0" "peek16 m (p + 2) = Some n"
    using h by (simp_all add: peek16_def)
  ultimately have "malloc_from mm_start mff sz (of_nat p) m =
      (if sz < fst (absorb n bs) then take_block mm_start mff (of_nat p) (fst (absorb n bs)) sz (of_nat (p + 4 + 2 * unat (fst (absorb n bs)))) m1
       else malloc_from mm_start mff sz (of_nat (p + 4 + 2 * unat (fst (absorb n bs)))) m1)"
    by (subst malloc_from.simps) (simp only: u if_False if_True bind.bind_lunit m1(1) [unfolded next_block] next_block prod.case simp_thms)
  moreover have "only ({unat mff, unat mff + 1} \<union> free_bytes p ((0, n) # bs)) m m1"
    by (rule only_mono [OF m1(3)]) auto
  ultimately show ?thesis
    using m1(2) by blast
qed

lemma malloc_from_owned:
  assumes "blocks m p ((t, n) # bs) 0x10000" "unat mm_start \<le> p" "t \<noteq> 0"
  shows "malloc_from mm_start mff sz (of_nat p) m = malloc_from mm_start mff sz (of_nat (p + 4 + 2 * unat n)) m"
proof -
  note h = blocks_headD [OF assms(1)]
  have u: "unat (of_nat p :: u16) = p"
    using h(4) by (intro unat_addr) simp
  have "\<not> of_nat p < mm_start"
    using assms(2) u by (simp only: word_less_nat_alt)
  moreover have "peek16 m p = Some t" "peek16 m (p + 2) = Some n"
    using h by (simp_all add: peek16_def)
  ultimately show ?thesis
    using assms(3) by (subst malloc_from.simps) (simp only: u if_False bind.bind_lunit next_block prod.case simp_thms)
qed

text \<open>The blocks before a place are kept when only what is behind it changes.\<close>

lemma blocks_ConsI:
  assumes "blocks m p ((t, n) # bs) 0x10000" "blocks m1 (p + 4 + 2 * unat n) bs1 0x10000" "unat mff + 1 < p"
    "only ({unat mff, unat mff + 1} \<union> free_bytes (p + 4 + 2 * unat n) bs) m m1"
  shows "blocks m1 p ((t, n) # bs1) 0x10000"
proof (rule blocks_head [OF _ _ _ assms(2)])
  note h = blocks_headD [OF assms(1)]
  have "same_on p (p + 4 + 2 * unat n) m m1"
    using assms(3) h(4) free_bytes_range [of _ "p + 4 + 2 * unat n" bs] by (intro only_same [OF assms(4)]) fastforce+
  then show "word_at m1 p = t" "word_at m1 (p + 2) = n"
    using same_on_word [of p _ m m1 p] same_on_word [of p _ m m1 "p + 2"] h(1,2) by simp_all
  show "same_on (p + 4 + 2 * unat n) 0x10000 m1 m1"
    by (simp add: same_on_def)
qed

lemma malloc_from_spec:
  assumes "blocks m p bs 0x10000" "bs = [] \<or> owned_end bs" "unat mm_start \<le> p" "mm_start \<noteq> 0" "unat mff + 1 < unat mm_start"
  shows "\<exists>m1. malloc_from mm_start mff sz (of_nat p) m = Some (of_nat (fst (first_fit sz p bs)), m1)
    \<and> blocks m1 p (snd (first_fit sz p bs)) 0x10000 \<and> only ({unat mff, unat mff + 1} \<union> free_bytes p bs) m m1"
  using assms(1-3)
proof (induction sz p bs arbitrary: m rule: first_fit.induct)
  case (1 sz p)
  then have p: "(of_nat p :: u16) = 0"
    by simp
  show ?case
    unfolding p using 1 assms(4) by (subst malloc_from.simps) (simp add: only_refl word_neq_0_conv)
next
  case (2 sz p t n bs)
  define n1 where "n1 = (if t = 0 then fst (absorb n bs) else n)"
  define bs1 where "bs1 = (if t = 0 then snd (absorb n bs) else bs)"
  let ?F = "{unat mff, unat mff + 1}"
  have own: "bs1 = [] \<or> owned_end bs1" "t = 0 \<longrightarrow> owned_end bs"
    using "2.prems"(2) absorb_owned [of bs n] by (auto simp: bs1_def owned_end_Cons split: if_splits)
  have area: "free_bytes p ((t, n1) # bs1) = free_bytes p ((t, n) # bs)"
    using absorb_area [of p n bs] blocks_extent [OF "2.prems"(1)] by (cases "t = 0") (simp_all add: n1_def bs1_def del: free_bytes.simps)
  obtain m1 where m1: "malloc_from mm_start mff sz (of_nat p) m =
      (if t = 0 \<and> sz < n1 then take_block mm_start mff (of_nat p) n1 sz (of_nat (p + 4 + 2 * unat n1)) m1
       else malloc_from mm_start mff sz (of_nat (p + 4 + 2 * unat n1)) m1)"
    "blocks m1 p ((t, n1) # bs1) 0x10000" "only (?F \<union> free_bytes p ((t, n) # bs)) m m1"
  proof (cases "t = 0")
    case True
    then show ?thesis
      using malloc_from_free [of m p n bs mm_start mff sz] "2.prems" own(2) assms(5) that unfolding n1_def bs1_def by (simp only: if_True simp_thms) blast
  next
    case False
    then show ?thesis
      using malloc_from_owned [of m p t n bs mm_start mff sz] "2.prems" that [of m] only_refl by (simp add: n1_def bs1_def)
  qed
  show ?case
  proof (cases "t = 0 \<and> sz < n1")
    case True
    obtain m2 where m2: "malloc_from mm_start mff sz (of_nat p) m = Some (of_nat (p + 4), m2)" "blocks m2 p (taken n1 sz @ bs1) 0x10000"
      "only (?F \<union> {p..<p + 4 + 2 * unat n1}) m1 m2"
      using take_block_spec [of m1 p n1 bs1 sz mm_start mff] m1(1,2) True "2.prems"(3) assms(4,5) by auto
    have "only (?F \<union> free_bytes p ((t, n) # bs)) m1 m2"
      unfolding area [symmetric] using True by (intro only_mono [OF m2(3)]) auto
    then show ?thesis
      using m2(1,2) only_again [OF m1(3)] True by (auto simp: n1_def bs1_def Let_def simp del: of_nat_add)
  next
    case False
    have IH: "\<exists>m2. malloc_from mm_start mff sz (of_nat (p + 4 + 2 * unat n1)) m1 = Some (of_nat (fst (first_fit sz (p + 4 + 2 * unat n1) bs1)), m2)
      \<and> blocks m2 (p + 4 + 2 * unat n1) (snd (first_fit sz (p + 4 + 2 * unat n1) bs1)) 0x10000
      \<and> only (?F \<union> free_bytes (p + 4 + 2 * unat n1) bs1) m1 m2"
      using "2.IH" [OF n1_def bs1_def False blocks_headD(3) [OF m1(2)] own(1)] "2.prems"(3) by simp
    then obtain m2 where m2: "malloc_from mm_start mff sz (of_nat p) m = Some (of_nat (fst (first_fit sz p ((t, n) # bs))), m2)"
      "blocks m2 (p + 4 + 2 * unat n1) (snd (first_fit sz (p + 4 + 2 * unat n1) bs1)) 0x10000"
      "only (?F \<union> free_bytes (p + 4 + 2 * unat n1) bs1) m1 m2"
      using m1(1) False by (auto simp: n1_def bs1_def Let_def)
    have "blocks m2 p ((t, n1) # snd (first_fit sz (p + 4 + 2 * unat n1) bs1)) 0x10000"
      using assms(5) "2.prems"(3) by (intro blocks_ConsI [OF m1(2) m2(2) _ m2(3)]) simp
    moreover have "only (?F \<union> free_bytes p ((t, n) # bs)) m1 m2"
      unfolding area [symmetric] by (intro only_mono [OF m2(3)]) auto
    ultimately show ?thesis
      using m2(1) only_again [OF m1(3)] False by (auto simp: n1_def bs1_def Let_def simp del: blocks.simps of_nat_add)
  qed
qed

section \<open>The contracts of the two functions\<close>

text \<open>
  A heap reaches to the end of the address space, its last block is owned (the kernel reserves the area of the registers there), and the pointer to the
  first free block lies below it.
\<close>

definition heap_ok :: "u16 \<Rightarrow> u16 \<Rightarrow> block list \<Rightarrow> mem \<Rightarrow> bool" where
  "heap_ok mm_start mff bs m \<longleftrightarrow> blocks m (unat mm_start) bs 0x10000 \<and> owned_end bs \<and> unat mff + 1 < unat mm_start"

lemma owned_end_append: "owned_end ys \<Longrightarrow> owned_end (xs @ ys)"
  by (simp add: owned_end_def)

lemma first_fit_Nil: "snd (first_fit sz p bs) = [] \<longleftrightarrow> bs = []"
  by (cases "(sz, p, bs)" rule: first_fit.cases) (simp_all add: Let_def taken_def)

lemma absorb_extent:
  "extent ((t, n) # bs) \<le> 0x10000 \<Longrightarrow> extent ((t, fst (absorb n bs)) # snd (absorb n bs)) = extent ((t, n) # bs)"
proof (induction n bs rule: absorb.induct)
  case (2 n s k bs)
  then have "unat (n + (2 + k)) = unat n + 2 + unat k"
    by (intro add_lengths) simp
  with 2 show ?case by simp
qed simp

lemma first_fit_owned: "bs = [] \<or> owned_end bs \<Longrightarrow> snd (first_fit sz p bs) = [] \<or> owned_end (snd (first_fit sz p bs))"
proof (induction sz p bs rule: first_fit.induct)
  case (2 sz p t n bs)
  define n1 where "n1 = (if t = 0 then fst (absorb n bs) else n)"
  define bs1 where "bs1 = (if t = 0 then snd (absorb n bs) else bs)"
  have own: "t = 0 \<longrightarrow> owned_end bs1" "bs1 = [] \<or> owned_end bs1"
    using "2.prems" absorb_owned [of bs n] by (auto simp: bs1_def owned_end_Cons split: if_splits)
  show ?case
  proof (cases "t = 0 \<and> sz < n1")
    case True
    then show ?thesis
      using own(1) by (auto simp: Let_def n1_def bs1_def owned_end_append)
  next
    case False
    then show ?thesis
      using "2.IH" [OF n1_def bs1_def False own(2)] own(1)
      by (cases "t = 0") (auto simp: n1_def bs1_def Let_def owned_end_Cons first_fit_Nil owned_end_def)
  qed
qed simp

lemma first_fit_room:
  assumes "p + extent bs \<le> 0x10000"
  shows "fst (first_fit sz p bs) = 0 \<or> {fst (first_fit sz p bs)..<fst (first_fit sz p bs) + 2 * unat sz} \<subseteq> free_bytes p bs"
  using assms
proof (induction sz p bs rule: first_fit.induct)
  case (2 sz p t n bs)
  define n1 where "n1 = (if t = 0 then fst (absorb n bs) else n)"
  define bs1 where "bs1 = (if t = 0 then snd (absorb n bs) else bs)"
  have area: "free_bytes p ((t, n1) # bs1) = free_bytes p ((t, n) # bs)"
    using absorb_area [of p n bs] "2.prems" by (cases "t = 0") (simp_all add: n1_def bs1_def del: free_bytes.simps)
  have "extent ((t, n1) # bs1) = extent ((t, n) # bs)"
    using absorb_extent [of t n bs] "2.prems" by (simp add: n1_def bs1_def)
  then have ext: "p + 4 + 2 * unat n1 + extent bs1 \<le> 0x10000"
    using "2.prems" by simp
  show ?case
  proof (cases "t = 0 \<and> sz < n1")
    case True
    then have f: "fst (first_fit sz p ((t, n) # bs)) = p + 4"
      by (auto simp: Let_def n1_def)
    show ?thesis
      unfolding f area [symmetric] using True by (auto simp: word_less_nat_alt)
  next
    case False
    have "fst (first_fit sz p ((t, n) # bs)) = fst (first_fit sz (p + 4 + 2 * unat n1) bs1)"
      using False by (auto simp: Let_def n1_def bs1_def)
    then show ?thesis
      unfolding area [symmetric] using "2.IH" [OF n1_def bs1_def False] ext by (auto simp: subset_iff)
  qed
qed simp

lemma payload: "unat sz \<le> 2 * unat (half_up sz)"
proof -
  have "(unat sz + 1) div 2 < 0x10000"
    using unat_less_2p [of sz] by simp
  then have "unat (of_nat ((unat sz + 1) div 2) :: u16) = (unat sz + 1) div 2"
    by (rule unat_addr)
  then show ?thesis
    unfolding half_up_def by linarith
qed

lemma malloc_spec:
  assumes "heap_ok mm_start mff bs m"
  shows "\<exists>r m1. brickos_malloc mm_start mff sz m = Some (of_nat r, m1) \<and> r = fst (first_fit (half_up sz) (unat mm_start) bs)
    \<and> heap_ok mm_start mff (snd (first_fit (half_up sz) (unat mm_start) bs)) m1
    \<and> only ({unat mff, unat mff + 1} \<union> free_bytes (unat mm_start) bs) m m1
    \<and> (r = 0 \<or> {r..<r + unat sz} \<subseteq> free_bytes (unat mm_start) bs)"
proof -
  have h: "blocks m (unat mm_start) bs 0x10000" "owned_end bs" "unat mff + 1 < unat mm_start"
    using assms(1) by (simp_all add: heap_ok_def)
  have nz: "mm_start \<noteq> 0"
    using h(3) by auto
  obtain m1 where m1: "malloc_from mm_start mff (half_up sz) mm_start m = Some (of_nat (fst (first_fit (half_up sz) (unat mm_start) bs)), m1)"
    "blocks m1 (unat mm_start) (snd (first_fit (half_up sz) (unat mm_start) bs)) 0x10000"
    "only ({unat mff, unat mff + 1} \<union> free_bytes (unat mm_start) bs) m m1"
    using malloc_from_spec [OF h(1) _ _ nz h(3), of "half_up sz"] h(2) by auto
  have "heap_ok mm_start mff (snd (first_fit (half_up sz) (unat mm_start) bs)) m1"
    using m1(2) h first_fit_owned [of bs "half_up sz"] first_fit_Nil [of "half_up sz" "unat mm_start" bs] by (auto simp: heap_ok_def owned_end_def)
  moreover have "fst (first_fit (half_up sz) (unat mm_start) bs) = 0
      \<or> {fst (first_fit (half_up sz) (unat mm_start) bs)..<fst (first_fit (half_up sz) (unat mm_start) bs) + unat sz} \<subseteq> free_bytes (unat mm_start) bs"
    using first_fit_room [of "unat mm_start" bs "half_up sz"] blocks_extent [OF h(1)] payload [of sz]
    by (auto simp: subset_iff)
  ultimately show ?thesis
    using m1 nz by (auto simp: brickos_malloc_def)
qed

lemma free_block_spec:
  assumes "blocks m p ((t, n) # ys) 0x10000" "owned_end ys" "unat mff + 1 < p"
  shows "\<exists>m1. free_block mff (of_nat p) n m = Some m1 \<and> blocks m1 p ((0, fst (absorb n ys)) # snd (absorb n ys)) 0x10000
    \<and> only ({unat mff, unat mff + 1} \<union> {p..<p + 4}) m m1"
proof -
  note h = blocks_headD [OF assms(1)]
  have u: "unat (of_nat p :: u16) = p"
    using h(4) by (intro unat_addr) simp
  obtain m1 where m1: "poke16 p 0 m = Some m1" "word_at m1 p = 0" "only {p, p + 1} m m1"
    using h(4) by (rule_tac poke16_effect [of p 0 m]) auto
  have f: "unat mff + 1 < 0x10000" "peek16 m1 (unat mff) = Some (word_at m1 (unat mff))"
    using assms(3) h(4) by (simp_all add: peek16_def)
  obtain m2 where m2: "(if word_at m1 (unat mff) < of_nat p then poke16 (unat mff) (of_nat p) m1 else Some m1) = Some m2"
    "only {unat mff, unat mff + 1} m1 m2"
    using poke16_if [OF f(1)] by blast
  have "same_on p 0x10000 m1 m2"
    using assms(3) by (intro only_same [OF m2(2)]) auto
  moreover have "blocks m1 p ((0, n) # ys) 0x10000"
  proof (rule blocks_head [OF m1(2)])
    show "word_at m1 (p + 2) = n"
      using only_word [OF m1(3), of "p + 2"] h(2,4) by simp
    show "same_on (p + 4 + 2 * unat n) 0x10000 m m1"
      by (rule only_same [OF m1(3)]) auto
  qed (rule h(3))
  ultimately have "blocks m2 (unat (of_nat p :: u16)) ((0, n) # ys) 0x10000"
    unfolding u by (rule blocks_cong)
  then obtain m3 where m3: "merge_blocks mff (of_nat p) n (of_nat p + 4 + 2 * n) m2 = Some (fst (absorb n ys), of_nat p + 4 + 2 * fst (absorb n ys), m3)"
    "blocks m3 p ((0, fst (absorb n ys)) # snd (absorb n ys)) 0x10000" "only {unat mff, unat mff + 1, p + 2, p + 3} m2 m3"
    using merge_blocks_spec [of m2 "of_nat p" 0 n ys mff] assms(2,3) unfolding u by blast
  have "only ({unat mff, unat mff + 1} \<union> {p..<p + 4}) m m3"
    by (rule only_mono [OF only_trans [OF m1(3) only_trans [OF m2(2) m3(3)]]]) auto
  moreover have "free_block mff (of_nat p) n m = Some m3"
    unfolding free_block_def by (simp only: u m1(1) f(2) m2(1) m3(1) bind.bind_lunit prod.case option.map)
  ultimately show ?thesis
    using m3(2) by blast
qed

lemma free_from_spec:
  assumes "blocks m p (xs @ (t, n) # ys) 0x10000" "owned_end ys" "unat mm_start \<le> p" "unat mff + 1 < unat mm_start"
    "addr = of_nat (p + extent xs + 4)"
  shows "\<exists>m1. free_from mm_start mff addr (of_nat p) m = Some m1
    \<and> blocks m1 p (xs @ (0, fst (absorb n ys)) # snd (absorb n ys)) 0x10000
    \<and> only ({unat mff, unat mff + 1} \<union> {p + extent xs..<p + extent xs + 4}) m m1"
  using assms(1,3,5)
proof (induction xs arbitrary: p)
  case Nil
  have b: "blocks m p ((t, n) # ys) 0x10000"
    using Nil.prems(1) by simp
  note h = blocks_headD [OF b]
  have ne: "ys \<noteq> []"
    using assms(2) by (auto simp: owned_end_def)
  have lt: "p + 4 + 2 * unat n < 0x10000"
    using h(3) ne by (cases ys) auto
  then have u: "unat (of_nat p :: u16) = p" "unat addr = p + 4"
    unfolding Nil.prems(3) by (simp_all only: unat_addr extent_simps add_0_right)
  have "\<not> of_nat p < mm_start"
    using Nil.prems(2) u by (simp only: word_less_nat_alt)
  moreover have "peek16 m (p + 2) = Some n"
    using h by (simp add: peek16_def)
  ultimately have "free_from mm_start mff addr (of_nat p) m = free_block mff (of_nat p) n m"
    by (subst free_from.simps) (simp only: u if_False if_True bind.bind_lunit simp_thms)
  then show ?case
    using free_block_spec [OF b assms(2), of mff] assms(4) Nil.prems(2) by simp
next
  case (Cons b xs)
  obtain s k where b: "b = (s, k)" by (cases b)
  note h = blocks_headD [OF Cons.prems(1) [unfolded b append_Cons]]
  have e: "p + extent (b # xs) = p + 4 + 2 * unat k + extent xs"
    by (simp add: b)
  have "4 \<le> extent ys"
    using assms(2) by (cases ys) (auto simp: owned_end_def)
  then have tot: "p + extent (b # xs) + 4 < 0x10000"
    using blocks_extent [OF Cons.prems(1)] by (simp add: b)
  then have u: "unat (of_nat p :: u16) = p" "unat addr = p + extent (b # xs) + 4"
    unfolding Cons.prems(3) by (intro unat_addr; linarith)+
  have "\<not> of_nat p < mm_start"
    using Cons.prems(2) u by (simp only: word_less_nat_alt)
  moreover have "peek16 m (p + 2) = Some k" "p + 4 \<noteq> unat addr"
    using h u(2) by (simp_all add: peek16_def b)
  ultimately have f: "free_from mm_start mff addr (of_nat p) m = free_from mm_start mff addr (of_nat (p + 4 + 2 * unat k)) m"
    by (subst free_from.simps) (simp only: u(1) if_False bind.bind_lunit next_block simp_thms)
  obtain m1 where m1: "free_from mm_start mff addr (of_nat (p + 4 + 2 * unat k)) m = Some m1"
    "blocks m1 (p + 4 + 2 * unat k) (xs @ (0, fst (absorb n ys)) # snd (absorb n ys)) 0x10000"
    "only ({unat mff, unat mff + 1} \<union> {p + extent (b # xs)..<p + extent (b # xs) + 4}) m m1"
    using Cons.IH [OF h(3)] Cons.prems(2,3) unfolding e by auto
  have "same_on p (p + 4 + 2 * unat k) m m1"
    using assms(4) Cons.prems(2) h(4) b by (intro only_same [OF m1(3)]) auto
  then have "word_at m1 p = s" "word_at m1 (p + 2) = k"
    using same_on_word [of p _ m m1 p] same_on_word [of p _ m m1 "p + 2"] h(1,2) by simp_all
  then have "blocks m1 p ((b # xs) @ (0, fst (absorb n ys)) # snd (absorb n ys)) 0x10000"
    using m1(2) h(4) by (simp add: b)
  then show ?case
    using m1(1,3) f by auto
qed

lemma free_spec:
  assumes "heap_ok mm_start mff (xs @ (t, n) # ys) m" "ys \<noteq> []"
  shows "\<exists>m1. brickos_free mm_start mff (mm_start + of_nat (extent xs) + 4) m = Some m1
    \<and> heap_ok mm_start mff (xs @ (0, fst (absorb n ys)) # snd (absorb n ys)) m1
    \<and> only ({unat mff, unat mff + 1} \<union> {unat mm_start + extent xs..<unat mm_start + extent xs + 4}) m m1"
proof -
  have h: "blocks m (unat mm_start) (xs @ (t, n) # ys) 0x10000" "owned_end ys" "unat mff + 1 < unat mm_start"
    using assms by (simp_all add: heap_ok_def owned_end_def)
  have "mm_start + of_nat (extent xs) + 4 = of_nat (unat mm_start + extent xs + 4)"
    by simp
  moreover have "mm_start \<noteq> 0"
    using h(3) by auto
  ultimately show ?thesis
    using free_from_spec [OF h(1,2) order_refl h(3)] absorb_owned [OF h(2), of n] h(3)
    by (auto simp: brickos_free_def heap_ok_def owned_end_def)
qed

section \<open>Allocating again\<close>

text \<open>Where the first fit is found, and that it is found there again when the rest of the block has been merged back.\<close>

definition owned_head :: "block list \<Rightarrow> bool" where
  "owned_head bs \<longleftrightarrow> (case bs of [] \<Rightarrow> True | b # _ \<Rightarrow> fst b \<noteq> 0)"

lemma absorb_owned_head: "owned_head bs \<Longrightarrow> absorb n bs = (n, bs)"
  by (cases bs) (auto simp: owned_head_def)

lemma owned_head_absorb: "owned_head (snd (absorb n bs))"
  by (induction n bs rule: absorb.induct) (auto simp: owned_head_def)

lemma first_fit_split:
  assumes "fst (first_fit sz p bs) \<noteq> 0" "bs = [] \<or> owned_end bs"
  shows "\<exists>xs n ys. snd (first_fit sz p bs) = xs @ taken n sz @ ys \<and> fst (first_fit sz p bs) = p + extent xs + 4 \<and> sz < n \<and> owned_head ys \<and> ys \<noteq> []
    \<and> (owned_head bs \<longrightarrow> xs \<noteq> [] \<and> owned_head xs) \<and> first_fit sz p (xs @ (0, n) # ys) = first_fit sz p bs"
  using assms
proof (induction sz p bs rule: first_fit.induct)
  case (2 sz p t n bs)
  define n1 where "n1 = (if t = 0 then fst (absorb n bs) else n)"
  define bs1 where "bs1 = (if t = 0 then snd (absorb n bs) else bs)"
  have step: "first_fit sz p ((t, n) # bs) = (if t = 0 \<and> sz < n1 then (p + 4, taken n1 sz @ bs1)
      else (fst (first_fit sz (p + 4 + 2 * unat n1) bs1), (t, n1) # snd (first_fit sz (p + 4 + 2 * unat n1) bs1)))"
    unfolding first_fit.simps Let_def n1_def bs1_def by (rule refl)
  have own: "owned_head bs1" if "t = 0"
    using that owned_head_absorb by (simp add: bs1_def)
  have ends: "bs1 = [] \<or> owned_end bs1" "t = 0 \<longrightarrow> bs1 \<noteq> []"
    using "2.prems"(2) absorb_owned [of bs n] by (auto simp: bs1_def owned_end_Cons owned_end_def split: if_splits)
  show ?case
  proof (cases "t = 0 \<and> sz < n1")
    case True
    then have "first_fit sz p ((0, n1) # bs1) = (p + 4, taken n1 sz @ bs1)"
      using absorb_owned_head [OF own, of n1] by (simp add: Let_def)
    then show ?thesis
      using True own step ends(2) by (intro exI [of _ "[]"] exI [of _ n1] exI [of _ bs1]) (simp add: owned_head_def)
  next
    case False
    let ?q = "p + 4 + 2 * unat n1"
    have "fst (first_fit sz ?q bs1) \<noteq> 0"
      using "2.prems"(1) False step by auto
    then obtain xs n2 ys where r: "snd (first_fit sz ?q bs1) = xs @ taken n2 sz @ ys" "fst (first_fit sz ?q bs1) = ?q + extent xs + 4"
      "sz < n2" "owned_head ys" "ys \<noteq> []" "owned_head bs1 \<longrightarrow> xs \<noteq> [] \<and> owned_head xs" "first_fit sz ?q (xs @ (0, n2) # ys) = first_fit sz ?q bs1"
      using "2.IH" [OF n1_def bs1_def False _ ends(1)] by blast
    let ?ws = "xs @ (0, n2) # ys"
    have a: "absorb n1 ?ws = (n1, ?ws)" if "t = 0"
      using r(6) own [OF that] by (intro absorb_owned_head) (cases xs; simp add: owned_head_def)
    have "first_fit sz p ((t, n1) # ?ws) = (fst (first_fit sz ?q ?ws), (t, n1) # snd (first_fit sz ?q ?ws))"
      using False a by (cases "t = 0") (simp_all add: Let_def)
    then have "first_fit sz p ((t, n1) # ?ws) = first_fit sz p ((t, n) # bs)"
      using False step r(7) by auto
    then show ?thesis
      using False step r by (intro exI [of _ "(t, n1) # xs"] exI [of _ n2] exI [of _ ys]) (auto simp: owned_head_def)
  qed
qed simp

lemma untake:
  assumes "sz < n" "owned_head ys"
  shows "\<exists>l rest. taken n sz = (0xfffe, l) # rest \<and> absorb l (rest @ ys) = (n, ys)"
proof (cases "unat sz + 8 < unat n")
  case True
  have "sz + (2 + (n - sz - 2)) = n"
    by simp
  then show ?thesis
    using True absorb_owned_head [OF assms(2), of n] by (simp add: taken_def)
qed (simp add: taken_def absorb_owned_head [OF assms(2)])


section \<open>Properties\<close>

text \<open>
  C4. On a well-formed heap \<open>brickos_malloc\<close> returns, for every size. It is first fit: the blocks afterwards, and the address that is returned, are
  those of \<open>first_fit\<close>, which takes the first free block, merged with the free ones after it, that is longer than the size, splits it when more than
  eight words are left and marks it with the owner \<open>0xfffe\<close>; the heap is well-formed again. Beside the pointer to the first free block only bytes of
  blocks that were free are written, so that no allocated block changes, and the bytes that the caller gets were all in free blocks; the result is 0 when
  nothing fits.
\<close>

theorem malloc_first_fit:
  assumes "heap_ok mm_start mff bs m"
  shows "\<exists>r m1. brickos_malloc mm_start mff sz m = Some (of_nat r, m1) \<and> r = fst (first_fit (half_up sz) (unat mm_start) bs)
    \<and> heap_ok mm_start mff (snd (first_fit (half_up sz) (unat mm_start) bs)) m1
    \<and> only ({unat mff, unat mff + 1} \<union> free_bytes (unat mm_start) bs) m m1
    \<and> (r = 0 \<or> {r..<r + unat sz} \<subseteq> free_bytes (unat mm_start) bs)"
  using assms by (rule malloc_spec)

text \<open>
  C8. On a well-formed heap \<open>brickos_free\<close> returns for the address of any block but the last, and it does one thing to the list of blocks: the
  block is free and has absorbed the free ones right behind it. The heap is well-formed again, and beside the pointer to the first free block only the four bytes of the
  block's header are written.
\<close>

theorem free_refines:
  assumes "heap_ok mm_start mff (xs @ (t, n) # ys) m" "ys \<noteq> []"
  shows "\<exists>m1. brickos_free mm_start mff (mm_start + of_nat (extent xs) + 4) m = Some m1
    \<and> heap_ok mm_start mff (xs @ (0, fst (absorb n ys)) # snd (absorb n ys)) m1
    \<and> only ({unat mff, unat mff + 1} \<union> {unat mm_start + extent xs..<unat mm_start + extent xs + 4}) m m1"
  using assms by (rule free_spec)

text \<open>
  C37. The address that the GUI is told for a program of some size is the one where the program is loaded next: when an allocation succeeds on a well-formed heap
  then the block can be freed again, and a new allocation of the same size gives the same address.
\<close>

theorem malloc_free_malloc:
  assumes "heap_ok mm_start mff bs m" "brickos_malloc mm_start mff sz m = Some (a, m1)" "a \<noteq> 0"
  shows "\<exists>m2 m3. brickos_free mm_start mff a m1 = Some m2 \<and> brickos_malloc mm_start mff sz m2 = Some (a, m3)"
proof -
  let ?p = "unat mm_start" and ?F = "\<lambda>bs. first_fit (half_up sz) (unat mm_start) bs"
  have m1: "a = of_nat (fst (?F bs))" "heap_ok mm_start mff (snd (?F bs)) m1"
    using malloc_spec [OF assms(1), of sz] assms(2) by auto
  then have "fst (?F bs) \<noteq> 0"
    using assms(3) by (intro notI) simp
  then obtain xs n ys where f: "snd (?F bs) = xs @ taken n (half_up sz) @ ys" "fst (?F bs) = ?p + extent xs + 4" "half_up sz < n" "owned_head ys" "ys \<noteq> []"
    "?F (xs @ (0, n) # ys) = ?F bs"
    using first_fit_split [of "half_up sz" ?p bs] assms(1) by (auto simp: heap_ok_def)
  obtain l rest where t: "taken n (half_up sz) = (0xfffe, l) # rest" "absorb l (rest @ ys) = (n, ys)"
    using untake [OF f(3,4)] by blast
  have "a = mm_start + of_nat (extent xs) + 4"
    using m1(1) f(2) by simp
  moreover have h1: "heap_ok mm_start mff (xs @ (0xfffe, l) # rest @ ys) m1"
    using m1(2) unfolding f(1) t(1) by simp
  moreover have "rest @ ys \<noteq> []"
    using f(5) by simp
  ultimately obtain m2 where m2: "brickos_free mm_start mff a m1 = Some m2" "heap_ok mm_start mff (xs @ (0, n) # ys) m2"
    using free_spec [of mm_start mff xs "0xfffe" l "rest @ ys" m1] t(2) by auto
  then show ?thesis
    using malloc_spec [OF m2(2), of sz] m1(1) f(6) by auto
qed

definition heap_ex :: mem where
  "heap_ex = (\<lambda>_. 0)(0xc001 := 7, 0xc003 := 10, 0xc01b := 20, 0xc044 := 0xff, 0xc045 := 0xff, 0xc046 := 0x1f, 0xc047 := 0xdc)"

lemma heap_ex_ok: "heap_ok 0xc000 0x8000 [(7, 10), (0, 20), (0xffff, 0x1fdc)] heap_ex"
  by (simp add: heap_ok_def owned_end_def word_at_def heap_ex_def)

theorem malloc_first_fit_witness:
  "\<exists>m1. brickos_malloc 0xc000 0x8000 15 heap_ex = Some (0xc01c, m1)
    \<and> heap_ok 0xc000 0x8000 [(7, 10), (0xfffe, 8), (0, 10), (0xffff, 0x1fdc)] m1"
proof -
  have "half_up 15 = 8"
    by (simp add: half_up_def)
  then have "first_fit (half_up 15) (unat (0xc000 :: u16)) [(7, 10), (0, 20), (0xffff, 0x1fdc)] = (0xc01c, [(7, 10), (0xfffe, 8), (0, 10), (0xffff, 0x1fdc)])"
    by (simp add: Let_def taken_def)
  then show ?thesis
    using malloc_first_fit [OF heap_ex_ok, of 15] by auto
qed

theorem free_refines_witness:
  "\<exists>m1. brickos_free 0xc000 0x8000 0xc004 heap_ex = Some m1 \<and> heap_ok 0xc000 0x8000 [(0, 32), (0xffff, 0x1fdc)] m1"
  using free_refines [of "0xc000" "0x8000" "[]" 7 10 "[(0, 20), (0xffff, 0x1fdc)]" heap_ex] heap_ex_ok by auto

theorem malloc_free_malloc_witness:
  "\<exists>m1 m2 m3. brickos_malloc 0xc000 0x8000 15 heap_ex = Some (0xc01c, m1) \<and> brickos_free 0xc000 0x8000 0xc01c m1 = Some m2
    \<and> brickos_malloc 0xc000 0x8000 15 m2 = Some (0xc01c, m3)"
proof -
  obtain m1 where m1: "brickos_malloc 0xc000 0x8000 15 heap_ex = Some (0xc01c, m1)"
    using malloc_spec [OF heap_ex_ok, of 15] by (auto simp: half_up_def Let_def taken_def)
  from malloc_free_malloc [OF heap_ex_ok m1] m1 show ?thesis
    by simp
qed

end
