(* ===== verification/Reports.thy ===== *)
theory Reports
  imports Savefile
begin

text \<open>
  The reports that the emulator prints: the stack trace and the profile of \<^verbatim>\<open>frame.c\<close> and the state of the processor, \<open>dump_state\<close> of
  \<^verbatim>\<open>h8300.c\<close>. A report is its text; looking up the names of functions reorders the symbols. The profile is written to a file.
\<close>

section \<open>Formatting\<close>

text \<open>A field of a given width, \<open>%04x\<close>, \<open>%5d\<close> and the like; \<open>%x\<close> shows an \<open>int\<close> as an unsigned 32-bit number.\<close>

definition pad :: "nat \<Rightarrow> char \<Rightarrow> string \<Rightarrow> string" where
  "pad w c s = replicate (w - length s) c @ s"

definition fmt_x :: "int \<Rightarrow> string" where
  "fmt_x k = put_hex (nat (k mod 2 ^ 32))"

definition fmt_04x :: "int \<Rightarrow> string" where
  "fmt_04x k = pad 4 (CHR ''0'') (fmt_x k)"

definition fmt_d :: "nat \<Rightarrow> int \<Rightarrow> string" where
  "fmt_d w k = pad w (CHR '' '') (print_int k)"

abbreviation newline :: string where
  "newline \<equiv> [CHR 0x0A]"

text \<open>A function is shown by its name, or by its address when it has none.\<close>

definition show_name :: "int \<Rightarrow> string option \<Rightarrow> string" where
  "show_name a name = pad 30 (CHR '' '') (case name of None \<Rightarrow> ''0x'' @ fmt_04x a | Some s \<Rightarrow> s)"

section \<open>The stack trace\<close>

definition stack_line :: "u16 \<times> string \<times> u16 \<times> int \<Rightarrow> string" where
  "stack_line = (\<lambda>(fp, name, fpc, off).
     ''    '' @ fmt_04x (uint fp) @ '': '' @ pad 30 (CHR '' '') name @ '' ['' @ fmt_04x (uint fpc) @ ''+'' @ fmt_04x off @ '']'' @ newline)"

definition stack_text :: "u16 \<Rightarrow> machine \<Rightarrow> (string \<times> machine) option" where
  "stack_text fp m =
     map_option (\<lambda>(ls, tree). (concat (map stack_line ls), m\<lparr>m_syms := tree\<rparr>))
       (frame_dump_stack (m_mem m) (pc (m_cpu m)) (GET_REG16 7 (m_cpu m)) fp (m_frame m) (m_syms m))"

section \<open>The state of the processor\<close>

definition register_line :: "cpu \<Rightarrow> nat \<Rightarrow> string" where
  "register_line c i =
     ''  R'' @ print_dec i @ '': '' @ print_hex2 (reg c ! i) @ print_hex2 (reg c ! (i + 8)) @ '' ('' @ fmt_d 3 (uint (reg c ! i)) @ '':''
       @ fmt_d 3 (uint (reg c ! (i + 8))) @ '' == '' @ fmt_d 5 (uint (GET_REG16 i c)) @ '')'' @ newline"

definition ccr_text :: "u8 \<Rightarrow> string" where
  "ccr_text f = map (\<lambda>(i, c). if bit f i then c else CHR ''.'')
     [(7, CHR ''I''), (6, CHR ''-''), (5, CHR ''H''), (4, CHR ''-''), (3, CHR ''N''), (2, CHR ''Z''), (1, CHR ''V''), (0, CHR ''C'')]"

definition fmt_cycles :: "u64 \<Rightarrow> string" where
  "fmt_cycles n = pad 12 (CHR '' '') (print_dec (unat n))"

definition code_line :: "machine \<Rightarrow> string" where
  "code_line m =
    (let a = pc (m_cpu m);
         four = (\<lambda>f. print_hex2 (f a) @ print_hex2 (f (a + 1)) @ '' '' @ print_hex2 (f (a + 2)) @ print_hex2 (f (a + 3)))
     in fmt_04x (uint a) @ '':  '' @ four (m_mem m) @ ''   ['' @ four (m_type m) @ '']'' @ newline)"

definition state_text :: "machine \<Rightarrow> (string \<times> machine) option" where
  "state_text m =
    (let c = m_cpu m; b = m_bus m
     in if 0xfffc < pc c then None
        else
          map_option (\<lambda>(s, m1).
            (concat (map (register_line c) [0..<8])
             @ ''  PC: '' @ fmt_04x (uint (pc c)) @ ''   ccr: '' @ ccr_text (ccr c) @ ''  cycles: '' @ fmt_cycles (cycles b) @ ''->''
             @ fmt_cycles (if bit (ccr c) 7 then next_nmi_cycle b else next_timer_cycle b) @ newline
             @ ''trap: '' @ pad 2 (CHR ''0'') (fmt_x (db_trap c)) @ newline @ code_line m @ ''Stack Trace:'' @ newline @ s, m1))
            (stack_text (GET_REG16 7 c) m))"

section \<open>The profile\<close>

definition mark :: "bool \<Rightarrow> string" where
  "mark i = (if i then ''I:'' else ''  '')"

fun frame_dump_callee :: "u32 \<times> callee_info \<Rightarrow> symbol \<Rightarrow> string \<times> symbol" where
  "frame_dump_callee (key, callee) tree =
    (let a = key AND NOT 1; (name, tree1) = symbols_get (ucast a, 0) tree
     in (''    '' @ mark (bit key 0) @ show_name (uint a) name @ '': '' @ pad 6 (CHR '' '') (print_dec (unat (ci_calls callee)))
         @ '' calls '' @ fmt_cycles (ci_cycles callee) @ '' cycles'' @ newline, tree1))"

fun dump_all :: "('a \<Rightarrow> symbol \<Rightarrow> string \<times> symbol) \<Rightarrow> 'a list \<Rightarrow> symbol \<Rightarrow> string \<times> symbol" where
  "dump_all f [] tree = ([], tree)"
| "dump_all f (x # xs) tree =
    (let (s, tree1) = f x tree; (r, tree2) = dump_all f xs tree1 in (s @ r, tree2))"

definition function_line :: "u16 \<Rightarrow> profile_info \<Rightarrow> string option \<Rightarrow> string" where
  "function_line key p name =
     mark (isIRQ p \<noteq> 0) @ show_name (uint key) name @ '': ''
     @ (if pcalls p \<noteq> 0 then
          fmt_cycles (ucast (pcalls p)) @ '' '' @ fmt_cycles (local_cycles p) @ '' '' @ fmt_cycles (total_cycles p) @ '' ''
          @ fmt_cycles (local_cycles p div ucast (pcalls p)) @ '' '' @ fmt_cycles (total_cycles p div ucast (pcalls p)) @ '' ''
          @ fmt_cycles (max_local_cycles p) @ '' '' @ fmt_cycles (max_total_cycles p) @ '' '' @ fmt_cycles (irq_cycles p)
        else ''never finished'') @ newline"

definition frame_dump_function :: "u16 \<Rightarrow> profile_info \<Rightarrow> symbol \<Rightarrow> string \<times> symbol" where
  "frame_dump_function key p tree =
    (let (name, tree1) = symbols_get (key, 0) tree; (s, tree2) = dump_all frame_dump_callee (hash_enumerate (callees p)) tree1
     in (function_line key p name @ s @ newline, tree2))"

definition dump_profile :: "(u16 \<Rightarrow> profile_info option) \<Rightarrow> u16 \<Rightarrow> symbol \<Rightarrow> string \<times> symbol" where
  "dump_profile profs key tree = (case profs key of None \<Rightarrow> ([], tree) | Some p \<Rightarrow> frame_dump_function key p tree)"

definition opcode_line :: "frame_st \<Rightarrow> nat \<Rightarrow> string" where
  "opcode_line F i =
     ''Opcode '' @ print_hex2 (of_nat i) @ '': '' @ pad 10 (CHR '' '') (print_dec (unat (frame_asmopcstat F (of_nat i)))) @ ''/''
       @ pad 10 (CHR '' '') (print_dec (unat (frame_opcstat F (of_nat i)))) @ newline"

definition profile_head :: string where
  "profile_head = '' PC :  function name                   count       cycles      +child    cyc/call      +child     max cyc      +child   irqcycles''
     @ newline @ replicate 129 (CHR ''='') @ newline"

definition frame_dump_profile :: "machine \<Rightarrow> machine option" where
  "frame_dump_profile m =
     map_option (\<lambda>F.
       let (s, tree) = dump_all (dump_profile (profiles F)) (map of_nat [0..<65536]) (m_syms m);
           report = profile_head @ s @ newline @ newline @ concat (map (opcode_line F) [0..<256])
       in m\<lparr>m_frame := F, m_syms := tree, m_files := (m_files m)(''profile.txt'' \<mapsto> map byte_of report)\<rparr>)
       (frame_close_threads (cycles (m_bus m)) (m_frame m))"

section \<open>What the profile shows\<close>

text \<open>
  An item of a report that asks the symbol table for names: its text depends only on the names, not on the shape of the tree, and the symbols stay
  the same.
\<close>

locale report =
  fixes f :: "'a \<Rightarrow> symbol \<Rightarrow> string \<times> symbol"
    and g :: "(symkey \<Rightarrow> string option) \<Rightarrow> 'a \<Rightarrow> string"
  assumes text_of_names: "Symbols.sym_ok t \<Longrightarrow> fst (f x t) = g (sym_lookup t) x"
    and symbols_kept: "symbols_iterate (snd (f x t)) = symbols_iterate t"
begin

lemma kept_ok: "Symbols.sym_ok (snd (f x t)) = Symbols.sym_ok t"
  by (simp add: Symbols.sym_ok_def symbols_kept)

lemma kept_lookup: "Symbols.sym_ok t \<Longrightarrow> sym_lookup (snd (f x t)) = sym_lookup t"
  by (simp add: sym_lookup_map kept_ok symbols_kept)

lemma dump_all_kept: "symbols_iterate (snd (dump_all f xs t)) = symbols_iterate t"
  by (induction xs arbitrary: t) (simp_all add: case_prod_beta symbols_kept)

lemma dump_all_text: "Symbols.sym_ok t \<Longrightarrow> fst (dump_all f xs t) = concat (map (g (sym_lookup t)) xs)"
  by (induction xs arbitrary: t) (simp_all add: case_prod_beta text_of_names kept_ok kept_lookup)

end

text \<open>Every symbol lookup of a report is one of these.\<close>

lemma get_kept: "symbols_iterate (snd (symbols_get k t)) = symbols_iterate t"
  by (simp add: symbols_get_def inorder_splay)

lemma get_ok: "Symbols.sym_ok (snd (symbols_get k t)) = Symbols.sym_ok t"
  by (simp add: Symbols.sym_ok_def get_kept)

lemma get_lookup: "Symbols.sym_ok t \<Longrightarrow> sym_lookup (snd (symbols_get k t)) = sym_lookup t"
  by (simp add: sym_lookup_map get_ok get_kept)

fun callee_line :: "(symkey \<Rightarrow> string option) \<Rightarrow> u32 \<times> callee_info \<Rightarrow> string" where
  "callee_line names (key, callee) =
     ''    '' @ mark (bit key 0) @ show_name (uint (key AND NOT 1)) (names (ucast (key AND NOT 1), 0)) @ '': ''
       @ pad 6 (CHR '' '') (print_dec (unat (ci_calls callee))) @ '' calls '' @ fmt_cycles (ci_cycles callee) @ '' cycles'' @ newline"

interpretation callee_report: report frame_dump_callee callee_line
proof
  fix t x
  show "fst (frame_dump_callee x t) = callee_line (sym_lookup t) x" if "Symbols.sym_ok t"
    by (cases x) (simp add: Let_def case_prod_beta sym_lookup_def)
  show "symbols_iterate (snd (frame_dump_callee x t)) = symbols_iterate t"
    by (cases x) (simp add: Let_def case_prod_beta get_kept)
qed

definition profile_lines :: "(u16 \<Rightarrow> profile_info option) \<Rightarrow> (symkey \<Rightarrow> string option) \<Rightarrow> u16 \<Rightarrow> string" where
  "profile_lines profs names key =
    (case profs key of
       None \<Rightarrow> []
     | Some p \<Rightarrow> function_line key p (names (key, 0)) @ concat (map (callee_line names) (hash_enumerate (callees p))) @ newline)"

interpretation profile_report: report "dump_profile profs" "profile_lines profs" for profs
proof
  fix t x
  show "fst (dump_profile profs x t) = profile_lines profs (sym_lookup t) x" if "Symbols.sym_ok t"
    using that by (simp add: dump_profile_def profile_lines_def frame_dump_function_def case_prod_beta callee_report.dump_all_text get_ok get_lookup
        sym_lookup_def [symmetric] split: option.split)
  show "symbols_iterate (snd (dump_profile profs x t)) = symbols_iterate t"
    by (simp add: dump_profile_def frame_dump_function_def case_prod_beta callee_report.dump_all_kept get_kept split: option.split)
qed

text \<open>
  The profile that is left in \<^verbatim>\<open>profile.txt\<close> lists every function that was called, in the order of the addresses, each with its figures after the open
  calls were closed, followed by the functions it called; and then the counts of the opcodes. Only the names of the symbols matter for it: the
  lookups reorder the tree all the time, and the symbols are the same in the end.
\<close>

theorem profile_listing:
  assumes "Symbols.sym_ok (m_syms m)" "frame_close_threads (cycles (m_bus m)) (m_frame m) = Some F"
  shows "\<exists>m1. frame_dump_profile m = Some m1 \<and> symbols_iterate (m_syms m1) = symbols_iterate (m_syms m) \<and> m_frame m1 = F
    \<and> m_files m1 ''profile.txt'' = Some (map byte_of (profile_head
        @ concat (map (profile_lines (profiles F) (sym_lookup (m_syms m))) (map of_nat [0..<65536]))
        @ newline @ newline @ concat (map (opcode_line F) [0..<256])))"
  using assms by (simp only: frame_dump_profile_def option.map case_prod_beta Let_def profile_report.dump_all_text)
    (simp add: profile_report.dump_all_kept)

definition report_ex :: machine where
  "report_ex = quiet_ex\<lparr>m_syms := symbols_add (0x8000, 0) ''_main'' Null,
     m_frame := (frame_init (m_frame quiet_ex))\<lparr>profiles := [0x8000 \<mapsto> new_profile\<lparr>pcalls := 1\<rparr>]\<rparr>\<rparr>"

theorem profile_listing_witness:
  "\<exists>m1. frame_dump_profile report_ex = Some m1 \<and> symbols_iterate (m_syms m1) = [((0x8000, 0), ''_main'')]
    \<and> m_files m1 ''profile.txt'' = Some (map byte_of (profile_head
        @ concat (map (profile_lines [0x8000 \<mapsto> new_profile\<lparr>pcalls := 1\<rparr>] [(0x8000, 0) \<mapsto> ''_main'']) (map of_nat [0..<65536]))
        @ newline @ newline @ concat (map (opcode_line (m_frame report_ex)) [0..<256])))"
proof -
  have s: "m_syms report_ex = Sym Null (0x8000, 0) ''_main'' Null"
    by (simp add: report_ex_def symbols_add_def splay_def)
  have ok: "Symbols.sym_ok (m_syms report_ex)"
    by (simp add: s Symbols.sym_ok_def)
  have l: "sym_lookup (m_syms report_ex) = [(0x8000, 0) \<mapsto> ''_main'']"
    by (subst sym_lookup_map [OF ok]) (simp add: s)
  have c: "frame_close_threads (cycles (m_bus report_ex)) (m_frame report_ex) = Some (m_frame report_ex)"
    by (simp add: report_ex_def frame_close_threads_def frame_init_def hash_enumerate_def hash_init_def)
  have p: "profiles (m_frame report_ex) = [0x8000 \<mapsto> new_profile\<lparr>pcalls := 1\<rparr>]"
    by (simp add: report_ex_def)
  have i: "symbols_iterate (m_syms report_ex) = [((0x8000, 0), ''_main'')]"
    by (simp add: s)
  show ?thesis
    using profile_listing [OF ok c] unfolding l p i by blast
qed

end
