(* ===== verification/Brickos.thy ===== *)
theory Brickos
  imports BrickosHeap Reports
begin

text \<open>
  The commands of the GUI for a brickOS kernel, the rest of \<^verbatim>\<open>brickos.c\<close>: showing its memory, threads and programs and loading a program. What is
  the same in \<^verbatim>\<open>bibo.c\<close> takes the allocation functions as arguments. The dumps go to the standard output and are returned as their text; messages on the
  standard error output are left out. \<open>None\<close> is an access outside the memory or a buffer, a loop that does not end, a number that \<open>atoi\<close> cannot represent, or
  input that does not come.
\<close>

section \<open>Bytes in memory\<close>

definition peek8 :: "mem \<Rightarrow> nat \<Rightarrow> u8 option" where
  "peek8 m a = (if a < 0x10000 then Some (m (of_nat a)) else None)"

definition poke8 :: "nat \<Rightarrow> u8 \<Rightarrow> mem \<Rightarrow> mem option" where
  "poke8 a v m = mem_write m a [v]"

fun poke_words :: "nat \<Rightarrow> (nat \<times> u16) list \<Rightarrow> mem \<Rightarrow> mem option" where
  "poke_words a [] m = Some m"
| "poke_words a ((off, v) # ws) m = Option.bind (poke16 (a + off) v m) (poke_words a ws)"

text \<open>A \<open>char\<close> is signed.\<close>

definition schar :: "char \<Rightarrow> int" where
  "schar c = (let k = of_char c in if k < 128 then k else k - 256)"

section \<open>The memory\<close>

definition owner_name :: "u16 \<Rightarrow> string" where
  "owner_name type =
    (if type = 0xffff then ''RESERVED''
     else if type = 0 then ''FREE''
     else if type = 1 then ''OWNED''
     else if type = 0xfffe then ''BEAMED_PROGRAM''
     else ''THR '' @ fmt_04x (uint type))"

definition block_line :: "int \<Rightarrow> int \<Rightarrow> u16 \<Rightarrow> string" where
  "block_line a n type = ''Block '' @ fmt_04x a @ '' len '' @ fmt_d 5 n @ '', owner '' @ owner_name type @ newline"

partial_function (option) dump_blocks :: "u16 \<Rightarrow> u16 \<Rightarrow> mem \<Rightarrow> string option" where
  "dump_blocks mm_start ptr m =
    (if ptr < mm_start then Some []
     else
       Option.bind (peek16 m (unat ptr)) (\<lambda>type.
       Option.bind (peek16 m (unat ptr + 2)) (\<lambda>len.
       Option.bind (dump_blocks mm_start (ptr + 4 + 2 * len) m) (\<lambda>rest.
         Some (block_line (uint ptr + 4) (2 * uint len) type @ rest)))))"

definition stars :: string where
  "stars = replicate 33 (CHR ''*'') @ newline"

definition brickos_dump_memory :: "machine \<Rightarrow> string option" where
  "brickos_dump_memory m =
    (let mm_start = symbols_getaddr ''_mm_start'' (m_syms m)
     in if mm_start = 0 then Some []
        else map_option (\<lambda>s. ''****** BrickOS Memory Dump ******'' @ newline @ s @ stars) (dump_blocks mm_start mm_start (m_mem m)))"

section \<open>The threads\<close>

definition flag_char :: "u8 \<Rightarrow> nat \<Rightarrow> char \<Rightarrow> char" where
  "flag_char flags i c = (if bit flags i then c else CHR ''-'')"

definition thread_line :: "u16 \<Rightarrow> u16 \<Rightarrow> mem \<Rightarrow> string option" where
  "thread_line ctid tid m =
     Option.bind (peek8 m (unat tid + 2)) (\<lambda>state.
     Option.bind (peek8 m (unat tid + 3)) (\<lambda>flags.
     Option.bind (peek16 m (unat tid + 12)) (\<lambda>stackbase.
     Option.bind (peek16 m (unat tid + 10)) (\<lambda>parent.
     Option.bind (peek16 m (unat tid)) (\<lambda>sp.
       Some (''  Thread '' @ fmt_04x (uint tid) @ '': parent '' @ fmt_04x (uint parent) @ '' state '' @ [''KZWSR?'' ! min (unat state) 5] @ '', flags ''
         @ [flag_char flags 7 (CHR ''S''), flag_char flags 2 (CHR ''I''), flag_char flags 1 (CHR ''U''), flag_char flags 0 (CHR ''K'')]
         @ '' stack(@'' @ fmt_04x (uint stackbase) @ '' '' @ fmt_04x (uint sp - uint stackbase) @ '' free)''
         @ (if tid = ctid then '' CURRENT'' else []) @ newline))))))"

text \<open>The threads of a queue form a ring, which is left at \<open>stid\<close>.\<close>

partial_function (option) dump_ring :: "u16 \<Rightarrow> u16 \<Rightarrow> u16 \<Rightarrow> mem \<Rightarrow> string option" where
  "dump_ring ctid stid tid m =
     Option.bind (thread_line ctid tid m) (\<lambda>s.
       if tid = stid then Some s
       else
         Option.bind (peek16 m (unat tid + 6)) (\<lambda>tid1.
         Option.bind (dump_ring ctid stid tid1 m) (\<lambda>rest. Some (s @ rest))))"

partial_function (option) dump_queues :: "u16 \<Rightarrow> u16 \<Rightarrow> mem \<Rightarrow> string option" where
  "dump_queues ctid prio m =
    (if prio = 0 then Some []
     else
       Option.bind (peek8 m (unat prio)) (\<lambda>p.
       Option.bind (peek16 m (unat prio + 6)) (\<lambda>stid.
       Option.bind (peek16 m (unat stid + 6)) (\<lambda>tid.
       Option.bind (dump_ring ctid stid tid m) (\<lambda>s.
       Option.bind (peek16 m (unat prio + 2)) (\<lambda>prio1.
       Option.bind (dump_queues ctid prio1 m) (\<lambda>rest.
         Some (''Priority Queue '' @ fmt_04x (uint prio) @ '':  Prio '' @ fmt_d 3 (uint p) @ newline @ s @ rest))))))))"

definition brickos_dump_threads :: "machine \<Rightarrow> string option" where
  "brickos_dump_threads m =
    (let priority_head = symbols_getaddr ''_priority_head'' (m_syms m); ctid = symbols_getaddr ''_ctid'' (m_syms m)
     in if priority_head = 0 then Some []
        else
          Option.bind (peek16 (m_mem m) (unat priority_head)) (\<lambda>prio.
            map_option (\<lambda>s. ''****** BrickOS Thread Dump ******'' @ newline @ s @ stars) (dump_queues ctid prio (m_mem m))))"

section \<open>The programs\<close>

definition program_text :: "nat \<Rightarrow> (nat \<Rightarrow> u16) \<Rightarrow> u8 \<Rightarrow> string" where
  "program_text i w prio =
     ''Program '' @ print_dec i @ '': size '' @ fmt_04x (uint (w 8) + 2 * uint (w 10) + uint (w 12)) @ '' ('' @ fmt_04x (uint (w 8) + uint (w 10))
     @ '' text+data) stack_size '' @ fmt_04x (uint (w 14)) @ '' downloaded '' @ fmt_04x (uint (w 20)) @ newline
     @ ''   text '' @ fmt_04x (uint (w 0)) @ ''-'' @ fmt_04x (uint (w 0) + uint (w 8)) @ '' data '' @ fmt_04x (uint (w 2)) @ ''-'' @ fmt_04x (uint (w 2) + uint (w 10))
     @ '' bss '' @ fmt_04x (uint (w 4)) @ ''-'' @ fmt_04x (uint (w 4) + uint (w 12)) @ '' start '' @ fmt_04x (uint (w 16)) @ '', pio '' @ print_int (uint prio) @ newline"

definition program_line :: "nat \<Rightarrow> u16 \<Rightarrow> mem \<Rightarrow> string option" where
  "program_line i prog m =
     Option.bind (peek16 m (unat prog + 8)) (\<lambda>text_size.
       if text_size = 0 then Some []
       else if unat prog + 21 < 0x10000 then
         Some (program_text i (\<lambda>k. word_at m (unat prog + k)) (m (of_nat (unat prog + 18))))
       else None)"

fun program_lines :: "u16 \<Rightarrow> nat list \<Rightarrow> mem \<Rightarrow> string option" where
  "program_lines programs [] m = Some []"
| "program_lines programs (i # is) m =
     Option.bind (program_line i (programs + of_nat (i * 22)) m) (\<lambda>s. map_option (append s) (program_lines programs is m))"

definition dump_programs :: "string \<Rightarrow> machine \<Rightarrow> string option" where
  "dump_programs title m =
    (let programs = symbols_getaddr ''_programs'' (m_syms m)
     in if programs = 0 then Some []
        else
          map_option (\<lambda>s. title @ newline @ s @ replicate 34 (CHR ''*'') @ newline) (program_lines programs [0..<8] (m_mem m)))"

definition brickos_dump_programs :: "machine \<Rightarrow> string option" where
  "brickos_dump_programs = dump_programs ''****** BrickOS Program Dump ******''"

section \<open>Loading a program\<close>

type_synonym allocator = "u16 \<Rightarrow> u16 \<Rightarrow> u16 \<Rightarrow> mem \<Rightarrow> (u16 \<times> mem) option"
type_synonym releaser = "u16 \<Rightarrow> u16 \<Rightarrow> u16 \<Rightarrow> mem \<Rightarrow> mem option"

text \<open>The header of a COFF file gives the one of an LX file; two fields stay uninitialised.\<close>

definition coff_program_header :: "(nat \<Rightarrow> u8) \<Rightarrow> u8 list \<Rightarrow> lx_header" where
  "coff_program_header g file =
    (let a = coff_aouthdr_of (fread_into file 20 28 (uninit g 28)); u = uninit g 16; base = ucast (ao_text_start a) :: u16
     in \<lparr>lx_version = be16 u 0, lx_base = base, lx_text_size = ucast (ao_tsize a), lx_data_size = ucast (ao_dsize a),
         lx_bss_size = ucast (ao_bsize a), lx_stack_size = 1024, lx_offset = ucast (ao_entry a) - base, lx_num_relocs = be16 u 14\<rparr>)"

definition program_header :: "(nat \<Rightarrow> u8) \<Rightarrow> u8 list \<Rightarrow> (bool \<times> lx_header) option" where
  "program_header g file =
    (if coff_init g file then Some (True, coff_program_header g file)
     else map_option (Pair False) (lx_init g file (uninit g 16)))"

text \<open>The entry of the program in the kernel's table, up to the number of bytes that are loaded.\<close>

definition entry_words :: "u16 \<Rightarrow> lx_header \<Rightarrow> (nat \<times> u16) list" where
  "entry_words text h =
    (let t = lx_text_size h; d = lx_data_size h; b = lx_bss_size h
     in [(0, text), (2, text + t), (4, text + t + d), (6, text + t + d + b), (8, t), (10, d), (12, b), (14, lx_stack_size h), (16, lx_offset h)])"

definition program_entry :: "u16 \<Rightarrow> u16 \<Rightarrow> lx_header \<Rightarrow> mem \<Rightarrow> mem option" where
  "program_entry prog text h m = Option.bind (poke_words (unat prog) (entry_words text h) m) (poke8 (unat prog + 18) 10)"

definition program_image :: "bool \<Rightarrow> lx_header \<Rightarrow> u16 \<Rightarrow> u8 list \<Rightarrow> machine \<Rightarrow> machine option" where
  "program_image isCoff h text file m =
    (let g = m_junk m
     in if isCoff then
          Option.bind (coff_read g file (m_mem m)) (\<lambda>(_, mem1).
            map_option (\<lambda>tree. m\<lparr>m_mem := mem1, m_syms := tree\<rparr>) (coff_symbols g file (m_syms m)))
        else map_option (\<lambda>mem1. m\<lparr>m_mem := mem1\<rparr>) (lx_read g file h (unat text) (m_mem m)))"

text \<open>The area without data is cleared and the data are kept a second time behind it.\<close>

definition program_data :: "u16 \<Rightarrow> lx_header \<Rightarrow> mem \<Rightarrow> mem option" where
  "program_data text h m =
    (let d = unat text + unat (lx_text_size h); n = unat (lx_data_size h); b = unat (lx_bss_size h)
     in Option.bind (mem_write m (d + n) (replicate b 0)) (\<lambda>m1.
          mem_write m1 (d + n + b) (map (\<lambda>i. m1 (of_nat (d + i))) [0..<n])))"

definition program_place :: "bool \<Rightarrow> lx_header \<Rightarrow> u16 \<Rightarrow> u16 \<Rightarrow> u8 list \<Rightarrow> machine \<Rightarrow> machine option" where
  "program_place isCoff h prog text file m =
     Option.bind (program_entry prog text h (m_mem m)) (\<lambda>mem1.
     Option.bind (program_image isCoff h text file (m\<lparr>m_mem := mem1\<rparr>)) (\<lambda>m2.
     Option.bind (program_data text h (m_mem m2)) (\<lambda>mem3.
       map_option (\<lambda>mem4. m2\<lparr>m_mem := mem4\<rparr>) (poke16 (unat prog + 20) (lx_text_size h + lx_data_size h) mem3))))"

definition free_program :: "releaser \<Rightarrow> u16 \<Rightarrow> u16 \<Rightarrow> u16 \<Rightarrow> mem \<Rightarrow> (bool \<times> mem) option" where
  "free_program free_fn mm_start mm_first_free prog m =
     Option.bind (peek16 m (unat prog + 8)) (\<lambda>text_size.
       if text_size = 0 then Some (False, m)
       else Option.bind (peek16 m (unat prog)) (\<lambda>a. map_option (Pair True) (free_fn mm_start mm_first_free a m)))"

definition program_load :: "allocator \<Rightarrow> releaser \<Rightarrow> u16 \<Rightarrow> u16 \<Rightarrow> u16 \<Rightarrow> bool \<Rightarrow> lx_header \<Rightarrow> u8 list \<Rightarrow> machine \<Rightarrow> machine option" where
  "program_load malloc_fn free_fn mm_start mm_first_free prog isCoff h file m =
     Option.bind (free_program free_fn mm_start mm_first_free prog (m_mem m)) (\<lambda>(_, mem1).
     Option.bind (malloc_fn mm_start mm_first_free (lx_text_size h + 2 * lx_data_size h + lx_bss_size h) mem1) (\<lambda>(text, mem2).
       if text = 0 then Some (m\<lparr>m_mem := mem2\<rparr>)
       else if isCoff \<and> text \<noteq> lx_base h then map_option (\<lambda>mem3. m\<lparr>m_mem := mem3\<rparr>) (free_fn mm_start mm_first_free text mem2)
       else program_place isCoff h prog text file (m\<lparr>m_mem := mem2\<rparr>)))"

definition program_slot :: "u16 \<Rightarrow> char \<Rightarrow> u16" where
  "program_slot programs c = programs + of_int (22 * (schar c - 48))"

definition load_program :: "allocator \<Rightarrow> releaser \<Rightarrow> machine \<Rightarrow> machine option" where
  "load_program malloc_fn free_fn m =
    (let programs = symbols_getaddr ''_programs'' (m_syms m);
         mm_start = symbols_getaddr ''_mm_start'' (m_syms m);
         mm_first_free = symbols_getaddr ''_mm_first_free'' (m_syms m)
     in case gui_in m of
          [] \<Rightarrow> None
        | c # inp \<Rightarrow>
            Option.bind (read_line inp) (\<lambda>(filename, rest).
              let m1 = m\<lparr>gui_in := rest\<rparr>
              in if mm_start = 0 \<or> programs = 0 then Some m1
                 else
                   (case m_files m1 filename of
                      None \<Rightarrow> Some m1
                    | Some file \<Rightarrow>
                        (case program_header (m_junk m1) file of
                           None \<Rightarrow> Some m1
                         | Some (isCoff, h) \<Rightarrow>
                             program_load malloc_fn free_fn mm_start mm_first_free (program_slot programs c) isCoff h file m1))))"

definition brickos_load_program :: "machine \<Rightarrow> machine option" where
  "brickos_load_program = load_program brickos_malloc brickos_free"

section \<open>Other commands\<close>

definition host_digit :: "char \<Rightarrow> int" where
  "host_digit c = (if schar c > 97 then schar c - 97 + 10 else if schar c > 65 then schar c - 65 + 10 else schar c - 48)"

definition sethostaddr :: "machine \<Rightarrow> machine option" where
  "sethostaddr m =
    (let lnp_hostaddr = symbols_getaddr ''_lnp_hostaddr'' (m_syms m)
     in case gui_in m of
          [] \<Rightarrow> None
        | c # rest \<Rightarrow>
            let m1 = m\<lparr>gui_in := rest\<rparr>
            in Some (if c = CHR ''?'' then
                       m1\<lparr>m_bus := gui_write (''ON'' @ (if lnp_hostaddr \<noteq> 0 then fmt_x (uint (m_mem m1 lnp_hostaddr) div 16) else ''?'') @ newline) (m_bus m1)\<rparr>
                     else if lnp_hostaddr = 0 then m1
                     else m1\<lparr>m_mem := (m_mem m1)(lnp_hostaddr := of_int (host_digit c * 16))\<rparr>))"

definition checkos :: "machine \<Rightarrow> machine" where
  "checkos m = m\<lparr>m_bus := gui_write (''OO'' @ (if symbols_getaddr ''_mm_start'' (m_syms m) \<noteq> 0 then ''1'' else ''0'') @ newline) (m_bus m)\<rparr>"

text \<open>At most 20 bytes are read for a line; its last byte becomes the end of the string, and what follows was never written.\<close>

definition read_short_line :: "(nat \<Rightarrow> u8) \<Rightarrow> string \<Rightarrow> (string \<times> string) option" where
  "read_short_line g inp =
    (let n = min 20 (length (takeWhile (\<lambda>c. c \<noteq> CHR 0x0A \<and> c \<noteq> CHR 0x0D) inp) + 1)
     in if length inp < n then None
        else Some (take (n - 1) inp @ [NUL] @ drop n (text_of (uninit g 20)), drop n inp))"

definition is_digit :: "char \<Rightarrow> bool" where
  "is_digit c \<longleftrightarrow> 48 \<le> (of_char c :: nat) \<and> (of_char c :: nat) \<le> 57"

definition digits_value :: "string \<Rightarrow> int" where
  "digits_value = foldl (\<lambda>n c. 10 * n + (of_char c - 48)) 0"

text \<open>\<open>atoi\<close> of the string at the start of a buffer.\<close>

definition atoi :: "string \<Rightarrow> int option" where
  "atoi s =
    (let s1 = dropWhile (\<lambda>c. c \<in> set ('' '' @ [CHR 0x09, CHR 0x0A, CHR 0x0B, CHR 0x0C, CHR 0x0D])) s;
         neg = (s1 \<noteq> [] \<and> hd s1 = CHR ''-'');
         s2 = (if s1 \<noteq> [] \<and> (hd s1 = CHR ''-'' \<or> hd s1 = CHR ''+'') then tl s1 else s1);
         ds = takeWhile is_digit s2;
         v = (if neg then - digits_value ds else digits_value ds)
     in if length ds = length s2 \<or> v < - (2 ^ 31) \<or> 2 ^ 31 \<le> v then None else Some v)"

definition newprogram_addr :: "allocator \<Rightarrow> releaser \<Rightarrow> machine \<Rightarrow> machine option" where
  "newprogram_addr malloc_fn free_fn m =
    (let programs = symbols_getaddr ''_programs'' (m_syms m);
         mm_start = symbols_getaddr ''_mm_start'' (m_syms m);
         mm_first_free = symbols_getaddr ''_mm_first_free'' (m_syms m)
     in Option.bind (read_short_line (m_junk m) (gui_in m)) (\<lambda>(buf, rest).
        Option.bind (atoi (tl buf)) (\<lambda>sz.
          let prog = program_slot programs (hd buf);
              reply = (\<lambda>addr mem1. m\<lparr>gui_in := rest, m_mem := mem1, m_bus := gui_write (''OA'' @ fmt_x (uint (addr :: u16)) @ newline) (m_bus m)\<rparr>)
          in if programs \<noteq> 0 \<and> mm_start \<noteq> 0 then
               Option.bind (free_program free_fn mm_start mm_first_free prog (m_mem m)) (\<lambda>(freed, mem1).
               Option.bind (if freed then poke16 (unat prog + 8) 0 mem1 else Some mem1) (\<lambda>mem2.
               Option.bind (malloc_fn mm_start mm_first_free (of_int sz) mem2) (\<lambda>(addr, mem3).
                 map_option (reply addr) (if addr \<noteq> 0 then free_fn mm_start mm_first_free addr mem3 else Some mem3))))
             else Some (reply 0 (m_mem m)))))"

definition brickos_newprogram_addr :: "machine \<Rightarrow> machine option" where
  "brickos_newprogram_addr = newprogram_addr brickos_malloc brickos_free"

section \<open>The commands\<close>

text \<open>The text printed and the machine.\<close>

definition brickos_command :: "machine \<Rightarrow> (string \<times> machine) option" where
  "brickos_command m =
    (case gui_in m of
       [] \<Rightarrow> None
     | c # rest \<Rightarrow>
         let m1 = m\<lparr>gui_in := rest\<rparr>
         in if c \<in> set ''Mm'' then map_option (\<lambda>s. (s, m1)) (brickos_dump_memory m1)
            else if c \<in> set ''Pp'' then map_option (\<lambda>s. (s, m1)) (brickos_dump_programs m1)
            else if c \<in> set ''Oo'' then Some ([], checkos m1)
            else if c \<in> set ''Aa'' then map_option (Pair []) (brickos_newprogram_addr m1)
            else if c \<in> set ''Nn'' then map_option (Pair []) (sethostaddr m1)
            else if c \<in> set ''Tt'' then map_option (\<lambda>s. (s, m1)) (brickos_dump_threads m1)
            else if c \<in> set ''Ll'' then map_option (Pair []) (brickos_load_program m1)
            else Some ([], m1))"

definition brickos_read_fd :: "machine \<Rightarrow> machine option" where
  "brickos_read_fd m = map_option snd (brickos_command m)"

section \<open>What the dump of the memory shows\<close>

fun block_lines :: "nat \<Rightarrow> block list \<Rightarrow> string" where
  "block_lines p [] = []"
| "block_lines p ((t, n) # bs) = block_line (int p + 4) (2 * uint n) t @ block_lines (p + 4 + 2 * unat n) bs"

lemma dump_blocks_lines:
  assumes "blocks m p bs 0x10000" "unat mm_start \<le> p" "mm_start \<noteq> 0"
  shows "dump_blocks mm_start (of_nat p) m = Some (block_lines p bs)"
  using assms(1,2)
proof (induction bs arbitrary: p)
  case Nil
  then have p: "(of_nat p :: u16) = 0"
    by simp
  show ?case
    unfolding p using assms(3) by (subst dump_blocks.simps) (simp add: word_neq_0_conv)
next
  case (Cons b bs)
  obtain t n where b: "b = (t, n)" by (cases b)
  note h = blocks_headD [OF Cons.prems(1) [unfolded b]]
  have u: "unat (of_nat p :: u16) = p"
    using h(4) by (intro unat_addr) simp
  have i: "uint (of_nat p :: u16) = int p"
    by (simp only: uint_int_unat u)
  have "\<not> of_nat p < mm_start"
    using Cons.prems(2) u by (simp only: word_less_nat_alt)
  moreover have "peek16 m p = Some t" "peek16 m (p + 2) = Some n"
    using h by (simp_all add: peek16_def)
  moreover have "dump_blocks mm_start (of_nat (p + 4 + 2 * unat n)) m = Some (block_lines (p + 4 + 2 * unat n) bs)"
    using Cons.IH [OF h(3)] Cons.prems(2) by simp
  ultimately show ?case
    unfolding b by (subst dump_blocks.simps) (simp only: u i if_False bind.bind_lunit next_block block_lines.simps)
qed

section \<open>Loading stays in its block\<close>

lemma only_byte: "only S m m1 \<Longrightarrow> k < 0x10000 \<Longrightarrow> k \<notin> S \<Longrightarrow> m1 (of_nat k) = m (of_nat k)"
  by (simp add: only_def)

lemma mem_write_only:
  assumes "mem_write m a bs = Some m1"
  shows "only {a..<a + length bs} m m1"
  unfolding only_def
proof (intro allI impI)
  fix k :: nat
  assume k: "k < 0x10000" "k \<notin> {a..<a + length bs}"
  show "m1 (of_nat k) = m (of_nat k)"
    using k by (intro mem_write_other [OF assms]) (simp add: unat_addr)
qed

lemma lx_relocs_only:
  assumes "fread file pos (2 * length rs) = concat (map enc16 rs)" "\<forall>r \<in> set rs. unat r + 1 < n" "start + n \<le> 0x10000"
  shows "\<exists>m1. lx_relocs file start base pos (length rs) buf m = Some m1 \<and> only {start..<start + n} m m1"
  using assms(1,2)
proof (induction rs arbitrary: pos buf m)
  case (Cons r rs)
  have all: "take (2 * Suc (length rs)) (drop pos file) = enc16 r @ concat (map enc16 rs)"
    using Cons.prems(1) by (simp add: fread_def)
  have 1: "fread file pos 2 = enc16 r"
    using arg_cong [OF all, of "take 2"] by (simp add: fread_def min_def)
  have 2: "fread file (pos + 2) (2 * length rs) = concat (map enc16 rs)"
    using arg_cong [OF all, of "drop 2"] by (simp add: fread_def drop_take add.commute)
  have r: "unat r + 1 < n" "start + unat r + 1 < 0x10000"
    using Cons.prems(2) assms(3) by auto
  obtain m1 where m1: "lx_reloc start base r m = Some m1"
    "\<forall>a < 0x10000. a \<noteq> start + unat r \<longrightarrow> a \<noteq> start + unat r + 1 \<longrightarrow> m1 (of_nat a) = m (of_nat a)"
    using lx_reloc_effect [OF r(2), of base m] by blast
  have "only {start + unat r, start + unat r + 1} m m1"
    using m1(2) by (simp add: only_def)
  then have "only {start..<start + n} m m1"
    by (rule only_mono) (use r(1) in auto)
  moreover obtain m2 where m2: "lx_relocs file start base (pos + 2) (length rs) (rev (fread_into file pos 2 buf)) m1 = Some m2"
    "only {start..<start + n} m1 m2"
    using Cons.IH [OF 2, of "rev (fread_into file pos 2 buf)" m1] Cons.prems(2) by auto
  ultimately have "only {start..<start + n} m m2"
    using only_again by blast
  then show ?case
    using m1(1) m2(1) by (simp add: Let_def be16_fread_into [OF 1] 1)
qed (simp add: only_refl)

lemma lx_read_only:
  assumes "unat (lx_text_size h) + unat (lx_data_size h) = length img" "unat (lx_num_relocs h) = length rs" "start + length img \<le> 0x10000"
    "\<forall>r \<in> set rs. unat r + 1 < length img"
  shows "\<exists>m1. lx_read g (lx_file h img rs) h start m = Some m1 \<and> only {start..<start + length img} m m1"
proof -
  let ?f = "lx_file h img rs"
  have f1: "fread ?f 24 (length img) = img"
    unfolding lx_file_def by (rule fread_mid) (simp_all add: lx_head_length)
  have f2: "fread ?f (24 + length img) (2 * length rs) = concat (map enc16 rs)"
    using fread_mid [of "lx_head h @ img" "24 + length img" "concat (map enc16 rs)" "2 * length rs" "[]"]
    by (simp add: lx_file_def lx_head_length enc16s_length)
  obtain m1 where m1: "mem_write m start img = Some m1"
    using assms(3) by (simp add: mem_write_def)
  obtain m2 where m2: "lx_relocs ?f start (lx_base h) (24 + length img) (length rs) (uninit g 2) m1 = Some m2" "only {start..<start + length img} m1 m2"
    using lx_relocs_only [OF f2 assms(4,3)] by blast
  then show ?thesis
    using m1 assms(1,2) only_again [OF mem_write_only [OF m1]] by (auto simp: lx_read_def f1 Let_def)
qed

lemma poke_words_effect:
  assumes "sorted_wrt (\<lambda>x y. fst x + 2 \<le> fst y) ws" "\<forall>(off, v) \<in> set ws. a + off + 1 < 0x10000"
  shows "\<exists>m1. poke_words a ws m = Some m1 \<and> (\<forall>(off, v) \<in> set ws. word_at m1 (a + off) = v)
    \<and> only {k. \<exists>(off, v) \<in> set ws. k = a + off \<or> k = a + off + 1} m m1"
  using assms
proof (induction ws arbitrary: m)
  case (Cons w ws)
  obtain off v where w: "w = (off, v)" by (cases w)
  obtain m1 where m1: "poke16 (a + off) v m = Some m1" "word_at m1 (a + off) = v" "only {a + off, a + off + 1} m m1"
    using Cons.prems(2) w by (rule_tac poke16_effect [of "a + off" v m]) auto
  obtain m2 where m2: "poke_words a ws m1 = Some m2" "\<forall>(off, v) \<in> set ws. word_at m2 (a + off) = v"
    "only {k. \<exists>(off, v) \<in> set ws. k = a + off \<or> k = a + off + 1} m1 m2"
    using Cons.IH [of m1] Cons.prems by auto
  have "word_at m2 (a + off) = v"
    using only_word [OF m2(3), of "a + off"] Cons.prems w m1(2) by fastforce
  moreover have "only {k. \<exists>(off, v) \<in> set (w # ws). k = a + off \<or> k = a + off + 1} m m2"
    by (rule only_mono [OF only_trans [OF m1(3) m2(3)]]) (auto simp: w)
  ultimately show ?case
    using m1(1) m2(1,2) w by auto
qed (simp add: only_refl)

lemma program_data_effect:
  assumes "unat text + unat (lx_text_size h) + 2 * unat (lx_data_size h) + unat (lx_bss_size h) \<le> 0x10000"
  defines "d \<equiv> unat text + unat (lx_text_size h)" and "n \<equiv> unat (lx_data_size h)" and "b \<equiv> unat (lx_bss_size h)"
  shows "\<exists>m1. program_data text h m = Some m1 \<and> only {d + n..<d + 2 * n + b} m m1
    \<and> (\<forall>i < b. m1 (of_nat (d + n + i)) = 0) \<and> (\<forall>i < n. m1 (of_nat (d + n + b + i)) = m (of_nat (d + i)))"
proof -
  obtain m1 where m1: "mem_write m (d + n) (replicate b 0) = Some m1"
    using assms by (simp add: mem_write_def)
  let ?c = "map (\<lambda>i. m1 (of_nat (d + i))) [0..<n]"
  obtain m2 where m2: "mem_write m1 (d + n + b) ?c = Some m2"
    using assms by (simp add: mem_write_def)
  have o1: "only {d + n..<d + n + b} m m1" and o2: "only {d + n + b..<d + 2 * n + b} m1 m2"
    using mem_write_only [OF m1] mem_write_only [OF m2] by (simp_all add: algebra_simps mult_2_right)
  have "only {d + n..<d + 2 * n + b} m m2"
    by (rule only_mono [OF only_trans [OF o1 o2]]) auto
  moreover have "m2 (of_nat (d + n + i)) = 0" if "i < b" for i
    using mem_write_read [OF m1, of i] only_byte [OF o2, of "d + n + i"] that assms by (simp del: of_nat_add)
  moreover have "m2 (of_nat (d + n + b + i)) = m (of_nat (d + i))" if "i < n" for i
    using mem_write_read [OF m2, of i] only_byte [OF o1, of "d + i"] that assms by (simp del: of_nat_add)
  ultimately show ?thesis
    using m1 m2 unfolding program_data_def Let_def d_def n_def b_def by auto
qed

text \<open>The entry of a loaded program, and its memory.\<close>

definition entry_ok :: "u16 \<Rightarrow> u16 \<Rightarrow> lx_header \<Rightarrow> mem \<Rightarrow> bool" where
  "entry_ok prog text h m \<longleftrightarrow>
     (\<forall>(off, v) \<in> set (entry_words text h). word_at m (unat prog + off) = v) \<and> m (of_nat (unat prog + 18)) = 10"

definition image_ok :: "u16 \<Rightarrow> lx_header \<Rightarrow> mem \<Rightarrow> bool" where
  "image_ok text h m \<longleftrightarrow>
    (let d = unat text + unat (lx_text_size h); n = unat (lx_data_size h); b = unat (lx_bss_size h)
     in (\<forall>i < b. m (of_nat (d + n + i)) = 0) \<and> (\<forall>i < n. m (of_nat (d + n + b + i)) = m (of_nat (d + i))))"

lemma entry_words_range: "(off, v) \<in> set (entry_words text h) \<Longrightarrow> off \<le> 16"
  by (auto simp: entry_words_def Let_def)

lemma entry_cong:
  assumes "only S m m1" "S \<inter> {unat prog..<unat prog + 20} = {}" "unat prog + 20 \<le> 0x10000" "entry_ok prog text h m"
  shows "entry_ok prog text h m1"
proof -
  have "word_at m1 (unat prog + off) = v" if "(off, v) \<in> set (entry_words text h)" for off v
  proof -
    have "word_at m1 (unat prog + off) = word_at m (unat prog + off)"
      using entry_words_range [OF that] assms(2,3) by (intro only_word [OF assms(1)]) (auto simp: disjoint_iff)
    then show ?thesis
      using assms(4) that by (auto simp: entry_ok_def)
  qed
  moreover have "m1 (of_nat (unat prog + 18)) = m (of_nat (unat prog + 18))"
    using assms(2,3) by (intro only_byte [OF assms(1)]) (auto simp: disjoint_iff)
  ultimately show ?thesis
    using assms(4) by (auto simp: entry_ok_def)
qed

lemma program_entry_effect:
  assumes "unat prog + 20 \<le> 0x10000"
  shows "\<exists>m1. program_entry prog text h m = Some m1 \<and> entry_ok prog text h m1 \<and> only {unat prog..<unat prog + 20} m m1"
proof -
  let ?ws = "entry_words text h" and ?p = "unat prog"
  have "sorted_wrt (\<lambda>x y. fst x + 2 \<le> fst y) ?ws"
    by (simp add: entry_words_def Let_def)
  moreover have "\<forall>(off, v) \<in> set ?ws. ?p + off + 1 < 0x10000"
    using entry_words_range assms by fastforce
  ultimately obtain m1 where m1: "poke_words ?p ?ws m = Some m1" "\<forall>(off, v) \<in> set ?ws. word_at m1 (?p + off) = v"
    "only {k. \<exists>(off, v) \<in> set ?ws. k = ?p + off \<or> k = ?p + off + 1} m m1"
    using poke_words_effect by blast
  obtain m2 where m2: "mem_write m1 (?p + 18) [10] = Some m2"
    using assms by (simp add: mem_write_def)
  have o1: "only {?p..<?p + 18} m m1"
    by (rule only_mono [OF m1(3)]) (auto dest!: entry_words_range)
  have o2: "only {?p + 18} m1 m2"
    by (rule only_mono [OF mem_write_only [OF m2]]) auto
  have "word_at m2 (?p + off) = v" if "(off, v) \<in> set ?ws" for off v
    using only_word [OF o2, of "?p + off"] m1(2) that entry_words_range [OF that] assms by auto
  then have "entry_ok prog text h m2"
    using mem_write_read [OF m2, of 0] by (auto simp: entry_ok_def)
  moreover have "only {?p..<?p + 20} m m2"
    by (rule only_mono [OF only_trans [OF o1 o2]]) auto
  ultimately show ?thesis
    using m1(1) m2 by (simp add: program_entry_def poke8_def)
qed

lemma program_place_effect:
  assumes "unat prog + 22 \<le> unat text"
    and "unat text + unat (lx_text_size h) + 2 * unat (lx_data_size h) + unat (lx_bss_size h) \<le> 0x10000"
    and "unat (lx_text_size h) + unat (lx_data_size h) = length img" "unat (lx_num_relocs h) = length rs" "\<forall>r \<in> set rs. unat r + 1 < length img"
  shows "\<exists>m1. program_place False h prog text (lx_file h img rs) m = Some m1 \<and> entry_ok prog text h (m_mem m1) \<and> image_ok text h (m_mem m1)
    \<and> word_at (m_mem m1) (unat prog + 20) = lx_text_size h + lx_data_size h
    \<and> only ({unat prog..<unat prog + 22} \<union> {unat text..<unat text + unat (lx_text_size h) + 2 * unat (lx_data_size h) + unat (lx_bss_size h)}) (m_mem m) (m_mem m1)"
proof -
  let ?p = "unat prog" and ?t = "unat text" and ?n = "unat (lx_data_size h)" and ?b = "unat (lx_bss_size h)"
  let ?d = "?t + unat (lx_text_size h)"
  obtain m1 where m1: "program_entry prog text h (m_mem m) = Some m1" "entry_ok prog text h m1" "only {?p..<?p + 20} (m_mem m) m1"
    using program_entry_effect [of prog "text" h "m_mem m"] assms(1,2) by auto
  obtain m2 where m2: "lx_read (m_junk m) (lx_file h img rs) h ?t m1 = Some m2" "only {?t..<?t + length img} m1 m2"
    using lx_read_only [OF assms(3,4) _ assms(5), of ?t "m_junk m" m1] assms(2,3) by auto
  obtain m3 where m3: "program_data text h m2 = Some m3" "only {?d + ?n..<?d + 2 * ?n + ?b} m2 m3"
    "\<forall>i < ?b. m3 (of_nat (?d + ?n + i)) = 0" "\<forall>i < ?n. m3 (of_nat (?d + ?n + ?b + i)) = m2 (of_nat (?d + i))"
    using program_data_effect [OF assms(2), of m2] by blast
  obtain m4 where m4: "poke16 (?p + 20) (lx_text_size h + lx_data_size h) m3 = Some m4" "word_at m4 (?p + 20) = lx_text_size h + lx_data_size h"
    "only {?p + 20, ?p + 20 + 1} m3 m4"
    using assms(1,2) by (rule_tac poke16_effect [of "?p + 20" "lx_text_size h + lx_data_size h" m3]) auto
  note o = only_trans [OF only_trans [OF m2(2) m3(2)] m4(3)]
  have "entry_ok prog text h m4"
    using assms(1,2) by (intro entry_cong [OF o _ _ m1(2)]) auto
  moreover have "m4 (of_nat k) = m3 (of_nat k)" if "?t \<le> k" "k < 0x10000" for k
    using m4(3) that assms(1) by (simp add: only_def)
  moreover have "m3 (of_nat (?d + i)) = m2 (of_nat (?d + i))" if "i < ?n" for i
    using that assms(2) by (intro only_byte [OF m3(2)]) auto
  ultimately have "image_ok text h m4"
    using m3(3,4) assms(2) unfolding image_ok_def Let_def by (simp del: of_nat_add)
  moreover have "only ({?p..<?p + 22} \<union> {?t..<?d + 2 * ?n + ?b}) (m_mem m) m4"
    using assms(3) by (intro only_mono [OF only_trans [OF m1(3) o]]) auto
  ultimately show ?thesis
    using m1(1) m2(1) m3(1) m4(1,2) \<open>entry_ok prog text h m4\<close> by (auto simp: program_place_def program_image_def)
qed

definition lx_program :: "lx_header \<Rightarrow> u8 list \<Rightarrow> u16 list \<Rightarrow> bool" where
  "lx_program h img rs \<longleftrightarrow> lx_version h = 0 \<and> lx_text_size h \<noteq> 0 \<and> unat (lx_text_size h) + unat (lx_data_size h) = length img
     \<and> unat (lx_num_relocs h) = length rs \<and> (\<forall>r \<in> set rs. unat r + 1 < length img)
     \<and> unat (lx_text_size h) + 2 * unat (lx_data_size h) + unat (lx_bss_size h) < 0x10000"

definition program_size :: "lx_header \<Rightarrow> u16" where
  "program_size h = lx_text_size h + 2 * lx_data_size h + lx_bss_size h"

lemma program_size_nat:
  assumes "lx_program h img rs"
  shows "unat (program_size h) = unat (lx_text_size h) + 2 * unat (lx_data_size h) + unat (lx_bss_size h)" "0 < unat (program_size h)"
proof -
  show *: "unat (program_size h) = unat (lx_text_size h) + 2 * unat (lx_data_size h) + unat (lx_bss_size h)"
    using assms by (simp add: lx_program_def program_size_def unat_word_ariths)
  show "0 < unat (program_size h)"
    unfolding * using assms by (simp add: lx_program_def unat_gt_0)
qed

lemma program_header_lx:
  assumes "lx_program h img rs"
  shows "program_header g (lx_file h img rs) = Some (False, h)"
proof -
  have "fread_into (lx_file h img rs) 0 20 (uninit g 20) ! 0 = 0x62" "fread_into (lx_file h img rs) 0 20 (uninit g 20) ! 1 = 0x72"
    by (simp_all add: fread_into_def fread_def lx_file_def lx_head_def Let_def)
  then have "be16 (fread_into (lx_file h img rs) 0 20 (uninit g 20)) 0 = 0x6272"
    by (simp add: be16_def)
  then have "\<not> coff_init g (lx_file h img rs)"
    by (simp add: coff_init_def coff_header_of_def Let_def)
  then show ?thesis
    using assms lx_init_file [of h g img rs "uninit g 16"] by (simp add: program_header_def lx_program_def)
qed

lemma program_load_effect:
  assumes "heap_ok mm_start mff bs (m_mem m)" "lx_program h img rs" "unat prog + 22 \<le> unat mm_start" "word_at (m_mem m) (unat prog + 8) = 0"
    and "unat mff + 1 < unat prog \<or> unat prog + 22 \<le> unat mff"
  defines "r \<equiv> fst (first_fit (half_up (program_size h)) (unat mm_start) bs)"
  shows "\<exists>m1. program_load brickos_malloc brickos_free mm_start mff prog False h (lx_file h img rs) m = Some m1
    \<and> only ({unat prog..<unat prog + 22} \<union> {unat mff, unat mff + 1} \<union> free_bytes (unat mm_start) bs) (m_mem m) (m_mem m1)
    \<and> (r = 0 \<or> entry_ok prog (of_nat r) h (m_mem m1) \<and> image_ok (of_nat r) h (m_mem m1)
         \<and> word_at (m_mem m1) (unat prog + 20) = lx_text_size h + lx_data_size h)"
proof -
  have h: "blocks (m_mem m) (unat mm_start) bs 0x10000" "unat mff + 1 < unat mm_start"
    using assms(1) by (simp_all add: heap_ok_def)
  have lx: "unat (lx_text_size h) + unat (lx_data_size h) = length img" "unat (lx_num_relocs h) = length rs" "\<forall>r \<in> set rs. unat r + 1 < length img"
    using assms(2) by (simp_all add: lx_program_def)
  have "unat mm_start < 0x10000"
    using unat_less_2p [of mm_start] by simp
  then have free: "free_program brickos_free mm_start mff prog (m_mem m) = Some (False, m_mem m)"
    using assms(3,4) by (simp add: free_program_def peek16_def)
  obtain m1 where m1: "brickos_malloc mm_start mff (program_size h) (m_mem m) = Some (of_nat r, m1)"
    "only ({unat mff, unat mff + 1} \<union> free_bytes (unat mm_start) bs) (m_mem m) m1"
    "r = 0 \<or> {r..<r + unat (program_size h)} \<subseteq> free_bytes (unat mm_start) bs"
    using malloc_spec [OF assms(1), of "program_size h"] unfolding r_def by blast
  show ?thesis
  proof (cases "r = 0")
    case True
    then show ?thesis
      using free m1(1) only_mono [OF m1(2)] by (auto simp: program_load_def program_size_def [symmetric])
  next
    case False
    then have sub: "{r..<r + unat (program_size h)} \<subseteq> free_bytes (unat mm_start) bs"
      using m1(3) by blast
    have "r \<in> free_bytes (unat mm_start) bs" "r + unat (program_size h) - 1 \<in> free_bytes (unat mm_start) bs"
      using sub program_size_nat(2) [OF assms(2)] by (auto simp: subset_iff)
    then have range: "unat mm_start \<le> r" "r + unat (program_size h) \<le> 0x10000"
      using free_bytes_range [of _ "unat mm_start" bs] blocks_extent [OF h(1)] by fastforce+
    then have u: "unat (of_nat r :: u16) = r"
      using program_size_nat(2) [OF assms(2)] by (intro unat_addr) simp
    then have nz: "(of_nat r :: u16) \<noteq> 0"
      using False by auto
    obtain m2 where m2: "program_place False h prog (of_nat r) (lx_file h img rs) (m\<lparr>m_mem := m1\<rparr>) = Some m2" "entry_ok prog (of_nat r) h (m_mem m2)"
      "image_ok (of_nat r) h (m_mem m2)" "word_at (m_mem m2) (unat prog + 20) = lx_text_size h + lx_data_size h"
      "only ({unat prog..<unat prog + 22} \<union> {r..<r + unat (program_size h)}) m1 (m_mem m2)"
      using program_place_effect [of prog "of_nat r" h img rs "m\<lparr>m_mem := m1\<rparr>"] lx range assms(3) program_size_nat(1) [OF assms(2)]
      by (auto simp: u add.assoc)
    have "only ({unat prog..<unat prog + 22} \<union> {unat mff, unat mff + 1} \<union> free_bytes (unat mm_start) bs) (m_mem m) (m_mem m2)"
      by (rule only_mono [OF only_trans [OF m1(2) m2(5)]]) (use sub in auto)
    then show ?thesis
      using free m1(1) m2(1-4) nz by (auto simp: program_load_def program_size_def [symmetric])
  qed
qed

section \<open>Properties\<close>

text \<open>The addresses of the variables of the kernel.\<close>

definition kernel_at :: "u16 \<Rightarrow> u16 \<Rightarrow> u16 \<Rightarrow> machine \<Rightarrow> bool" where
  "kernel_at programs mm_start mff m \<longleftrightarrow> symbols_getaddr ''_programs'' (m_syms m) = programs
     \<and> symbols_getaddr ''_mm_start'' (m_syms m) = mm_start \<and> symbols_getaddr ''_mm_first_free'' (m_syms m) = mff"

text \<open>
  C38. The dump of the memory ends on a well-formed heap, and it lists exactly its blocks, in order, with address, length and owner.
\<close>

theorem memory_dump_lists:
  assumes "kernel_at programs mm_start mff m" "heap_ok mm_start mff bs (m_mem m)"
  shows "brickos_dump_memory m =
    Some (''****** BrickOS Memory Dump ******'' @ newline @ block_lines (unat mm_start) bs @ replicate 33 (CHR ''*'') @ newline)"
proof -
  have "mm_start \<noteq> 0"
    using assms(2) by (auto simp: heap_ok_def)
  then show ?thesis
    using assms dump_blocks_lines [of "m_mem m" "unat mm_start" bs mm_start]
    by (simp add: brickos_dump_memory_def kernel_at_def heap_ok_def stars_def)
qed

text \<open>
  C1. Loading a program into a free slot is safe: when the command names an LX file whose relocations lie inside its image and whose total size
  is below 64 KB, and the kernel's heap is well-formed, then the load ends and writes nothing but the slot of the program table, the kernel's pointer to
  the first free block, and blocks that were free: no other program, no thread and no other data of the kernel change. If there was room, the slot
  describes the program afterwards, the area without data is zero and a copy of the data is kept behind it.
\<close>

theorem load_program_safe:
  assumes "gui_in m = c # name @ CHR 0x0A # rest" "set name \<inter> {CHR 0x0A, CHR 0x0D, NUL} = {}" "length name \<le> 4096"
    and "m_files m name = Some (lx_file h img rs)" "lx_program h img rs"
    and "kernel_at programs mm_start mff m" "programs \<noteq> 0" "heap_ok mm_start mff bs (m_mem m)"
    and "unat (program_slot programs c) + 22 \<le> unat mm_start" "word_at (m_mem m) (unat (program_slot programs c) + 8) = 0"
    and "unat mff + 1 < unat (program_slot programs c) \<or> unat (program_slot programs c) + 22 \<le> unat mff"
  shows "\<exists>r m1. brickos_load_program m = Some m1 \<and> r = fst (first_fit (half_up (program_size h)) (unat mm_start) bs)
    \<and> only ({unat (program_slot programs c)..<unat (program_slot programs c) + 22} \<union> {unat mff, unat mff + 1} \<union> free_bytes (unat mm_start) bs)
        (m_mem m) (m_mem m1)
    \<and> (r = 0 \<or> entry_ok (program_slot programs c) (of_nat r) h (m_mem m1) \<and> image_ok (of_nat r) h (m_mem m1)
         \<and> word_at (m_mem m1) (unat (program_slot programs c) + 20) = lx_text_size h + lx_data_size h)"
proof -
  have plain: "takeWhile (\<lambda>c. c \<noteq> CHR 0x0A \<and> c \<noteq> CHR 0x0D) (name @ CHR 0x0A # rest) = name" "takeWhile (\<lambda>c. c \<noteq> NUL) name = name"
    using assms(2) by (auto simp: takeWhile_append takeWhile_eq_all_conv)
  then have line: "read_line (name @ CHR 0x0A # rest) = Some (name, rest)"
    using assms(3) by (simp add: read_line_def Let_def)
  have "mm_start \<noteq> 0"
    using assms(8) by (auto simp: heap_ok_def)
  then have "brickos_load_program m = program_load brickos_malloc brickos_free mm_start mff (program_slot programs c) False h (lx_file h img rs)
      (m\<lparr>gui_in := rest\<rparr>)"
    using assms(1,4,6,7) line program_header_lx [OF assms(5)]
    by (simp add: brickos_load_program_def load_program_def kernel_at_def Let_def)
  then show ?thesis
    using program_load_effect [OF _ assms(5) assms(9) _ assms(11), of bs "m\<lparr>gui_in := rest\<rparr>"] assms(8,10) by auto
qed

definition kernel_ex :: machine where
  "kernel_ex = quiet_ex\<lparr>m_mem := heap_ex, gui_in := ''1f'' @ newline,
     m_syms := Sym (Sym Null (0x8000, 0) ''_mm_first_free'' Null) (0x9000, 0) ''_programs'' (Sym Null (0xc000, 0) ''_mm_start'' Null),
     m_files := [''f'' \<mapsto> lx_file lx_ex [0, 1, 0xb0, 0x02, 4, 5] [2]]\<rparr>"

lemma kernel_ex_at: "kernel_at 0x9000 0xc000 0x8000 kernel_ex"
  by (simp add: kernel_at_def kernel_ex_def symbols_getaddr_def Let_def)

theorem memory_dump_lists_witness:
  "brickos_dump_memory kernel_ex =
    Some (''****** BrickOS Memory Dump ******'' @ newline @ block_lines 0xc000 [(7, 10), (0, 20), (0xffff, 0x1fdc)] @ replicate 33 (CHR ''*'') @ newline)"
  using memory_dump_lists [OF kernel_ex_at, of "[(7, 10), (0, 20), (0xffff, 0x1fdc)]"] heap_ex_ok by (simp add: kernel_ex_def)

theorem load_program_safe_witness:
  "\<exists>m1. brickos_load_program kernel_ex = Some m1 \<and> entry_ok 0x9016 0xc01c lx_ex (m_mem m1) \<and> image_ok 0xc01c lx_ex (m_mem m1)
    \<and> word_at (m_mem m1) 0x902a = 6"
proof -
  let ?img = "[0, 1, 0xb0, 0x02, 4, 5] :: u8 list" and ?bs = "[(7, 10), (0, 20), (0xffff, 0x1fdc)] :: block list"
  have 1: "gui_in kernel_ex = CHR ''1'' # ''f'' @ CHR 0x0A # []" "m_files kernel_ex ''f'' = Some (lx_file lx_ex ?img [2])" "m_mem kernel_ex = heap_ex"
    by (simp_all add: kernel_ex_def)
  have 2: "set ''f'' \<inter> {CHR 0x0A, CHR 0x0D, NUL} = {}" "length ''f'' \<le> 4096" "lx_program lx_ex ?img [2]"
    by (simp_all add: lx_program_def lx_ex_def)
  have slot: "program_slot 0x9000 (CHR ''1'') = 0x9016"
    by code_simp
  have 3: "unat (program_slot 0x9000 (CHR ''1'')) + 22 \<le> unat (0xc000 :: u16)"
    "word_at (m_mem kernel_ex) (unat (program_slot 0x9000 (CHR ''1'')) + 8) = 0"
    "unat (0x8000 :: u16) + 1 < unat (program_slot 0x9000 (CHR ''1'')) \<or> unat (program_slot 0x9000 (CHR ''1'')) + 22 \<le> unat (0x8000 :: u16)"
    unfolding slot 1 by (simp_all add: heap_ex_def word_at_def)
  have "half_up (program_size lx_ex) = 4"
    by (simp add: half_up_def program_size_def lx_ex_def)
  then have r: "fst (first_fit (half_up (program_size lx_ex)) (unat (0xc000 :: u16)) ?bs) = 0xc01c"
    by (simp add: Let_def)
  have t: "lx_text_size lx_ex + lx_data_size lx_ex = 6"
    by (simp add: lx_ex_def)
  show ?thesis
    using load_program_safe [OF 1(1) 2(1,2) 1(2) 2(3) kernel_ex_at _ heap_ex_ok [folded 1(3)] 3] unfolding r slot t by auto
qed

end
