(* ===== verification/Bibo.thy ===== *)
theory Bibo
  imports Brickos
begin

text \<open>
  The commands of the GUI for a BiBo kernel, \<^verbatim>\<open>bibo.c\<close>, in which a block has a header of three words (the start of the block before it, which is
  used when that one is free; the end of the block, whose lowest bit says that the block before is free; the owner), and a free block the next free one in a
  fourth word. Loading a program, the dump of the programs and the commands for the address of the host and of a new program are those of
  \<^verbatim>\<open>brickos.c\<close>, with the allocation functions of this file.
\<close>

section \<open>Freeing and allocating\<close>

text \<open>The place in the list of free blocks: where the link is stored, and the block it leads to.\<close>

partial_function (option) free_place :: "u16 \<Rightarrow> u16 \<Rightarrow> u16 \<Rightarrow> mem \<Rightarrow> (u16 \<times> u16) option" where
  "free_place addr prev prevnext m =
    (if prevnext \<noteq> 0 \<and> prevnext < addr then
       Option.bind (peek16 m (unat (prevnext + 6))) (\<lambda>n. free_place addr (prevnext + 6) n m)
     else Some (prev, prevnext))"

definition free_merge_prev :: "u16 \<Rightarrow> u16 \<Rightarrow> mem \<Rightarrow> mem option" where
  "free_merge_prev next_ptr prev m =
     Option.bind (peek16 m (unat next_ptr + 4)) (\<lambda>type.
     Option.bind (peek16 m (unat next_ptr + 2)) (\<lambda>nextnext.
       if type = 0 then
         Option.bind (peek16 m (unat next_ptr + 6)) (\<lambda>nextnextfree.
         Option.bind (poke16 (unat prev + 2) nextnext m) (\<lambda>m1.
         Option.bind (poke16 (unat nextnext) prev m1) (\<lambda>m2.
           poke16 (unat prev + 6) nextnextfree m2)))
       else
         Option.bind (poke16 (unat next_ptr + 2) (nextnext OR 1) m) (\<lambda>m1.
         Option.bind (poke16 (unat prev + 2) next_ptr m1) (\<lambda>m2.
           poke16 (unat next_ptr) prev m2))))"

definition free_enqueue :: "u16 \<Rightarrow> u16 \<Rightarrow> u16 \<Rightarrow> mem \<Rightarrow> mem option" where
  "free_enqueue mm_first_free addr next_ptr m =
     Option.bind (poke16 (unat addr + 4) 0 m) (\<lambda>m1.
     Option.bind (peek16 m1 (unat mm_first_free)) (\<lambda>first.
     Option.bind (free_place addr mm_first_free first m1) (\<lambda>(prev, prevnext).
     Option.bind (poke16 (unat prev) addr m1) (\<lambda>m2.
     Option.bind (peek16 m2 (unat next_ptr + 2)) (\<lambda>nextnext.
       if prevnext = next_ptr then
         Option.bind (peek16 m2 (unat next_ptr + 6)) (\<lambda>nextnextfree.
         Option.bind (poke16 (unat addr + 2) nextnext m2) (\<lambda>m3.
           poke16 (unat addr + 6) nextnextfree m3))
       else
         Option.bind (poke16 (unat next_ptr + 2) (nextnext OR 1) m2) (\<lambda>m3.
           poke16 (unat next_ptr + 6) prevnext m3))))))"

definition bibo_free :: "u16 \<Rightarrow> u16 \<Rightarrow> u16 \<Rightarrow> mem \<Rightarrow> mem option" where
  "bibo_free mm_start mm_first_free a m =
    (if a = 0 then Some m
     else
       let addr = a - 6
       in Option.bind (peek16 m (unat addr + 2)) (\<lambda>next_ptr.
            if bit next_ptr 0 then
              Option.bind (peek16 m (unat addr)) (\<lambda>prev. free_merge_prev (next_ptr AND NOT 1) prev m)
            else free_enqueue mm_first_free addr next_ptr m))"

text \<open>A block is taken whole, or the rest of it becomes a free block.\<close>

definition bibo_split :: "nat \<Rightarrow> nat \<Rightarrow> nat \<Rightarrow> u16 \<Rightarrow> mem \<Rightarrow> mem option" where
  "bibo_split ptr sz blocksize pptr m =
    (let rest = ptr + sz + 4
     in Option.bind (poke16 (rest + 4) 0 m) (\<lambda>m1.
        Option.bind (poke16 (rest + 2) (of_nat (ptr + blocksize)) m1) (\<lambda>m2.
        Option.bind (poke16 (ptr + blocksize) (of_nat rest) m2) (\<lambda>m3.
        Option.bind (peek16 m3 (ptr + 6)) (\<lambda>link.
        Option.bind (poke16 (rest + 6) link m3) (\<lambda>m4.
        Option.bind (poke16 (ptr + 2) (of_nat rest) m4) (\<lambda>m5.
          poke16 (unat pptr) (of_nat rest) m5)))))))"

definition bibo_take :: "u16 \<Rightarrow> u16 \<Rightarrow> u16 \<Rightarrow> u16 \<Rightarrow> mem \<Rightarrow> (u16 \<times> mem) option" where
  "bibo_take ptr sz blocksize pptr m =
     Option.bind (poke16 (unat ptr + 4) 0xfffe m) (\<lambda>m1.
       map_option (Pair (ptr + 6))
         (if unat sz + 12 \<le> unat blocksize then bibo_split (unat ptr) (unat sz) (unat blocksize) pptr m1
          else Option.bind (peek16 m1 (unat ptr + 6)) (\<lambda>link. poke16 (unat pptr) link m1)))"

partial_function (option) bibo_search :: "u16 \<Rightarrow> u16 \<Rightarrow> mem \<Rightarrow> (u16 \<times> mem) option" where
  "bibo_search sz pptr m =
     Option.bind (peek16 m (unat pptr)) (\<lambda>ptr.
       if ptr = 0 then Some (0, m)
       else
         Option.bind (peek16 m (unat ptr + 2)) (\<lambda>e.
           if unat sz + 4 \<le> unat (e - ptr) then bibo_take ptr sz (e - ptr) pptr m
           else bibo_search sz (ptr + 6) m))"

definition bibo_malloc :: "u16 \<Rightarrow> u16 \<Rightarrow> u16 \<Rightarrow> mem \<Rightarrow> (u16 \<times> mem) option" where
  "bibo_malloc mm_start mm_first_free sz m = bibo_search ((sz + 1) AND NOT 1) mm_first_free m"

section \<open>Dumps\<close>

text \<open>The delay of the first entry is a variable of its own, the others are read with their entry; after the last entry that is the word at address 0.\<close>

partial_function (option) dump_timers :: "u16 \<Rightarrow> u16 \<Rightarrow> mem \<Rightarrow> symbol \<Rightarrow> (string \<times> symbol) option" where
  "dump_timers timer delay m tree =
    (if timer = 0 then Some ([], tree)
     else
       Option.bind (peek16 m (unat timer + 2)) (\<lambda>code.
       Option.bind (peek16 m (unat timer + 4)) (\<lambda>arg.
       Option.bind (peek16 m (unat timer + 6)) (\<lambda>timer1.
       Option.bind (peek16 m (unat timer1)) (\<lambda>delay1.
         let (name, tree1) = symbols_get (code, 0) tree
         in Option.bind (dump_timers timer1 delay1 m tree1) (\<lambda>(rest, tree2).
              Some (''   '' @ fmt_d 5 (uint delay) @ '' : '' @ (case name of None \<Rightarrow> ''0x'' @ fmt_04x (uint code) | Some s \<Rightarrow> s)
                @ ''('' @ fmt_04x (uint arg) @ '')'' @ newline @ rest, tree2)))))))"

definition bibo_dump_timers :: "machine \<Rightarrow> (string \<times> machine) option" where
  "bibo_dump_timers m =
     Option.bind (peek16 (m_mem m) (unat (symbols_getaddr ''_timer_queue'' (m_syms m)))) (\<lambda>timer.
     Option.bind (peek16 (m_mem m) (unat (symbols_getaddr ''_first_delay'' (m_syms m)))) (\<lambda>delay.
       map_option (\<lambda>(s, tree). (''********* Timers: *******'' @ newline @ s @ replicate 25 (CHR ''*'') @ newline, m\<lparr>m_syms := tree\<rparr>))
         (dump_timers timer delay (m_mem m) (m_syms m))))"

text \<open>What the dump of the memory says about one block, and the checks that it makes on the way.\<close>

definition free_list_check :: "u16 \<Rightarrow> u16 \<Rightarrow> u16 \<Rightarrow> mem \<Rightarrow> string option" where
  "free_list_check type nextfree ptr m =
    (if type = 0 then
       map_option (\<lambda>n. if n \<noteq> ptr then ''Free list broken '' @ fmt_04x (uint n) @ '' != '' @ fmt_04x (uint ptr) @ newline else []) (peek16 m (unat nextfree))
     else Some [])"

definition next_block_check :: "u16 \<Rightarrow> u16 \<Rightarrow> u16 \<Rightarrow> mem \<Rightarrow> string option" where
  "next_block_check type ptr next_ptr m =
    (if next_ptr = 0 then Some []
     else
       Option.bind (peek16 m (unat next_ptr)) (\<lambda>back.
       map_option (\<lambda>e.
         if type \<noteq> 0 then (if bit e 0 then ''Memory broken: next block thinks this is free'' @ newline else [])
         else if \<not> bit e 0 \<or> back \<noteq> ptr then
           ''Memory free list broken: '' @ fmt_04x (uint ptr) @ '' != '' @ fmt_04x (uint back) @ '':'' @ print_int (if bit e 0 then 1 else 0) @ newline
         else []) (peek16 m (unat next_ptr + 2))))"

text \<open>\<open>ptr >= mm_start - 2\<close> compares \<open>int\<close>s.\<close>

partial_function (option) bibo_blocks :: "u16 \<Rightarrow> u16 \<Rightarrow> u16 \<Rightarrow> mem \<Rightarrow> (string \<times> u16) option" where
  "bibo_blocks mm_start nextfree ptr m =
    (if uint ptr < uint mm_start - 2 then Some ([], nextfree)
     else
       Option.bind (peek16 m (unat ptr + 2)) (\<lambda>e.
       Option.bind (peek16 m (unat ptr + 4)) (\<lambda>type.
       Option.bind (free_list_check type nextfree ptr m) (\<lambda>s1.
         let next_ptr = e AND NOT 1
         in Option.bind (next_block_check type ptr next_ptr m) (\<lambda>s2.
            Option.bind (bibo_blocks mm_start (if type = 0 then ptr + 6 else nextfree) next_ptr m) (\<lambda>(rest, nextfree1).
              Some (s1 @ block_line (uint ptr + 6) (uint (next_ptr - ptr - 4)) type @ s2 @ rest, nextfree1)))))))"

definition bibo_dump_memory :: "machine \<Rightarrow> string option" where
  "bibo_dump_memory m =
    (let mm_start = symbols_getaddr ''_mm_start'' (m_syms m); first = symbols_getaddr ''_mm_first_free'' (m_syms m)
     in if mm_start = 0 then Some []
        else
          Option.bind (bibo_blocks mm_start first (mm_start - 2) (m_mem m)) (\<lambda>(s, nextfree).
          Option.bind (peek16 (m_mem m) (unat nextfree)) (\<lambda>n.
            Some (''****** Rcxrt Memory Dump ******'' @ newline @ s
              @ (if n \<noteq> 0 then ''Free list broken '' @ fmt_04x (uint n) @ '' not found'' @ newline else []) @ stars))))"

text \<open>A thread, with its place in the queue checked and its stack trace.\<close>

definition bibo_thread :: "u16 \<Rightarrow> u16 \<Rightarrow> u16 \<Rightarrow> u16 \<Rightarrow> string \<Rightarrow> machine \<Rightarrow> (string \<times> machine) option" where
  "bibo_thread last_tid tid sp stackbase note m =
     Option.bind (peek8 (m_mem m) (unat tid + 2)) (\<lambda>flags.
     Option.bind (peek8 (m_mem m) (unat tid + 3)) (\<lambda>prio.
     Option.bind (peek16 (m_mem m) (unat tid + 6)) (\<lambda>prev.
       map_option (\<lambda>(s, m1).
         ((if prev \<noteq> last_tid then ''    QUEUE_ERROR tid.prev = '' @ fmt_04x (uint prev) @ '' != '' @ fmt_04x (uint last_tid) @ newline else [])
          @ ''  Thread '' @ fmt_04x (uint tid) @ '': prio '' @ fmt_d 2 (uint prio) @ '' state '' @ [''KZWR?'' ! min (unat (flags AND 7)) 4] @ '', flags ''
          @ [flag_char flags 7 (CHR ''S''), flag_char flags 6 (CHR ''I''), flag_char flags 5 (CHR ''K'')]
          @ '' stack(@'' @ fmt_04x (uint sp) @ '' '' @ fmt_04x (uint sp - uint stackbase) @ '' free)'' @ note @ newline @ s, m1))
         (stack_text sp m))))"

definition queue_zero :: string where
  "queue_zero = ''    QUEUE_ERROR tid.next == 0'' @ newline"

partial_function (option) dump_running :: "u16 \<Rightarrow> u16 \<Rightarrow> u16 \<Rightarrow> machine \<Rightarrow> (string \<times> machine) option" where
  "dump_running td_idle ctid last_tid m =
     Option.bind (peek16 (m_mem m) (unat last_tid + 4)) (\<lambda>tid.
     Option.bind (if tid = ctid then Some (GET_REG16 7 (m_cpu m)) else peek16 (m_mem m) (unat tid)) (\<lambda>sp.
     Option.bind (bibo_thread last_tid tid sp (if tid = td_idle then 0xfe00 else tid + 8)
         (if tid = ctid then '' CURRENT'' else if tid = td_idle then '' IDLE'' else []) m) (\<lambda>(s, m1).
       if tid = 0 then Some (s @ queue_zero, m1)
       else if tid = td_idle then Some (s, m1)
       else Option.bind (dump_running td_idle ctid tid m1) (\<lambda>(rest, m2). Some (s @ rest, m2)))))"

text \<open>The second component is the last thread that was shown.\<close>

partial_function (option) dump_waiting :: "u16 \<Rightarrow> u16 \<Rightarrow> u16 \<Rightarrow> machine \<Rightarrow> (string \<times> u16 \<times> machine) option" where
  "dump_waiting waiters last_tid tid m =
    (if tid = waiters then Some ([], last_tid, m)
     else
       Option.bind (peek16 (m_mem m) (unat tid)) (\<lambda>sp.
       Option.bind (bibo_thread last_tid tid sp (tid + 8) [] m) (\<lambda>(s, m1).
         if tid = 0 then Some (s @ queue_zero, last_tid, m1)
         else
           Option.bind (peek16 (m_mem m1) (unat tid + 4)) (\<lambda>tid1.
           Option.bind (dump_waiting waiters tid tid1 m1) (\<lambda>(rest, l, m2). Some (s @ rest, l, m2))))))"

definition bibo_dump_threads :: "machine \<Rightarrow> (string \<times> machine) option" where
  "bibo_dump_threads m =
    (let td_idle = symbols_getaddr ''_td_idle'' (m_syms m); waiters = symbols_getaddr ''_waiters'' (m_syms m)
     in Option.bind (peek16 (m_mem m) (unat (symbols_getaddr ''_ctid'' (m_syms m)))) (\<lambda>ctid.
        if td_idle = 0 \<or> waiters = 0 then Some ([], m)
        else
          Option.bind (dump_running td_idle ctid td_idle m) (\<lambda>(s1, m1).
          Option.bind (peek16 (m_mem m1) (unat waiters + 4)) (\<lambda>tid.
          Option.bind (dump_waiting waiters waiters tid m1) (\<lambda>(s2, last_tid, m2).
          Option.bind (peek16 (m_mem m2) (unat waiters + 6)) (\<lambda>prev.
            Some (''****** Rcxrt Thread Dump ******'' @ newline @ ''Running (current '' @ fmt_04x (uint ctid) @ ''):'' @ newline @ s1
              @ ''Waiting:'' @ newline @ s2
              @ (if prev \<noteq> last_tid then ''    QUEUE_ERROR tid.prev = '' @ fmt_04x (uint prev) @ '' != '' @ fmt_04x (uint last_tid) @ newline else [])
              @ stars, m2)))))))"

definition bibo_dump_programs :: "machine \<Rightarrow> string option" where
  "bibo_dump_programs = dump_programs ''****** Rcxrt Program Dump ******''"

section \<open>The commands\<close>

definition bibo_load_program :: "machine \<Rightarrow> machine option" where
  "bibo_load_program = load_program bibo_malloc bibo_free"

definition bibo_sethostaddr :: "machine \<Rightarrow> machine option" where
  "bibo_sethostaddr = sethostaddr"

definition bibo_checkos :: "machine \<Rightarrow> machine" where
  "bibo_checkos = checkos"

definition bibo_newprogram_addr :: "machine \<Rightarrow> machine option" where
  "bibo_newprogram_addr = newprogram_addr bibo_malloc bibo_free"

definition bibo_dispatch :: "char \<Rightarrow> machine \<Rightarrow> (string \<times> machine) option" where
  "bibo_dispatch c m =
    (if c \<in> set ''Mm'' then map_option (\<lambda>s. (s, m)) (bibo_dump_memory m)
     else if c \<in> set ''Pp'' then map_option (\<lambda>s. (s, m)) (bibo_dump_programs m)
     else if c \<in> set ''Oo'' then Some ([], bibo_checkos m)
     else if c \<in> set ''Aa'' then map_option (Pair []) (bibo_newprogram_addr m)
     else if c \<in> set ''Nn'' then map_option (Pair []) (bibo_sethostaddr m)
     else if c \<in> set ''Tt'' then bibo_dump_threads m
     else if c \<in> set ''Cc'' then bibo_dump_timers m
     else if c \<in> set ''Ll'' then map_option (Pair []) (bibo_load_program m)
     else Some ([], m))"

text \<open>Without a BiBo kernel the command is passed to \<^verbatim>\<open>brickos.c\<close>, and then another one is read.\<close>

definition bibo_command :: "machine \<Rightarrow> (string \<times> machine) option" where
  "bibo_command m =
     Option.bind (if symbols_getaddr ''_td_idle'' (m_syms m) = 0 then brickos_command m else Some ([], m)) (\<lambda>(s, m1).
       (case gui_in m1 of
          [] \<Rightarrow> None
        | c # rest \<Rightarrow> map_option (\<lambda>(s1, m2). (s @ s1, m2)) (bibo_dispatch c (m1\<lparr>gui_in := rest\<rparr>))))"

definition bibo_read_fd :: "machine \<Rightarrow> machine option" where
  "bibo_read_fd m = map_option snd (bibo_command m)"

section \<open>The list of free blocks\<close>

text \<open>The free blocks that are linked from an address on, each with a header inside the memory and an end behind its start.\<close>

fun free_links :: "mem \<Rightarrow> u16 \<Rightarrow> u16 list \<Rightarrow> bool" where
  "free_links m pptr [] \<longleftrightarrow> pptr \<noteq> 0xffff \<and> word_at m (unat pptr) = 0"
| "free_links m pptr (q # qs) \<longleftrightarrow> pptr \<noteq> 0xffff \<and> word_at m (unat pptr) = q \<and> q \<noteq> 0 \<and> q < word_at m (unat q + 2)
     \<and> word_at m (unat q + 2) < 0xfff0 \<and> free_links m (q + 6) qs"

definition fits :: "mem \<Rightarrow> u16 \<Rightarrow> u16 \<Rightarrow> bool" where
  "fits m sz q \<longleftrightarrow> unat sz + 4 \<le> unat (word_at m (unat q + 2) - q)"

lemma link_peek: "pptr \<noteq> (0xffff :: u16) \<Longrightarrow> peek16 m (unat pptr) = Some (word_at m (unat pptr))"
proof -
  assume "pptr \<noteq> 0xffff"
  then have "unat pptr \<noteq> 0xffff"
    by (simp add: word_unat_eq_iff)
  then show ?thesis
    using unat_less_2p [of pptr] by (simp add: peek16_def)
qed

lemma poke16_some: "a + 1 < 0x10000 \<Longrightarrow> \<exists>m1. poke16 a v m = Some m1"
  by (simp add: poke16_def mem_write_def)

lemma poke_bind:
  assumes "a + 1 < 0x10000" "\<And>m1. \<exists>r. f m1 = Some r"
  shows "\<exists>r. Option.bind (poke16 a v m) f = Some r"
  using poke16_some [OF assms(1), of v m] assms(2) by auto

lemma bibo_split_some:
  assumes "ptr + sz + 12 \<le> ptr + blocksize" "ptr + blocksize < 0xfff0" "pptr \<noteq> 0xffff"
  shows "\<exists>m1. bibo_split ptr sz blocksize pptr m = Some m1"
proof -
  have p: "unat pptr + 1 < 0x10000"
    using link_peek [OF assms(3), of m] by (simp add: peek16_def split: if_splits)
  have r: "\<exists>r. Option.bind (peek16 m1 (ptr + 6)) (\<lambda>link. f link m1) = Some r" if "\<And>l. \<exists>r. f l m1 = Some r" for f :: "u16 \<Rightarrow> mem \<Rightarrow> mem option" and m1
    using assms that by (simp add: peek16_def)
  show ?thesis
    unfolding bibo_split_def Let_def by (intro poke_bind r poke16_some) (use assms p in simp_all)
qed

lemma bibo_take_some:
  assumes "q < e" "e < 0xfff0" "pptr \<noteq> 0xffff"
  shows "\<exists>m1. bibo_take q sz (e - q) pptr m = Some (q + 6, m1)"
proof -
  have l: "unat (e - q) = unat e - unat q" "unat q < unat e" "unat e < 0xfff0"
    using assms by (simp_all add: unat_sub word_le_nat_alt word_less_nat_alt)
  have p: "unat pptr + 1 < 0x10000"
    using link_peek [OF assms(3), of m] by (simp add: peek16_def split: if_splits)
  obtain m1 where m1: "poke16 (unat q + 4) 0xfffe m = Some m1"
    using poke16_some [of "unat q + 4"] l by auto
  have "\<exists>m2. (if unat sz + 12 \<le> unat (e - q) then bibo_split (unat q) (unat sz) (unat (e - q)) pptr m1
      else Option.bind (peek16 m1 (unat q + 6)) (\<lambda>link. poke16 (unat pptr) link m1)) = Some m2"
    using bibo_split_some [of "unat q" "unat sz" "unat (e - q)" pptr m1] poke16_some [OF p] l assms(3) by (auto simp: peek16_def)
  then show ?thesis
    using m1 by (auto simp: bibo_take_def)
qed

lemma bibo_search_first:
  assumes "free_links m pptr qs"
  shows "\<exists>m1. bibo_search sz pptr m = Some (case find (fits m sz) qs of None \<Rightarrow> 0 | Some q \<Rightarrow> q + 6, m1) \<and> (find (fits m sz) qs = None \<longrightarrow> m1 = m)"
  using assms
proof (induction qs arbitrary: pptr)
  case Nil
  then show ?case
    by (subst bibo_search.simps) (simp add: link_peek)
next
  case (Cons q qs)
  have q: "pptr \<noteq> 0xffff" "word_at m (unat pptr) = q" "q \<noteq> 0" "q < word_at m (unat q + 2)" "word_at m (unat q + 2) < 0xfff0" "free_links m (q + 6) qs"
    using Cons.prems by simp_all
  have "unat q + 3 < 0x10000"
    using q(4,5) by (simp add: word_less_nat_alt)
  then have e: "peek16 m (unat q + 2) = Some (word_at m (unat q + 2))"
    by (simp add: peek16_def)
  have step: "bibo_search sz pptr m = (if fits m sz q then bibo_take q sz (word_at m (unat q + 2) - q) pptr m else bibo_search sz (q + 6) m)"
    using q(3) by (subst bibo_search.simps) (simp only: link_peek [OF q(1)] q(2) e bind.bind_lunit if_False fits_def)
  show ?case
    using Cons.IH [OF q(6)] bibo_take_some [OF q(4,5,1), of sz m] step by (cases "fits m sz q") auto
qed

section \<open>Properties\<close>

text \<open>
  C39. The search of \<open>bibo_malloc\<close> ends on every finite list of free blocks whose ends lie behind their starts, and it is first fit: the address is the one
  of the first block in the list that is at least four bytes longer than the size, rounded up to a word. When there is none the result is 0 and nothing has
  changed.
\<close>

theorem bibo_malloc_first:
  assumes "free_links m mff qs"
  shows "\<exists>m1. bibo_malloc mm_start mff sz m = Some (case find (fits m ((sz + 1) AND NOT 1)) qs of None \<Rightarrow> 0 | Some q \<Rightarrow> q + 6, m1)
    \<and> (find (fits m ((sz + 1) AND NOT 1)) qs = None \<longrightarrow> m1 = m)"
  unfolding bibo_malloc_def using assms by (rule bibo_search_first)

text \<open>
  A block that \<open>bibo_malloc\<close> takes whole leaves the heap in a state that the emulator itself calls broken: the mark in the next block that this one is
  free is not removed, so that the dump of the memory prints ``next block thinks this is free'' for it (and \<open>bibo_free\<close> of the next block would
  merge it with this one).
\<close>

theorem bibo_malloc_leaves_mark:
  assumes "word_at m (unat mff) = q" "word_at m (unat q + 2) = e" "q < e" "e < 0xfff0" "unat mff + 1 < unat q" "q \<noteq> 0"
    and "bit (word_at m (unat e + 2)) 0" "fits m ((sz + 1) AND NOT 1) q" "unat (e - q) < unat ((sz + 1) AND NOT 1) + 12" "8 \<le> unat (e - q)"
  shows "\<exists>m1. bibo_malloc mm_start mff sz m = Some (q + 6, m1) \<and> word_at m1 (unat q + 4) = 0xfffe
    \<and> next_block_check 0xfffe q e m1 = Some (''Memory broken: next block thinks this is free'' @ newline)"
proof -
  have l: "unat (e - q) = unat e - unat q" "unat q < unat e" "unat e < 0xfff0"
    using assms(3,4) by (simp_all add: unat_sub word_le_nat_alt word_less_nat_alt)
  obtain m1 where m1: "poke16 (unat q + 4) 0xfffe m = Some m1" "word_at m1 (unat q + 4) = 0xfffe" "only {unat q + 4, unat q + 4 + 1} m m1"
    using l by (rule_tac poke16_effect [of "unat q + 4" "0xfffe" m]) auto
  let ?link = "word_at m1 (unat q + 6)"
  obtain m2 where m2: "poke16 (unat mff) ?link m1 = Some m2" "only {unat mff, unat mff + 1} m1 m2"
    using l assms(5) by (rule_tac poke16_effect [of "unat mff" ?link m1]) auto
  have "peek16 m (unat mff) = Some q" "peek16 m (unat q + 2) = Some e" "peek16 m1 (unat q + 6) = Some ?link"
    using assms(1,2,5) l by (simp_all add: peek16_def)
  moreover have "\<not> unat ((sz + 1) AND NOT 1) + 12 \<le> unat (e - q)"
    using assms(9) by simp
  ultimately have "bibo_malloc mm_start mff sz m = Some (q + 6, m2)"
    using assms(2,6,8) m1(1) m2(1) unfolding bibo_malloc_def
    by (subst bibo_search.simps) (simp only: bind.bind_lunit if_False if_True fits_def bibo_take_def option.map)
  moreover have "word_at m2 (unat q + 4) = 0xfffe"
    using only_word [OF m2(2), of "unat q + 4"] m1(2) assms(5) l by simp
  moreover have "word_at m2 (unat e + 2) = word_at m (unat e + 2)"
  proof -
    have "unat q + 8 \<le> unat e"
      using assms(10) l by linarith
    then show ?thesis
      using assms(5) l(3) by (intro only_word [OF only_trans [OF m1(3) m2(2)]]) auto
  qed
  moreover have "e \<noteq> 0"
    using assms(3) by auto
  ultimately show ?thesis
    using assms(7) l by (simp add: next_block_check_def peek16_def)
qed

text \<open>
  Freeing a block while no other block is free destroys data of its neighbour: the link to the next free block is not stored in the block
  that becomes free but in the block behind it, whose first two bytes of data become 0 whoever owns it, and the link of the free block stays what its
  data were.
\<close>

theorem bibo_free_hits_neighbour:
  assumes "word_at m (unat mff) = 0" "word_at m (unat q + 2) = e" "\<not> bit e 0" "q < e" "e < 0xfff0" "unat mff + 1 < unat q" "8 \<le> unat (e - q)"
  shows "\<exists>m1. bibo_free mm_start mff (q + 6) m = Some m1 \<and> word_at m1 (unat e + 6) = 0 \<and> word_at m1 (unat q + 6) = word_at m (unat q + 6)"
proof -
  have l: "unat (e - q) = unat e - unat q" "unat q < unat e" "unat e < 0xfff0"
    using assms(4,5) by (simp_all add: unat_sub word_le_nat_alt word_less_nat_alt)
  have g: "unat q + 8 \<le> unat e"
    using assms(7) l by linarith
  have nz: "q + 6 \<noteq> 0" "e \<noteq> 0"
  proof -
    have "unat (q + 6) = unat q + 6"
      using l by (simp add: unat_word_ariths)
    then show "q + 6 \<noteq> 0"
      by (metis add_eq_0_iff_both_eq_0 unat_0 zero_neq_numeral)
    show "e \<noteq> 0"
      using assms(4) by auto
  qed
  obtain m1 where m1: "poke16 (unat q + 4) 0 m = Some m1" "only {unat q + 4, unat q + 4 + 1} m m1"
    using l by (rule_tac poke16_effect [of "unat q + 4" 0 m]) auto
  obtain m2 where m2: "poke16 (unat mff) q m1 = Some m2" "only {unat mff, unat mff + 1} m1 m2"
    using l assms(6) by (rule_tac poke16_effect [of "unat mff" q m1]) auto
  let ?v = "word_at m2 (unat e + 2) OR 1"
  obtain m3 where m3: "poke16 (unat e + 2) ?v m2 = Some m3" "only {unat e + 2, unat e + 2 + 1} m2 m3"
    using l by (rule_tac poke16_effect [of "unat e + 2" ?v m2]) auto
  obtain m4 where m4: "poke16 (unat e + 6) 0 m3 = Some m4" "word_at m4 (unat e + 6) = 0" "only {unat e + 6, unat e + 6 + 1} m3 m4"
    using l by (rule_tac poke16_effect [of "unat e + 6" 0 m3]) auto
  have "word_at m1 (unat mff) = 0"
    using only_word [OF m1(2), of "unat mff"] assms(1,6) l by simp
  then have p: "peek16 m (unat q + 2) = Some e" "peek16 m1 (unat mff) = Some 0" "peek16 m2 (unat e + 2) = Some (word_at m2 (unat e + 2))"
    using assms(2,6) l by (simp_all add: peek16_def)
  have place: "free_place q mff 0 m1 = Some (mff, 0)"
    by (subst free_place.simps) simp
  have "bibo_free mm_start mff (q + 6) m = free_enqueue mff q e m"
    using nz(1) assms(3) by (simp only: bibo_free_def Let_def add_diff_cancel_right' p(1) bind.bind_lunit if_False)
  also have "\<dots> = Some m4"
    using nz(2) unfolding free_enqueue_def
    by (simp only: m1(1) p(2,3) place m2(1) m3(1) m4(1) bind.bind_lunit prod.case if_False simp_thms eq_commute [of 0 e])
  finally have "bibo_free mm_start mff (q + 6) m = Some m4" .
  moreover have "word_at m4 (unat q + 6) = word_at m (unat q + 6)"
    using g assms(6) l by (intro only_word [OF only_trans [OF only_trans [OF m1(2) m2(2)] only_trans [OF m3(2) m4(3)]]]) auto
  ultimately show ?thesis
    using m4(2) by blast
qed

definition bibo_ex :: mem where
  "bibo_ex = (\<lambda>_. 0)(0x8000 := 0xc0, 0xc002 := 0xc0, 0xc003 := 0x10, 0xc012 := 0xd0, 0xc013 := 1)"

lemma bibo_ex_words: "word_at bibo_ex (unat (0x8000 :: u16)) = 0xc000" "word_at bibo_ex (unat (0xc000 :: u16) + 2) = 0xc010"
  "word_at bibo_ex (unat (0xc010 :: u16) + 2) = 0xd001" "word_at bibo_ex (unat (0xc006 :: u16)) = 0"
  by (simp_all add: word_at_def bibo_ex_def)

theorem bibo_malloc_first_witness:
  "\<exists>m1. bibo_malloc 0xc002 0x8000 10 bibo_ex = Some (0xc006, m1)"
proof -
  have "free_links bibo_ex 0x8000 [0xc000]"
    by (simp only: free_links.simps bibo_ex_words) (simp add: bibo_ex_words [simplified])
  moreover have "find (fits bibo_ex ((10 + 1) AND NOT 1)) [0xc000] = Some 0xc000"
    using bibo_ex_words(2) by (simp add: fits_def)
  ultimately show ?thesis
    using bibo_malloc_first [of bibo_ex "0x8000" "[0xc000]" "0xc002" 10] by (simp only: option.case) auto
qed

theorem bibo_malloc_leaves_mark_witness:
  "\<exists>m1. bibo_malloc 0xc002 0x8000 10 bibo_ex = Some (0xc006, m1) \<and> word_at m1 0xc004 = 0xfffe
    \<and> next_block_check 0xfffe 0xc000 0xc010 m1 = Some (''Memory broken: next block thinks this is free'' @ newline)"
proof -
  have f: "fits bibo_ex ((10 + 1) AND NOT 1) 0xc000"
    using bibo_ex_words(2) by (simp add: fits_def)
  have b: "bit (word_at bibo_ex (unat (0xc010 :: u16) + 2)) 0"
    unfolding bibo_ex_words by simp
  show ?thesis
    using bibo_malloc_leaves_mark [OF bibo_ex_words(1,2) _ _ _ _ b f, of "0xc002"] by simp
qed

theorem bibo_free_hits_neighbour_witness:
  "\<exists>m1. bibo_free 0xc002 0x9000 0xc006 (bibo_ex(0xc016 := 0x55)) = Some m1 \<and> word_at m1 0xc016 = 0"
proof -
  let ?m = "bibo_ex(0xc016 := 0x55)"
  have "word_at ?m (unat (0x9000 :: u16)) = 0" "word_at ?m (unat (0xc000 :: u16) + 2) = 0xc010"
    by (simp_all add: word_at_def bibo_ex_def)
  from bibo_free_hits_neighbour [OF this, of "0xc002"] show ?thesis
    by auto
qed

end
