(* ===== verification/Sound.thy ===== *)
theory Sound
  imports Savefile
begin

text \<open>
  Sound through SDL, \<^verbatim>\<open>sound_sdl.c\<close>: the reports of the 8-bit timer are turned into samples in a ring buffer, which a callback of the SDL library empties.
  Indices are unsigned 32-bit numbers. The callback runs in a thread of its own, which writes only \<open>sample_start\<close>, while the emulator writes
  only the buffer and \<open>sample_end\<close>; each function is one step here. \<open>None\<close> is an access outside the buffer.
\<close>

section \<open>State\<close>

record sdl =
  sample_buffer :: "u16 list"
  sample_start :: u32
  sample_end :: u32
  sample_level :: int
  sdl_silence_level :: u16
  sound_incr :: u32

abbreviation BUFFER_LENGTH :: u32 where "BUFFER_LENGTH \<equiv> 40960"
abbreviation CYCLES_PER_SEC_DIV_50 :: u32 where "CYCLES_PER_SEC_DIV_50 \<equiv> 320000"
abbreviation AMPLITUDE :: int where "AMPLITUDE \<equiv> 192"

text \<open>The level decays towards the output, as an \<open>int\<close>; \<open>>>\<close> keeps the sign.\<close>

definition next_level :: "int \<Rightarrow> int \<Rightarrow> int" where
  "next_level outp level = (level * 0xf400) div 0x10000 + outp"

definition is_sound_silent :: "int \<Rightarrow> int \<Rightarrow> bool" where
  "is_sound_silent outp level =
    (if outp = AMPLITUDE then next_level outp level \<noteq> 4075
     else if outp = - AMPLITUDE then next_level outp level \<noteq> - 4096
     else False)"

section \<open>Producing samples\<close>

text \<open>The two inner loops run at most \<open>len\<close> times; the second writes nothing.\<close>

fun put_samples :: "int \<Rightarrow> nat \<Rightarrow> u32 \<Rightarrow> int \<Rightarrow> u32 \<Rightarrow> u16 list \<Rightarrow> (u32 \<times> int \<times> u32 \<times> u16 list) option" where
  "put_samples outp 0 incr level ptr buf = Some (incr, level, ptr, buf)"
| "put_samples outp (Suc len) incr level ptr buf =
    (if CYCLES_PER_SEC_DIV_50 < incr then
       let level1 = next_level outp level
       in if unat ptr < length buf then
            put_samples outp len (incr - CYCLES_PER_SEC_DIV_50) level1 (ptr + 1) (buf[unat ptr := of_int level1])
          else None
     else Some (incr, level, ptr, buf))"

fun skip_samples :: "nat \<Rightarrow> u32 \<Rightarrow> u32" where
  "skip_samples 0 incr = incr"
| "skip_samples (Suc len) incr =
    (if CYCLES_PER_SEC_DIV_50 < incr then skip_samples len (incr - CYCLES_PER_SEC_DIV_50) else incr)"

definition update_room :: "u32 \<Rightarrow> u32 \<Rightarrow> u32" where
  "update_room start ptr = (if ptr < start then start - ptr - 1 else BUFFER_LENGTH - ptr)"

definition update_round :: "int \<Rightarrow> u32 \<Rightarrow> u32 \<Rightarrow> int \<Rightarrow> u32 \<Rightarrow> u16 list \<Rightarrow> (u32 \<times> int \<times> u32 \<times> u16 list) option" where
  "update_round outp start incr level ptr buf =
    (let len = update_room start ptr;
         incr1 = (if len = 0 then 0 else incr)
     in map_option (\<lambda>(i, l, p, b). (i, l, if p = BUFFER_LENGTH then 0 else p, b))
          (if is_sound_silent outp level then put_samples outp (unat len) incr1 level ptr buf
           else Some (skip_samples (unat len) incr1, level, ptr, buf)))"

lemma take_cycles: "320000 < incr \<Longrightarrow> unat (incr - 320000 :: u32) = unat incr - 320000"
  by (simp add: unat_sub word_le_nat_alt word_less_nat_alt)

lemma put_samples_incr: "put_samples outp len incr level ptr buf = Some (i, r) \<Longrightarrow> unat i \<le> unat incr"
proof (induction outp len incr level ptr buf rule: put_samples.induct)
  case (2 outp len incr level ptr buf)
  then show ?case
    using take_cycles [of incr] by (auto simp: Let_def split: if_splits)
qed simp

lemma skip_samples_incr: "unat (skip_samples len incr) \<le> unat incr"
proof (induction len incr rule: skip_samples.induct)
  case (2 len incr)
  then show ?case
    using take_cycles [of incr] by auto
qed simp

lemma update_round_less:
  assumes "update_round outp start incr level ptr buf = Some (i, r)" "320000 < incr"
  shows "unat i < unat incr"
proof (cases "unat (update_room start ptr)")
  case 0
  then have "update_room start ptr = 0"
    by (simp add: unat_eq_0)
  then show ?thesis
    using assms by (auto simp: update_round_def Let_def word_less_nat_alt split: if_splits)
next
  case (Suc n)
  then have "update_room start ptr \<noteq> 0"
    by auto
  moreover have lt: "unat (incr - 320000) < unat incr"
    using take_cycles [OF assms(2)] assms(2) by (simp add: word_less_nat_alt)
  have "unat (skip_samples (Suc n) incr) < unat incr"
    using skip_samples_incr [of n "incr - 320000"] lt assms(2) by simp
  moreover have "unat j < unat incr" if "put_samples outp (Suc n) incr level ptr buf = Some (j, r1)" for j r1
    using that put_samples_incr [of outp n "incr - 320000"] lt assms(2) by (fastforce simp: Let_def split: if_splits)
  ultimately show ?thesis
    using assms(1) Suc by (auto simp: update_round_def Let_def split: if_splits)
qed

function update_loop :: "int \<Rightarrow> u32 \<Rightarrow> u32 \<Rightarrow> int \<Rightarrow> u32 \<Rightarrow> u16 list \<Rightarrow> (u32 \<times> int \<times> u32 \<times> u16 list) option" where
  "update_loop outp start incr level ptr buf =
    (if CYCLES_PER_SEC_DIV_50 < incr then
       (case update_round outp start incr level ptr buf of
          None \<Rightarrow> None
        | Some (i, l, p, b) \<Rightarrow> update_loop outp start i l p b)
     else Some (incr, level, ptr, buf))"
  by pat_completeness auto
termination
  by (relation "measure (\<lambda>(_, _, incr, _). unat incr)") (auto dest: update_round_less)

declare update_loop.simps [simp del]

text \<open>\<open>sample_level\<close> is an \<open>int16\<close>.\<close>

definition sdl_sound_update :: "bool \<Rightarrow> u32 \<Rightarrow> sdl \<Rightarrow> sdl option" where
  "sdl_sound_update b new_incr s =
    (let outp = (if b then AMPLITUDE else - AMPLITUDE); incr = sound_incr s + new_incr * 960
     in if incr < CYCLES_PER_SEC_DIV_50 then Some (s\<lparr>sound_incr := incr\<rparr>)
        else
          map_option (\<lambda>(i, l, p, buf). s\<lparr>sound_incr := i, sample_level := sint (of_int l :: u16), sample_end := p, sample_buffer := buf\<rparr>)
            (update_loop outp (sample_start s) incr (sample_level s) (sample_end s) (sample_buffer s)))"

text \<open>
  \<open>sound_init\<close>: whether the SDL library starts, and the silence value of the device when it can be opened; the program ends (\<open>None\<close>) when the library does not
  start.
\<close>

definition sdl_sound_init :: "bool \<Rightarrow> u8 option \<Rightarrow> sdl \<Rightarrow> sdl option" where
  "sdl_sound_init started opened s =
    (if \<not> started then None
     else Some (s\<lparr>sdl_silence_level := (case opened of Some v \<Rightarrow> ucast v | None \<Rightarrow> sdl_silence_level s), sample_start := 0, sample_end := 0\<rparr>))"

section \<open>The callback\<close>

text \<open>
  \<open>data\<close> holds the bytes of the audio buffer, \<open>dest\<close> is a number of samples in it. The number of samples is passed to \<open>memcpy\<close> as the number
  of bytes.
\<close>

definition sample_bytes :: "u16 list \<Rightarrow> u8 list" where
  "sample_bytes buf = concat (map (to_le 2) buf)"

definition copy_samples :: "u16 list \<Rightarrow> u32 \<Rightarrow> u32 \<Rightarrow> nat \<Rightarrow> u8 list \<Rightarrow> u8 list option" where
  "copy_samples buf start n dest data =
    (let bs = take (unat n) (drop (2 * unat start) (sample_bytes buf))
     in if length bs = unat n \<and> 2 * dest + unat n \<le> length data then Some (put (2 * dest) bs data) else None)"

definition silence :: "u16 \<Rightarrow> nat \<Rightarrow> u8 list" where
  "silence l n = concat (replicate n (to_le 2 l))"

definition send_wrapped :: "sdl \<Rightarrow> u32 \<Rightarrow> u8 list \<Rightarrow> (u32 \<times> u32 \<times> nat \<times> u8 list) option" where
  "send_wrapped s len16 data =
    (let s_start = sample_start s
     in if sample_end s < s_start then
          let n = min (BUFFER_LENGTH - s_start) len16
          in map_option (\<lambda>d. (len16 - n, (s_start + n) mod BUFFER_LENGTH, unat n, d)) (copy_samples (sample_buffer s) s_start n 0 data)
        else Some (len16, s_start, 0, data))"

definition send_rest :: "sdl \<Rightarrow> u32 \<times> u32 \<times> nat \<times> u8 list \<Rightarrow> (u32 \<times> u32 \<times> nat \<times> u8 list) option" where
  "send_rest s = (\<lambda>(len16, s_start, dest, data).
     if 0 < len16 \<and> 0 < sample_end s - s_start then
       let n = min (sample_end s - s_start) len16
       in map_option (\<lambda>d. (len16 - n, s_start + n, dest + unat n, d)) (copy_samples (sample_buffer s) s_start n dest data)
     else Some (len16, s_start, dest, data))"

definition sound_send_samples :: "sdl \<Rightarrow> u8 list \<Rightarrow> (u8 list \<times> sdl) option" where
  "sound_send_samples s data =
     Option.bind (send_wrapped s (of_nat (length data div 2)) data) (\<lambda>st.
     Option.bind (send_rest s st) (\<lambda>(len16, s_start, dest, d).
       if 2 * (dest + unat len16) \<le> length d then
         Some (put (2 * dest) (silence (sdl_silence_level s) (unat len16)) d, s\<lparr>sample_start := s_start\<rparr>)
       else None))"

section \<open>Bounds\<close>

definition sdl_ok :: "sdl \<Rightarrow> bool" where
  "sdl_ok s \<longleftrightarrow> length (sample_buffer s) = 40960 \<and> sample_start s < BUFFER_LENGTH \<and> sample_end s < BUFFER_LENGTH
     \<and> - 32768 \<le> sample_level s \<and> sample_level s < 32768"

abbreviation level_ok :: "int \<Rightarrow> bool" where
  "level_ok l \<equiv> - 32768 \<le> l \<and> l < 32768"

lemma next_level_ok:
  assumes "level_ok l" "\<bar>outp\<bar> \<le> AMPLITUDE"
  shows "level_ok (next_level outp l)"
proof -
  have "(- 32768 * 0xf400) div 0x10000 \<le> (l * 0xf400) div 0x10000" "(l * 0xf400) div 0x10000 \<le> (32767 * 0xf400) div (0x10000 :: int)"
    using assms(1) by (intro zdiv_mono1; simp)+
  then show ?thesis
    using assms(2) by (simp add: next_level_def abs_le_iff)
qed

lemma put_samples_ok:
  assumes "\<bar>outp\<bar> \<le> AMPLITUDE" "level_ok level" "unat ptr + len \<le> length buf" "length buf = 40960"
  shows "\<exists>i l p b. put_samples outp len incr level ptr buf = Some (i, l, p, b) \<and> level_ok l \<and> unat p \<le> unat ptr + len \<and> length b = 40960"
  using assms
proof (induction outp len incr level ptr buf rule: put_samples.induct)
  case (2 outp len incr level ptr buf)
  have "unat (ptr + 1) = unat ptr + 1"
    using 2(4,5) by (simp add: unat_word_ariths)
  then show ?case
    using 2 next_level_ok [of level outp] by (auto simp: Let_def)
qed auto

lemma update_room_ok:
  assumes "start < BUFFER_LENGTH" "ptr < BUFFER_LENGTH"
  shows "unat ptr + unat (update_room start ptr) \<le> 40960"
proof (cases "ptr < start")
  case True
  have "unat (start - ptr) = unat start - unat ptr" "unat (start - ptr - 1) = unat (start - ptr) - unat (1 :: u32)"
    using True by (simp_all add: unat_sub word_le_nat_alt word_less_nat_alt Suc_le_eq)
  then show ?thesis
    using True assms by (simp add: update_room_def word_less_nat_alt)
next
  case False
  have "unat (BUFFER_LENGTH - ptr) = 40960 - unat ptr"
    using assms(2) by (simp add: unat_sub word_le_nat_alt word_less_nat_alt)
  then show ?thesis
    using False assms(2) by (simp add: update_room_def word_less_nat_alt)
qed

lemma update_round_ok:
  assumes "\<bar>outp\<bar> \<le> AMPLITUDE" "level_ok level" "start < BUFFER_LENGTH" "ptr < BUFFER_LENGTH" "length buf = 40960"
  shows "\<exists>i l p b. update_round outp start incr level ptr buf = Some (i, l, p, b) \<and> level_ok l \<and> p < BUFFER_LENGTH \<and> length b = 40960"
proof -
  have fit: "unat ptr + unat (update_room start ptr) \<le> length buf"
    using update_room_ok [OF assms(3,4)] assms(5) by simp
  have "p = BUFFER_LENGTH \<or> p < BUFFER_LENGTH" if "unat p \<le> 40960" for p :: u32
    using that by (auto simp: word_less_nat_alt word_unat_eq_iff)
  then show ?thesis
    using put_samples_ok [OF assms(1,2) fit assms(5)] assms
    by (fastforce simp: update_round_def Let_def dest: order_trans [OF _ update_room_ok [OF assms(3,4)]])
qed

lemma update_loop_ok:
  assumes "\<bar>outp\<bar> \<le> AMPLITUDE" "level_ok level" "start < BUFFER_LENGTH" "ptr < BUFFER_LENGTH" "length buf = 40960"
  shows "\<exists>i l p b. update_loop outp start incr level ptr buf = Some (i, l, p, b) \<and> level_ok l \<and> p < BUFFER_LENGTH \<and> length b = 40960 \<and> i \<le> CYCLES_PER_SEC_DIV_50"
  using assms
proof (induction outp start incr level ptr buf rule: update_loop.induct)
  case (1 outp start incr level ptr buf)
  show ?case
  proof (cases "CYCLES_PER_SEC_DIV_50 < incr")
    case True
    obtain i l p b where r: "update_round outp start incr level ptr buf = Some (i, l, p, b)" "level_ok l" "p < BUFFER_LENGTH" "length b = 40960"
      using update_round_ok [OF 1(2-6)] by blast
    then show ?thesis
      using 1(1) [OF True r(1) refl refl refl 1(2) r(2) 1(4) r(3,4)] True by (subst update_loop.simps) simp
  next
    case False
    then show ?thesis
      using 1(2-6) by (subst update_loop.simps) auto
  qed
qed

lemma sample_bytes_length: "length (sample_bytes buf) = 2 * length buf"
  by (induction buf) (simp_all add: sample_bytes_def to_le_length)

lemma copy_samples_ok:
  assumes "2 * unat start + unat n \<le> 2 * length buf" "2 * dest + unat n \<le> length data"
  shows "\<exists>d. copy_samples buf start n dest data = Some d \<and> length d = length data"
  using assms by (simp add: copy_samples_def Let_def sample_bytes_length put_length)

lemma send_wrapped_ok:
  assumes "sdl_ok s" "2 * unat len16 \<le> length data"
  shows "\<exists>l st dest d. send_wrapped s len16 data = Some (l, st, dest, d) \<and> length d = length data \<and> dest + unat l = unat len16
    \<and> st < BUFFER_LENGTH \<and> (l = 0 \<or> st \<le> sample_end s)"
proof (cases "sample_end s < sample_start s")
  case True
  define n where "n = min (BUFFER_LENGTH - sample_start s) len16"
  have b: "unat (BUFFER_LENGTH - sample_start s) = 40960 - unat (sample_start s)" "unat (sample_start s) < 40960"
    using assms(1) by (simp_all add: sdl_ok_def unat_sub word_le_nat_alt word_less_nat_alt)
  have n: "unat n = min (40960 - unat (sample_start s)) (unat len16)"
    using b by (simp add: n_def min_def word_le_nat_alt)
  have "2 * unat (sample_start s) + unat n \<le> 2 * length (sample_buffer s)" "2 * 0 + unat n \<le> length data"
    using assms b(2) by (simp_all add: n sdl_ok_def)
  then obtain d where d: "copy_samples (sample_buffer s) (sample_start s) n 0 data = Some d" "length d = length data"
    using copy_samples_ok by blast
  have l: "unat (len16 - n) = unat len16 - unat n"
    using n by (intro unat_sub) (simp add: word_le_nat_alt)
  have sum: "unat (sample_start s + n) = unat (sample_start s) + unat n"
    using n b by (simp add: unat_word_ariths)
  have m: "(sample_start s + n) mod BUFFER_LENGTH < BUFFER_LENGTH"
    by (simp add: word_less_nat_alt unat_mod_distrib)
  have "len16 - n = 0 \<or> (sample_start s + n) mod BUFFER_LENGTH \<le> sample_end s"
  proof (cases "unat n = unat len16")
    case True
    then have "unat (len16 - n) = 0"
      by (simp add: l)
    then show ?thesis
      by (simp add: unat_eq_0)
  next
    case False
    then have "unat (sample_start s) + unat n = 40960"
      using n b(2) by (simp add: min_def split: if_splits)
    then have "unat ((sample_start s + n) mod BUFFER_LENGTH) = 0"
      by (simp add: unat_mod_distrib sum)
    then show ?thesis
      by (simp add: unat_eq_0)
  qed
  moreover have "unat n + unat (len16 - n) = unat len16"
    using l n by simp
  ultimately show ?thesis
    using True d m by (simp add: send_wrapped_def n_def [symmetric] Let_def)
next
  case False
  then have "send_wrapped s len16 data = Some (len16, sample_start s, 0, data)"
    by (simp add: send_wrapped_def Let_def)
  then show ?thesis
    using False assms(1) by (auto simp: sdl_ok_def)
qed

lemma send_rest_ok:
  assumes "sdl_ok s" "2 * (dest + unat l) \<le> length d" "st < BUFFER_LENGTH" "l = 0 \<or> st \<le> sample_end s"
  shows "\<exists>l1 st1 dest1 d1. send_rest s (l, st, dest, d) = Some (l1, st1, dest1, d1) \<and> length d1 = length d \<and> dest1 + unat l1 = dest + unat l
    \<and> st1 < BUFFER_LENGTH"
proof (cases "0 < l \<and> 0 < sample_end s - st")
  case True
  define n where "n = min (sample_end s - st) l"
  have le: "st \<le> sample_end s"
    using True assms(4) by auto
  have b: "unat (sample_end s - st) = unat (sample_end s) - unat st" "unat (sample_end s) < 40960" "unat st \<le> unat (sample_end s)"
    using assms(1) le by (simp_all add: sdl_ok_def unat_sub word_le_nat_alt word_less_nat_alt)
  have n: "unat n = min (unat (sample_end s) - unat st) (unat l)"
    using b by (simp add: n_def min_def word_le_nat_alt)
  have "2 * unat st + unat n \<le> 2 * length (sample_buffer s)" "2 * dest + unat n \<le> length d"
    using assms(1,2) b by (simp_all add: n sdl_ok_def)
  then obtain d1 where d1: "copy_samples (sample_buffer s) st n dest d = Some d1" "length d1 = length d"
    using copy_samples_ok by blast
  have "unat (l - n) = unat l - unat n"
    using n by (intro unat_sub) (simp add: word_le_nat_alt)
  moreover have "unat (st + n) = unat st + unat n"
    using n b by (simp add: unat_word_ariths)
  then have "st + n < BUFFER_LENGTH"
    using b(2,3) min.cobounded1 [of "unat (sample_end s) - unat st" "unat l"] unfolding n by (simp add: word_less_nat_alt)
  ultimately show ?thesis
    using True d1 n by (simp add: send_rest_def n_def [symmetric] Let_def)
next
  case False
  then show ?thesis
    using assms(3) by (auto simp: send_rest_def)
qed

lemma silence_length: "length (silence l n) = 2 * n"
  by (induction n) (simp_all add: silence_def to_le_length)

section \<open>Properties\<close>

text \<open>
  Sound output never leaves its buffers: while the indices lie in the ring buffer, which they do at the start, each report of the timer ends, however long the
  reported time is and however full the buffer, writes samples only inside the ring buffer and keeps the indices in it and the level in 16 bits, and it
  leaves at most the time of one sample over; and the callback reads only inside it and writes only the bytes it was given.
\<close>

theorem sound_in_bounds:
  assumes "sdl_ok s" "length data < 2 ^ 31"
  shows "(\<exists>s1. sdl_sound_update b new_incr s = Some s1 \<and> sdl_ok s1 \<and> sample_start s1 = sample_start s \<and> sound_incr s1 \<le> CYCLES_PER_SEC_DIV_50)
    \<and> (\<exists>d s1. sound_send_samples s data = Some (d, s1) \<and> length d = length data \<and> sdl_ok s1 \<and> sample_end s1 = sample_end s \<and> sample_buffer s1 = sample_buffer s)"
proof
  define outp where "outp = (if b then AMPLITUDE else - AMPLITUDE)"
  have ok: "length (sample_buffer s) = 40960" "sample_start s < BUFFER_LENGTH" "sample_end s < BUFFER_LENGTH" "level_ok (sample_level s)"
    using assms(1) by (simp_all add: sdl_ok_def)
  have "\<bar>outp\<bar> \<le> AMPLITUDE"
    by (simp add: outp_def)
  then obtain i l p buf where r: "update_loop outp (sample_start s) (sound_incr s + new_incr * 960) (sample_level s) (sample_end s) (sample_buffer s) = Some (i, l, p, buf)"
    "level_ok l" "p < BUFFER_LENGTH" "length buf = 40960" "i \<le> CYCLES_PER_SEC_DIV_50"
    using update_loop_ok [of outp "sample_level s" "sample_start s" "sample_end s" "sample_buffer s" "sound_incr s + new_incr * 960"] ok by blast
  have "level_ok (sint (of_int l :: u16))"
    using sint_range_size [of "of_int l :: u16"] by (simp add: word_size)
  then show "\<exists>s1. sdl_sound_update b new_incr s = Some s1 \<and> sdl_ok s1 \<and> sample_start s1 = sample_start s \<and> sound_incr s1 \<le> CYCLES_PER_SEC_DIV_50"
    using r ok by (auto simp: sdl_sound_update_def outp_def [symmetric] Let_def sdl_ok_def)
next
  have u: "unat (of_nat (length data div 2) :: u32) = length data div 2"
    using assms(2) by (simp only: unat_of_nat) (simp add: take_bit_nat_eq_self)
  obtain l st dest d where w: "send_wrapped s (of_nat (length data div 2)) data = Some (l, st, dest, d)" "length d = length data" "dest + unat l = length data div 2"
    "st < BUFFER_LENGTH" "l = 0 \<or> st \<le> sample_end s"
    using send_wrapped_ok [OF assms(1), of "of_nat (length data div 2)" data] u by auto
  have fit: "2 * (dest + unat l) \<le> length d"
    using w(2,3) by simp
  obtain l1 st1 dest1 d1 where q: "send_rest s (l, st, dest, d) = Some (l1, st1, dest1, d1)" "length d1 = length d" "dest1 + unat l1 = dest + unat l" "st1 < BUFFER_LENGTH"
    using send_rest_ok [OF assms(1) fit w(4,5)] by blast
  have "2 * (dest1 + unat l1) \<le> length d1"
    using q(2,3) fit by simp
  then show "\<exists>d s1. sound_send_samples s data = Some (d, s1) \<and> length d = length data \<and> sdl_ok s1 \<and> sample_end s1 = sample_end s \<and> sample_buffer s1 = sample_buffer s"
    using w(1,2) q(1,2,4) assms(1) by (auto simp: sound_send_samples_def silence_length sdl_ok_def)
qed

text \<open>
  The callback fills only half of what it is asked for: with enough samples waiting, as many bytes as samples are copied, so that the second half of the audio
  buffer keeps what was in it, although all the samples count as sent.
\<close>

theorem sound_half_copied:
  assumes "sdl_ok s" "length data = 2 * n" "0 < n" "n < 2 ^ 30" "unat (sample_start s) + n \<le> unat (sample_end s)"
  shows "sound_send_samples s data = Some (take n (drop (2 * unat (sample_start s)) (sample_bytes (sample_buffer s))) @ drop n data,
    s\<lparr>sample_start := sample_start s + of_nat n\<rparr>)"
proof -
  have u: "unat (of_nat n :: u32) = n"
    using assms(4) by (simp only: unat_of_nat) (simp add: take_bit_nat_eq_self)
  have e: "unat (sample_end s) < 40960" "length (sample_buffer s) = 40960"
    using assms(1) by (simp_all add: sdl_ok_def word_less_nat_alt)
  have d: "unat (sample_end s - sample_start s) = unat (sample_end s) - unat (sample_start s)"
    using assms(5) by (intro unat_sub) (simp add: word_le_nat_alt)
  have "\<not> sample_end s < sample_start s"
    using assms(5) by (simp add: word_less_nat_alt)
  then have w: "send_wrapped s (of_nat n) data = Some (of_nat n, sample_start s, 0, data)"
    by (simp add: send_wrapped_def Let_def)
  have "of_nat n \<le> sample_end s - sample_start s"
    unfolding word_le_nat_alt u d using assms(5) by linarith
  then have m: "min (sample_end s - sample_start s) (of_nat n) = of_nat n"
    by (rule min.absorb2)
  let ?bs = "take n (drop (2 * unat (sample_start s)) (sample_bytes (sample_buffer s)))"
  have "length ?bs = n"
    using e assms(5) by (simp add: sample_bytes_length)
  then have "copy_samples (sample_buffer s) (sample_start s) (of_nat n) 0 data = Some (?bs @ drop n data)"
    using u assms(2) by (simp add: copy_samples_def Let_def put_def)
  moreover have "0 < (of_nat n :: u32)" "0 < sample_end s - sample_start s"
    using assms(3,5) u d by (simp_all add: word_less_nat_alt)
  ultimately have "send_rest s (of_nat n, sample_start s, 0, data) = Some (0, sample_start s + of_nat n, n, ?bs @ drop n data)"
    using u by (simp add: send_rest_def m Let_def)
  then show ?thesis
    using w assms(2) \<open>length ?bs = n\<close> by (simp add: sound_send_samples_def silence_def put_def)
qed

definition sdl_ex :: sdl where
  "sdl_ex = \<lparr>sample_buffer = replicate 40960 0, sample_start = 10, sample_end = 40958, sample_level = 0, sdl_silence_level = 0, sound_incr = 0\<rparr>"

theorem sound_in_bounds_witness:
  "\<exists>s1. sdl_sound_update True 4000 sdl_ex = Some s1 \<and> sdl_ok s1 \<and> sample_start s1 = 10 \<and> sound_incr s1 \<le> CYCLES_PER_SEC_DIV_50"
  using sound_in_bounds [of sdl_ex "[]" True 4000] by (simp add: sdl_ok_def sdl_ex_def)

theorem sound_half_copied_witness:
  "sound_send_samples (sdl_ex\<lparr>sample_end := 20\<rparr>) [1, 2, 3, 4] =
    Some (take 2 (drop 20 (sample_bytes (replicate 40960 0))) @ [3, 4], sdl_ex\<lparr>sample_end := 20, sample_start := 12\<rparr>)"
  using sound_half_copied [of "sdl_ex\<lparr>sample_end := 20\<rparr>" "[1, 2, 3, 4]" 2] by (simp add: sdl_ok_def sdl_ex_def)

end
