(* ===== verification/SoundAlsa.thy ===== *)
theory SoundAlsa
  imports Sound
begin

text \<open>
  Sound through ALSA, \<^verbatim>\<open>sound_alsa.c\<close>: samples are written into memory that is shared with the sound device. The library is a parameter, the record \<open>alsa\<close> of
  the calls that are made, on the state \<open>'d\<close> of the device; \<open>pcm_contract\<close> says what the code relies on. The memory that is shared is a list of samples, an address
  in it an index. \<open>None\<close> is an access outside that memory or through an uninitialised pointer, a division by zero, or a loop that does not end.
\<close>

section \<open>The library\<close>

datatype pcm_state = SND_PCM_STATE_OPEN | SND_PCM_STATE_SETUP | SND_PCM_STATE_PREPARED | SND_PCM_STATE_RUNNING | SND_PCM_STATE_XRUN
  | SND_PCM_STATE_DRAINING | SND_PCM_STATE_PAUSED | SND_PCM_STATE_SUSPENDED | SND_PCM_STATE_DISCONNECTED

text \<open>Where a channel lies: \<open>first\<close> and \<open>step\<close> count bits. The variables that \<open>snd_pcm_mmap_begin\<close> reads and writes keep their values from turn to turn.\<close>

record channel_area =
  area_addr :: nat
  area_first :: nat
  area_step :: nat

record mmap_vars =
  mmap_areas :: "channel_area option"
  mmap_offset :: nat
  mmap_frames :: nat

text \<open>The calls of the configuration, with their arguments.\<close>

datatype pcm_call = Hw_any | Hw_access | Hw_format | Hw_channels nat | Hw_rate_near nat | Hw_buffer_time_near nat | Hw_buffer_size
  | Hw_period_time_near nat | Hw_params | Hw_period_size | Sw_current | Sw_start_threshold nat | Sw_avail_min nat | Sw_params

text \<open>
  A call returns its error code and the new state of the device; a configuration call may also return a value through a pointer. The
  samples of a frame are read from the shared memory when it is committed.
\<close>

record 'd alsa =
  snd_pcm_open :: "'d \<Rightarrow> int \<times> 'd"
  snd_pcm_config :: "pcm_call \<Rightarrow> 'd \<Rightarrow> int \<times> nat \<times> 'd"
  snd_pcm_state :: "'d \<Rightarrow> pcm_state"
  snd_pcm_prepare :: "'d \<Rightarrow> int \<times> 'd"
  snd_pcm_resume :: "'d \<Rightarrow> int \<times> 'd"
  snd_pcm_avail_update :: "'d \<Rightarrow> int \<times> 'd"
  snd_pcm_delay :: "'d \<Rightarrow> int \<times> 'd"
  snd_pcm_start :: "'d \<Rightarrow> int \<times> 'd"
  snd_pcm_mmap_begin :: "mmap_vars \<Rightarrow> 'd \<Rightarrow> mmap_vars \<times> 'd"
  snd_pcm_mmap_commit :: "nat \<Rightarrow> nat \<Rightarrow> u16 list \<Rightarrow> 'd \<Rightarrow> 'd"

section \<open>State and operations\<close>

record 'd pcm =
  pcm_handle :: bool
  pcm_dev :: 'd
  pcm_memory :: "u16 list"
  pcm_stopped :: bool
  pcm_level :: int
  pcm_incr :: u32

abbreviation EAGAIN :: int where "EAGAIN \<equiv> 11"

partial_function (option) resume_loop :: "'d alsa \<Rightarrow> 'd \<Rightarrow> (int \<times> 'd) option" where
  "resume_loop L d = (let (err, d1) = snd_pcm_resume L d in if err = - EAGAIN then resume_loop L d1 else Some (err, d1))"

definition pcm_recover :: "'d alsa \<Rightarrow> bool \<Rightarrow> 'd \<Rightarrow> (bool \<times> 'd) option" where
  "pcm_recover L st d =
    (if snd_pcm_state L d = SND_PCM_STATE_XRUN then Some (True, snd (snd_pcm_prepare L d))
     else if snd_pcm_state L d = SND_PCM_STATE_SUSPENDED then
       map_option (\<lambda>(err, d1). (st, if err < 0 then snd (snd_pcm_prepare L d1) else d1)) (resume_loop L d)
     else Some (st, d))"

definition pcm_restart :: "'d alsa \<Rightarrow> int \<Rightarrow> bool \<Rightarrow> 'd \<Rightarrow> bool \<times> 'd" where
  "pcm_restart L avail st d =
    (if st then
       let d1 = snd (snd_pcm_delay L d)
       in if avail < 5000 then (False, snd (snd_pcm_start L d1)) else (True, d1)
     else (False, d))"

text \<open>The inner loop over \<open>len\<close>, for the one channel.\<close>

fun put_frames :: "int \<Rightarrow> nat \<Rightarrow> int \<Rightarrow> nat \<Rightarrow> nat \<Rightarrow> u16 list \<Rightarrow> (int \<times> u16 list) option" where
  "put_frames outp 0 level sptr step buf = Some (level, buf)"
| "put_frames outp (Suc len) level sptr step buf =
    (let level1 = next_level outp level
     in if sptr < length buf then put_frames outp len level1 (sptr + step) step (buf[sptr := of_int level1]) else None)"

type_synonym 'd round = "mmap_vars \<times> u32 \<times> int \<times> u16 list \<times> 'd"

definition pcm_round :: "'d alsa \<Rightarrow> int \<Rightarrow> nat \<Rightarrow> 'd round \<Rightarrow> 'd round option" where
  "pcm_round L outp avail = (\<lambda>(v, incr, level, buf, d).
    let want = unat (incr div CYCLES_PER_SEC_DIV_50);
        (frames, incr1) = (if avail < want then (avail, of_nat (avail * 320000)) else (want, incr));
        (v1, d1) = snd_pcm_mmap_begin L (v\<lparr>mmap_frames := frames\<rparr>) d
    in case mmap_areas v1 of
         None \<Rightarrow> None
       | Some a \<Rightarrow>
           let step = area_step a div 16;
               sptr = area_addr a + area_first a div 16 + step * mmap_offset v1;
               len = nat (sint (of_nat (mmap_frames v1) :: u32))
           in map_option (\<lambda>(l, b). (v1, incr1 - of_nat (mmap_frames v1 * 320000), l, b, snd_pcm_mmap_commit L (mmap_offset v1) (mmap_frames v1) b d1))
                (put_frames outp len level sptr step buf))"

partial_function (option) pcm_loop :: "'d alsa \<Rightarrow> int \<Rightarrow> nat \<Rightarrow> 'd round \<Rightarrow> 'd round option" where
  "pcm_loop L outp avail r =
    (if CYCLES_PER_SEC_DIV_50 < fst (snd r) then Option.bind (pcm_round L outp avail r) (pcm_loop L outp avail) else Some r)"

definition alsa_sound_update :: "'d alsa \<Rightarrow> bool \<Rightarrow> u32 \<Rightarrow> 'd pcm \<Rightarrow> 'd pcm option" where
  "alsa_sound_update L b new_incr p =
    (let outp = (if b then AMPLITUDE else - AMPLITUDE); incr = pcm_incr p + new_incr * 960; p1 = p\<lparr>pcm_incr := incr\<rparr>
     in if \<not> pcm_handle p then Some p
        else if incr < CYCLES_PER_SEC_DIV_50 then Some p1
        else Option.bind (pcm_recover L (pcm_stopped p) (pcm_dev p)) (\<lambda>(st, d).
          let (avail, d1) = snd_pcm_avail_update L d
          in if avail < 0 then Some (p1\<lparr>pcm_dev := d1, pcm_stopped := st\<rparr>)
             else
               let (st2, d2) = pcm_restart L avail st d1
               in map_option (\<lambda>(_, i, l, buf, d3). p1\<lparr>pcm_dev := d3, pcm_stopped := st2, pcm_memory := buf, pcm_level := sint (of_int l :: u16), pcm_incr := i\<rparr>)
                    (pcm_loop L outp (nat avail) (\<lparr>mmap_areas = None, mmap_offset = 0, mmap_frames = 0\<rparr>, incr, pcm_level p, pcm_memory p, d2))))"

section \<open>Configuration\<close>

text \<open>\<open>sound_init\<close>: each step fails with a negative code and ends the function. The last call ends the program when it fails (\<open>Inl\<close>).\<close>

fun pcm_configure :: "'d alsa \<Rightarrow> pcm_call list \<Rightarrow> 'd \<Rightarrow> bool \<times> nat list \<times> 'd" where
  "pcm_configure L [] d = (True, [], d)"
| "pcm_configure L (c # cs) d =
    (let (err, v, d1) = snd_pcm_config L c d
     in if err < 0 then (False, [], d1) else let (ok, vs, d2) = pcm_configure L cs d1 in (ok, v # vs, d2))"

definition hw_calls :: "pcm_call list" where
  "hw_calls = [Hw_any, Hw_access, Hw_format, Hw_channels 1, Hw_rate_near 48000, Hw_buffer_time_near 500000, Hw_buffer_size,
     Hw_period_time_near 100000, Hw_params, Hw_period_size, Sw_current]"

definition alsa_sound_init :: "'d alsa \<Rightarrow> 'd pcm \<Rightarrow> (unit + 'd pcm) option" where
  "alsa_sound_init L p =
    (let (err, d) = snd_pcm_open L (pcm_dev p)
     in if err \<noteq> 0 then Some (Inr (p\<lparr>pcm_dev := d\<rparr>))
        else
          let p1 = p\<lparr>pcm_handle := True\<rparr>; (ok, vs, d1) = pcm_configure L hw_calls d
          in if \<not> ok then Some (Inr (p1\<lparr>pcm_dev := d1\<rparr>))
             else
               let buffer_size = vs ! 6; period_size = vs ! 9
               in if period_size = 0 then None
                  else
                    let (ok2, _, d2) = pcm_configure L [Sw_start_threshold (buffer_size div period_size * period_size), Sw_avail_min period_size, Sw_params] d1
                    in if \<not> ok2 then Some (Inr (p1\<lparr>pcm_dev := d2\<rparr>))
                       else
                         let (e, d3) = snd_pcm_prepare L d2
                         in if e < 0 then Some (Inl ()) else Some (Inr (p1\<lparr>pcm_dev := d3, pcm_stopped := True\<rparr>)))"

text \<open>When the device cannot be configured the function returns with the handle still set, and reports go to the device all the same.\<close>

lemma alsa_init_failed:
  assumes "snd_pcm_open L (pcm_dev p) = (0, d)" "pcm_configure L hw_calls d = (False, vs, d1)"
  shows "alsa_sound_init L p = Some (Inr (p\<lparr>pcm_handle := True, pcm_dev := d1\<rparr>))"
  using assms by (simp add: alsa_sound_init_def)

section \<open>The stream of samples\<close>

text \<open>The levels that follow each other while the output stays at \<open>outp\<close>.\<close>

fun levels :: "int \<Rightarrow> nat \<Rightarrow> int \<Rightarrow> int list" where
  "levels outp 0 l = []"
| "levels outp (Suc n) l = next_level outp l # levels outp n (next_level outp l)"

definition frame_pos :: "channel_area \<Rightarrow> nat \<Rightarrow> nat \<Rightarrow> nat" where
  "frame_pos a off i = area_addr a + area_first a div 16 + area_step a div 16 * (off + i)"

text \<open>
  What the documentation of the library says: while the device is ready, time that passes only makes room; a request for no more frames than there is room
  gives between one frame and the number that was asked for, at places inside the shared memory; committing them takes up their room and appends
  their samples to what is played.
\<close>

definition pcm_idle :: "('d \<Rightarrow> bool) \<Rightarrow> ('d \<Rightarrow> nat) \<Rightarrow> ('d \<Rightarrow> u16 list) \<Rightarrow> 'd \<Rightarrow> 'd \<Rightarrow> bool" where
  "pcm_idle rdy room played d d1 \<longleftrightarrow> (rdy d \<longrightarrow> rdy d1 \<and> room d \<le> room d1 \<and> played d1 = played d)"

definition frames_granted :: "'d alsa \<Rightarrow> ('d \<Rightarrow> bool) \<Rightarrow> ('d \<Rightarrow> nat) \<Rightarrow> ('d \<Rightarrow> u16 list) \<Rightarrow> nat \<Rightarrow> 'd \<Rightarrow> nat \<Rightarrow> mmap_vars \<Rightarrow> bool" where
  "frames_granted L rdy room played n d f v \<longleftrightarrow>
    (\<exists>a off k d1. snd_pcm_mmap_begin L v d = (\<lparr>mmap_areas = Some a, mmap_offset = off, mmap_frames = k\<rparr>, d1)
       \<and> k \<le> f \<and> (0 < f \<longrightarrow> 0 < k) \<and> 16 \<le> area_step a \<and> (\<forall>i<k. frame_pos a off i < n)
       \<and> (\<forall>buf. length buf = n \<longrightarrow> rdy (snd_pcm_mmap_commit L off k buf d1) \<and> room d - k \<le> room (snd_pcm_mmap_commit L off k buf d1)
           \<and> played (snd_pcm_mmap_commit L off k buf d1) = played d @ map (\<lambda>i. buf ! frame_pos a off i) [0..<k]))"

definition pcm_contract :: "'d alsa \<Rightarrow> ('d \<Rightarrow> bool) \<Rightarrow> ('d \<Rightarrow> nat) \<Rightarrow> ('d \<Rightarrow> u16 list) \<Rightarrow> nat \<Rightarrow> bool" where
  "pcm_contract L rdy room played n \<longleftrightarrow>
    (\<forall>d. rdy d \<longrightarrow> snd_pcm_state L d \<notin> {SND_PCM_STATE_XRUN, SND_PCM_STATE_SUSPENDED} \<and> fst (snd_pcm_avail_update L d) = int (room (snd (snd_pcm_avail_update L d))))
    \<and> (\<forall>d. pcm_idle rdy room played d (snd (snd_pcm_avail_update L d)) \<and> pcm_idle rdy room played d (snd (snd_pcm_delay L d))
        \<and> pcm_idle rdy room played d (snd (snd_pcm_start L d)))
    \<and> (\<forall>d f v. rdy d \<longrightarrow> f \<le> room d \<longrightarrow> frames_granted L rdy room played n d f (v\<lparr>mmap_frames := f\<rparr>))"


lemma pcm_idle_refl: "pcm_idle rdy room played d d"
  by (simp add: pcm_idle_def)

lemma pcm_idle_trans: "pcm_idle rdy room played d d1 \<Longrightarrow> pcm_idle rdy room played d1 d2 \<Longrightarrow> pcm_idle rdy room played d d2"
  by (auto simp: pcm_idle_def)

lemma pcm_contract_idle:
  assumes "pcm_contract L rdy room played n"
  shows "pcm_idle rdy room played d (snd (snd_pcm_avail_update L d))" "pcm_idle rdy room played d (snd (snd_pcm_delay L d))"
    "pcm_idle rdy room played d (snd (snd_pcm_start L d))"
  using assms by (simp_all add: pcm_contract_def)

lemma levels_length [simp]: "length (levels outp n l) = n"
  by (induction n arbitrary: l) simp_all

lemma levels_add: "levels outp (n + k) l = levels outp n l @ levels outp k ((next_level outp ^^ n) l)"
  by (induction n arbitrary: l) (simp_all add: funpow_swap1)

lemma level_iter_ok: "\<bar>outp\<bar> \<le> AMPLITUDE \<Longrightarrow> level_ok l \<Longrightarrow> level_ok ((next_level outp ^^ n) l)"
  by (induction n) (simp_all add: next_level_ok)

lemma sint_level:
  assumes "level_ok l"
  shows "sint (of_int l :: u16) = l"
proof -
  have "signed_take_bit 15 l = l"
    using assms by (intro signed_take_bit_int_eq_self) simp_all
  then show ?thesis
    by (simp only: signed_of_int) simp
qed

text \<open>Writing \<open>len\<close> frames puts the levels at their places and changes nothing before the first of them.\<close>

lemma put_frames_levels:
  assumes "0 < step" "\<And>i. i < len \<Longrightarrow> sptr + step * i < length buf"
  shows "\<exists>b. put_frames outp len l sptr step buf = Some ((next_level outp ^^ len) l, b) \<and> length b = length buf
    \<and> (\<forall>i<len. b ! (sptr + step * i) = of_int (levels outp len l ! i)) \<and> (\<forall>j < sptr. b ! j = buf ! j)"
  using assms
proof (induction len arbitrary: l sptr buf)
  case (Suc len)
  let ?l = "next_level outp l" and ?buf = "buf[sptr := of_int (next_level outp l)]"
  have "sptr + step + step * i < length ?buf" if "i < len" for i
    using Suc.prems(2) [of "Suc i"] that by simp
  from Suc.IH [OF Suc.prems(1), of "sptr + step" ?buf ?l, OF this]
  obtain b where b: "put_frames outp len ?l (sptr + step) step ?buf = Some ((next_level outp ^^ len) ?l, b)" "length b = length buf"
    "\<forall>i<len. b ! (sptr + step + step * i) = of_int (levels outp len ?l ! i)" "\<forall>j < sptr + step. b ! j = ?buf ! j"
    by auto
  have s: "sptr < length buf"
    using Suc.prems(2) [of 0] by simp
  then have "put_frames outp (Suc len) l sptr step buf = Some ((next_level outp ^^ Suc len) l, b)"
    using b(1) by (simp add: funpow_swap1)
  moreover have "b ! (sptr + step * i) = of_int (levels outp (Suc len) l ! i)" if "i < Suc len" for i
  proof (cases i)
    case 0
    then show ?thesis
      using b(4) Suc.prems(1) s by simp
  next
    case (Suc k)
    then show ?thesis
      using b(3) that by (simp add: add.assoc)
  qed
  moreover have "b ! j = buf ! j" if "j < sptr" for j
    using b(4) that by simp
  ultimately show ?case
    using b(2) by blast
qed simp

lemma small_frames:
  assumes "k \<le> 13421"
  shows "nat (sint (of_nat k :: u32)) = k"
proof -
  have "signed_take_bit 31 (int k) = int k"
    using assms by (intro signed_take_bit_int_eq_self) simp_all
  then have "sint (of_int (int k) :: u32) = int k"
    by (simp only: signed_of_int) simp
  then show ?thesis
    by simp
qed

lemma take_frames:
  assumes "k * 320000 \<le> unat (i :: u32)"
  shows "unat (i - of_nat (k * 320000)) = unat i - k * 320000"
proof -
  have "k * 320000 < 2 ^ 32"
    using assms unat_less_2p [of i] by simp
  then have "unat (of_nat (k * 320000) :: u32) = k * 320000"
    by (simp only: unat_of_nat) (simp add: take_bit_nat_eq_self)
  then show ?thesis
    using assms by (simp add: unat_sub word_le_nat_alt)
qed

text \<open>One turn of the loop. \<open>budget\<close> is the time that is to be turned into samples, after the part that does not fit was dropped.\<close>

definition budget :: "nat \<Rightarrow> u32 \<Rightarrow> nat" where
  "budget avail incr = (if avail < unat incr div 320000 then avail * 320000 else unat incr)"

lemma budget_div: "budget avail incr div 320000 = min avail (unat incr div 320000)"
  by (simp add: budget_def)

lemma pcm_round_ok:
  fixes L :: "'d alsa"
  assumes c: "pcm_contract L rdy room played n" and r: "rdy d" "budget avail incr div 320000 \<le> room d" "length buf = n"
  shows "\<exists>v1 i1 b d1 k. pcm_round L outp avail (v, incr, l, buf, d) = Some (v1, i1, (next_level outp ^^ k) l, b, d1)
    \<and> k \<le> budget avail incr div 320000 \<and> (320000 \<le> budget avail incr \<longrightarrow> 0 < k) \<and> k * 320000 + unat i1 = budget avail incr \<and> length b = n \<and> rdy d1 \<and> room d - k \<le> room d1
    \<and> played d1 = played d @ map of_int (levels outp k l)"
proof -
  define f where "f = budget avail incr div 320000"
  define incr1 where "incr1 = (if avail < unat incr div 320000 then of_nat (avail * 320000) else incr)"
  have big: "unat incr div 320000 \<le> 13421"
    using unat_less_2p [of incr] by simp
  have i1: "unat incr1 = budget avail incr"
  proof (cases "avail < unat incr div 320000")
    case True
    then have "avail * 320000 < 2 ^ 32"
      using big by simp
    then show ?thesis
      using True by (simp only: incr1_def budget_def if_True unat_of_nat) (simp add: take_bit_nat_eq_self)
  qed (simp add: incr1_def budget_def)
  have want: "unat (incr div CYCLES_PER_SEC_DIV_50) = unat incr div 320000"
    by (simp add: unat_div)
  have fr: "(if avail < unat incr div 320000 then (avail, of_nat (avail * 320000)) else (unat incr div 320000, incr)) = (f, incr1)"
    by (simp add: f_def incr1_def budget_def)
  have granted: "frames_granted L rdy room played n d f (v\<lparr>mmap_frames := f\<rparr>)"
    using c r(1,2) by (simp add: pcm_contract_def f_def)
  obtain a off k d1 where m: "snd_pcm_mmap_begin L (v\<lparr>mmap_frames := f\<rparr>) d = (\<lparr>mmap_areas = Some a, mmap_offset = off, mmap_frames = k\<rparr>, d1)"
    "k \<le> f" "0 < f \<longrightarrow> 0 < k" "16 \<le> area_step a" "\<forall>i<k. frame_pos a off i < n"
    "\<forall>buf. length buf = n \<longrightarrow> rdy (snd_pcm_mmap_commit L off k buf d1) \<and> room d - k \<le> room (snd_pcm_mmap_commit L off k buf d1)
       \<and> played (snd_pcm_mmap_commit L off k buf d1) = played d @ map (\<lambda>i. buf ! frame_pos a off i) [0..<k]"
    using granted unfolding frames_granted_def by blast
  define sptr step where "sptr = area_addr a + area_first a div 16 + area_step a div 16 * off" and "step = area_step a div 16"
  have pos: "frame_pos a off i = sptr + step * i" for i
    by (simp add: frame_pos_def sptr_def step_def add_mult_distrib2)
  have "0 < step"
    using m(4) by (simp add: step_def div_greater_zero_iff)
  then obtain b where b: "put_frames outp k l sptr step buf = Some ((next_level outp ^^ k) l, b)" "length b = n"
    "\<forall>i<k. b ! (sptr + step * i) = of_int (levels outp k l ! i)"
    using put_frames_levels [of step k sptr buf outp l] m(5) r(3) pos by auto
  have len: "nat (sint (of_nat k :: u32)) = k"
    using m(2) big by (intro small_frames) (simp add: f_def budget_div)
  have "map (\<lambda>i. b ! frame_pos a off i) [0..<k] = map of_int (levels outp k l)"
    using b(3) by (intro nth_equalityI) (simp_all add: pos)
  moreover have "pcm_round L outp avail (v, incr, l, buf, d) = Some (\<lparr>mmap_areas = Some a, mmap_offset = off, mmap_frames = k\<rparr>,
      incr1 - of_nat (k * 320000), (next_level outp ^^ k) l, b, snd_pcm_mmap_commit L off k b d1)"
    unfolding pcm_round_def prod.case Let_def want fr m(1) mmap_vars.simps option.case len
    using b(1) by (simp add: sptr_def step_def)
  moreover have "k * 320000 \<le> budget avail incr"
    using m(2) by (simp add: f_def less_eq_div_iff_mult_less_eq)
  moreover from this have "k * 320000 + unat (incr1 - of_nat (k * 320000)) = budget avail incr"
    using i1 take_frames [of k incr1] by linarith
  ultimately show ?thesis
    using m(2,3,6) b(2) by (auto simp: f_def div_greater_zero_iff)
qed


text \<open>All turns, when what is left fits.\<close>

lemma pcm_loop_ok:
  fixes L :: "'d alsa"
  assumes c: "pcm_contract L rdy room played n" and r: "rdy d" "unat incr div 320000 \<le> room d" "unat incr div 320000 \<le> avail" "length buf = n"
  shows "\<exists>v1 i1 b d1 k. pcm_loop L outp avail (v, incr, l, buf, d) = Some (v1, i1, (next_level outp ^^ k) l, b, d1)
    \<and> k * 320000 + unat i1 = unat incr \<and> i1 \<le> CYCLES_PER_SEC_DIV_50 \<and> length b = n \<and> rdy d1 \<and> played d1 = played d @ map of_int (levels outp k l)"
  using r
proof (induction "unat incr" arbitrary: v incr l buf d rule: less_induct)
  case less
  show ?case
  proof (cases "CYCLES_PER_SEC_DIV_50 < incr")
    case True
    have bud: "budget avail incr = unat incr"
      using less.prems(3) by (simp add: budget_def)
    then obtain v1 i1 b d1 k where p: "pcm_round L outp avail (v, incr, l, buf, d) = Some (v1, i1, (next_level outp ^^ k) l, b, d1)"
      "k \<le> unat incr div 320000" "320000 \<le> unat incr \<longrightarrow> 0 < k" "k * 320000 + unat i1 = unat incr" "length b = n" "rdy d1" "room d - k \<le> room d1"
      "played d1 = played d @ map of_int (levels outp k l)"
      using pcm_round_ok [OF c less.prems(1), of avail incr buf outp v l] less.prems(2,4) by auto
    have "0 < k"
      using p(3) True by (simp add: word_less_nat_alt)
    then have "unat i1 < unat incr"
      using p(4) by simp
    moreover have "unat i1 div 320000 = unat incr div 320000 - k"
      using p(2,4) by (metis add_diff_cancel_left' div_mult_self3 diff_add_inverse zero_neq_numeral)
    ultimately have less1: "unat i1 < unat incr" "unat i1 div 320000 \<le> room d1" "unat i1 div 320000 \<le> avail"
      using less.prems(2,3) p(7) by linarith+
    then obtain v2 i2 b2 d2 j where q: "pcm_loop L outp avail (v1, i1, (next_level outp ^^ k) l, b, d1) = Some (v2, i2, (next_level outp ^^ j) ((next_level outp ^^ k) l), b2, d2)"
      "j * 320000 + unat i2 = unat i1" "i2 \<le> CYCLES_PER_SEC_DIV_50" "length b2 = n" "rdy d2" "played d2 = played d1 @ map of_int (levels outp j ((next_level outp ^^ k) l))"
      using less.hyps [OF less1(1) p(6) less1(2,3) p(5), of v1 "(next_level outp ^^ k) l"] by auto
    have "pcm_loop L outp avail (v, incr, l, buf, d) = Some (v2, i2, (next_level outp ^^ (k + j)) l, b2, d2)"
      using True p(1) q(1) by (subst pcm_loop.simps) (simp add: funpow_add add.commute [of k])
    moreover have "(k + j) * 320000 + unat i2 = unat incr"
      using p(4) q(2) by (simp add: add_mult_distrib)
    ultimately show ?thesis
      using p(8) q(3-6) by (intro exI [of _ v2] exI [of _ i2] exI [of _ b2] exI [of _ d2] exI [of _ "k + j"]) (simp add: levels_add)
  next
    case False
    then show ?thesis
      using less.prems by (subst pcm_loop.simps) (auto intro!: exI [of _ 0])
  qed
qed

lemma pcm_loop_budget:
  fixes L :: "'d alsa"
  assumes c: "pcm_contract L rdy room played n" and r: "rdy d" "avail \<le> room d" "length buf = n" "CYCLES_PER_SEC_DIV_50 \<le> incr"
  shows "\<exists>v1 i1 b d1 k. pcm_loop L outp avail (v, incr, l, buf, d) = Some (v1, i1, (next_level outp ^^ k) l, b, d1)
    \<and> k * 320000 + unat i1 = (if incr = CYCLES_PER_SEC_DIV_50 then 320000 else budget avail incr) \<and> i1 \<le> CYCLES_PER_SEC_DIV_50 \<and> length b = n \<and> rdy d1
    \<and> played d1 = played d @ map of_int (levels outp k l)"
proof (cases "incr = CYCLES_PER_SEC_DIV_50")
  case True
  then show ?thesis
    using r by (subst pcm_loop.simps) (auto intro!: exI [of _ 0])
next
  case False
  then have more: "CYCLES_PER_SEC_DIV_50 < incr"
    using r(4) by simp
  have "budget avail incr div 320000 \<le> room d"
    using r(2) by (simp add: budget_div)
  from pcm_round_ok [OF c r(1) this r(3), of outp v l]
  obtain v1 i1 b d1 k where p: "pcm_round L outp avail (v, incr, l, buf, d) = Some (v1, i1, (next_level outp ^^ k) l, b, d1)"
    "k \<le> budget avail incr div 320000" "k * 320000 + unat i1 = budget avail incr" "length b = n" "rdy d1" "room d - k \<le> room d1"
    "played d1 = played d @ map of_int (levels outp k l)"
    by auto
  have "unat i1 div 320000 = budget avail incr div 320000 - k"
    using p(2,3) by (metis add_diff_cancel_left' div_mult_self3 diff_add_inverse zero_neq_numeral)
  then have "unat i1 div 320000 \<le> room d1" "unat i1 div 320000 \<le> avail"
    using p(6) r(2) by (auto simp: budget_div)
  from pcm_loop_ok [OF c p(5) this p(4), of outp v1 "(next_level outp ^^ k) l"]
  obtain v2 i2 b2 d2 j where q: "pcm_loop L outp avail (v1, i1, (next_level outp ^^ k) l, b, d1) = Some (v2, i2, (next_level outp ^^ j) ((next_level outp ^^ k) l), b2, d2)"
    "j * 320000 + unat i2 = unat i1" "i2 \<le> CYCLES_PER_SEC_DIV_50" "length b2 = n" "rdy d2" "played d2 = played d1 @ map of_int (levels outp j ((next_level outp ^^ k) l))"
    by auto
  have "pcm_loop L outp avail (v, incr, l, buf, d) = Some (v2, i2, (next_level outp ^^ (k + j)) l, b2, d2)"
    using more p(1) q(1) by (subst pcm_loop.simps) (simp add: funpow_add add.commute [of k])
  moreover have "(k + j) * 320000 + unat i2 = budget avail incr"
    using p(3) q(2) by (simp add: add_mult_distrib)
  ultimately show ?thesis
    using p(7) q(3-6) False by (intro exI [of _ v2] exI [of _ i2] exI [of _ b2] exI [of _ d2] exI [of _ "k + j"]) (simp add: levels_add)
qed


section \<open>Properties\<close>

text \<open>
  C21. What is played is exactly the wave form of the reports: when the device is ready, a report ends, and the samples it adds to the stream are the next levels of the output, in
  order and none of them twice, however the library splits the shared memory into pieces. The time of the report and of what was left over from the last one is accounted for: it
  becomes samples, of 320000 units each, and a rest of at most one sample; only when there is no room in the device the time that does not fit is dropped, and no
  other sample is lost. The level stays in 16 bits, and nothing is written outside the shared memory.
\<close>

theorem alsa_stream:
  fixes L :: "'d alsa" and p :: "'d pcm" and new_incr :: u32
  defines "time \<equiv> pcm_incr p + new_incr * 960" and "room0 \<equiv> nat (fst (snd_pcm_avail_update L (pcm_dev p)))"
  assumes "pcm_contract L rdy room played n" "pcm_handle p" "rdy (pcm_dev p)" "length (pcm_memory p) = n" "level_ok (pcm_level p)"
  shows "\<exists>p1 k. alsa_sound_update L b new_incr p = Some p1 \<and> rdy (pcm_dev p1) \<and> length (pcm_memory p1) = n \<and> level_ok (pcm_level p1)
    \<and> pcm_level p1 = (next_level (if b then AMPLITUDE else - AMPLITUDE) ^^ k) (pcm_level p)
    \<and> played (pcm_dev p1) = played (pcm_dev p) @ map of_int (levels (if b then AMPLITUDE else - AMPLITUDE) k (pcm_level p))
    \<and> k * 320000 + unat (pcm_incr p1) = (if unat time \<le> 320000 then unat time else budget room0 time) \<and> pcm_incr p1 \<le> CYCLES_PER_SEC_DIV_50"
proof -
  define outp where "outp = (if b then AMPLITUDE else - AMPLITUDE)"
  show ?thesis
  proof (cases "time < CYCLES_PER_SEC_DIV_50")
    case True
    then have "alsa_sound_update L b new_incr p = Some (p\<lparr>pcm_incr := time\<rparr>)"
      using assms(4) by (simp add: alsa_sound_update_def time_def Let_def)
    then show ?thesis
      using assms True by (intro exI [of _ "p\<lparr>pcm_incr := time\<rparr>"] exI [of _ 0]) (simp add: word_less_nat_alt word_le_nat_alt)
  next
    case False
    obtain av d1 where av: "snd_pcm_avail_update L (pcm_dev p) = (av, d1)"
      by fastforce
    have ready: "snd_pcm_state L (pcm_dev p) \<notin> {SND_PCM_STATE_XRUN, SND_PCM_STATE_SUSPENDED}" "av = int (room d1)" "pcm_idle rdy room played (pcm_dev p) d1"
      using pcm_contract_idle(1) [OF assms(3), of "pcm_dev p"] assms(3,5) av by (auto simp: pcm_contract_def)
    obtain st d2 where rs: "pcm_restart L av (pcm_stopped p) d1 = (st, d2)"
      by fastforce
    have "pcm_idle rdy room played d1 d2"
      using rs pcm_contract_idle [OF assms(3)] by (auto simp: pcm_restart_def Let_def split: if_splits intro: pcm_idle_trans pcm_idle_refl)
    then have d2: "rdy d2" "room d1 \<le> room d2" "played d2 = played (pcm_dev p)"
      using ready(3) assms(5) by (auto simp: pcm_idle_def)
    have "0 \<le> av"
      using ready(2) by simp
    have "nat av \<le> room d2" "CYCLES_PER_SEC_DIV_50 \<le> time"
      using d2(2) ready(2) False by simp_all
    from pcm_loop_budget [OF assms(3) d2(1) this(1) assms(6) this(2), of outp "\<lparr>mmap_areas = None, mmap_offset = 0, mmap_frames = 0\<rparr>" "pcm_level p"]
    obtain v1 i1 b1 d3 k where r: "pcm_loop L outp (nat av) (\<lparr>mmap_areas = None, mmap_offset = 0, mmap_frames = 0\<rparr>, time, pcm_level p, pcm_memory p, d2)
        = Some (v1, i1, (next_level outp ^^ k) (pcm_level p), b1, d3)"
      "k * 320000 + unat i1 = (if time = CYCLES_PER_SEC_DIV_50 then 320000 else budget (nat av) time)" "i1 \<le> CYCLES_PER_SEC_DIV_50" "length b1 = n" "rdy d3"
      "played d3 = played d2 @ map of_int (levels outp k (pcm_level p))"
      by blast
    define l p1 where "l = (next_level outp ^^ k) (pcm_level p)"
      and "p1 = p\<lparr>pcm_dev := d3, pcm_stopped := st, pcm_memory := b1, pcm_level := l, pcm_incr := i1\<rparr>"
    have l: "level_ok l"
      unfolding l_def using assms(7) by (intro level_iter_ok) (simp add: outp_def)
    moreover have "alsa_sound_update L b new_incr p = Some p1"
      using assms(4) False ready(1) \<open>0 \<le> av\<close>
      by (simp add: alsa_sound_update_def outp_def [symmetric] time_def [symmetric] Let_def pcm_recover_def av rs r(1) p1_def l_def [symmetric] sint_level [OF l])
    moreover have "(unat time \<le> 320000) = (time = CYCLES_PER_SEC_DIV_50)"
      using False by (auto simp: word_less_nat_alt word_unat_eq_iff)
    ultimately show ?thesis
      using r d2(3) by (intro exI [of _ p1] exI [of _ k]) (auto simp: p1_def l_def outp_def [symmetric] room0_def av)
  qed
qed


text \<open>A device with a ring of four frames that plays at once what it gets: its position and what it has played.\<close>

definition ring4 :: "(nat \<times> u16 list) alsa" where
  "ring4 = \<lparr>snd_pcm_open = Pair 0, snd_pcm_config = \<lambda>_ d. (0, 1, d), snd_pcm_state = \<lambda>_. SND_PCM_STATE_RUNNING, snd_pcm_prepare = Pair 0, snd_pcm_resume = Pair 0,
     snd_pcm_avail_update = Pair 4, snd_pcm_delay = Pair 0, snd_pcm_start = Pair 0,
     snd_pcm_mmap_begin = \<lambda>v d. (\<lparr>mmap_areas = Some \<lparr>area_addr = 0, area_first = 0, area_step = 16\<rparr>, mmap_offset = fst d, mmap_frames = min (mmap_frames v) (4 - fst d)\<rparr>, d),
     snd_pcm_mmap_commit = \<lambda>off k buf d. ((off + k) mod 4, snd d @ take k (drop off buf))\<rparr>"

lemma ring4_contract: "pcm_contract ring4 (\<lambda>d. fst d < 4) (\<lambda>_. 4) snd 4"
proof -
  have "frames_granted ring4 (\<lambda>d. fst d < 4) (\<lambda>_. 4) snd 4 d f (v\<lparr>mmap_frames := f\<rparr>)" if "fst d < 4" "f \<le> 4" for d f v
  proof -
    have "take k (drop j buf) = map (\<lambda>i. buf ! (j + i)) [0..<k]" if "k \<le> 4 - j" "length buf = 4" for k j and buf :: "u16 list"
      using that by (intro nth_equalityI) auto
    then show ?thesis
      using that by (fastforce simp: frames_granted_def ring4_def frame_pos_def)
  qed
  then show ?thesis
    by (simp add: pcm_contract_def pcm_idle_def) (simp add: ring4_def)
qed

definition pcm_ex :: "(nat \<times> u16 list) pcm" where
  "pcm_ex = \<lparr>pcm_handle = True, pcm_dev = (3, []), pcm_memory = [0, 0, 0, 0], pcm_stopped = True, pcm_level = 0, pcm_incr = 5\<rparr>"

text \<open>Six samples are due and four fit, in two pieces.\<close>

theorem alsa_stream_witness:
  "\<exists>p1 k. alsa_sound_update ring4 True 2000 pcm_ex = Some p1 \<and> snd (pcm_dev p1) = map of_int (levels 192 k 0) \<and> k * 320000 + unat (pcm_incr p1) = 4 * 320000"
  using alsa_stream [OF ring4_contract, of pcm_ex True 2000] by (auto simp: pcm_ex_def budget_def ring4_def)

end
