(* ===== verification/Sockets.thy ===== *)
theory Sockets
  imports Base
begin

text \<open>
  Sockets, \<^verbatim>\<open>socket.c\<close> and \<open>connect_server\<close> of \<^verbatim>\<open>serial.c\<close>. A program acts on the operating system through a sequence of system calls, which is kept as a log; the kernel
  is a parameter that gives the result of the last call of a log. Errors of calls whose result is ignored are ignored here too.
\<close>

section \<open>System calls\<close>

text \<open>An address of the Internet family, with its fields as they lie in memory, in network order.\<close>

record sockaddr_in =
  sin_family :: nat
  sin_port :: u16
  sin_addr :: u32

text \<open>The result of \<open>Getsockname\<close> is the field \<open>sin_port\<close> that it stores.\<close>

datatype syscall = Socket | Setsockopt int | Bind int sockaddr_in | Listen int nat | Getsockname int | Accept int | Connect int sockaddr_in
  | Close int | Nonblock int | Sigaction | System string | Fork

type_synonym kernel = "syscall list \<Rightarrow> int"

definition syscall_do :: "kernel \<Rightarrow> syscall \<Rightarrow> syscall list \<Rightarrow> int \<times> syscall list" where
  "syscall_do k c log = (k (log @ [c]), log @ [c])"

abbreviation INADDR_LOOPBACK :: u32 where "INADDR_LOOPBACK \<equiv> 0x7f000001"
abbreviation BRICK_BROADCAST_PORT :: int where "BRICK_BROADCAST_PORT \<equiv> 50637"

definition local_addr :: "int \<Rightarrow> sockaddr_in" where
  "local_addr port = \<lparr>sin_family = 2, sin_port = htons (of_int port), sin_addr = htonl INADDR_LOOPBACK\<rparr>"

section \<open>The functions of socket.c\<close>

definition create_server_socket :: "kernel \<Rightarrow> int \<Rightarrow> syscall list \<Rightarrow> int \<times> syscall list" where
  "create_server_socket k port log =
    (let (fd, log1) = syscall_do k Socket log;
         (_, log2) = syscall_do k (Setsockopt fd) log1;
         (err, log3) = syscall_do k (Bind fd (local_addr port)) log2
     in if err < 0 then (-1, log3)
        else let (_, log4) = syscall_do k (Listen fd 1) log3 in (fd, log4))"

text \<open>The port that the kernel has chosen is returned through a pointer.\<close>

definition create_anon_socket :: "kernel \<Rightarrow> int \<Rightarrow> syscall list \<Rightarrow> int \<times> int \<times> syscall list" where
  "create_anon_socket k port log =
    (let (fd, log1) = syscall_do k Socket log
     in if fd < 0 then (-1, port, log1)
        else
          let (_, log2) = syscall_do k (Setsockopt fd) log1;
              (err, log3) = syscall_do k (Bind fd (local_addr 0)) log2
          in if err < 0 then (-1, port, log3)
             else
               let (_, log4) = syscall_do k (Listen fd 1) log3;
                   (p, log5) = syscall_do k (Getsockname fd) log4
               in (fd, uint (htons (of_int p)), log5))"

definition accept_socket :: "kernel \<Rightarrow> int \<Rightarrow> syscall list \<Rightarrow> int \<times> syscall list" where
  "accept_socket k serverfd log = syscall_do k (Accept serverfd) log"

text \<open>\<open>Inl\<close> is the end of the program.\<close>

definition create_client_socket :: "kernel \<Rightarrow> int \<Rightarrow> syscall list \<Rightarrow> syscall list + int \<times> syscall list" where
  "create_client_socket k serverport log =
    (let (fd, log1) = syscall_do k Socket log;
         (_, log2) = syscall_do k (Setsockopt fd) log1;
         (err, log3) = syscall_do k (Connect fd (local_addr serverport)) log2
     in if err = -1 then Inl log3 else Inr (fd, log3))"

section \<open>Connecting to the infrared server\<close>

definition connect_server :: "kernel \<Rightarrow> syscall list \<Rightarrow> int \<times> syscall list" where
  "connect_server k log =
    (let (fd, log1) = syscall_do k Socket log;
         (err, log2) = syscall_do k (Connect fd (local_addr BRICK_BROADCAST_PORT)) log1
     in if err < 0 then (-1, snd (syscall_do k (Close fd) log2)) else (fd, log2))"

text \<open>The first part of \<open>ser_init\<close>: when there is no server it is started; without success the program ends.\<close>

definition ser_connect :: "kernel \<Rightarrow> syscall list \<Rightarrow> syscall list + int \<times> syscall list" where
  "ser_connect k log =
    (let (fd, log1) = connect_server k log
     in if 0 \<le> fd then Inr (fd, snd (syscall_do k (Nonblock fd) log1))
        else
          let (fd2, log2) = connect_server k (snd (syscall_do k (System ''./ir-server'') log1))
          in if fd2 < 0 then Inl log2 else Inr (fd2, snd (syscall_do k (Nonblock fd2) log2)))"

section \<open>A kernel that can be reached\<close>

text \<open>All calls succeed.\<close>

definition calls_succeed :: "kernel \<Rightarrow> bool" where
  "calls_succeed k \<longleftrightarrow> (\<forall>log. 0 \<le> k log)"

lemma calls_succeed_not [simp]: "calls_succeed k \<Longrightarrow> \<not> k log < 0" "calls_succeed k \<Longrightarrow> k log \<noteq> -1" "calls_succeed k \<Longrightarrow> 0 \<le> k log"
proof -
  assume "calls_succeed k"
  then show "0 \<le> k log"
    by (simp add: calls_succeed_def)
  then show "\<not> k log < 0" "k log \<noteq> -1"
    by auto
qed

lemma ser_connect_ok: "calls_succeed k \<Longrightarrow> \<exists>fd log1. ser_connect k log = Inr (fd, log1)"
  by (simp add: ser_connect_def connect_server_def syscall_do_def Let_def)

lemma anon_socket_ok: "calls_succeed k \<Longrightarrow> \<exists>fd p log1. create_anon_socket k port log = (fd, p, log1) \<and> 0 \<le> fd"
  by (simp add: create_anon_socket_def syscall_do_def Let_def)

lemma client_socket_ok:
  "calls_succeed k \<Longrightarrow> create_client_socket k port log
    = Inr (k (log @ [Socket]), log @ [Socket, Setsockopt (k (log @ [Socket])), Connect (k (log @ [Socket])) (local_addr port)])"
  by (simp add: create_client_socket_def syscall_do_def Let_def)

text \<open>The port that is returned leads back to the address the kernel has stored.\<close>

lemma anon_socket_addr:
  assumes "create_anon_socket k port log = (fd, p, log1)" "0 \<le> fd"
  shows "last log1 = Getsockname fd" "sin_port (local_addr p) = of_int (k log1)" "p = uint (htons (of_int (k log1)))"
proof -
  have "last log1 = Getsockname fd \<and> p = uint (htons (of_int (k log1) :: u16))"
    using assms by (auto simp: create_anon_socket_def syscall_do_def Let_def split: if_splits)
  then show "last log1 = Getsockname fd" "sin_port (local_addr p) = of_int (k log1)" "p = uint (htons (of_int (k log1)))"
    by (simp_all add: local_addr_def)
qed

end
