(* ===== verification/Emulator.thy ===== *)
theory Emulator
  imports CpuSafety Bibo Sound Sockets
begin

text \<open>
  The whole emulator, \<^verbatim>\<open>main.c\<close>: the command line, the start-up, and the handlers of the GUI messages that the peripherals register. A handler may
  call \<open>wait_peripherals\<close> again (a reset does), which may handle the next message: the recursion goes over the messages that are waiting, and each
  level takes at least one byte, so that the number of waiting bytes is enough fuel for it.
\<close>

section \<open>Messages of the GUI\<close>

text \<open>The bytes that a handler reads at once; fewer never complete the call.\<close>

definition btn_message :: "machine \<Rightarrow> machine option" where
  "btn_message m =
    (if length (gui_in m) < 3 then None
     else let (b, s) = btn_read_fd (take 3 (gui_in m)) (m_bus m) (m_btn m)
          in Some (m\<lparr>gui_in := drop 3 (gui_in m), m_bus := b, m_btn := s\<rparr>))"

definition ad_message :: "machine \<Rightarrow> machine option" where
  "ad_message m =
    (if length (gui_in m) < 5 then None
     else map_option (\<lambda>s. m\<lparr>gui_in := drop 5 (gui_in m), m_ad := s\<rparr>) (ad_read_fd (map schar (take 5 (gui_in m))) (m_ad m)))"

text \<open>The peripherals that register a \<open>read_fd\<close>.\<close>

definition emu_gui ::
  "(u8 list \<Rightarrow> u8 list) \<Rightarrow> (u8 list \<Rightarrow> u8 list) \<Rightarrow> (machine \<Rightarrow> machine option) \<Rightarrow> char \<Rightarrow> (machine \<Rightarrow> machine option) option" where
  "emu_gui deflate inflate wait c =
    (if c = CHR ''P'' then Some (periph_read_fd wait)
     else if c = CHR ''C'' then Some (savefile_read_fd deflate inflate)
     else if c = CHR ''B'' then Some btn_message
     else if c = CHR ''A'' then Some ad_message
     else if c = CHR ''F'' then Some firm_read_fd
     else if c = CHR ''O'' then Some bibo_read_fd
     else None)"

text \<open>The handlers with a bound on the depth of the recursion, and with the bound that the waiting bytes give.\<close>

fun emu_hooks :: "(u8 list \<Rightarrow> u8 list) \<Rightarrow> (u8 list \<Rightarrow> u8 list) \<Rightarrow> nat \<Rightarrow> hooks" where
  "emu_hooks deflate inflate 0 = \<lparr>gui_hook = \<lambda>_. Some (\<lambda>_. None), db_hook = db_handlefd\<rparr>"
| "emu_hooks deflate inflate (Suc n) =
     \<lparr>gui_hook = emu_gui deflate inflate (wait_peripherals (emu_hooks deflate inflate n)), db_hook = db_handlefd\<rparr>"

definition emu_wait :: "(u8 list \<Rightarrow> u8 list) \<Rightarrow> (u8 list \<Rightarrow> u8 list) \<Rightarrow> machine \<Rightarrow> machine option" where
  "emu_wait deflate inflate m = wait_peripherals (emu_hooks deflate inflate (Suc (length (gui_in m)))) m"

definition emu :: "(u8 list \<Rightarrow> u8 list) \<Rightarrow> (u8 list \<Rightarrow> u8 list) \<Rightarrow> hooks" where
  "emu deflate inflate = \<lparr>gui_hook = emu_gui deflate inflate (emu_wait deflate inflate), db_hook = db_handlefd\<rparr>"

section \<open>Start-up\<close>

record options =
  opt_trap :: bool
  opt_port :: int
  opt_rom :: "string option"

text \<open>An argument that is not known ends the program (\<open>Inl\<close>); a missing value is read through a null pointer.\<close>

fun main_args :: "string list \<Rightarrow> options \<Rightarrow> (string + options) option" where
  "main_args [] opts = Some (Inr opts)"
| "main_args (a # args) opts =
    (if a \<in> {''-g'', ''-d'', ''-debug'', ''--debug''} then main_args args (opts\<lparr>opt_trap := True\<rparr>)
     else if a = ''-guiserverport'' then
       (case args of
          [] \<Rightarrow> None
        | v # rest \<Rightarrow> Option.bind (atoi (v @ [NUL])) (\<lambda>p. main_args rest (opts\<lparr>opt_port := p\<rparr>)))
     else if a = ''-rom'' then
       (case args of
          [] \<Rightarrow> None
        | v # rest \<Rightarrow> main_args rest (opts\<lparr>opt_rom := Some v\<rparr>))
     else Some (Inl a))"

text \<open>The ROM by the extension of its file; another extension leaves the pointer to the file undefined.\<close>

definition rom_of :: "(string \<Rightarrow> u8 list option) \<Rightarrow> string option \<Rightarrow> rom option" where
  "rom_of files name =
    (case name of
       None \<Rightarrow> Some No_rom
     | Some f \<Rightarrow>
         let ext = rev (takeWhile (\<lambda>c. c \<noteq> CHR ''.'') (rev f))
         in if CHR ''.'' \<notin> set f then Some No_rom
            else if ext = ''coff'' then Some (case files f of None \<Rightarrow> No_rom | Some b \<Rightarrow> Coff_rom b)
            else if ext = ''bin'' then Some (case files f of None \<Rightarrow> No_rom | Some b \<Rightarrow> Bin_rom b)
            else if ext = ''srec'' then Some (case files f of None \<Rightarrow> No_rom | Some b \<Rightarrow> Srec_rom b)
            else None)"

text \<open>
  The initialisation, in the order of \<open>main\<close>: the connection to the infrared server, the socket of the debugger, the connection with the GUI, and the assignments of the other
  \<open>init\<close> functions after \<open>mem_init\<close>. The tables of the ports and of the peripherals are fixed in the model. \<open>Inl\<close> is the end of the program.
\<close>

definition db_init :: "kernel \<Rightarrow> syscall list \<Rightarrow> machine \<Rightarrow> syscall list + machine \<times> syscall list" where
  "db_init k log m =
    (let (fd, port, log1) = create_anon_socket k (monitorport m) log
     in if fd < 0 then Inl log1
        else Inr (m\<lparr>m_dbg := (m_dbg m)\<lparr>gdb_open := False\<rparr>, monitorport := port\<rparr>, snd (syscall_do k Sigaction log1)))"

text \<open>The handler that it installs for \<open>SIGQUIT\<close>.\<close>

definition sigint_handler :: "machine \<Rightarrow> machine" where
  "sigint_handler m = set_trap 7 m"

text \<open>\<open>gui\<close> is the value of \<^verbatim>\<open>BRICKEMU_GUI\<close> in the environment; the command is formatted into a buffer of 1024 bytes.\<close>

definition gui_command :: "string option \<Rightarrow> int \<Rightarrow> string" where
  "gui_command gui guiport = take 1023 ((case gui of Some g \<Rightarrow> g | None \<Rightarrow> ''wish GUI.tcl'') @ '' '' @ print_int guiport @ '' &'')"

definition gui_connect :: "kernel \<Rightarrow> string option \<Rightarrow> int \<Rightarrow> syscall list \<Rightarrow> syscall list + syscall list" where
  "gui_connect k gui guiserverport log =
    (if guiserverport = 0 then
       let (fd, guiport, log1) = create_anon_socket k 0 log
       in if fd < 0 then Inl log1 else Inr (snd (accept_socket k fd (snd (syscall_do k (System (gui_command gui guiport)) log1))))
     else
       (case create_client_socket k guiserverport log of Inl log1 \<Rightarrow> Inl log1 | Inr (_, log1) \<Rightarrow> Inr log1))"

definition periph_init :: "kernel \<Rightarrow> string option \<Rightarrow> int \<Rightarrow> syscall list \<Rightarrow> machine \<Rightarrow> syscall list + machine \<times> syscall list" where
  "periph_init k gui guiserverport log m =
    (case gui_connect k gui guiserverport log of
       Inl log1 \<Rightarrow> Inl log1
     | Inr log1 \<Rightarrow>
         Inr (m\<lparr>m_bus := (m_bus m)\<lparr>cycles := 0\<rparr>,
                m_clock := (m_clock m)\<lparr>lastcycles := 0, lastusecs := host_now m, nextsleep := host_now m, startusecs := host_now m, syscr := 0x0b\<rparr>\<rparr>, log1))"

definition init_rest :: "machine \<Rightarrow> machine" where
  "init_rest m =
    (let m1 = m\<lparr>m_lcd := (m_lcd m)\<lparr>i2c_state := -1\<rparr>, m_ws := set_WCSR 8 (m_ws m)\<rparr>
     in m1\<lparr>m_wdog := wdog_reset (m_bus m1)\<rparr>)"

definition init_all :: "kernel \<Rightarrow> string option \<Rightarrow> int \<Rightarrow> machine \<Rightarrow> syscall list + machine \<times> syscall list" where
  "init_all k gui guiserverport m =
    (case ser_connect k [] of
       Inl log \<Rightarrow> Inl log
     | Inr (_, log1) \<Rightarrow>
         (case db_init k log1 (m\<lparr>m_frame := frame_init (m_frame m)\<rparr>) of
            Inl log \<Rightarrow> Inl log
          | Inr (m2, log2) \<Rightarrow>
              (case periph_init k gui guiserverport log2 m2 of
                 Inl log \<Rightarrow> Inl log
               | Inr (m3, log3) \<Rightarrow> Inr (init_rest m3, log3))))"

text \<open>\<open>main\<close> up to \<open>run_cpu\<close>, with the system calls that were made.\<close>

definition main_start :: "kernel \<Rightarrow> string option \<Rightarrow> string list \<Rightarrow> machine \<Rightarrow> (syscall list + machine \<times> syscall list) option" where
  "main_start k gui args m =
     Option.bind (main_args args \<lparr>opt_trap = False, opt_port = 0, opt_rom = None\<rparr>) (\<lambda>r.
       (case r of
          Inl _ \<Rightarrow> Some (Inl [])
        | Inr opts \<Rightarrow>
            let m1 = (if opt_trap opts then set_trap 5 m else m)
            in Option.bind (rom_of (m_files m1) (opt_rom opts)) (\<lambda>rom.
                 map_option (\<lambda>r1. case r1 of
                     Inl _ \<Rightarrow> Inl []
                   | Inr m2 \<Rightarrow>
                       (case init_all k gui (opt_port opts) m2 of
                          Inl log \<Rightarrow> Inl log
                        | Inr (m3, log) \<Rightarrow> Inr (if args \<noteq> [] \<and> hd args = ''-d'' then set_trap 5 m3 else m3, log)))
                   (mem_init rom m1))))"

definition main_run ::
  "kernel \<Rightarrow> string option \<Rightarrow> (u8 list \<Rightarrow> u8 list) \<Rightarrow> (u8 list \<Rightarrow> u8 list) \<Rightarrow> string list \<Rightarrow> machine \<Rightarrow> label \<times> run_st \<Rightarrow> bool" where
  "main_run k gui deflate inflate args m s \<longleftrightarrow>
    (case main_start k gui args m of Some (Inr (m1, _)) \<Rightarrow> run_cpu (emu deflate inflate) m1 s | _ \<Rightarrow> False)"

section \<open>The recursion is well-founded\<close>

lemma read_rom_gui: "read_rom m = Some (b, m1) \<Longrightarrow> gui_in m1 = gui_in m"
  by (auto simp: read_rom_def split: rom.splits if_splits Option.bind_splits)

lemma do_reset_cong:
  assumes "\<And>m1. gui_in m1 = gui_in m \<Longrightarrow> w1 m1 = w2 m1"
  shows "do_reset w1 m = do_reset w2 m"
proof -
  have "w1 m2 = w2 m2" if "read_rom (reset_peripherals (m\<lparr>m_cpu := c\<rparr>)\<lparr>m_syms := t\<rparr>) = Some (b, m2)" for c t b m2
    using assms read_rom_gui [OF that] by (simp add: reset_peripherals_def Let_def)
  then show ?thesis
    unfolding do_reset_def Let_def by (intro Option.bind_cong refl) auto
qed

lemma periph_read_fd_cong:
  assumes "\<And>m1. length (gui_in m1) < length (gui_in m) \<Longrightarrow> w1 m1 = w2 m1"
  shows "periph_read_fd w1 m = periph_read_fd w2 m"
proof (cases "gui_in m")
  case (Cons cmd rest)
  then have "do_reset w1 (m\<lparr>gui_in := rest\<rparr>) = do_reset w2 (m\<lparr>gui_in := rest\<rparr>)"
    using assms by (intro do_reset_cong) simp
  then show ?thesis
    using Cons by (simp add: periph_read_fd_def Let_def)
qed (simp add: periph_read_fd_def)

lemma emu_gui_cong:
  assumes "\<And>m1. length (gui_in m1) < length (gui_in m) \<Longrightarrow> w1 m1 = w2 m1"
  shows "map_option (\<lambda>f. f m) (emu_gui d i w1 c) = map_option (\<lambda>f. f m) (emu_gui d i w2 c)"
  using periph_read_fd_cong [OF assms] by (simp add: emu_gui_def)

lemma wait_cong:
  fixes H K :: hooks
  assumes "db_hook H = db_hook K"
    and "\<And>c m1. length (gui_in m1) < length (gui_in m) \<Longrightarrow> map_option (\<lambda>f. f m1) (gui_hook H c) = map_option (\<lambda>f. f m1) (gui_hook K c)"
  shows "wait_peripherals H m = wait_peripherals K m"
proof -
  have g: "gui_in (advance_time m) = gui_in m"
    by (simp add: advance_time_def Let_def)
  have "gui_message H (advance_time m) = gui_message K (advance_time m)"
  proof (cases "gui_in m")
    case (Cons c rest)
    then have "map_option (\<lambda>f. f (advance_time m\<lparr>gui_in := rest\<rparr>)) (gui_hook H c) = map_option (\<lambda>f. f (advance_time m\<lparr>gui_in := rest\<rparr>)) (gui_hook K c)"
      by (intro assms(2)) simp
    then show ?thesis
      using Cons g by (auto simp: gui_message_def Let_def split: option.splits)
  qed (simp add: gui_message_def g)
  then show ?thesis
    unfolding wait_peripherals_def synchronize_time_def Let_def assms(1) by simp
qed

text \<open>Any two bounds above the number of waiting bytes give the same result.\<close>

lemma emu_hooks_enough:
  assumes "length (gui_in m) < n" "length (gui_in m) < k"
  shows "wait_peripherals (emu_hooks d i n) m = wait_peripherals (emu_hooks d i k) m"
  using assms
proof (induction n arbitrary: k m)
  case (Suc n)
  obtain j where k: "k = Suc j"
    using Suc.prems(2) by (cases k) auto
  show ?case
    unfolding k
  proof (rule wait_cong)
    fix c and m1 :: machine
    assume less: "length (gui_in m1) < length (gui_in m)"
    show "map_option (\<lambda>f. f m1) (gui_hook (emu_hooks d i (Suc n)) c) = map_option (\<lambda>f. f m1) (gui_hook (emu_hooks d i (Suc j)) c)"
      unfolding emu_hooks.simps hooks.simps
      by (rule emu_gui_cong) (rule Suc.IH; use less Suc.prems k in simp)
  qed simp
qed simp

lemma emu_wait_fuel: "length (gui_in m) < n \<Longrightarrow> wait_peripherals (emu_hooks d i n) m = emu_wait d i m"
  unfolding emu_wait_def by (rule emu_hooks_enough) simp_all

lemma emu_wait_emu: "wait_peripherals (emu d i) = emu_wait d i"
proof
  fix m
  show "wait_peripherals (emu d i) m = emu_wait d i m"
    unfolding emu_wait_def emu_hooks.simps
  proof (rule wait_cong)
    fix c and m1 :: machine
    assume less: "length (gui_in m1) < length (gui_in m)"
    show "map_option (\<lambda>f. f m1) (gui_hook (emu d i) c)
        = map_option (\<lambda>f. f m1) (gui_hook \<lparr>gui_hook = emu_gui d i (wait_peripherals (emu_hooks d i (length (gui_in m)))), db_hook = db_handlefd\<rparr> c)"
      unfolding emu_def hooks.simps using less by (intro emu_gui_cong) (simp add: emu_wait_fuel)
  qed (simp add: emu_def)
qed

section \<open>Starting\<close>

lemma main_args_debug:
  "set ds \<subseteq> {''-g'', ''-d'', ''-debug'', ''--debug''} \<Longrightarrow> main_args (ds @ args) opts = main_args args (if ds = [] then opts else opts\<lparr>opt_trap := True\<rparr>)"
  by (induction ds arbitrary: opts) auto

lemma rom_of_bin: "rom_of files (Some (g @ ''.bin'')) = Some (case files (g @ ''.bin'') of None \<Rightarrow> No_rom | Some b \<Rightarrow> Bin_rom b)"
  by (simp add: rom_of_def Let_def)

lemma mem_init_bin:
  assumes "length file \<le> 0x4000"
  shows "mem_init (Bin_rom file) m = Some (Inr (m\<lparr>m_rom := Bin_rom file, m_type := init_memtype,
    m_mem := \<lambda>a. if unat a < length file then file ! unat a else m_mem m a\<rparr>))"
  using assms by (simp add: mem_init_def read_rom_def fread_def mem_write_def cong: if_cong)

lemma init_keeps:
  assumes "init_all k gui port m = Inr (m1, log)"
  shows "m_mem m1 = m_mem m" "m_type m1 = m_type m" "m_rom m1 = m_rom m" "calm m1 = calm m"
  using assms by (auto simp: init_all_def db_init_def periph_init_def init_rest_def Let_def calm_def split: sum.splits if_splits prod.splits)

text \<open>The system calls of the start, when they succeed: those before the connection with the GUI are the same for every way to connect.\<close>

lemma init_all_ok:
  assumes "calls_succeed k"
  shows "\<exists>m1 log log1. init_all k gui port m = Inr (m1, log1) \<and> gui_connect k gui port log = Inr log1"
proof -
  obtain fd log0 where 1: "ser_connect k [] = Inr (fd, log0)"
    using ser_connect_ok [OF assms] by blast
  obtain m2 log2 where 2: "db_init k log0 (m\<lparr>m_frame := frame_init (m_frame m)\<rparr>) = Inr (m2, log2)"
    using anon_socket_ok [OF assms, of "monitorport m" log0] by (force simp: db_init_def)
  have "\<exists>log3. gui_connect k gui port log2 = Inr log3"
    using anon_socket_ok [OF assms, of 0 log2] client_socket_ok [OF assms, of port log2] by (force simp: gui_connect_def)
  then show ?thesis
    using 1 2 by (auto simp: init_all_def periph_init_def)
qed

lemma calm_loaded: "calm (m\<lparr>m_rom := r, m_type := t, m_mem := f\<rparr>) = calm m"
  by (simp add: calm_def)

lemma set_trap_keeps:
  "m_mem (set_trap t m) = m_mem m" "m_type (set_trap t m) = m_type m" "m_rom (set_trap t m) = m_rom m" "calm (set_trap t m) = calm m" "m_files (set_trap t m) = m_files m"
  by (simp_all add: set_trap_def calm_def)

lemma main_start_bin:
  assumes "main_args args \<lparr>opt_trap = False, opt_port = 0, opt_rom = None\<rparr> = Some (Inr \<lparr>opt_trap = t, opt_port = port, opt_rom = Some (g @ ''.bin'')\<rparr>)"
    and "m_files m (g @ ''.bin'') = Some file" "length file \<le> 0x4000" "calls_succeed k"
  shows "\<exists>m1 log log1. main_start k gui args m = Some (Inr (m1, log1)) \<and> gui_connect k gui port log = Inr log1 \<and> (calm m \<longrightarrow> calm m1) \<and> m_rom m1 = Bin_rom file
    \<and> m_type m1 = init_memtype \<and> m_mem m1 = (\<lambda>a. if unat a < length file then file ! unat a else m_mem m a)"
proof -
  define m0 where "m0 = (if t then set_trap 5 m else m)"
  have m0: "m_mem m0 = m_mem m" "calm m0 = calm m" "m_files m0 = m_files m"
    by (simp_all add: m0_def set_trap_keeps)
  then have r: "rom_of (m_files m0) (Some (g @ ''.bin'')) = Some (Bin_rom file)"
    using assms(2) rom_of_bin [of "m_files m0" g] by simp
  let ?m2 = "m0\<lparr>m_rom := Bin_rom file, m_type := init_memtype, m_mem := \<lambda>a. if unat a < length file then file ! unat a else m_mem m0 a\<rparr>"
  obtain m3 log log1 where i: "init_all k gui port ?m2 = Inr (m3, log1)" "gui_connect k gui port log = Inr log1"
    using init_all_ok [OF assms(4), of gui port ?m2] by blast
  have "main_start k gui args m = Some (Inr (if args \<noteq> [] \<and> hd args = ''-d'' then set_trap 5 m3 else m3, log1))"
    unfolding main_start_def assms(1) bind.bind_lunit sum.case options.simps m0_def [symmetric] Let_def r mem_init_bin [OF assms(3)] option.map i(1) by simp
  then show ?thesis
    using i(2) init_keeps [OF i(1)] m0 by (auto simp: set_trap_keeps calm_loaded)
qed

section \<open>The number of a port\<close>

lemma digits_snoc: "digits_value (xs @ [c]) = 10 * digits_value xs + (of_char c - 48)"
  by (simp add: digits_value_def)

lemma print_dec_digits: "list_all Brickos.is_digit (print_dec n) \<and> digits_value (print_dec n) = int n"
proof (induction n rule: print_dec.induct)
  case (1 n)
  have d: "(of_char (char_of (48 + j) :: char) :: nat) = 48 + j" "(of_char (char_of (48 + j) :: char) :: int) = 48 + int j" if "j < 10" for j
  proof -
    show "(of_char (char_of (48 + j) :: char) :: nat) = 48 + j"
      using that by (simp add: of_char_of)
    then show "(of_char (char_of (48 + j) :: char) :: int) = 48 + int j"
      by (metis of_nat_of_char of_nat_add of_nat_numeral)
  qed
  show ?case
  proof (cases "n < 10")
    case True
    then show ?thesis
      using d [of n] digits_snoc [of "[]"] by (subst (1 2) print_dec.simps) (simp add: Brickos.is_digit_def digits_value_def)
  next
    case False
    have p: "print_dec n = print_dec (n div 10) @ [char_of (48 + n mod 10)]"
      using False by (subst print_dec.simps) simp
    have "Brickos.is_digit (char_of (48 + n mod 10))"
      using d(1) [of "n mod 10"] by (simp add: Brickos.is_digit_def)
    moreover have "10 * int (n div 10) + int (n mod 10) = int n"
      by presburger
    ultimately show ?thesis
      using 1 [OF False] d(2) [of "n mod 10"] by (simp add: p digits_snoc)
  qed
qed

lemma atoi_print:
  assumes "n < 2 ^ 31"
  shows "atoi (print_int (int n) @ [NUL]) = Some (int n)"
proof -
  let ?s = "print_dec n"
  have digits: "list_all Brickos.is_digit ?s" "digits_value ?s = int n"
    using print_dec_digits by auto
  obtain c cs where c: "?s = c # cs"
    by (cases ?s) (use print_dec_pos [of n] in auto)
  have "Brickos.is_digit c"
    using digits(1) c by simp
  then have "c \<notin> set ('' '' @ [CHR 0x09, CHR 0x0A, CHR 0x0B, CHR 0x0C, CHR 0x0D])" "c \<noteq> CHR ''-''" "c \<noteq> CHR ''+''"
    by (auto simp: Brickos.is_digit_def)
  moreover have "takeWhile Brickos.is_digit (?s @ [NUL]) = ?s"
    using digits(1) by (simp add: takeWhile_append list_all_iff Brickos.is_digit_def)
  ultimately show ?thesis
    using c digits(2) assms by (simp add: atoi_def Let_def print_int_def)
qed

section \<open>Properties\<close>

text \<open>
  C9. The recursion of the handlers ends: however many messages are waiting, a depth of one more than the number of waiting bytes is enough, every larger bound gives the
  same result, and the handlers of the emulator are the solution of the equation that the code states, in which a handler calls
  \<open>wait_peripherals\<close> with the same handlers.
\<close>

theorem handlers_well_founded:
  "emu deflate inflate = \<lparr>gui_hook = emu_gui deflate inflate (wait_peripherals (emu deflate inflate)), db_hook = db_handlefd\<rparr>
    \<and> wait_peripherals (emu_hooks deflate inflate (Suc (length (gui_in m) + k))) m = wait_peripherals (emu deflate inflate) m"
  using emu_wait_fuel [of m "Suc (length (gui_in m) + k)" deflate inflate] unfolding emu_wait_emu by (simp add: emu_def)





end
