(* ===== verification/Arrays.thy ===== *)
theory Arrays
  imports Emulator
begin

text \<open>
  The arrays of the program. The model keeps an array of the code as a list, and a list could have any length; here it is shown that in every state that the emulator reaches
  the lists have the lengths of the arrays. The locale \<open>shaped_wait\<close> is the contract of \<open>wait_peripherals\<close> for the memory accesses, the interrupts and the instructions, and
  \<open>shaped_hooks\<close> the one of the message handlers for \<open>wait_peripherals\<close> and the loop; the handlers of the emulator fulfil it.
\<close>

section \<open>The lengths\<close>

definition ad_shape :: "ad \<Rightarrow> bool" where
  "ad_shape s \<longleftrightarrow> length (ad_values s) = 8 \<and> length (polled s) = 4"

definition motor_shape :: "motor \<Rightarrow> bool" where
  "motor_shape s \<longleftrightarrow> length (motor_on s) = 3 \<and> length (last_on s) = 3 \<and> length (motor_dir s) = 3 \<and> length (last_dir s) = 3"

definition shaped :: "machine \<Rightarrow> bool" where
  "shaped m \<longleftrightarrow> length (reg (m_cpu m)) = 16 \<and> length (lcd_data (m_lcd m)) = 12 \<and> ad_shape (m_ad m) \<and> motor_shape (m_motor m)
     \<and> length (db_registers (m_dbg m)) = 52"

text \<open>An operation keeps the lengths when it does not touch the components that have arrays.\<close>

definition same_parts :: "machine \<Rightarrow> machine \<Rightarrow> bool" where
  "same_parts m m1 \<longleftrightarrow> length (reg (m_cpu m1)) = length (reg (m_cpu m)) \<and> m_lcd m1 = m_lcd m \<and> m_ad m1 = m_ad m \<and> m_motor m1 = m_motor m
     \<and> length (db_registers (m_dbg m1)) = length (db_registers (m_dbg m))"

definition keeps_shape :: "machine \<Rightarrow> machine \<Rightarrow> bool" where
  "keeps_shape m m1 \<longleftrightarrow> (shaped m \<longrightarrow> shaped m1)"

lemma same_parts_refl: "same_parts m m"
  by (simp add: same_parts_def)

lemma same_parts_trans: "same_parts a b \<Longrightarrow> same_parts b c \<Longrightarrow> same_parts a c"
  by (simp add: same_parts_def)

lemma keeps_shape_same: "same_parts m m1 \<Longrightarrow> keeps_shape m m1"
  by (simp add: same_parts_def keeps_shape_def shaped_def)

lemma keeps_shape_refl: "keeps_shape m m"
  by (simp add: keeps_shape_def)

lemma keeps_shape_trans: "keeps_shape a b \<Longrightarrow> keeps_shape b c \<Longrightarrow> keeps_shape a c"
  by (simp add: keeps_shape_def)

lemma keeps_shape_parts:
  assumes "same_parts (m\<lparr>m_lcd := m_lcd m1, m_ad := m_ad m1, m_motor := m_motor m1\<rparr>) m1" "length (lcd_data (m_lcd m1)) = length (lcd_data (m_lcd m))"
    "ad_shape (m_ad m) \<Longrightarrow> ad_shape (m_ad m1)" "motor_shape (m_motor m) \<Longrightarrow> motor_shape (m_motor m1)"
  shows "keeps_shape m m1"
  using assms by (auto simp: keeps_shape_def shaped_def same_parts_def)

section \<open>The peripherals\<close>

lemma ad_convert_shape: "ad_shape s \<Longrightarrow> ad_shape (ad_convert ct b s)"
proof (induction ct b s rule: ad_convert.induct)
  case (1 ct b s)
  then show ?case
    by (subst ad_convert.simps) (auto simp: Let_def ad_shape_def)
qed

lemma ad_shape_ops:
  "ad_shape (snd (ad_update_time b s)) = ad_shape (ad_convert (conv_time (adcsr s)) b s)" "ad_shape (snd (set_adcsr v b s)) = ad_shape s"
  "ad_shape (snd (set_adcr v b s)) = ad_shape s" "ad_shape (ad_reset s) = ad_shape s" "ad_shape (snd (get_addr_h k s)) = ad_shape s" "ad_shape (snd (get_adcsr s)) = ad_shape s"
  by (auto simp: ad_update_time_def set_adcsr_def set_adcr_def ad_reset_def get_addr_h_def get_adcsr_def Let_def ad_shape_def)

lemma motor_add_shape: "motor_shape (motor_add i k sh d s) = motor_shape s"
  by (simp add: motor_add_def motor_shape_def)

lemma motor_update_shape: "motor_shape (motor_update b s) = motor_shape s"
proof -
  have "motor_shape (s\<lparr>motor_cycles := c\<rparr>) = motor_shape s" for s c
    by (simp add: motor_shape_def)
  then show ?thesis
    by (simp add: motor_update_def Let_def motor_add_shape)
qed

lemma motor_report_shape: "motor_shape (snd (motor_report i p)) = motor_shape (snd p)"
  by (cases p) (simp add: motor_report_def motor_shape_def Let_def)

lemma motor_update_time_shape: "motor_shape (snd (motor_update_time b s)) = motor_shape s"
proof -
  have [simp]: "motor_shape (s\<lparr>next_output_cycles := c\<rparr>) = motor_shape s" "motor_shape (s\<lparr>last_analog_active := a\<rparr>) = motor_shape s"
    "motor_shape (s\<lparr>analog_active := a\<rparr>) = motor_shape s" for s c a
    by (simp_all add: motor_shape_def)
  show ?thesis
    unfolding motor_update_time_def Let_def split_beta by (simp add: motor_report_shape motor_update_shape)
qed

lemma motor_set_shape: "motor_shape (set_motor v b s) = motor_shape s" "motor_shape (set_analog_active v s) = motor_shape s"
proof -
  have "motor_shape (s\<lparr>motor_val := v\<rparr>) = motor_shape s" for s
    by (simp add: motor_shape_def)
  then show "motor_shape (set_motor v b s) = motor_shape s"
    by (simp add: set_motor_def motor_update_shape)
qed (simp add: set_analog_active_def motor_shape_def)

lemma update_peripherals_shape: "keeps_shape m (update_peripherals m)"
  by (rule keeps_shape_parts)
    (auto simp: update_peripherals_def on_motor_def on_wdog_def on_ad_def on_t8_def on_t16_def on_ser_def split_beta same_parts_def motor_update_time_shape ad_shape_ops
      intro: ad_convert_shape)

lemma reset_peripherals_shape: "keeps_shape m (reset_peripherals m)"
  by (rule keeps_shape_parts) (auto simp: reset_peripherals_def Let_def same_parts_def ad_shape_ops)

section \<open>Accesses that do not wait\<close>

lemma same_parts_simple:
  "same_parts m (set_trap n m)" "same_parts m (poke a v m)" "same_parts m (add_cycles c m)" "same_parts m (m\<lparr>m_frame := F\<rparr>)" "same_parts m (stop_time m)"
  "same_parts m (cont_time m)" "same_parts m (m\<lparr>m_bus := b\<rparr>)" "same_parts m (m\<lparr>m_clock := cl\<rparr>)" "same_parts m (m\<lparr>gui_in := inp\<rparr>)" "same_parts m (m\<lparr>m_syms := t\<rparr>)"
  "same_parts m (advance_time m)" "same_parts m (m\<lparr>m_mem := mm\<rparr>)"
  by (simp_all add: same_parts_def set_trap_def poke_def add_cycles_def stop_time_def cont_time_def advance_time_def Let_def)

lemmas shape_simple = same_parts_simple [THEN keeps_shape_same]

lemma port_read_shape: "keeps_shape m (port_read a m)"
proof (cases "map_of port_get (ucast a)")
  case (Some gb)
  obtain v m1 where g: "gb m = (v, m1)"
    by (cases "gb m")
  have "keeps_shape m m1"
    using map_of_SomeD [OF Some] g unfolding port_defs
    by (intro keeps_shape_parts) (auto simp: same_parts_def Let_def ad_shape_ops split_beta)
  then show ?thesis
    using Some g shape_simple(2) keeps_shape_trans by (fastforce simp: port_read_def)
qed (simp add: port_read_def keeps_shape_refl)

lemma GET_BYTE_shape: "GET_BYTE a m = (v, m1) \<Longrightarrow> keeps_shape m m1"
  using port_read_shape [of m a] shape_simple(1) [of m 10] keeps_shape_refl [of m]
  by (auto simp: GET_BYTE_def get_byte_div_def Let_def split: if_splits)

lemma GET_WORD_shape: "GET_WORD a m = Some (v, m1) \<Longrightarrow> keeps_shape m m1"
  using port_read_shape [of m a] port_read_shape [of "port_read a m" "a + 1"] shape_simple(1) [of m 10] keeps_shape_refl [of m]
  by (auto simp: GET_WORD_def get_word_div_def Let_def intro: keeps_shape_trans split: if_splits)

lemma GET_WORD_CYCLES_shape: "GET_WORD_CYCLES a m = Some (v, m1) \<Longrightarrow> keeps_shape m m1"
  unfolding GET_WORD_CYCLES_def by (rule keeps_shape_trans [OF shape_simple(3) GET_WORD_shape])

lemma read_rom_parts: "read_rom m = Some (b, m1) \<Longrightarrow> same_parts m m1"
  by (auto simp: read_rom_def same_parts_def split: rom.splits if_splits Option.bind_splits)


section \<open>Everything that waits\<close>

text \<open>The LCD works on its own part, the bus and the rest of the machine.\<close>

definition joined :: "lcd \<times> bus \<times> machine \<Rightarrow> machine" where
  "joined st = (case st of (l, b, r) \<Rightarrow> r\<lparr>m_bus := b, m_lcd := l\<rparr>)"

lemma joined_lcd:
  assumes "length (lcd_data l1) = length (lcd_data l)"
  shows "keeps_shape (joined (l, b, r)) (joined (l1, b1, r))"
  using assms by (simp add: joined_def keeps_shape_def shaped_def)

lemma lcd_analog_shape: "keeps_shape (joined (l, b, r)) (joined (l, b, lcd_analog v r))"
  by (simp add: joined_def keeps_shape_def shaped_def lcd_analog_def motor_set_shape)

text \<open>A change of the registers of the controller.\<close>

lemma joined_regs:
  assumes "keeps_shape m (joined (l, b, r))" "lcd_data l1 = lcd_data l"
  shows "keeps_shape m (joined (l1, b, r))"
  using keeps_shape_trans [OF assms(1) joined_lcd] assms(2) by simp

locale shaped_wait =
  fixes wait :: "machine \<Rightarrow> machine option"
  assumes wait_shape: "wait m = Some m1 \<Longrightarrow> keeps_shape m m1"
begin

lemma lcd_wait_shape: "lcd_wait wait st = Some st1 \<Longrightarrow> keeps_shape (joined st) (joined st1)"
  using wait_shape by (cases st) (auto simp: lcd_wait_def joined_def)

lemma lcd_display_shape:
  assumes "lcd_display (lcd_wait wait) p x st = Some st1"
  shows "keeps_shape (joined st) (joined st1)"
proof -
  obtain l b r where st: "st = (l, b, r)"
    by (cases st)
  then consider "st1 = st" | l1 b1 r1 where "lcd_wait wait (l\<lparr>lcd_data := (lcd_data l)[nat p := x]\<rparr>, b, r) = Some (l1, b1, r1)"
      "st1 = (l1, gui_write (lcd_cell_msg (nat p) x) b1, r1)"
    using assms by (auto simp: lcd_display_def split: if_splits)
  then show ?thesis
  proof cases
    case 2
    have "keeps_shape (joined st) (joined (l\<lparr>lcd_data := (lcd_data l)[nat p := x]\<rparr>, b, r))"
      unfolding st by (rule joined_lcd) simp
    then show ?thesis
      using lcd_wait_shape [OF 2(1)] joined_lcd [of l1 l1 b1 r1] 2(2) keeps_shape_trans by blast
  qed (simp add: keeps_shape_refl)
qed

lemma lcd_enable_shape:
  assumes "lcd_enable (lcd_wait wait) md st = Some st1"
  shows "keeps_shape (joined st) (joined st1)"
proof -
  obtain l1 b1 r1 where "lcd_wait wait st = Some (l1, b1, r1)" "st1 = (l1, gui_write (lcd_enable_msg md) b1, r1)"
    using assms by (auto simp: lcd_enable_def)
  then show ?thesis
    using lcd_wait_shape joined_lcd [of l1 l1 b1 r1] keeps_shape_trans by blast
qed

lemma i2c_command_shape:
  assumes "i2c_command (lcd_wait wait) st = Some st1"
  shows "keeps_shape (joined st) (joined st1)"
proof -
  obtain l b r where st: "st = (l, b, r)"
    by (cases st)
  have refl: "keeps_shape (joined st) (joined (l, b, r))"
    by (simp add: st keeps_shape_refl)
  show ?thesis
    using assms lcd_enable_shape [of "i2c_data l" st] refl unfolding i2c_command_def Let_def st
    by (auto split: if_splits intro: joined_regs)
qed

lemma i2c_byte_shape:
  assumes "i2c_byte (lcd_wait wait) st = Some st1"
  shows "keeps_shape (joined st) (joined st1)"
proof -
  obtain l b r where st: "st = (l, b, r)"
    by (cases st)
  have refl: "keeps_shape (joined st) (joined (l, b, r))"
    by (simp add: st keeps_shape_refl)
  show ?thesis
    using assms i2c_command_shape [of st] lcd_display_shape [of "sint (signed_drop_bit 1 (lcd_ptr l))" "i2c_data l" st] refl unfolding i2c_byte_def Let_def st
    by (auto split: if_splits intro: joined_regs)
qed

lemma port6_shape:
  assumes "on_port6 wait v m = Some m1"
  shows "keeps_shape m m1"
proof -
  let ?l = "m_lcd m"
  obtain l1 b1 r1 where s: "set_port6 (lcd_wait wait) lcd_analog v (?l, m_bus m, m) = Some (l1, b1, r1)" and m1: "m1 = joined (l1, b1, r1)"
    using assms by (auto simp: on_port6_def joined_def)
  have m: "m = joined (?l, m_bus m, m)"
    by (simp add: joined_def)
  have refl: "keeps_shape m (joined (?l, m_bus m, m))"
    by (simp flip: m add: keeps_shape_refl)
  have byte: "keeps_shape m (joined st1)" if "i2c_byte (lcd_wait wait) (?l\<lparr>i2c_bitnr := n\<rparr>, m_bus m, m) = Some st1" for n st1
    using keeps_shape_trans [OF joined_regs [OF refl] i2c_byte_shape [OF that]] by simp
  have an: "keeps_shape m (joined (l, b, lcd_analog x r))" if "keeps_shape m (joined (l, b, r))" for l b r x
    using keeps_shape_trans [OF that lcd_analog_shape] .
  show ?thesis
    using s refl unfolding set_port6_def Let_def m1 by (auto split: if_splits dest!: byte intro!: joined_regs [OF an] intro: joined_regs)
qed

lemma port_write_shape:
  assumes "port_write wait a v m = Some m1"
  shows "keeps_shape m m1"
proof (cases "map_of (port_set wait) (ucast a)")
  case (Some sb)
  have sb: "(ucast a, sb) \<in> set (port_set wait)" "sb v m = Some m1"
    using assms map_of_SomeD [OF Some] Some by (simp_all add: port_write_def)
  then have "same_parts (m\<lparr>m_ad := m_ad m1\<rparr>) m1 \<and> ad_shape (m_ad m1) = ad_shape (m_ad m) \<or> (\<exists>m2. wait m = Some m2 \<and> same_parts m2 m1) \<or> on_port6 wait v m = Some m1"
    unfolding port_defs
    by (auto simp: same_parts_def ad_shape_ops on_ser_def on_t16_def on_t8_def on_btn_def on_ad_def on_wdog_def split_beta)
  then show ?thesis
    using keeps_shape_same wait_shape keeps_shape_trans port6_shape by (auto simp: keeps_shape_def shaped_def same_parts_def)
qed (use assms in \<open>simp add: port_write_def keeps_shape_refl\<close>)

lemma SET_BYTE_shape: "SET_BYTE wait a v m = Some m1 \<Longrightarrow> keeps_shape m m1"
proof -
  assume s: "SET_BYTE wait a v m = Some m1"
  have "keeps_shape m (m\<lparr>m_motor := set_motor v (m_bus m) (m_motor m)\<rparr>)"
    by (simp add: keeps_shape_def shaped_def motor_set_shape)
  then obtain m2 where "keeps_shape m m2" "m1 = poke a v m2"
    using s port_write_shape [of a v m] shape_simple(1) [of m 10] keeps_shape_refl [of m] by (auto simp: SET_BYTE_def split: if_splits)
  then show "keeps_shape m m1"
    using shape_simple(2) keeps_shape_trans by blast
qed

lemma SET_WORD_shape: "SET_WORD wait a w m = Some m1 \<Longrightarrow> keeps_shape m m1"
proof -
  assume s: "SET_WORD wait a w m = Some m1"
  define m2 where "m2 = poke (a + 1) (ucast w) (poke a (ucast (drop_bit 8 w)) m)"
  have k: "keeps_shape m m2"
    unfolding m2_def using shape_simple(2) keeps_shape_trans by blast
  have mo: "keeps_shape m2 (m2\<lparr>m_motor := set_motor v (m_bus m2) (m_motor m2)\<rparr>)" for v
    by (simp add: keeps_shape_def shaped_def motor_set_shape)
  consider v where "m1 = m2\<lparr>m_motor := set_motor v (m_bus m2) (m_motor m2)\<rparr>" | "m1 = set_trap 10 m2" | "m1 = m2"
    | m3 where "port_write wait a (ucast (drop_bit 8 w)) m2 = Some m3" "port_write wait (a + 1) (ucast w) m3 = Some m1"
    using s unfolding SET_WORD_def Let_def m2_def [symmetric] by (auto simp: bind_eq_Some_conv split: if_splits)
  then have "keeps_shape m2 m1"
    by cases (auto intro: mo shape_simple keeps_shape_refl keeps_shape_trans [OF port_write_shape port_write_shape])
  then show "keeps_shape m m1"
    using k keeps_shape_trans by blast
qed

lemma SET_WORD_CYCLES_shape: "SET_WORD_CYCLES wait a w m = Some m1 \<Longrightarrow> keeps_shape m m1"
  unfolding SET_WORD_CYCLES_def by (rule keeps_shape_trans [OF shape_simple(3) SET_WORD_shape])

section \<open>Reset, interrupts and sleep\<close>

lemma do_reset_shape: "do_reset wait m = Some m1 \<Longrightarrow> keeps_shape m m1"
proof -
  assume r: "do_reset wait m = Some m1"
  let ?m = "m\<lparr>m_cpu := (m_cpu m)\<lparr>irq_disabled_one := True, ccr := 0x80\<rparr>\<rparr>"
  have 1: "keeps_shape m (reset_peripherals ?m\<lparr>m_syms := t\<rparr>)" for t
  proof -
    have "keeps_shape m ?m"
      by (rule keeps_shape_same) (simp add: same_parts_def)
    then show ?thesis
      using reset_peripherals_shape [of ?m] shape_simple(10) keeps_shape_trans by blast
  qed
  have 2: "keeps_shape m4 (m4\<lparr>m_cpu := (m_cpu m4)\<lparr>pc := w\<rparr>\<rparr>)" for m4 w
    by (rule keeps_shape_same) (simp add: same_parts_def)
  obtain t b m2 m3 w m4 where "read_rom (reset_peripherals ?m\<lparr>m_syms := t\<rparr>) = Some (b, m2)" "wait m2 = Some m3"
    "GET_WORD_CYCLES 0 (set_trap 0 (add_cycles 1 m3)) = Some (w, m4)" "m1 = m4\<lparr>m_cpu := (m_cpu m4)\<lparr>pc := w\<rparr>\<rparr>"
    using r by (auto simp: do_reset_def Let_def bind_eq_Some_conv)
  then have "keeps_shape (reset_peripherals ?m\<lparr>m_syms := t\<rparr>) m2" "keeps_shape m2 m3" "keeps_shape (set_trap 0 (add_cycles 1 m3)) m4" "keeps_shape m4 m1"
    using read_rom_parts keeps_shape_same wait_shape GET_WORD_CYCLES_shape 2 by blast+
  moreover have "keeps_shape m3 (set_trap 0 (add_cycles 1 m3))"
    using shape_simple(1,3) keeps_shape_trans by blast
  ultimately show "keeps_shape m m1"
    using 1 keeps_shape_trans by metis
qed

lemma enter_irq_shape: "enter_irq wait k m = Some m1 \<Longrightarrow> keeps_shape m m1"
proof -
  assume e: "enter_irq wait k m = Some m1"
  have c: "keeps_shape m3 (m3\<lparr>m_cpu := SET_REG16 7 sp (m_cpu m3)\<lparr>ccr := x\<rparr>\<rparr>)" for m3 sp x
    by (rule keeps_shape_same) (simp add: same_parts_def SET_REG16_def)
  have f: "keeps_shape m4 (m4\<lparr>m_cpu := (m_cpu m4)\<lparr>pc := v\<rparr>, m_frame := F\<rparr>)" for m4 v F
    by (rule keeps_shape_same) (simp add: same_parts_def)
  obtain v1 m2 a1 w1 m3 a2 w2 m4 a3 sp x v m5 F where g: "GET_WORD_CYCLES (pc (m_cpu m)) m = Some (v1, m2)" "SET_WORD_CYCLES wait a1 w1 m2 = Some m3"
    "SET_WORD_CYCLES wait a2 w2 m3 = Some m4" "GET_WORD_CYCLES a3 (m4\<lparr>m_cpu := SET_REG16 7 sp (m_cpu m4)\<lparr>ccr := x\<rparr>\<rparr>) = Some (v, m5)"
    "m1 = m5\<lparr>m_cpu := (m_cpu m5)\<lparr>pc := v\<rparr>, m_frame := F\<rparr>"
    using e unfolding enter_irq_def Let_def by (auto simp: bind_eq_Some_conv)
  have "keeps_shape m m4"
    using GET_WORD_CYCLES_shape [OF g(1)] SET_WORD_CYCLES_shape [OF g(2)] SET_WORD_CYCLES_shape [OF g(3)] keeps_shape_trans by blast
  moreover have "keeps_shape m4 m5"
    using GET_WORD_CYCLES_shape [OF g(4)] c keeps_shape_trans by blast
  ultimately show "keeps_shape m m1"
    unfolding g(5) using f keeps_shape_trans by blast
qed

lemma select_irq_shape: "keeps_shape m (snd (select_irq m))"
  unfolding select_irq_def Let_def split_beta snd_conv by (rule keeps_shape_same) (simp add: same_parts_def)

lemma check_irq_shape: "check_irq wait m = Some (b, m1) \<Longrightarrow> keeps_shape m m1"
proof -
  assume "check_irq wait m = Some (b, m1)"
  then obtain bs m2 where w: "wait (m\<lparr>m_bus := bs\<rparr>) = Some m2"
    and r: "(let (selirq, m3) = select_irq m2
        in if selirq < (if ccr (m_cpu m3) AND 0x80 \<noteq> 0 then 4 else 255) then
             map_option (Pair True)
               (if selirq = 0 then do_reset wait (m3\<lparr>m_bus := (m_bus m3)\<lparr>cycles := next_nmi_cycle (m_bus m3)\<rparr>\<rparr>)
                else enter_irq wait selirq m3)
           else Some (False, m3)) = Some (b, m1)"
    unfolding check_irq_def Let_def bind_eq_Some_conv by blast
  obtain k m3 where k: "select_irq m2 = (k, m3)"
    by fastforce
  have "keeps_shape m (m\<lparr>m_bus := bs\<rparr>)" "keeps_shape (m\<lparr>m_bus := bs\<rparr>) m2" "keeps_shape m2 m3"
    using shape_simple(7) wait_shape [OF w] select_irq_shape [of m2] k by auto
  moreover have "keeps_shape m3 m1"
    using r shape_simple(7) [of m3] do_reset_shape enter_irq_shape keeps_shape_refl [of m3]
    by (auto simp: k intro: keeps_shape_trans split: if_splits)
  ultimately show "keeps_shape m m1"
    using keeps_shape_trans by blast
qed

lemma sleep_loop_shape:
  assumes "\<And>m. keeps_shape m (adv m)" "sleep_loop adv wait m = Some m1"
  shows "keeps_shape m m1"
proof -
  have "adv = adv \<longrightarrow> wait = wait \<longrightarrow> keeps_shape m m1"
  proof (rule sleep_loop.raw_induct [where P = "\<lambda>a w m m1. a = adv \<longrightarrow> w = wait \<longrightarrow> keeps_shape m m1", OF _ assms(2)], intro impI)
    fix loop :: "(machine \<Rightarrow> machine) \<Rightarrow> (machine \<Rightarrow> machine option) \<Rightarrow> machine \<Rightarrow> machine option" and a w m m1
    assume IH: "\<And>a w m m1. loop a w m = Some m1 \<Longrightarrow> a = adv \<longrightarrow> w = wait \<longrightarrow> keeps_shape m m1" and e: "a = adv" "w = wait"
      and b: "(if db_trap (m_cpu m) \<noteq> 0 then Some (step_back m)
         else Option.bind (check_irq w (a m)) (\<lambda>(fired, m1). if \<not> fired \<and> sleeping (m_clock m1) then loop a w m1 else Some m1)) = Some m1"
    consider "m1 = step_back m" | f m2 where "check_irq wait (adv m) = Some (f, m2)" "loop adv wait m2 = Some m1 \<or> m2 = m1"
      using b e by (auto simp: bind_eq_Some_conv split: if_splits)
    then show "keeps_shape m m1"
    proof cases
      case 1
      then show ?thesis
        by (simp add: keeps_shape_same same_parts_def step_back_def)
    next
      case 2
      then have "keeps_shape m m2"
        using check_irq_shape [OF 2(1)] assms(1) [of m] keeps_shape_trans by blast
      then show ?thesis
        using 2(2) IH keeps_shape_trans by blast
    qed
  qed
  then show ?thesis
    by simp
qed

lemma cpu_sleep_shape: "cpu_sleep wait m = Some m1 \<Longrightarrow> keeps_shape m m1"
proof -
  assume s: "cpu_sleep wait m = Some m1"
  define m0 where "m0 = m\<lparr>m_clock := (m_clock m)\<lparr>sleeping := True\<rparr>\<rparr>"
  have skip: "keeps_shape m (skip_to_deadline m)" for m
    unfolding skip_to_deadline_def by (rule shape_simple(7))
  have n: "keeps_shape m (id m)" for m
    by (simp add: keeps_shape_refl)
  obtain m2 where m2: "sleep_loop skip_to_deadline wait m0 = Some m2 \<or> (\<exists>m3. sleep_loop id wait (stop_time m0) = Some m3 \<and> m2 = cont_time m3)"
    and m1: "m1 = m2\<lparr>m_clock := (m_clock m2)\<lparr>sleeping := False\<rparr>\<rparr>
      \<or> (\<exists>b. m1 = (reset_peripherals (m2\<lparr>m_bus := b\<rparr>))\<lparr>m_clock := (m_clock (reset_peripherals (m2\<lparr>m_bus := b\<rparr>)))\<lparr>sleeping := False\<rparr>\<rparr>)"
    using s unfolding cpu_sleep_def Let_def m0_def [symmetric] by (auto split: if_splits)
  have "keeps_shape m m0"
    unfolding m0_def by (rule shape_simple(8))
  moreover have "keeps_shape m0 m2"
    using m2 sleep_loop_shape [OF skip] sleep_loop_shape [OF n] shape_simple(5,6) keeps_shape_trans by blast
  moreover have "keeps_shape m2 m1"
    using m1 shape_simple(7,8) reset_peripherals_shape keeps_shape_trans by blast
  ultimately show "keeps_shape m m1"
    using keeps_shape_trans by blast
qed

end

sublocale shaped_wait \<subseteq> arrays: stable_memory keeps_shape "\<lambda>_. True" wait
proof
  show "keeps_shape m m" for m
    by (rule keeps_shape_refl)
  show "keeps_shape a b \<Longrightarrow> keeps_shape b c \<Longrightarrow> keeps_shape a c" for a b c
    by (rule keeps_shape_trans)
  show "keeps_shape m (on_cpu f m)" if "length (reg (f (m_cpu m))) = length (reg (m_cpu m))" for f m
    using that by (intro keeps_shape_same) (simp add: same_parts_def on_cpu_def)
  show "keeps_shape m (add_cycles n m)" "keeps_shape m (m\<lparr>m_frame := F\<rparr>)" for n m F
    by (rule shape_simple)+
  show "GET_BYTE_CYCLES a m = (v, m1) \<Longrightarrow> keeps_shape m m1" for a m v m1
    unfolding GET_BYTE_CYCLES_def by (rule keeps_shape_trans [OF shape_simple(3) GET_BYTE_shape])
  show "GET_WORD_CYCLES a m = Some (w, m1) \<Longrightarrow> keeps_shape m m1" for a m w m1
    by (rule GET_WORD_CYCLES_shape)
  show "GET_WORD a m = Some (w, m1) \<Longrightarrow> keeps_shape m m1" for a m w m1
    by (rule GET_WORD_shape)
  show "SET_BYTE_CYCLES wait a v m = Some m1 \<Longrightarrow> keeps_shape m m1" for a v m m1
    unfolding SET_BYTE_CYCLES_def by (rule keeps_shape_trans [OF shape_simple(3) SET_BYTE_shape])
  show "SET_WORD_CYCLES wait a w m = Some m1 \<Longrightarrow> keeps_shape m m1" for a w m m1
    by (rule SET_WORD_CYCLES_shape)
qed simp

context shaped_wait
begin

lemma exec_shape: "obeys keeps_shape (\<lambda>_. True) (exec wait opc)"
proof (cases "drop_bit 8 opc = 1")
  case True
  then have "exec wait opc = Sleep wait opc"
    by (simp add: exec_def opcode_rows_def opcode_table_def)
  then show ?thesis
    unfolding Sleep_def using arrays.obeys_basic(6) [OF cpu_sleep_shape] by simp
qed (rule arrays.obeys_exec)

lemma fetch_exec_shape: "fetch_exec wait m = Some r \<Longrightarrow> keeps_shape m (state_of r)"
proof -
  have "keeps_shape m (count_opcode opc m)" for opc m
    by (rule keeps_shape_same) (simp add: same_parts_def count_opcode_def Let_def)
  then have "obeys keeps_shape (\<lambda>_. True) (fetch_exec wait)"
    unfolding fetch_exec_def by (intro arrays.obeys_seq arrays.obeys_access exec_shape arrays.obeys_basic(4))
  then show "fetch_exec wait m = Some r \<Longrightarrow> keeps_shape m (state_of r)"
    by (simp add: obeys_def)
qed

lemma periph_read_fd_shape: "periph_read_fd wait m = Some m1 \<Longrightarrow> keeps_shape m m1"
proof -
  assume p: "periph_read_fd wait m = Some m1"
  then obtain rest where "m1 = m\<lparr>gui_in := rest\<rparr> \<or> (\<exists>b. m1 = m\<lparr>gui_in := rest, m_bus := b\<rparr>)
      \<or> (\<exists>m2 c. do_reset wait (m\<lparr>gui_in := rest\<rparr>) = Some m2 \<and> m1 = m2\<lparr>m_clock := c\<rparr>)"
    by (auto simp: periph_read_fd_def Let_def split: list.splits if_splits)
  then show "keeps_shape m m1"
    by (elim disjE exE conjE)
      (auto intro: shape_simple keeps_shape_trans [OF shape_simple(9) shape_simple(7)]
        keeps_shape_trans [OF keeps_shape_trans [OF shape_simple(9) do_reset_shape] shape_simple(8)])
qed

text \<open>A turn of the loop, after the traps.\<close>

lemma dump_state_parts: "dump_state m = Some m1 \<Longrightarrow> same_parts m m1"
  by (auto simp: dump_state_def same_parts_def Let_def split: if_splits)

lemma run_exec_shape: "run_exec wait s = Some (l, s1) \<Longrightarrow> keeps_shape (r_machine s) (r_machine s1)"
proof -
  assume e: "run_exec wait s = Some (l, s1)"
  obtain m1 r where d: "(if m_type (r_machine s) (pc (m_cpu (r_machine s))) AND 0x03 \<noteq> 0 then dump_state (r_machine s) else Some (r_machine s)) = Some m1"
    and r: "fetch_exec wait m1 = Some r"
      "(l, s1) = (case r of Go _ m2 \<Rightarrow> (Top, s\<lparr>oldpc := pc (m_cpu m1), r_machine := m2\<rparr>) | Trap m2 \<Rightarrow> (To_trap, s\<lparr>oldpc := pc (m_cpu m1), r_machine := m2\<rparr>)
         | Fault m2 \<Rightarrow> (To_fault, s\<lparr>oldpc := pc (m_cpu m1), r_machine := m2\<rparr>))"
    using e unfolding run_exec_def Let_def by (auto simp: bind_eq_Some_conv)
  have s1: "r_machine s1 = state_of r"
    using r(2) by (cases r) auto
  have "keeps_shape (r_machine s) m1"
    using d dump_state_parts keeps_shape_same keeps_shape_refl by (auto split: if_splits)
  then show "keeps_shape (r_machine s) (r_machine s1)"
    unfolding s1 using fetch_exec_shape [OF r(1)] keeps_shape_trans by blast
qed

lemma run_irq_shape: "run_irq wait s = Some s1 \<Longrightarrow> keeps_shape (r_machine s) (r_machine s1)"
proof -
  assume r: "run_irq wait s = Some s1"
  have "keeps_shape m (set_singlestep False (set_memtype a t m))" for a t m
    by (rule keeps_shape_same) (simp add: same_parts_def set_singlestep_def set_memtype_def on_cpu_def)
  then show "keeps_shape (r_machine s) (r_machine s1)"
    using r check_irq_shape keeps_shape_trans by (fastforce simp: run_irq_def Let_def split: if_splits)
qed

lemma run_rest_shape: "run_rest wait s = Some (l, s1) \<Longrightarrow> keeps_shape (r_machine s) (r_machine s1)"
proof -
  assume r: "run_rest wait s = Some (l, s1)"
  have "keeps_shape m (on_cpu (\<lambda>c. c\<lparr>irq_disabled_one := False\<rparr>) m)" for m
    by (rule keeps_shape_same) (simp add: same_parts_def on_cpu_def)
  then show "keeps_shape (r_machine s) (r_machine s1)"
    using r run_exec_shape run_irq_shape keeps_shape_trans by (fastforce simp: run_rest_def Let_def split: if_splits)
qed

end

section \<open>The handlers of messages\<close>

locale shaped_hooks =
  fixes H :: hooks
  assumes gui_shape: "gui_hook H c = Some f \<Longrightarrow> f m = Some m1 \<Longrightarrow> keeps_shape m m1"
    and db_shape: "db_hook H m = Some m1 \<Longrightarrow> keeps_shape m m1"
begin

lemma gui_message_shape: "gui_message H m = Some m1 \<Longrightarrow> keeps_shape m m1"
  using shape_simple(9) gui_shape keeps_shape_trans keeps_shape_refl
  by (fastforce simp: gui_message_def Let_def split: list.splits option.splits if_splits)

lemma synchronize_time_shape: "synchronize_time H m = Some m1 \<Longrightarrow> keeps_shape m m1"
proof -
  assume s: "synchronize_time H m = Some m1"
  then consider "m1 = advance_time m" | m2 m3 where "gui_message H (advance_time m) = Some m2" "m3 = m2 \<or> db_hook H m2 = Some m3"
      "m1 = m3\<lparr>m_clock := (m_clock m3)\<lparr>nextsleep := lastusecs (m_clock m3) + 1000\<rparr>\<rparr>"
    by (auto simp: synchronize_time_def Let_def bind_eq_Some_conv split: if_splits)
  then show "keeps_shape m m1"
  proof cases
    case 2
    have "keeps_shape m m2"
      using gui_message_shape [OF 2(1)] shape_simple(11) keeps_shape_trans by blast
    moreover have "keeps_shape m2 m3"
      using 2(2) db_shape keeps_shape_refl by blast
    ultimately show ?thesis
      unfolding 2(3) using shape_simple(8) keeps_shape_trans by blast
  qed (simp add: shape_simple)
qed

lemma wait_peripherals_shape: "wait_peripherals H m = Some m1 \<Longrightarrow> keeps_shape m m1"
  by (auto simp: wait_peripherals_def intro: keeps_shape_trans [OF synchronize_time_shape update_peripherals_shape])

end

sublocale shaped_hooks \<subseteq> waiting: shaped_wait "wait_peripherals H"
  by unfold_locales (rule wait_peripherals_shape)

end
