(* ===== verification/Reachable.thy ===== *)
theory Reachable
  imports Arrays
begin

text \<open>
  The handlers of the emulator keep the lengths of the arrays, and with them every state that the emulator reaches has these lengths, whatever the ROM, the messages of the GUI and of the
  debugger, and the files are.
\<close>

section \<open>Case distinctions\<close>

text \<open>Where a result comes from, without the conditions on the way to it.\<close>

lemma if_cases: "(if b then x else y) = z \<Longrightarrow> (x = z \<Longrightarrow> P) \<Longrightarrow> (y = z \<Longrightarrow> P) \<Longrightarrow> P"
  by (cases b) simp_all

lemma bind_cases: "Option.bind x f = Some z \<Longrightarrow> (\<And>y. x = Some y \<Longrightarrow> f y = Some z \<Longrightarrow> P) \<Longrightarrow> P"
  by (cases x) simp_all

lemma map_cases: "map_option f x = Some z \<Longrightarrow> (\<And>y. x = Some y \<Longrightarrow> f y = z \<Longrightarrow> P) \<Longrightarrow> P"
  by (cases x) simp_all

lemma pair_cases: "(case p of (x, y) \<Rightarrow> f x y) = z \<Longrightarrow> (\<And>x y. p = (x, y) \<Longrightarrow> f x y = z \<Longrightarrow> P) \<Longrightarrow> P"
  by (cases p) simp

lemma option_cases: "(case x of None \<Rightarrow> f | Some y \<Rightarrow> g y) = z \<Longrightarrow> (f = z \<Longrightarrow> P) \<Longrightarrow> (\<And>y. x = Some y \<Longrightarrow> g y = z \<Longrightarrow> P) \<Longrightarrow> P"
  by (cases x) simp_all

lemma sum_cases: "(case x of Inl y \<Rightarrow> f y | Inr y \<Rightarrow> g y) = z \<Longrightarrow> (\<And>y. x = Inl y \<Longrightarrow> f y = z \<Longrightarrow> P) \<Longrightarrow> (\<And>y. x = Inr y \<Longrightarrow> g y = z \<Longrightarrow> P) \<Longrightarrow> P"
  by (cases x) simp_all

lemma list_cases: "(case xs of [] \<Rightarrow> f | y # ys \<Rightarrow> g y ys) = z \<Longrightarrow> (f = z \<Longrightarrow> P) \<Longrightarrow> (\<And>y ys. g y ys = z \<Longrightarrow> P) \<Longrightarrow> P"
  by (cases xs) simp_all

lemma Some_cases: "Some x = Some y \<Longrightarrow> (x = y \<Longrightarrow> P) \<Longrightarrow> P" "None = Some y \<Longrightarrow> P"
  by simp_all

lemmas result_cases = if_cases bind_cases map_cases pair_cases option_cases list_cases Some_cases Pair_inject

section \<open>The commands for the kernels\<close>

text \<open>They change the memory and read symbols.\<close>

lemma same_parts_memory: "same_parts m (m\<lparr>m_mem := mm, m_syms := t\<rparr>)" "same_parts m (m\<lparr>gui_in := inp, m_mem := mm, m_bus := b\<rparr>)" "same_parts m (m\<lparr>gui_in := inp, m_mem := mm\<rparr>)"
  "same_parts m (m\<lparr>gui_in := inp, m_bus := b\<rparr>)"
  by (simp_all add: same_parts_def)

lemma program_image_parts: "program_image c h p file m = Some m1 \<Longrightarrow> same_parts m m1"
  unfolding program_image_def Let_def by (elim result_cases) (auto simp: same_parts_def)

lemma program_load_parts:
  assumes "program_load mf ff a b p c h file m = Some m1"
  shows "same_parts m m1"
proof -
  have "same_parts m m1" if place: "program_place c h p t file (m\<lparr>m_mem := mm\<rparr>) = Some m1" for t mm
    using place unfolding program_place_def
    by (elim result_cases) (auto simp: same_parts_def dest!: program_image_parts)
  then show ?thesis
    using assms unfolding program_load_def by (elim result_cases) (auto simp: same_parts_simple)
qed

lemma load_program_parts: "load_program mf ff m = Some m1 \<Longrightarrow> same_parts m m1"
  unfolding load_program_def Let_def
  by (elim result_cases) (auto dest!: program_load_parts intro: same_parts_simple same_parts_trans [OF same_parts_simple(9)])

lemma newprogram_addr_parts: "newprogram_addr mf ff m = Some m1 \<Longrightarrow> same_parts m m1"
  unfolding newprogram_addr_def Let_def by (elim result_cases) (auto simp only: same_parts_memory)

lemma sethostaddr_parts: "sethostaddr m = Some m1 \<Longrightarrow> same_parts m m1"
  unfolding sethostaddr_def Let_def by (elim result_cases) (auto simp only: same_parts_memory same_parts_simple)

lemma checkos_parts: "same_parts m (checkos m)"
  by (simp add: checkos_def same_parts_def)

lemma brickos_command_parts: "brickos_command m = Some (s, m1) \<Longrightarrow> same_parts m m1"
  unfolding brickos_command_def Let_def brickos_newprogram_addr_def brickos_load_program_def
  by (elim result_cases)
    (auto intro: same_parts_simple same_parts_trans [OF same_parts_simple(9)] checkos_parts dest!: load_program_parts newprogram_addr_parts sethostaddr_parts)

lemma stack_text_parts: "stack_text fp m = Some (s, m1) \<Longrightarrow> same_parts m m1"
  unfolding stack_text_def by (elim result_cases) (auto simp: same_parts_def)

lemma bibo_thread_parts: "bibo_thread a b c d e m = Some (s, m1) \<Longrightarrow> same_parts m m1"
  unfolding bibo_thread_def by (elim result_cases) (simp only: stack_text_parts)

lemma dump_running_parts: "dump_running i c l m = Some (s, m1) \<Longrightarrow> same_parts m m1"
proof -
  assume "dump_running i c l m = Some (s, m1)"
  then have "same_parts m (snd (s, m1))"
  proof (rule dump_running.raw_induct [where P = "\<lambda>i c l m r. same_parts m (snd r)", rotated], goal_cases)
    case (1 dump i c l m r)
    from 1(2) show ?case
      by (elim result_cases) (auto dest!: bibo_thread_parts 1(1) intro: same_parts_trans)
  qed
  then show "same_parts m m1"
    by simp
qed

lemma dump_waiting_parts: "dump_waiting w l t m = Some (s, l1, m1) \<Longrightarrow> same_parts m m1"
proof -
  assume "dump_waiting w l t m = Some (s, l1, m1)"
  then have "same_parts m (snd (snd (s, l1, m1)))"
  proof (rule dump_waiting.raw_induct [where P = "\<lambda>w l t m r. same_parts m (snd (snd r))", rotated], goal_cases)
    case (1 dump w l t m r)
    from 1(2) show ?case
      by (elim result_cases) (auto dest!: bibo_thread_parts 1(1) intro: same_parts_trans same_parts_refl)
  qed
  then show "same_parts m m1"
    by simp
qed

lemma bibo_dispatch_parts: "bibo_dispatch c m = Some (s, m1) \<Longrightarrow> same_parts m m1"
proof -
  have t: "same_parts m m1" if "bibo_dump_threads m = Some (s, m1)"
    using that unfolding bibo_dump_threads_def Let_def
    by (elim result_cases) (auto simp only: same_parts_refl dest!: dump_running_parts dump_waiting_parts intro: same_parts_trans)
  have c: "same_parts m m1" if "bibo_dump_timers m = Some (s, m1)"
    using that unfolding bibo_dump_timers_def by (elim result_cases) (auto simp only: same_parts_simple)
  assume "bibo_dispatch c m = Some (s, m1)"
  then show "same_parts m m1"
    unfolding bibo_dispatch_def bibo_checkos_def bibo_newprogram_addr_def bibo_sethostaddr_def bibo_load_program_def
    by (elim result_cases) (auto intro: same_parts_refl checkos_parts t c load_program_parts newprogram_addr_parts sethostaddr_parts)
qed

lemma bibo_read_fd_parts: "bibo_read_fd m = Some m1 \<Longrightarrow> same_parts m m1"
  unfolding bibo_read_fd_def bibo_command_def
  by (elim result_cases) (auto dest!: brickos_command_parts bibo_dispatch_parts 
      intro: same_parts_trans [OF same_parts_simple(9)] same_parts_trans [OF same_parts_trans [OF _ same_parts_simple(9)]])

section \<open>The other messages of the GUI\<close>

lemma firm_read_fd_parts: "firm_read_fd m = Some m1 \<Longrightarrow> same_parts m m1"
  unfolding firm_read_fd_def Let_def firm_start_def by (elim result_cases) (auto simp: same_parts_def poke_def split: if_splits)

lemma btn_message_parts: "btn_message m = Some m1 \<Longrightarrow> same_parts m m1"
  unfolding btn_message_def Let_def by (elim result_cases) (auto simp: same_parts_def)

lemma ad_message_shape: "ad_message m = Some m1 \<Longrightarrow> keeps_shape m m1"
  by (auto simp: ad_message_def ad_read_fd_def Let_def keeps_shape_def shaped_def ad_shape_def split: if_splits)

text \<open>A saved state. The buffer for the blocks has 512 bytes, so that the arrays in a block are always complete.\<close>

lemma load_data_shape:
  assumes "load_data i buf m = Some m1" "length buf = 512"
  shows "keeps_shape m m1"
  using assms unfolding load_data_def
  by (elim result_cases)
    (auto simp: keeps_shape_def shaped_def ad_shape_def periph_load_def periph_get_def getf_def ad_load_def ad_get_def lcd_load_def lcd_get_def Let_def split: prod.splits)

lemma load_blocks_shape: "load_blocks stream buf m = Some (b, m1) \<Longrightarrow> length buf = 512 \<Longrightarrow> keeps_shape m m1"
proof (induction stream buf m rule: load_blocks.induct)
  case (1 stream buf m)
  note IH = 1(1) and r = 1(2) and l = 1(3)
  show ?case
  proof (cases stream)
    case (Cons i rest)
    let ?len = "unat (be16 rest 0)" and ?body = "drop 2 rest"
    let ?buf = "put 0 (take ?len ?body) buf"
    consider "m1 = m" | m2 where "\<not> 512 < ?len" "load_data (char_of (unat i)) ?buf m = Some m2" "i \<noteq> 0" "\<not> length rest < 2"
        "if length ?body < ?len then m1 = m2 else load_blocks (drop ?len ?body) ?buf m2 = Some (b, m1)"
      using r unfolding Cons by (subst (asm) load_blocks.simps) (auto simp: Let_def bind_eq_Some_conv split: if_splits)
    then show ?thesis
    proof cases
      case (2 m2)
      have "length ?buf = 512"
        using l 2(1) by (intro trans [OF put_length]) simp_all
      then have "keeps_shape m m2" "\<not> length ?body < ?len \<Longrightarrow> keeps_shape m2 m1"
        using load_data_shape [OF 2(2)] IH [OF Cons 2(3,4) refl refl refl 2(1,2)] 2(5) by auto
      then show ?thesis
        using 2(5) keeps_shape_trans by (cases "length ?body < ?len") auto
    qed (simp add: keeps_shape_refl)
  qed (use r in \<open>simp add: load_blocks.simps\<close>)
qed

lemma savefile_save_parts: "same_parts m (savefile_save deflate path m)"
  unfolding savefile_save_def Let_def
  by (rule same_parts_trans [OF same_parts_trans [OF same_parts_simple(5)] same_parts_simple(6)]) (simp add: same_parts_def)

lemma savefile_load_shape: "savefile_load inflate path m = Some m1 \<Longrightarrow> keeps_shape m m1"
proof -
  assume l: "savefile_load inflate path m = Some m1"
  let ?m = "stop_time m"
  have st: "keeps_shape m ?m"
    by (rule shape_simple)
  have len: "length (fread_into stream 0 8 (uninit g 512)) = 512" for stream g
    by (simp add: fread_into_def fread_def uninit_def Let_def)
  have body: "keeps_shape m m2" if "load_blocks rest (fread_into stream 0 8 (uninit g 512)) (?m\<lparr>m_mem := a, m_type := t, m_syms := tr\<rparr>) = Some (b, m2)"
    for rest stream g a t tr b m2
  proof -
    have "keeps_shape ?m (?m\<lparr>m_mem := a, m_type := t, m_syms := tr\<rparr>)"
      by (rule keeps_shape_same) (simp add: same_parts_def)
    then show ?thesis
      using load_blocks_shape [OF that len] st keeps_shape_trans by blast
  qed
  have fin: "keeps_shape m2 (cont_time (m2\<lparr>m_frame := F\<rparr>))" for m2 F
    by (rule keeps_shape_trans [OF shape_simple(4) shape_simple(6)])
  show "keeps_shape m m1"
    using l unfolding savefile_load_def Let_def
    by (elim result_cases) (auto simp: st dest!: body intro: keeps_shape_trans [OF _ fin])
qed

lemma savefile_read_fd_shape: "savefile_read_fd deflate inflate m = Some m1 \<Longrightarrow> keeps_shape m m1"
proof -
  have s: "keeps_shape m (savefile_save deflate f m)" for f m
    by (rule keeps_shape_same [OF savefile_save_parts])
  assume "savefile_read_fd deflate inflate m = Some m1"
  then show "keeps_shape m m1"
    unfolding savefile_read_fd_def Let_def
    by (elim result_cases) (auto dest!: savefile_load_shape intro: shape_simple keeps_shape_trans [OF shape_simple(9)] s keeps_shape_trans [OF keeps_shape_trans [OF shape_simple(9)] s])
qed

section \<open>The debugger\<close>

lemma db_parts_simple:
  "same_parts m (db_send_packet m)" "same_parts m (set_packet p m)" "same_parts m (db_continue b p m)" "same_parts m (shift_buffer i m)" "same_parts m (put_char i c m)"
  by (auto simp: db_send_packet_def set_packet_def db_continue_def shift_buffer_def put_char_def same_parts_def Let_def split: option.splits)

lemma db_put_parts: "db_put s m = Some m1 \<Longrightarrow> same_parts m m1"
  unfolding db_put_def Let_def by (elim result_cases) (auto simp: same_parts_def)

lemma db_checksum_parts: "db_checksum_packet k m = Some m1 \<Longrightarrow> same_parts m m1"
  unfolding db_checksum_packet_def Let_def by (rule db_put_parts)

lemma db_read_memory_parts: "db_read_memory p m = Some m1 \<Longrightarrow> same_parts m m1"
  unfolding db_read_memory_def Let_def by (elim result_cases) (auto simp: same_parts_def dest!: db_put_parts)

lemma db_write_memory_parts: "db_write_memory p m = Some m1 \<Longrightarrow> same_parts m m1"
  unfolding db_write_memory_def by (elim result_cases) (auto simp: same_parts_def set_packet_def Let_def dest!: db_put_parts)

lemma db_write_register_parts: "db_write_register p m = Some m1 \<Longrightarrow> same_parts m m1"
  unfolding db_write_register_def Let_def
  by (elim result_cases) (auto simp: same_parts_def set_packet_def Let_def dest!: db_put_parts db_read_memory_parts split: if_splits)

lemma db_breakpoint_parts: "db_breakpoint f p m = Some m1 \<Longrightarrow> same_parts m m1"
  unfolding db_breakpoint_def by (elim result_cases) (auto simp: same_parts_def dest!: db_put_parts)

lemma hex_bytes_length: "2 * n \<le> length s \<Longrightarrow> length (hex_bytes n s) = n"
  by (induction n s rule: hex_bytes.induct) auto

lemma hex2mem_length: "hex2mem s n = Some (bs, r) \<Longrightarrow> length bs = n"
  by (auto simp: hex2mem_def Let_def hex_bytes_length split: if_splits)

lemma db_all_registers_length: "length (db_all_registers m) = 52"
  by (simp add: db_all_registers_def Let_def length_concat comp_def sum_list_triv)

lemma db_command_shape: "db_command c p m = Some m1 \<Longrightarrow> keeps_shape m m1"
proof -
  have g: "keeps_shape m m1" if "db_put s (m\<lparr>m_dbg := (m_dbg m)\<lparr>db_registers := bs\<rparr>\<rparr>) = Some m1" "length bs = 52" for s bs
    using db_put_parts [OF that(1)] that(2) by (simp add: keeps_shape_def shaped_def same_parts_def)
  have G: "keeps_shape m m1" if "db_put s (set_packet q (m\<lparr>m_dbg := (m_dbg m)\<lparr>db_registers := bs\<rparr>\<rparr>)) = Some m1" "length bs = 52" for s q bs
    using db_put_parts [OF that(1)] that(2) by (simp add: keeps_shape_def shaped_def same_parts_def set_packet_def Let_def)
  have d: "keeps_shape m (m\<lparr>m_dbg := (m_dbg m)\<lparr>remote_debug := x\<rparr>\<rparr>)" "keeps_shape m (m\<lparr>m_dbg := (m_dbg m)\<lparr>db_cont := x\<rparr>\<rparr>)" for x
    by (rule keeps_shape_same, simp add: same_parts_def)+
  assume "db_command c p m = Some m1"
  then show "keeps_shape m m1"
    unfolding db_command_def Let_def
    by (elim result_cases)
      (auto intro: d g G db_all_registers_length hex2mem_length keeps_shape_refl keeps_shape_same db_put_parts db_read_memory_parts db_write_memory_parts db_write_register_parts db_breakpoint_parts)
qed

lemma db_handle_packet_shape: "db_handle_packet p m = Some m1 \<Longrightarrow> keeps_shape m m1"
proof -
  assume "db_handle_packet p m = Some m1"
  then consider b q where "m1 = db_send_packet (db_continue b q m)"
    | m2 c q m3 k m4 where "db_put ''$'' m = Some m2" "db_command c q m2 = Some m3" "db_checksum_packet k m3 = Some m4" "m1 = db_send_packet m4"
    unfolding db_handle_packet_def Let_def by (elim result_cases) auto
  then show "keeps_shape m m1"
  proof cases
    case 1
    then show ?thesis
      using db_parts_simple(1,3) same_parts_trans keeps_shape_same by blast
  next
    case 2
    then have "keeps_shape m m2" "keeps_shape m2 m3" "keeps_shape m3 m4" "keeps_shape m4 m1"
      using db_put_parts db_command_shape db_checksum_parts db_parts_simple(1) keeps_shape_same by auto
    then show ?thesis
      using keeps_shape_trans by blast
  qed
qed

lemma answer_packet_shape: "answer_packet k m = Some m1 \<Longrightarrow> keeps_shape m m1"
proof -
  have p: "shaped m2 = shaped m" if "db_put s m = Some m2" for s m m2
    using db_put_parts [OF that] by (simp add: same_parts_def shaped_def)
  have h: "shaped m \<longrightarrow> shaped m2" if "db_handle_packet q m = Some m2" for q m m2
    using db_handle_packet_shape [OF that] by (simp add: keeps_shape_def)
  have simple: "shaped (put_char i c m) = shaped m" "shaped (db_send_packet m) = shaped m" for i c m
    using db_parts_simple(5) [of m i c] db_parts_simple(1) [of m] by (simp_all add: same_parts_def shaped_def)
  assume "answer_packet k m = Some m1"
  then show "keeps_shape m m1"
    unfolding answer_packet_def Let_def keeps_shape_def
    by (elim result_cases) (auto simp: simple dest!: p h)
qed

lemma db_parse_one_shape:
  "db_parse_one i m = Some (Inl m1) \<Longrightarrow> keeps_shape m m1" "db_parse_one i m = Some (Inr (k, m1)) \<Longrightarrow> keeps_shape m m1"
proof -
  define m0 where "m0 = (if CHR 0x03 \<in> set (skip_garbage i (m_dbg m)) then set_trap SIGINT_EXCEPTION m else m)"
  have m0: "keeps_shape m m0"
    by (simp add: m0_def shape_simple keeps_shape_refl)
  have len: "keeps_shape m (m\<lparr>m_dbg := (m_dbg m)\<lparr>db_len := n\<rparr>\<rparr>)" for m n
    by (rule keeps_shape_same) (simp add: same_parts_def)
  have sh: "keeps_shape m (shift_buffer j m)" for j m
    by (rule keeps_shape_same [OF db_parts_simple(4)])
  show "keeps_shape m m1" if "db_parse_one i m = Some (Inl m1)"
    using that unfolding db_parse_one_def Let_def m0_def [symmetric]
    by (elim result_cases) (auto intro: keeps_shape_trans [OF m0] len sh)
  show "keeps_shape m m1" if "db_parse_one i m = Some (Inr (k, m1))"
    using that unfolding db_parse_one_def Let_def m0_def [symmetric]
    by (elim result_cases) (auto dest!: answer_packet_shape intro: keeps_shape_trans [OF keeps_shape_trans [OF m0 sh]] keeps_shape_trans [OF keeps_shape_trans [OF keeps_shape_trans [OF m0 sh]] sh])
qed

lemma db_parse_loop_shape: "db_parse_loop i m = Some m1 \<Longrightarrow> keeps_shape m m1"
proof (induction i m rule: db_parse_loop.induct)
  case (1 i m)
  note r = 1(2) [unfolded db_parse_loop.simps [of i m]]
  show ?case
  proof (cases "i < db_len (m_dbg m) \<and> (\<exists>k m2. db_parse_one i m = Some (Inr (k, m2)))")
    case True
    then obtain k m2 where p: "i < db_len (m_dbg m)" "db_parse_one i m = Some (Inr (k, m2))"
      by blast
    then have "db_parse_loop k m2 = Some m1"
      using r by simp
    then have "keeps_shape m2 m1"
      by (rule 1(1) [OF p refl refl])
    then show ?thesis
      using db_parse_one_shape(2) [OF p(2)] keeps_shape_trans by blast
  next
    case False
    then show ?thesis
      using r db_parse_one_shape(1) [of i m m1] keeps_shape_refl [of m] by (auto split: if_splits option.splits sum.splits)
  qed
qed

lemma db_handlefd_shape: "db_handlefd m = Some m1 \<Longrightarrow> keeps_shape m m1"
proof -
  have a: "keeps_shape m (put_char k c (m\<lparr>dbg_in := inp, m_dbg := (m_dbg m)\<lparr>gdb_open := o1, db_in_buffer := buf, db_len := n\<rparr>\<rparr>))" for k c o1 buf n inp
    by (rule keeps_shape_same) (simp add: same_parts_def put_char_def)
  have b: "keeps_shape m (m\<lparr>dbg_in := inp, m_dbg := (m_dbg m)\<lparr>gdb_open := o1\<rparr>, m_cpu := (m_cpu m)\<lparr>db_trap := t\<rparr>\<rparr>)" for inp o1 t
    by (rule keeps_shape_same) (simp add: same_parts_def)
  assume "db_handlefd m = Some m1"
  then show "keeps_shape m m1"
    unfolding db_handlefd_def db_parse_packet_def Let_def
    by (elim result_cases) (auto dest!: db_parse_loop_shape intro: b keeps_shape_trans [OF a])
qed

lemma db_handletrap_shape: "db_handletrap m = Some m1 \<Longrightarrow> keeps_shape m m1"
proof -
  let ?m = "m\<lparr>m_dbg := (m_dbg m)\<lparr>sigval := db_trap (m_cpu m)\<rparr>\<rparr>"
  have m: "same_parts m ?m"
    by (simp add: same_parts_def)
  have d: "same_parts m2 m3" if "dump_state m2 = Some m3" for m2 m3
    using that by (auto simp: dump_state_def same_parts_def Let_def split: if_splits)
  assume "db_handletrap m = Some m1"
  then have "same_parts ?m m1"
    unfolding db_handletrap_def Let_def
    by (elim result_cases) (auto simp: same_parts_def db_parts_simple(1) [unfolded same_parts_def] dest!: d db_put_parts db_checksum_parts)
  then show "keeps_shape m m1"
    using m same_parts_trans keeps_shape_same by blast
qed

section \<open>All handlers\<close>

lemma emu_gui_shape:
  assumes "emu_gui deflate inflate wait c = Some f" "f m = Some m1" "\<And>m m1. wait m = Some m1 \<Longrightarrow> keeps_shape m m1"
  shows "keeps_shape m m1"
proof -
  have "shaped_wait wait"
    using assms(3) by unfold_locales
  then show ?thesis
    using assms(1,2) unfolding emu_gui_def
    by (elim result_cases)
      (auto intro: shaped_wait.periph_read_fd_shape savefile_read_fd_shape ad_message_shape keeps_shape_same [OF btn_message_parts] keeps_shape_same [OF firm_read_fd_parts]
        keeps_shape_same [OF bibo_read_fd_parts])
qed

lemma emu_hooks_shape: "shaped_hooks (emu_hooks deflate inflate n)"
proof (induction n)
  case 0
  show ?case
    by unfold_locales (auto dest: db_handlefd_shape)
next
  case (Suc n)
  show ?case
    by unfold_locales
      (auto dest: db_handlefd_shape emu_gui_shape [OF _ _ shaped_hooks.wait_peripherals_shape [OF Suc]])
qed

interpretation emu_arrays: shaped_hooks "emu deflate inflate" for deflate inflate
proof
  show "keeps_shape m m1" if "db_hook (emu deflate inflate) m = Some m1" for m m1
    using that db_handlefd_shape by (simp add: emu_def)
  have w: "keeps_shape m m1" if "emu_wait deflate inflate m = Some m1" for m m1
    using that shaped_hooks.wait_peripherals_shape [OF emu_hooks_shape] unfolding emu_wait_def by blast
  show "keeps_shape m m1" if "gui_hook (emu deflate inflate) c = Some f" "f m = Some m1" for c f m m1
    by (rule emu_gui_shape [of deflate inflate "emu_wait deflate inflate" c f]) (use that w in \<open>simp_all add: emu_def\<close>)
qed

section \<open>The loop\<close>

context shaped_hooks
begin

lemma trap_loop_shape: "trap_loop H m = Some m1 \<Longrightarrow> keeps_shape m m1"
proof -
  assume "trap_loop H m = Some m1"
  then have "H = H \<longrightarrow> keeps_shape m m1"
  proof (rule trap_loop.raw_induct [where P = "\<lambda>K m m1. K = H \<longrightarrow> keeps_shape m m1", rotated], goal_cases)
    case (1 loop K m m1)
    from 1(2) show ?case
      by (elim result_cases) (auto simp: keeps_shape_refl dest!: synchronize_time_shape 1(1) intro: keeps_shape_trans)
  qed
  then show "keeps_shape m m1"
    by simp
qed

lemma handletrap_shape: "periph_handletrap H db_handletrap m = Some m1 \<Longrightarrow> keeps_shape m m1"
  unfolding periph_handletrap_def
  by (elim result_cases)
    (auto dest!: db_handletrap_shape trap_loop_shape intro: keeps_shape_trans [OF keeps_shape_trans [OF keeps_shape_trans [OF shape_simple(5)]] shape_simple(6)])

lemma trap_entry_shape: "trap_entry l s = (b, s1) \<Longrightarrow> keeps_shape (r_machine s) (r_machine s1)"
  by (rule keeps_shape_same)
    (auto simp: trap_entry_def same_parts_def set_trap_def set_memtype_def set_singlestep_def back_to_def on_cpu_def Let_def split: label.splits if_splits)

lemma run_step_shape: "run_step H (l, s) = Some (l1, s1) \<Longrightarrow> keeps_shape (r_machine s) (r_machine s1)"
proof -
  assume r: "run_step H (l, s) = Some (l1, s1)"
  obtain t s2 where t: "trap_entry l s = (t, s2)"
    by fastforce
  then obtain s3 where "s3 = s2 \<or> (\<exists>m. periph_handletrap H db_handletrap (r_machine s2) = Some m \<and> s3 = s2\<lparr>r_machine := m\<rparr>)"
    and s3: "run_rest (wait_peripherals H) s3 = Some (l1, s1)"
    using r by (auto simp: run_step_def Let_def bind_eq_Some_conv split: if_splits)
  then have "keeps_shape (r_machine s2) (r_machine s3)"
    using handletrap_shape keeps_shape_refl by auto
  then show "keeps_shape (r_machine s) (r_machine s1)"
    using trap_entry_shape [OF t] waiting.run_rest_shape [OF s3] keeps_shape_trans by blast
qed

lemma run_cpu_shape: "run_cpu H m s \<Longrightarrow> keeps_shape m (r_machine (snd s))"
proof (induction rule: run_cpu.induct)
  case (start s)
  then show ?case
    using waiting.do_reset_shape by (auto simp: run_start_def)
next
  case (step s s1)
  then show ?case
    using run_step_shape [of "fst s" "snd s" "fst s1" "snd s1"] keeps_shape_trans by simp
qed

end

section \<open>Properties\<close>

lemma init_all_shape: "init_all k gui port m = Inr (m1, log) \<Longrightarrow> keeps_shape m m1"
  by (auto simp: init_all_def db_init_def periph_init_def init_rest_def Let_def keeps_shape_def shaped_def split: sum.splits if_splits prod.splits)

lemma mem_init_parts: "mem_init rom m = Some (Inr m1) \<Longrightarrow> same_parts m m1"
  by (auto simp: mem_init_def same_parts_def split: if_splits dest!: read_rom_parts)

lemma main_start_shape:
  assumes "main_start k gui args m = Some (Inr (m1, log))"
  shows "keeps_shape m m1"
proof -
  obtain t rom p m2 m3 where s: "mem_init rom (if t then set_trap 5 m else m) = Some (Inr m2)" "init_all k gui p m2 = Inr (m3, log)"
    "m1 = (if args \<noteq> [] \<and> hd args = ''-d'' then set_trap 5 m3 else m3)"
    using assms unfolding main_start_def Let_def by (elim result_cases sum_cases) simp_all
  have t: "keeps_shape m (if b then set_trap 5 m else m)" for b m
    by (simp add: shape_simple keeps_shape_refl)
  show ?thesis
    unfolding s(3) by (rule keeps_shape_trans [OF keeps_shape_trans [OF keeps_shape_trans [OF t keeps_shape_same [OF mem_init_parts [OF s(1)]]] init_all_shape [OF s(2)]] t])
qed



end
