(* ===== verification/IrServer.thy ===== *)
theory IrServer
  imports Savefile Sockets
begin

text \<open>
  The infrared server, \<^verbatim>\<open>ir-server.c\<close>, a program of its own that connects the emulated bricks: whatever one of them sends goes to all. One turn of the loop of \<open>main\<close> after
  \<open>select\<close> is modelled; its environment \<open>ir_env\<close> says which sockets are ready, what \<open>accept\<close> and \<open>read\<close> return (an empty list for a closed
  connection or an error) and which \<open>write\<close> from one client to another fails. The start of the program, up to the
  loop in the child process, is the function \<open>ir_start\<close>.
\<close>

section \<open>State\<close>

text \<open>The array \<open>sockets\<close>, with the listening socket at 0 and -1 for a free place, and what has been written to which descriptor.\<close>

record ir =
  ir_sockets :: "int list"
  ir_sent :: "(int \<times> u8 list) list"

record ir_env =
  ready :: "int \<Rightarrow> bool"
  accepted :: int
  received :: "int \<Rightarrow> u8 list"
  fails :: "nat \<Rightarrow> nat \<Rightarrow> bool"

abbreviation MAX_CLIENTS :: nat where "MAX_CLIENTS \<equiv> 1000"

definition places :: "nat list" where
  "places = [1..<MAX_CLIENTS]"

text \<open>\<open>Inl\<close> is the end of the program.\<close>

definition check_exit :: "ir \<Rightarrow> ir + ir" where
  "check_exit s = (if list_all (\<lambda>fd. fd = -1) (take (MAX_CLIENTS - 1) (tl (ir_sockets s))) then Inl s else Inr s)"

definition close_client :: "nat \<Rightarrow> ir \<Rightarrow> ir + ir" where
  "close_client i s = check_exit (s\<lparr>ir_sockets := (ir_sockets s)[i := -1]\<rparr>)"

definition continue_with :: "ir + ir \<Rightarrow> (ir \<Rightarrow> ir + ir) \<Rightarrow> ir + ir" where
  "continue_with r f = (case r of Inl s \<Rightarrow> Inl s | Inr s \<Rightarrow> f s)"

section \<open>The start\<close>

text \<open>\<open>Inl\<close> is a return from \<open>main\<close> with its value: an error, or the parent process.\<close>

definition ir_start :: "kernel \<Rightarrow> int \<times> syscall list + ir \<times> syscall list" where
  "ir_start k =
    (let (fd, log1) = syscall_do k Socket [];
         (_, log2) = syscall_do k (Setsockopt fd) log1;
         (err, log3) = syscall_do k (Bind fd (local_addr BRICK_BROADCAST_PORT)) log2
     in if err < 0 then Inl (1, log3)
        else
          let (_, log4) = syscall_do k (Listen fd 10) log3;
              (pid, log5) = syscall_do k Fork log4
          in if pid \<noteq> 0 then Inl (0, log5)
             else Inr (\<lparr>ir_sockets = fd # replicate (MAX_CLIENTS - 1) (-1), ir_sent = []\<rparr>, log5 @ [Sigaction, Close 0, Close 1, Close 2]))"

text \<open>The sockets that \<open>select\<close> waits for, and the bound for their numbers.\<close>

definition ir_rfds :: "ir \<Rightarrow> int list" where
  "ir_rfds s = filter (\<lambda>fd. 0 \<le> fd) (ir_sockets s)"

definition ir_max :: "ir \<Rightarrow> int" where
  "ir_max s = foldl (\<lambda>m fd. if 0 \<le> fd \<and> m \<le> fd then fd + 1 else m) 0 (ir_sockets s)"

lemma ir_max_bound:
  assumes "fd \<in> set (ir_rfds s)"
  shows "fd < ir_max s"
proof -
  have mono: "m \<le> foldl (\<lambda>m fd. if 0 \<le> fd \<and> m \<le> fd then fd + 1 else m) m fds" for m :: int and fds
  proof (induction fds arbitrary: m)
    case (Cons x fds)
    from Cons [of "if 0 \<le> x \<and> m \<le> x then x + 1 else m"] show ?case
      by (auto split: if_splits)
  qed simp
  have "fd < foldl (\<lambda>m fd. if 0 \<le> fd \<and> m \<le> fd then fd + 1 else m) m fds" if "fd \<in> set fds" "0 \<le> fd" for m :: int and fds
    using that
  proof (induction fds arbitrary: m)
    case (Cons x fds)
    then show ?case
      using mono [of "if 0 \<le> x \<and> m \<le> x then x + 1 else m" fds] by (auto split: if_splits)
  qed simp
  then show ?thesis
    using assms by (simp add: ir_rfds_def ir_max_def)
qed

text \<open>A brick connects to the address that the server listens at.\<close>

lemma ir_server_reached:
  assumes "ir_start k = Inr (s, log)" "connect_server kc clog = (cfd, log1)" "0 \<le> cfd"
  shows "\<exists>addr. Bind (ir_sockets s ! 0) addr \<in> set log \<and> log1 = clog @ [Socket, Connect cfd addr]"
  using assms by (auto simp: ir_start_def connect_server_def syscall_do_def Let_def split: if_splits)

section \<open>A turn of the loop\<close>

text \<open>A write that fails closes the connection.\<close>

definition send_to :: "ir_env \<Rightarrow> nat \<Rightarrow> u8 list \<Rightarrow> nat \<Rightarrow> ir \<Rightarrow> ir + ir" where
  "send_to e i d j s =
    (if fails e i j then close_client j s
     else Inr (s\<lparr>ir_sent := ir_sent s @ [(ir_sockets s ! j, d)]\<rparr>))"

fun send_others :: "ir_env \<Rightarrow> nat \<Rightarrow> u8 list \<Rightarrow> nat list \<Rightarrow> ir \<Rightarrow> ir + ir" where
  "send_others e i d [] s = Inr s"
| "send_others e i d (j # js) s =
     continue_with (if i \<noteq> j \<and> 0 \<le> ir_sockets s ! j then send_to e i d j s else Inr s) (send_others e i d js)"

definition serve_client :: "ir_env \<Rightarrow> nat \<Rightarrow> ir \<Rightarrow> ir + ir" where
  "serve_client e i s =
    (if 0 \<le> ir_sockets s ! i \<and> ready e (ir_sockets s ! i) then
       let d = received e (ir_sockets s ! i)
       in if d = [] then close_client i s
          else continue_with (send_others e i d places s) (send_to e i d i)
     else Inr s)"

fun serve_clients :: "ir_env \<Rightarrow> nat list \<Rightarrow> ir \<Rightarrow> ir + ir" where
  "serve_clients e [] s = Inr s"
| "serve_clients e (i # is) s = continue_with (serve_client e i s) (serve_clients e is)"

text \<open>A new client gets the first free place; without one it is closed again. A failed \<open>accept\<close> skips the rest of the turn.\<close>

definition add_client :: "int \<Rightarrow> ir \<Rightarrow> ir" where
  "add_client fd s =
    (case find (\<lambda>i. ir_sockets s ! i = -1) places of
       None \<Rightarrow> s
     | Some i \<Rightarrow> s\<lparr>ir_sockets := (ir_sockets s)[i := fd]\<rparr>)"

definition ir_round :: "ir_env \<Rightarrow> ir \<Rightarrow> ir + ir" where
  "ir_round e s =
    (if ready e (ir_sockets s ! 0) then
       (if accepted e = -1 then Inr s else serve_clients e places (add_client (accepted e) s))
     else serve_clients e places s)"

section \<open>Broadcast\<close>

definition clients :: "nat list \<Rightarrow> ir \<Rightarrow> nat list" where
  "clients js s = filter (\<lambda>j. 0 \<le> ir_sockets s ! j) js"

lemma send_others_sent:
  assumes "\<And>j. \<not> fails e i j"
  shows "send_others e i d js s = Inr (s\<lparr>ir_sent := ir_sent s @ map (\<lambda>j. (ir_sockets s ! j, d)) (filter (\<lambda>j. j \<noteq> i) (clients js s))\<rparr>)"
  by (induction js arbitrary: s) (auto simp: clients_def continue_with_def send_to_def assms)

text \<open>The messages of one client: to all the others, then back to itself.\<close>

definition broadcast :: "ir \<Rightarrow> u8 list \<Rightarrow> nat \<Rightarrow> (int \<times> u8 list) list" where
  "broadcast s d i = map (\<lambda>j. (ir_sockets s ! j, d)) (filter (\<lambda>j. j \<noteq> i) (clients places s) @ [i])"

definition senders :: "ir_env \<Rightarrow> nat list \<Rightarrow> ir \<Rightarrow> nat list" where
  "senders e is s = filter (\<lambda>i. ready e (ir_sockets s ! i)) (clients is s)"

lemma serve_clients_sent:
  assumes "\<And>i j. \<not> fails e i j" "\<And>i. i \<in> set (senders e is s) \<Longrightarrow> received e (ir_sockets s ! i) \<noteq> []"
  shows "serve_clients e is s
    = Inr (s\<lparr>ir_sent := ir_sent s @ concat (map (\<lambda>i. broadcast s (received e (ir_sockets s ! i)) i) (senders e is s))\<rparr>)"
  using assms(2)
proof (induction "is" arbitrary: s)
  case (Cons i "is")
  let ?d = "received e (ir_sockets s ! i)"
  show ?case
  proof (cases "0 \<le> ir_sockets s ! i \<and> ready e (ir_sockets s ! i)")
    case True
    let ?s = "s\<lparr>ir_sent := ir_sent s @ broadcast s ?d i\<rparr>"
    have "?d \<noteq> []"
      using True Cons.prems by (simp add: senders_def clients_def)
    then have "serve_client e i s = Inr ?s"
      using True by (simp add: serve_client_def Let_def send_others_sent assms(1) continue_with_def send_to_def broadcast_def)
    moreover have "senders e js ?s = senders e js s" "broadcast ?s = broadcast s" for js
      by (simp_all add: senders_def clients_def broadcast_def fun_eq_iff)
    ultimately show ?thesis
      using Cons.IH [of ?s] Cons.prems True by (simp add: continue_with_def senders_def clients_def)
  next
    case False
    then have "senders e (i # is) s = senders e is s" "serve_client e i s = Inr s"
      by (auto simp: senders_def clients_def serve_client_def)
    then show ?thesis
      using Cons by (simp add: continue_with_def)
  qed
qed (simp add: senders_def clients_def)

text \<open>What one client gets.\<close>

definition stream_of :: "int \<Rightarrow> (int \<times> u8 list) list \<Rightarrow> u8 list list" where
  "stream_of fd sent = map snd (filter (\<lambda>(f, d). f = fd) sent)"

lemma stream_of_append: "stream_of fd (xs @ ys) = stream_of fd xs @ stream_of fd ys"
  by (simp add: stream_of_def)

definition distinct_clients :: "ir \<Rightarrow> bool" where
  "distinct_clients s \<longleftrightarrow> inj_on (\<lambda>j. ir_sockets s ! j) (set (clients places s))"

lemma broadcast_once:
  assumes "distinct_clients s" "i \<in> set (clients places s)" "k \<in> set (clients places s)"
  shows "stream_of (ir_sockets s ! k) (broadcast s d i) = [d]"
proof -
  let ?cs = "clients places s"
  have eq: "ir_sockets s ! j = ir_sockets s ! k \<longleftrightarrow> j = k" if "j \<in> set ?cs" for j
    using assms(1,3) that by (auto simp: distinct_clients_def inj_on_def)
  have d: "distinct ?cs"
    unfolding clients_def places_def by (intro distinct_filter distinct_upt)
  have f: "filter (\<lambda>j. ir_sockets s ! j = ir_sockets s ! k) js = filter (\<lambda>j. j = k) js" if "set js \<subseteq> set ?cs" for js
    using that eq by (intro filter_cong) auto
  have one: "filter (\<lambda>j. j = k) js = (if k \<in> set js then [k] else [])" if "distinct js" for js
    using that by (induction js) auto
  show ?thesis
    using assms(2,3) d
    by (simp add: stream_of_def broadcast_def filter_map comp_def f one eq [OF assms(2)] del: filter_filter)
qed

lemma broadcasts_once:
  assumes "distinct_clients s" "set is \<subseteq> set (clients places s)" "k \<in> set (clients places s)"
  shows "stream_of (ir_sockets s ! k) (concat (map (\<lambda>i. broadcast s (f i) i) is)) = map f is"
  using assms(2)
proof (induction "is")
  case (Cons i "is")
  then show ?case
    using broadcast_once [OF assms(1) _ assms(3), of i "f i"] by (simp add: stream_of_append)
qed (simp add: stream_of_def)

section \<open>Properties\<close>

text \<open>
  C40. The server is one infrared medium: in a turn in which no client comes or goes, the messages of all the clients that have sent something are written to every
  connected client, the sender included, each exactly once and in the same order for all of them.
\<close>

theorem ir_same_stream:
  assumes "\<not> ready e (ir_sockets s ! 0)" "\<forall>i j. \<not> fails e i j" "distinct_clients s"
    and "\<forall>i \<in> set (senders e places s). received e (ir_sockets s ! i) \<noteq> []"
  shows "\<exists>s1. ir_round e s = Inr s1 \<and> ir_sockets s1 = ir_sockets s
    \<and> (\<forall>k \<in> set (clients places s). stream_of (ir_sockets s ! k) (ir_sent s1)
         = stream_of (ir_sockets s ! k) (ir_sent s) @ map (\<lambda>i. received e (ir_sockets s ! i)) (senders e places s))"
proof -
  have sub: "set (senders e places s) \<subseteq> set (clients places s)"
    by (auto simp: senders_def)
  have "stream_of (ir_sockets s ! k) (concat (map (\<lambda>i. broadcast s (received e (ir_sockets s ! i)) i) (senders e places s)))
      = map (\<lambda>i. received e (ir_sockets s ! i)) (senders e places s)" if "k \<in> set (clients places s)" for k
    by (rule broadcasts_once [OF assms(3) sub that])
  moreover have "ir_round e s = Inr (s\<lparr>ir_sent := ir_sent s @ concat (map (\<lambda>i. broadcast s (received e (ir_sockets s ! i)) i) (senders e places s))\<rparr>)"
  proof -
    have "ir_round e s = serve_clients e places s"
      using assms(1) by (simp only: ir_round_def if_False)
    also have "\<dots> = Inr (s\<lparr>ir_sent := ir_sent s @ concat (map (\<lambda>i. broadcast s (received e (ir_sockets s ! i)) i) (senders e places s))\<rparr>)"
      using assms(2,4) by (intro serve_clients_sent) blast+
    finally show ?thesis .
  qed
  ultimately show ?thesis
    by (simp add: stream_of_append)
qed

definition ir_ex :: ir where
  "ir_ex = \<lparr>ir_sockets = [3, 4, 5] @ replicate 997 (-1), ir_sent = []\<rparr>"

definition ir_env_ex :: ir_env where
  "ir_env_ex = \<lparr>ready = (\<lambda>fd. fd = 5), accepted = -1, received = (\<lambda>_. [0x55]), fails = (\<lambda>_ _. False)\<rparr>"

lemma ir_ex_clients: "clients places ir_ex = [1, 2]"
proof -
  have "ir_sockets ir_ex ! j < 0" if "j \<in> set [3..<MAX_CLIENTS]" for j
    using that by (simp only: set_upt atLeastLessThan_iff) (auto simp: ir_ex_def nth_Cons' nth_replicate)
  then have none: "filter (\<lambda>j. 0 \<le> ir_sockets ir_ex ! j) [3..<MAX_CLIENTS] = []"
    by (intro filter_False ballI) (simp only: not_le)
  have all: "places = 1 # 2 # [3..<MAX_CLIENTS]"
  proof -
    have "[1..<MAX_CLIENTS] = 1 # [Suc 1..<MAX_CLIENTS]" "[Suc 1..<MAX_CLIENTS] = Suc 1 # [Suc (Suc 1)..<MAX_CLIENTS]"
      by (rule upt_conv_Cons, simp)+
    moreover have "Suc 1 = 2" "Suc (Suc 1) = 3"
      by simp_all
    ultimately show ?thesis
      by (simp only: places_def)
  qed
  have "0 \<le> ir_sockets ir_ex ! 1" "0 \<le> ir_sockets ir_ex ! 2"
    by (simp_all add: ir_ex_def)
  then show ?thesis
    unfolding clients_def all filter.simps none by simp
qed

theorem ir_same_stream_witness:
  "\<exists>s1. ir_round ir_env_ex ir_ex = Inr s1 \<and> stream_of 4 (ir_sent s1) = [[0x55]] \<and> stream_of 5 (ir_sent s1) = [[0x55]]"
proof -
  have "distinct_clients ir_ex"
    unfolding distinct_clients_def ir_ex_clients by (simp add: ir_ex_def)
  moreover have s: "senders ir_env_ex places ir_ex = [2]"
    unfolding senders_def ir_ex_clients by (simp add: ir_ex_def ir_env_ex_def)
  ultimately obtain s1 where "ir_round ir_env_ex ir_ex = Inr s1"
    "\<forall>k \<in> set [1, 2]. stream_of (ir_sockets ir_ex ! k) (ir_sent s1) = stream_of (ir_sockets ir_ex ! k) [] @ [[0x55]]"
    using ir_same_stream [of ir_env_ex ir_ex] unfolding s ir_ex_clients by (auto simp: ir_env_ex_def ir_ex_def)
  then show ?thesis
    by (auto simp: ir_ex_def stream_of_def)
qed

end
